(* ===== verification/Prelude.thy ===== *)
theory Prelude
  imports Main "HOL-Library.Word" "HOL-Library.Monad_Syntax"
begin

text \<open>
  Shared vocabulary of the development: the machine integer types of the 32-bit ARM target,
  pointers, the interface of the kernel's intrusive lists (\<^verbatim>\<open>include/linux/list.h\<close>, which is not
  part of the repository and therefore enters every definition as a parameter), and the
  generic lemmas on lists and words that the component theories use.

  A computation that can hit \<^verbatim>\<open>BUG()\<close>, dereference NULL or take \<^verbatim>\<open>list_entry\<close> of an empty
  list has type \<open>'a option\<close>; \<open>None\<close> is such a kernel oops.
\<close>

section \<open>Machine types\<close>

unbundle bit_operations_syntax

type_synonym uint32 = "32 word"   \<comment> \<open>\<^verbatim>\<open>unsigned int\<close>, \<^verbatim>\<open>u32\<close>\<close>
type_synonym ulong = "32 word"    \<comment> \<open>\<^verbatim>\<open>unsigned long\<close> on ARMv7\<close>
type_synonym u64 = "64 word"      \<comment> \<open>\<^verbatim>\<open>u64\<close>; the same bits read by \<open>sint\<close> are \<^verbatim>\<open>s64\<close>\<close>
type_synonym ptr = "32 word"      \<comment> \<open>an address; \<open>0\<close> is NULL\<close>

named_theorems sched_consts \<open>defining equations of the \<^verbatim>\<open>#define\<close> constants\<close>
named_theorems list_laws \<open>what the list operations do on a well-formed list\<close>
named_theorems frame \<open>which parts of the state an operation leaves alone\<close>

section \<open>The kernel's intrusive lists\<close>

text \<open>
  A \<^verbatim>\<open>struct list_head\<close> that heads a list is represented by the sequence of the entries
  reached by following \<^verbatim>\<open>next\<close>. The functions of \<^verbatim>\<open>list.h\<close> are the fields of a record; what the
  scheduler relies on is the predicate \<open>list_ops_ok\<close>. Its laws have the preconditions of the
  C code: an entry is added only to a list it is not on, and is deleted or moved only
  within a list it is on.
\<close>

record 'a list_ops =
  list_add_op :: "'a \<Rightarrow> 'a list \<Rightarrow> 'a list"
  list_add_tail_op :: "'a \<Rightarrow> 'a list \<Rightarrow> 'a list"
  list_del_init_op :: "'a \<Rightarrow> 'a list \<Rightarrow> 'a list"
  list_move_op :: "'a \<Rightarrow> 'a list \<Rightarrow> 'a list"
  list_move_tail_op :: "'a \<Rightarrow> 'a list \<Rightarrow> 'a list"

definition list_ops_ok :: "'a list_ops \<Rightarrow> bool" where
  "list_ops_ok L \<longleftrightarrow>
     (\<forall>x q. distinct q \<and> x \<notin> set q \<longrightarrow> list_add_op L x q = x # q) \<and>
     (\<forall>x q. distinct q \<and> x \<notin> set q \<longrightarrow> list_add_tail_op L x q = q @ [x]) \<and>
     (\<forall>x q. distinct q \<and> x \<in> set q \<longrightarrow> list_del_init_op L x q = remove1 x q) \<and>
     (\<forall>x q. distinct q \<and> x \<in> set q \<longrightarrow> list_move_op L x q = x # remove1 x q) \<and>
     (\<forall>x q. distinct q \<and> x \<in> set q \<longrightarrow> list_move_tail_op L x q = remove1 x q @ [x])"

lemma list_add_law [list_laws]:
  "list_ops_ok L \<Longrightarrow> distinct q \<Longrightarrow> x \<notin> set q \<Longrightarrow> list_add_op L x q = x # q"
  by (simp add: list_ops_ok_def)

lemma list_add_tail_law [list_laws]:
  "list_ops_ok L \<Longrightarrow> distinct q \<Longrightarrow> x \<notin> set q \<Longrightarrow> list_add_tail_op L x q = q @ [x]"
  by (simp add: list_ops_ok_def)

lemma list_del_init_law [list_laws]:
  "list_ops_ok L \<Longrightarrow> distinct q \<Longrightarrow> x \<in> set q \<Longrightarrow> list_del_init_op L x q = remove1 x q"
  by (simp add: list_ops_ok_def)

lemma list_move_law [list_laws]:
  "list_ops_ok L \<Longrightarrow> distinct q \<Longrightarrow> x \<in> set q \<Longrightarrow> list_move_op L x q = x # remove1 x q"
  by (simp add: list_ops_ok_def)

lemma list_move_tail_law [list_laws]:
  "list_ops_ok L \<Longrightarrow> distinct q \<Longrightarrow> x \<in> set q \<Longrightarrow> list_move_tail_op L x q = remove1 x q @ [x]"
  by (simp add: list_ops_ok_def)

text \<open>
  A list implementation that satisfies the laws on every list: the instance at which the
  witnesses of the development evaluate.
\<close>

definition hol_lists :: "'a list_ops" where
  "hol_lists = \<lparr>list_add_op = (\<lambda>x q. x # q), list_add_tail_op = (\<lambda>x q. q @ [x]),
     list_del_init_op = remove1, list_move_op = (\<lambda>x q. x # remove1 x q),
     list_move_tail_op = (\<lambda>x q. remove1 x q @ [x])\<rparr>"

lemma hol_lists_ok [simp]: "list_ops_ok hol_lists"
  by (simp add: list_ops_ok_def hol_lists_def)

lemmas hol_lists_simps [simp] =
  list_ops.select_convs [of "\<lambda>x q. x # q" "\<lambda>x q. q @ [x]" remove1
    "\<lambda>x q. x # remove1 x q" "\<lambda>x q. remove1 x q @ [x]" "()", folded hol_lists_def]

text \<open>
  \<^verbatim>\<open>queue->prev != queue->next\<close>: the two neighbours of a list head differ exactly when the
  list has at least two entries.
\<close>

definition prev_ne_next :: "'a list \<Rightarrow> bool" where
  "prev_ne_next q = (case q of [] \<Rightarrow> False | x # _ \<Rightarrow> last q \<noteq> x)"

lemma prev_ne_next_iff: "distinct q \<Longrightarrow> prev_ne_next q \<longleftrightarrow> 2 \<le> length q"
proof (cases q)
  case (Cons x xs)
  assume "distinct q"
  with Cons show ?thesis
    by (cases xs rule: rev_cases) (auto simp: prev_ne_next_def)
qed (simp add: prev_ne_next_def)

lemma length_remove1_Suc: "x \<in> set q \<Longrightarrow> Suc (length (remove1 x q)) = length q"
  by (induction q) auto

lemma set_remove1_distinct [simp]: "distinct q \<Longrightarrow> set (remove1 x q) = set q - {x}"
  by (rule set_remove1_eq)

text \<open>What every step of a loop leaves alone, the loop leaves alone.\<close>

lemma fold_frame: "(\<And>x s. F (f x s) = F s) \<Longrightarrow> F (fold f xs s) = F s"
  by (induction xs arbitrary: s) simp_all

section \<open>Lists of pointers and their lengths as machine words\<close>

text \<open>
  A duplicate-free list of non-NULL pointers has fewer than \<open>2 ^ 32\<close> entries, so a 32-bit
  counter of its entries never wraps.
\<close>

lemma distinct_ptrs_bound:
  fixes q :: "ptr list"
  assumes "distinct q" and "0 \<notin> set q"
  shows "length q < 2 ^ 32"
proof -
  have "card (set q) \<le> card (UNIV - {0 :: ptr})"
    using assms(2) by (intro card_mono) auto
  then have "card (set q) \<le> 2 ^ 32 - 1"
    by (simp add: card_Diff_singleton card_word)
  moreover have "card (set q) = length q"
    using assms(1) by (rule distinct_card)
  ultimately show ?thesis
    by simp
qed

lemma of_nat_length_eq_0:
  fixes q :: "ptr list"
  assumes "distinct q" and "0 \<notin> set q"
  shows "(of_nat (length q) :: 32 word) = 0 \<longleftrightarrow> q = []"
proof
  assume "(of_nat (length q) :: 32 word) = 0"
  then have "unat (of_nat (length q) :: 32 word) = 0"
    by simp
  with distinct_ptrs_bound [OF assms] show "q = []"
    by (simp add: unat_of_nat)
qed simp

text \<open>A 64-bit value below \<open>2 ^ 63\<close> read as \<^verbatim>\<open>s64\<close> is itself.\<close>

lemma sint_u64_small:
  fixes d :: u64
  assumes "unat d < 2 ^ 63"
  shows "sint d = uint d"
proof -
  have "int (unat d) < int (2 ^ 63)"
    using assms unfolding of_nat_less_iff .
  then have "uint d < 2 ^ 63"
    by simp
  moreover have "- (2 ^ 63) \<le> uint d"
    by (rule order_trans [of _ 0]) simp_all
  ultimately have "signed_take_bit 63 (uint d) = uint d"
    by (intro signed_take_bit_int_eq_self)
  then show ?thesis
    by (simp add: sint_uint)
qed

section \<open>Rotation\<close>

text \<open>
  Repeatedly moving the head of a queue to its tail: after as many moves as the queue is
  long it is back in its first order, and the heads met on the way are its entries in order.
\<close>

primrec rotation_heads :: "nat \<Rightarrow> 'a list \<Rightarrow> 'a list" where
  "rotation_heads 0 q = []"
| "rotation_heads (Suc n) q = (case q of [] \<Rightarrow> [] | x # xs \<Rightarrow> x # rotation_heads n (xs @ [x]))"

lemma rotation_heads_append:
  "n = length xs \<Longrightarrow> rotation_heads n (xs @ ys) = xs"
proof (induction n arbitrary: xs ys)
  case (Suc n)
  then obtain x zs where "xs = x # zs" and "length zs = n"
    by (cases xs) auto
  with Suc.IH [of zs "ys @ [x]"] show ?case by simp
qed simp

lemma rotation_heads_length: "rotation_heads (length q) q = q"
  using rotation_heads_append [of "length q" q "[]"] by simp

end
