(* ===== verification/Sched_Types.thy ===== *)
theory Sched_Types
  imports Prelude
begin

text \<open>
  The data of the scheduler: the constants and structures of \<^verbatim>\<open>basic/kernel/linux/sched.h\<close> and
  \<^verbatim>\<open>basic/kernel/sched/sched.h\<close>, the kernel state that the operations transform, and the
  record \<open>kenv\<close> of everything the scheduler calls that the repository does not contain.

  The configuration is that of \<^verbatim>\<open>goldfish_armv7_defconfig\<close>: one CPU, so one run queue, with
  \<^verbatim>\<open>CONFIG_CGROUP_SCHED\<close>, \<^verbatim>\<open>CONFIG_RT_GROUP_SCHED\<close>, \<^verbatim>\<open>CONFIG_CGROUP_CPUACCT\<close> and
  \<^verbatim>\<open>CONFIG_SCHEDSTATS\<close>. Locks disappear: each operation is one atomic step. Calls to
  functions outside the repository that return nothing (tracing, statistics, notifications)
  are recorded as events of the field \<open>trace\<close>, newest first.
\<close>

section \<open>Constants\<close>

definition SCHED_NORMAL :: int where [sched_consts]: "SCHED_NORMAL = 0"
definition SCHED_FIFO :: int where [sched_consts]: "SCHED_FIFO = 1"
definition SCHED_RR :: int where [sched_consts]: "SCHED_RR = 2"
definition SCHED_BATCH :: int where [sched_consts]: "SCHED_BATCH = 3"
definition SCHED_IDLE :: int where [sched_consts]: "SCHED_IDLE = 5"
definition SCHED_WRR :: int where [sched_consts]: "SCHED_WRR = 6"
definition SCHED_RESET_ON_FORK :: int where [sched_consts]: "SCHED_RESET_ON_FORK = 0x40000000"

definition TASK_RUNNING :: int where [sched_consts]: "TASK_RUNNING = 0"
definition TASK_INTERRUPTIBLE :: int where [sched_consts]: "TASK_INTERRUPTIBLE = 1"
definition TASK_UNINTERRUPTIBLE :: int where [sched_consts]: "TASK_UNINTERRUPTIBLE = 2"
definition TASK_WAKEKILL :: int where [sched_consts]: "TASK_WAKEKILL = 128"
definition TASK_DEAD :: int where [sched_consts]: "TASK_DEAD = 64"
definition TASK_NORMAL :: int where
  [sched_consts]: "TASK_NORMAL = TASK_INTERRUPTIBLE OR TASK_UNINTERRUPTIBLE"

definition MAX_USER_RT_PRIO :: int where [sched_consts]: "MAX_USER_RT_PRIO = 100"
definition MAX_USER_WRR_PRIO :: int where [sched_consts]: "MAX_USER_WRR_PRIO = 100"
definition MAX_RT_PRIO :: int where [sched_consts]: "MAX_RT_PRIO = MAX_USER_RT_PRIO"
definition MAX_PRIO :: int where [sched_consts]: "MAX_PRIO = MAX_RT_PRIO + 40"
definition DEFAULT_PRIO :: int where [sched_consts]: "DEFAULT_PRIO = MAX_RT_PRIO + 20"

definition WF_SYNC :: int where [sched_consts]: "WF_SYNC = 1"
definition WF_FORK :: int where [sched_consts]: "WF_FORK = 2"
definition ENQUEUE_WAKEUP :: int where [sched_consts]: "ENQUEUE_WAKEUP = 1"
definition ENQUEUE_HEAD :: int where [sched_consts]: "ENQUEUE_HEAD = 2"
definition ENQUEUE_WAKING :: int where [sched_consts]: "ENQUEUE_WAKING = 0"
definition DEQUEUE_SLEEP :: int where [sched_consts]: "DEQUEUE_SLEEP = 1"

definition PF_WQ_WORKER :: int where [sched_consts]: "PF_WQ_WORKER = 0x20"
definition PF_FROZEN :: int where [sched_consts]: "PF_FROZEN = 0x10000"

definition FOREGROUP :: string where "FOREGROUP = ''/''"
definition BACKGROUP :: string where "BACKGROUP = ''/bg_non_interactive''"

text \<open>The time slices are macros over \<^verbatim>\<open>HZ\<close> (\<^verbatim>\<open>asm/param.h\<close>), evaluated in \<^verbatim>\<open>int\<close> arithmetic.\<close>

definition RR_TIMESLICE :: "nat \<Rightarrow> uint32" where
  "RR_TIMESLICE hz = of_nat (100 * hz div 1000)"

definition WRR_FORE_TIMESLICE :: "nat \<Rightarrow> uint32" where
  "WRR_FORE_TIMESLICE hz = of_nat (100 * hz div 1000)"

definition WRR_BACK_TIMESLICE :: "nat \<Rightarrow> uint32" where
  "WRR_BACK_TIMESLICE hz = of_nat (10 * hz div 1000)"

definition RUNTIME_INF :: u64 where "RUNTIME_INF = NOT 0"

definition NICE_TO_PRIO :: "int \<Rightarrow> int" where "NICE_TO_PRIO nice = MAX_RT_PRIO + nice + 20"
definition PRIO_TO_NICE :: "int \<Rightarrow> int" where "PRIO_TO_NICE prio = prio - MAX_RT_PRIO - 20"
definition USER_PRIO :: "int \<Rightarrow> int" where "USER_PRIO p = p - MAX_RT_PRIO"

section \<open>Structures\<close>

datatype sched_class =
  stop_sched_class | rt_sched_class | wrr_sched_class | fair_sched_class | idle_sched_class

record load_weight =
  weight :: ulong
  inv_weight :: ulong

text \<open>
  The fields of \<^verbatim>\<open>struct sched_entity\<close> that the modelled code reads or writes, with those of its
  \<^verbatim>\<open>statistics\<close> member.
\<close>

record sched_entity =
  se_load :: load_weight
  se_on_rq :: uint32
  exec_start :: u64
  sum_exec_runtime :: u64
  vruntime :: u64
  prev_sum_exec_runtime :: u64
  nr_migrations :: u64
  wait_start :: u64
  sleep_start :: u64
  block_start :: u64
  exec_max :: u64
  nr_wakeups :: u64
  nr_wakeups_sync :: u64

text \<open>
  \<^verbatim>\<open>run_list\<close> is not a field: an entity is linked when it occurs in a queue. Pointers to an
  entity are pointers to the task or task group that contains it (\<^verbatim>\<open>container_of\<close>).
\<close>

record sched_rt_entity =
  rt_timeout :: ulong
  rt_time_slice :: uint32
  nr_cpus_allowed :: int
  rt_parent :: "ptr option"
  rt_rq_of :: ptr
  rt_my_q :: "ptr option"

record sched_wrr_entity =
  wrr_timeout :: ulong
  wrr_time_slice :: uint32
  wrr_parent :: "ptr option"

record task_struct =
  tstate :: int
  tflags :: int
  on_rq :: bool
  prio :: int
  static_prio :: int
  normal_prio_of :: int
  rt_priority :: uint32
  sched_class :: sched_class
  se :: sched_entity
  wrr :: sched_wrr_entity
  sched_task_group :: ptr
  policy :: int
  has_mm :: bool
  sched_reset_on_fork :: bool
  nvcsw :: ulong
  nivcsw :: ulong
  sched_exp :: u64
  need_resched :: bool
  cred_ns :: nat
  cred_uid :: nat
  cred_euid :: nat
  cred_suid :: nat

record wrr_rq =
  wrr_nr_running :: uint32
  wrr_queue :: "ptr list"

text \<open>Bitmap and queues are indexed by priority, \<open>0 .. MAX_RT_PRIO\<close> and \<open>0 .. MAX_RT_PRIO - 1\<close>.\<close>

record rt_prio_array =
  bitmap :: "int \<Rightarrow> bool"
  rt_queue :: "int \<Rightarrow> ptr list"

record rt_rq =
  active :: rt_prio_array
  rt_nr_running :: ulong
  highest_prio_curr :: int
  rt_throttled :: bool
  rt_time :: u64
  rt_runtime :: u64
  rt_nr_boosted :: ulong
  rt_tg :: "ptr option"

record rt_bandwidth =
  rt_period :: u64
  bw_rt_runtime :: u64

record task_group =
  tg_rt_bandwidth :: rt_bandwidth
  tg_rt_se :: "ptr option"
  tg_parent :: "ptr option"
  tg_children :: "ptr list"

record rq =
  nr_running :: ulong
  cfs_h_nr_running :: ulong
  skip_clock_update :: int
  nr_switches :: u64
  rq_wrr :: wrr_rq
  nr_uninterruptible :: ulong
  curr :: ptr
  idle :: ptr
  stop :: ptr
  clock :: u64
  clock_task :: u64
  ttwu_count :: uint32
  sched_count :: uint32
  yld_count :: uint32
  leaf_rt_rq_list :: "ptr list"

section \<open>The kernel state\<close>

datatype kevent =
    AccountGroupExecRuntime ptr u64
  | SchedInfoQueued ptr
  | SchedInfoDequeued ptr
  | WqWorkerWakingUp ptr
  | ContextSwitch ptr ptr
  | RtMutexAdjustPi ptr
  | StartBandwidthTimer ptr
  | UpdateCpuLoadActive
  | HrtimerCancel ptr
  | Kfree ptr
  | CallRcuFreeSchedGroup ptr

text \<open>
  \<open>rt_rqs tg\<close> is \<^verbatim>\<open>tg->rt_rq[0]\<close>; the root group's is \<^verbatim>\<open>rq->rt\<close>. \<open>rt_ents\<close> holds \<^verbatim>\<open>p->rt\<close> of each task and
  \<^verbatim>\<open>tg->rt_se[0]\<close> of each group. \<open>ca_chain p\<close> lists the cpuacct groups that \<^verbatim>\<open>task_ca(p)\<close> and
  \<^verbatim>\<open>parent_ca\<close> lead through, and \<open>cpuusage\<close> their counters.
\<close>

record kstate =
  tasks :: "ptr \<Rightarrow> task_struct"
  rq :: rq
  rt_rqs :: "ptr \<Rightarrow> rt_rq"
  rt_ents :: "ptr \<Rightarrow> sched_rt_entity"
  tgs :: "ptr \<Rightarrow> task_group"
  ca_chain :: "ptr \<Rightarrow> nat list"
  cpuusage :: "nat \<Rightarrow> u64"
  sysctl_sched_rt_runtime :: int
  sysctl_sched_rt_period :: uint32
  task_groups :: "ptr list"
  def_rt_bandwidth :: rt_bandwidth
  trace :: "kevent list"

definition upd_task :: "ptr \<Rightarrow> (task_struct \<Rightarrow> task_struct) \<Rightarrow> kstate \<Rightarrow> kstate" where
  "upd_task p f s = s\<lparr>tasks := (tasks s)(p := f (tasks s p))\<rparr>"

definition upd_rt :: "ptr \<Rightarrow> (sched_rt_entity \<Rightarrow> sched_rt_entity) \<Rightarrow> kstate \<Rightarrow> kstate" where
  "upd_rt e f s = s\<lparr>rt_ents := (rt_ents s)(e := f (rt_ents s e))\<rparr>"

definition upd_rt_rq :: "ptr \<Rightarrow> (rt_rq \<Rightarrow> rt_rq) \<Rightarrow> kstate \<Rightarrow> kstate" where
  "upd_rt_rq g f s = s\<lparr>rt_rqs := (rt_rqs s)(g := f (rt_rqs s g))\<rparr>"

definition emit :: "kevent \<Rightarrow> kstate \<Rightarrow> kstate" where
  "emit e s = s\<lparr>trace := e # trace s\<rparr>"

lemma upd_task_simps [simp]:
  "tasks (upd_task p f s) = (tasks s)(p := f (tasks s p))"
  "rq (upd_task p f s) = rq s" "rt_rqs (upd_task p f s) = rt_rqs s"
  "rt_ents (upd_task p f s) = rt_ents s" "tgs (upd_task p f s) = tgs s"
  "ca_chain (upd_task p f s) = ca_chain s" "cpuusage (upd_task p f s) = cpuusage s"
  "sysctl_sched_rt_runtime (upd_task p f s) = sysctl_sched_rt_runtime s"
  "sysctl_sched_rt_period (upd_task p f s) = sysctl_sched_rt_period s"
  "task_groups (upd_task p f s) = task_groups s" "def_rt_bandwidth (upd_task p f s) = def_rt_bandwidth s"
  "trace (upd_task p f s) = trace s"
  by (simp_all add: upd_task_def)

lemma upd_rt_simps [simp]:
  "tasks (upd_rt p h s) = tasks s" "rq (upd_rt p h s) = rq s" "rt_rqs (upd_rt p h s) = rt_rqs s"
  "rt_ents (upd_rt p h s) = (rt_ents s)(p := h (rt_ents s p))" "tgs (upd_rt p h s) = tgs s"
  "ca_chain (upd_rt p h s) = ca_chain s" "cpuusage (upd_rt p h s) = cpuusage s"
  "sysctl_sched_rt_runtime (upd_rt p h s) = sysctl_sched_rt_runtime s"
  "sysctl_sched_rt_period (upd_rt p h s) = sysctl_sched_rt_period s"
  "task_groups (upd_rt p h s) = task_groups s" "def_rt_bandwidth (upd_rt p h s) = def_rt_bandwidth s"
  "trace (upd_rt p h s) = trace s"
  by (simp_all add: upd_rt_def)

lemma upd_rt_rq_simps [simp]:
  "tasks (upd_rt_rq g k s) = tasks s" "rq (upd_rt_rq g k s) = rq s"
  "rt_rqs (upd_rt_rq g k s) = (rt_rqs s)(g := k (rt_rqs s g))"
  "rt_ents (upd_rt_rq g k s) = rt_ents s" "tgs (upd_rt_rq g k s) = tgs s"
  "ca_chain (upd_rt_rq g k s) = ca_chain s" "cpuusage (upd_rt_rq g k s) = cpuusage s"
  "sysctl_sched_rt_runtime (upd_rt_rq g k s) = sysctl_sched_rt_runtime s"
  "sysctl_sched_rt_period (upd_rt_rq g k s) = sysctl_sched_rt_period s"
  "task_groups (upd_rt_rq g k s) = task_groups s" "def_rt_bandwidth (upd_rt_rq g k s) = def_rt_bandwidth s"
  "trace (upd_rt_rq g k s) = trace s"
  by (simp_all add: upd_rt_rq_def)

lemma emit_simps [simp]:
  "tasks (emit e s) = tasks s" "rq (emit e s) = rq s" "rt_rqs (emit e s) = rt_rqs s"
  "rt_ents (emit e s) = rt_ents s" "tgs (emit e s) = tgs s" "ca_chain (emit e s) = ca_chain s"
  "cpuusage (emit e s) = cpuusage s" "trace (emit e s) = e # trace s"
  "sysctl_sched_rt_runtime (emit e s) = sysctl_sched_rt_runtime s"
  "sysctl_sched_rt_period (emit e s) = sysctl_sched_rt_period s"
  "task_groups (emit e s) = task_groups s" "def_rt_bandwidth (emit e s) = def_rt_bandwidth s"
  by (simp_all add: emit_def)

text \<open>The scheduling parameters of a task, and the fields that running it and accounting its time leave alone.\<close>

type_synonym params = "int \<times> int \<times> int \<times> uint32 \<times> ptr \<times> bool \<times> bool"

definition task_params :: "task_struct \<Rightarrow> params" where
  "task_params t = (policy t, static_prio t, normal_prio_of t, rt_priority t, sched_task_group t, sched_reset_on_fork t, has_mm t)"

definition task_core :: "task_struct \<Rightarrow> int \<times> sched_class \<times> bool \<times> int \<times> int \<times> sched_wrr_entity \<times> params" where
  "task_core t = (prio t, sched_class t, on_rq t, tstate t, tflags t, wrr t, task_params t)"

section \<open>Code outside the repository\<close>

text \<open>
  \<open>bit_ops\<close>: \<^verbatim>\<open>__set_bit\<close>, \<^verbatim>\<open>__clear_bit\<close> and \<^verbatim>\<open>sched_find_first_bit\<close> of \<^verbatim>\<open>asm/bitops.h\<close>. The last is only
  specified on a bitmap whose delimiter bit \<open>MAX_RT_PRIO\<close> is set.
\<close>

record bit_ops =
  set_bit_op :: "int \<Rightarrow> (int \<Rightarrow> bool) \<Rightarrow> (int \<Rightarrow> bool)"
  clear_bit_op :: "int \<Rightarrow> (int \<Rightarrow> bool) \<Rightarrow> (int \<Rightarrow> bool)"
  find_first_bit_op :: "(int \<Rightarrow> bool) \<Rightarrow> int"

definition bit_ops_ok :: "bit_ops \<Rightarrow> bool" where
  "bit_ops_ok B \<longleftrightarrow>
     (\<forall>i b. set_bit_op B i b = b(i := True)) \<and>
     (\<forall>i b. clear_bit_op B i b = b(i := False)) \<and>
     (\<forall>b. b MAX_RT_PRIO \<longrightarrow> 0 \<le> find_first_bit_op B b \<and> b (find_first_bit_op B b) \<and>
        (\<forall>j. 0 \<le> j \<and> j < find_first_bit_op B b \<longrightarrow> \<not> b j))"

definition hol_bits :: bit_ops where
  "hol_bits = \<lparr>set_bit_op = (\<lambda>i b. b(i := True)), clear_bit_op = (\<lambda>i b. b(i := False)),
     find_first_bit_op = (\<lambda>b. case filter b [0..MAX_RT_PRIO] of [] \<Rightarrow> MAX_RT_PRIO + 1 | i # _ \<Rightarrow> i)\<rparr>"

text \<open>
  The operation table of a scheduling class whose code is not in the repository (\<^verbatim>\<open>stop_task.c\<close>,
  \<^verbatim>\<open>fair.c\<close>, \<^verbatim>\<open>idle_task.c\<close>).
\<close>

record ext_class =
  ec_enqueue_task :: "ptr \<Rightarrow> int \<Rightarrow> kstate \<Rightarrow> kstate"
  ec_dequeue_task :: "ptr \<Rightarrow> int \<Rightarrow> kstate \<Rightarrow> kstate"
  ec_yield_task :: "kstate \<Rightarrow> kstate"
  ec_check_preempt_curr :: "ptr \<Rightarrow> int \<Rightarrow> kstate \<Rightarrow> kstate"
  ec_pick_next_task :: "kstate \<Rightarrow> ptr option \<times> kstate"
  ec_put_prev_task :: "ptr \<Rightarrow> kstate \<Rightarrow> kstate"
  ec_set_curr_task :: "kstate \<Rightarrow> kstate"
  ec_task_tick :: "ptr \<Rightarrow> kstate \<Rightarrow> kstate"
  ec_task_fork :: "ptr \<Rightarrow> kstate \<Rightarrow> kstate"
  ec_switched_from :: "ptr \<Rightarrow> kstate \<Rightarrow> kstate"
  ec_switched_to :: "ptr \<Rightarrow> kstate \<Rightarrow> kstate"
  ec_prio_changed :: "ptr \<Rightarrow> int \<Rightarrow> kstate \<Rightarrow> kstate"
  ec_get_rr_interval :: "ptr \<Rightarrow> kstate \<Rightarrow> uint32"
  ec_task_move_group :: "(ptr \<Rightarrow> bool \<Rightarrow> kstate \<Rightarrow> kstate) option"
  ec_next :: "sched_class option"

datatype rlimit = RLIMIT_RTTIME | RLIMIT_RTPRIO | RLIMIT_NICE

record kenv =
  HZ :: nat
  klists :: "ptr list_ops"
  kbits :: bit_ops
  list_add_rcu :: "ptr \<Rightarrow> ptr list \<Rightarrow> ptr list"
  list_del_rcu :: "ptr \<Rightarrow> ptr list \<Rightarrow> ptr list"
  hrtimer_active :: "ptr \<Rightarrow> kstate \<Rightarrow> bool"
  root_task_group :: ptr
  idle_task :: ptr
  cgroup_path :: "ptr \<Rightarrow> string"
  task_rlimit :: "ptr \<Rightarrow> rlimit \<Rightarrow> ulong"
  task_rlimit_max :: "ptr \<Rightarrow> rlimit \<Rightarrow> ulong"
  RLIM_INFINITY :: ulong
  cpuacct_active :: bool
  ext_class_of :: "sched_class \<Rightarrow> ext_class"
  sched_clock_cpu :: "kstate \<Rightarrow> u64"
  signal_pending :: "ptr \<Rightarrow> kstate \<Rightarrow> bool"
  fatal_signal_pending1 :: "ptr \<Rightarrow> kstate \<Rightarrow> bool"
  preempt_active :: "kstate \<Rightarrow> bool"
  wq_worker_sleeping :: "ptr \<Rightarrow> kstate \<Rightarrow> ptr option"
  rt_mutex_getprio :: "ptr \<Rightarrow> kstate \<Rightarrow> int"
  capable_sys_nice :: "kstate \<Rightarrow> bool"
  security_task_setscheduler :: "ptr \<Rightarrow> kstate \<Rightarrow> int"
  security_task_getscheduler :: "ptr \<Rightarrow> kstate \<Rightarrow> int"
  security_task_setnice :: "ptr \<Rightarrow> int \<Rightarrow> kstate \<Rightarrow> int"
  find_task_by_vpid :: "int \<Rightarrow> kstate \<Rightarrow> ptr option"
  task_group_is_autogroup :: "ptr \<Rightarrow> bool"
  in_interrupt :: "kstate \<Rightarrow> bool"
  jiffies_to_timespec :: "uint32 \<Rightarrow> int \<times> int"
  autogroup_task_group :: "ptr \<Rightarrow> ptr \<Rightarrow> kstate \<Rightarrow> ptr"
  task_css_tg :: "ptr \<Rightarrow> kstate \<Rightarrow> ptr"
  alloc_fair_sched_group :: "ptr \<Rightarrow> ptr \<Rightarrow> kstate \<Rightarrow> int \<times> kstate"
  free_fair_sched_group :: "ptr \<Rightarrow> kstate \<Rightarrow> kstate"
  unregister_fair_sched_group :: "ptr \<Rightarrow> kstate \<Rightarrow> kstate"
  autogroup_free :: "ptr \<Rightarrow> kstate \<Rightarrow> kstate"

section \<open>Inline helpers of the two headers\<close>

text \<open>The flag \<^verbatim>\<open>TIF_SIGPENDING\<close> and the set of pending signals of a task are read through the environment.\<close>

definition signal_pending_state :: "kenv \<Rightarrow> int \<Rightarrow> ptr \<Rightarrow> kstate \<Rightarrow> bool" where
  "signal_pending_state K state p s =
     (if state AND (TASK_INTERRUPTIBLE OR TASK_WAKEKILL) = 0 then False
      else if \<not> signal_pending K p s then False
      else state AND TASK_INTERRUPTIBLE \<noteq> 0 \<or> fatal_signal_pending1 K p s)"

lemma no_signal_when_dead [simp]: "\<not> signal_pending_state K TASK_DEAD p s"
  by (simp add: signal_pending_state_def sched_consts)

definition rt_policy :: "int \<Rightarrow> bool" where
  "rt_policy pol = (pol = SCHED_FIFO \<or> pol = SCHED_RR)"

definition wrr_policy :: "int \<Rightarrow> bool" where
  "wrr_policy pol = (pol = SCHED_WRR)"

definition task_has_rt_policy :: "task_struct \<Rightarrow> bool" where
  "task_has_rt_policy t = rt_policy (policy t)"

definition rt_prio :: "int \<Rightarrow> bool" where
  "rt_prio pr = (pr < MAX_RT_PRIO)"

definition rt_task :: "task_struct \<Rightarrow> bool" where
  "rt_task t = rt_prio (prio t)"

definition task_contributes_to_load :: "task_struct \<Rightarrow> bool" where
  "task_contributes_to_load t =
     (tstate t AND TASK_UNINTERRUPTIBLE \<noteq> 0 \<and> tflags t AND PF_FROZEN = 0)"

definition rt_bandwidth_enabled :: "kstate \<Rightarrow> bool" where
  "rt_bandwidth_enabled s = (sysctl_sched_rt_runtime s \<ge> 0)"

definition task_current :: "ptr \<Rightarrow> kstate \<Rightarrow> bool" where
  "task_current p s = (curr (rq s) = p)"

definition inc_nr_running :: "kstate \<Rightarrow> kstate" where
  "inc_nr_running s = s\<lparr>rq := (rq s)\<lparr>nr_running := nr_running (rq s) + 1\<rparr>\<rparr>"

definition dec_nr_running :: "kstate \<Rightarrow> kstate" where
  "dec_nr_running s = s\<lparr>rq := (rq s)\<lparr>nr_running := nr_running (rq s) - 1\<rparr>\<rparr>"

text \<open>\<^verbatim>\<open>resched_task\<close> on one CPU (core.c) only sets the flag.\<close>

definition resched_task :: "ptr \<Rightarrow> kstate \<Rightarrow> kstate" where
  "resched_task p = upd_task p (\<lambda>t. t\<lparr>need_resched := True\<rparr>)"

text \<open>\<^verbatim>\<open>cpuacct_charge\<close> (core.c): add the time to the task's accounting group and its ancestors.\<close>

definition cpuacct_charge :: "kenv \<Rightarrow> ptr \<Rightarrow> u64 \<Rightarrow> kstate \<Rightarrow> kstate" where
  "cpuacct_charge K p d s =
     (if \<not> cpuacct_active K then s
      else s\<lparr>cpuusage := fold (\<lambda>ca u. u(ca := u ca + d)) (ca_chain s p) (cpuusage s)\<rparr>)"

lemma nr_running_simps [simp]:
  "tasks (inc_nr_running s) = tasks s" "tasks (dec_nr_running s) = tasks s"
  "rq_wrr (rq (inc_nr_running s)) = rq_wrr (rq s)" "rq_wrr (rq (dec_nr_running s)) = rq_wrr (rq s)"
  "curr (rq (inc_nr_running s)) = curr (rq s)" "curr (rq (dec_nr_running s)) = curr (rq s)"
  "nr_running (rq (inc_nr_running s)) = nr_running (rq s) + 1"
  "nr_running (rq (dec_nr_running s)) = nr_running (rq s) - 1"
  "rt_rqs (inc_nr_running s) = rt_rqs s" "rt_rqs (dec_nr_running s) = rt_rqs s"
  "rt_ents (inc_nr_running s) = rt_ents s" "rt_ents (dec_nr_running s) = rt_ents s"
  "tgs (inc_nr_running s) = tgs s" "tgs (dec_nr_running s) = tgs s"
  by (simp_all add: inc_nr_running_def dec_nr_running_def)

lemma cpuacct_charge_simps [simp]:
  "tasks (cpuacct_charge K p d s) = tasks s" "rq (cpuacct_charge K p d s) = rq s"
  "rt_rqs (cpuacct_charge K p d s) = rt_rqs s" "rt_ents (cpuacct_charge K p d s) = rt_ents s"
  "tgs (cpuacct_charge K p d s) = tgs s" "ca_chain (cpuacct_charge K p d s) = ca_chain s"
  "trace (cpuacct_charge K p d s) = trace s"
  "sysctl_sched_rt_runtime (cpuacct_charge K p d s) = sysctl_sched_rt_runtime s"
  "sysctl_sched_rt_period (cpuacct_charge K p d s) = sysctl_sched_rt_period s"
  by (simp_all add: cpuacct_charge_def)

lemma charge_fold:
  "distinct cs \<Longrightarrow>
   fold (\<lambda>ca u. u(ca := u ca + d)) cs u c = (if c \<in> set cs then u c + d else (u c :: u64))"
  by (induction cs arbitrary: u) auto

lemma cpuusage_charge:
  "cpuacct_active K \<Longrightarrow> distinct (ca_chain s p) \<Longrightarrow>
   cpuusage (cpuacct_charge K p d s) c =
     (if c \<in> set (ca_chain s p) then cpuusage s c + d else cpuusage s c)"
  by (simp add: cpuacct_charge_def charge_fold)

end
