(* ===== verification/Load.thy ===== *)
theory Load
  imports Sched_Types "HOL-Library.Signed_Division"
begin

text \<open>
  The load averages of \<^verbatim>\<open>core.c\<close>: the global average \<^verbatim>\<open>avenrun\<close> with its distributed count of active tasks and
  the catch-up after tickless idle, and the per-CPU average \<^verbatim>\<open>cpu_load\<close>. The record \<open>load_state\<close> holds the
  variables of this code and the fields of the run queue that only it uses; \<^verbatim>\<open>nr_running\<close> and
  \<^verbatim>\<open>nr_uninterruptible\<close> come with the run queue, \<^verbatim>\<open>load.weight\<close> (kept by the fair class) and \<^verbatim>\<open>jiffies\<close> are arguments.
\<close>

section \<open>Operations\<close>

record load_state =
  calc_load_tasks :: ulong
  calc_load_update :: ulong
  avenrun :: "ulong list"
  calc_load_idle :: "bool \<Rightarrow> ulong"
  calc_load_idx :: uint32
  calc_load_active :: ulong
  rq_calc_load_update :: ulong
  cpu_load :: "ulong list"
  last_load_update_tick :: ulong
  nr_load_updates :: ulong

definition FSHIFT :: nat where "FSHIFT = 11"
definition FIXED_1 :: ulong where "FIXED_1 = push_bit FSHIFT 1"
definition LOAD_FREQ :: "nat \<Rightarrow> ulong" where "LOAD_FREQ hz = of_nat (5 * hz + 1)"
definition EXP_1 :: ulong where "EXP_1 = 1884"
definition EXP_5 :: ulong where "EXP_5 = 2014"
definition EXP_15 :: ulong where "EXP_15 = 2037"

text \<open>\<^verbatim>\<open>linux/jiffies.h\<close>.\<close>

definition time_before :: "ulong \<Rightarrow> ulong \<Rightarrow> bool" where
  "time_before a b \<longleftrightarrow> sint (a - b) < 0"

definition get_avenrun :: "ulong \<Rightarrow> nat \<Rightarrow> load_state \<Rightarrow> ulong list" where
  "get_avenrun offset sh l =
     [push_bit sh (avenrun l ! 0 + offset), push_bit sh (avenrun l ! 1 + offset), push_bit sh (avenrun l ! 2 + offset)]"

definition calc_load_fold_active :: "rq \<Rightarrow> load_state \<Rightarrow> ulong \<times> load_state" where
  "calc_load_fold_active r l =
     (let nr_active = nr_running r + nr_uninterruptible r in
      if nr_active \<noteq> calc_load_active l
      then (nr_active - calc_load_active l, l\<lparr>calc_load_active := nr_active\<rparr>)
      else (0, l))"

definition calc_load :: "ulong \<Rightarrow> ulong \<Rightarrow> ulong \<Rightarrow> ulong" where
  "calc_load load ex act =
     (let l1 = load * ex;
          l2 = l1 + act * (FIXED_1 - ex);
          l3 = l2 + push_bit (FSHIFT - 1) 1
      in drop_bit FSHIFT l3)"

text \<open>The index into the two idle deltas: the lowest bit.\<close>

definition calc_load_write_idx :: "ulong \<Rightarrow> load_state \<Rightarrow> bool" where
  "calc_load_write_idx jiffies l =
     (let idx = (if \<not> time_before jiffies (calc_load_update l) then calc_load_idx l + 1 else calc_load_idx l)
      in idx AND 1 \<noteq> 0)"

definition calc_load_read_idx :: "load_state \<Rightarrow> bool" where
  "calc_load_read_idx l = (calc_load_idx l AND 1 \<noteq> 0)"

definition calc_load_enter_idle :: "ulong \<Rightarrow> rq \<Rightarrow> load_state \<Rightarrow> load_state" where
  "calc_load_enter_idle jiffies r l =
     (let (delta, l1) = calc_load_fold_active r l in
      if delta \<noteq> 0
      then let idx = calc_load_write_idx jiffies l1
           in l1\<lparr>calc_load_idle := (calc_load_idle l1)(idx := calc_load_idle l1 idx + delta)\<rparr>
      else l1)"

definition calc_load_exit_idle :: "nat \<Rightarrow> ulong \<Rightarrow> load_state \<Rightarrow> load_state" where
  "calc_load_exit_idle hz jiffies l =
     (if time_before jiffies (rq_calc_load_update l) then l
      else
        let l1 = l\<lparr>rq_calc_load_update := calc_load_update l\<rparr> in
        if time_before jiffies (rq_calc_load_update l1 + 10)
        then l1\<lparr>rq_calc_load_update := rq_calc_load_update l1 + LOAD_FREQ hz\<rparr> else l1)"

definition calc_load_fold_idle :: "load_state \<Rightarrow> ulong \<times> load_state" where
  "calc_load_fold_idle l =
     (let idx = calc_load_read_idx l in
      if calc_load_idle l idx \<noteq> 0
      then (calc_load_idle l idx, l\<lparr>calc_load_idle := (calc_load_idle l)(idx := 0)\<rparr>)
      else (0, l))"

text \<open>Rounded product of two fixed-point numbers, as the loop of \<^verbatim>\<open>fixed_power_int\<close> computes it twice.\<close>

definition fixed_mult :: "nat \<Rightarrow> ulong \<Rightarrow> ulong \<Rightarrow> ulong" where
  "fixed_mult frac_bits a b = drop_bit frac_bits (a * b + push_bit (frac_bits - 1) 1)"

lemma unat_drop_bit_1: "unat (drop_bit 1 (n :: uint32)) = unat n div 2"
  by (metis drop_bit_eq_div power_one_right unat_drop_bit_eq)

function fixed_power_loop :: "nat \<Rightarrow> ulong \<Rightarrow> ulong \<Rightarrow> uint32 \<Rightarrow> ulong" where
  "fixed_power_loop frac_bits result x n =
     (let result1 = (if n AND 1 \<noteq> 0 then fixed_mult frac_bits result x else result);
          n1 = drop_bit 1 n
      in if n1 = 0 then result1 else fixed_power_loop frac_bits result1 (fixed_mult frac_bits x x) n1)"
  by auto
termination
proof (relation "measure (\<lambda>(fb, r, x, n). unat n)")
  fix fb :: nat and r x result1 :: ulong and n n1 :: uint32
  assume n: "n1 = drop_bit 1 n" "n1 \<noteq> 0"
  then have "unat n div 2 \<noteq> 0" by (metis unat_drop_bit_1 unat_eq_zero)
  then have "unat n1 < unat n" unfolding n(1) unat_drop_bit_1 by linarith
  then show "((fb, result1, fixed_mult fb x x, n1), (fb, r, x, n)) \<in> measure (\<lambda>(fb, r, x, n). unat n)" by simp
qed simp

declare fixed_power_loop.simps [simp del]

definition fixed_power_int :: "ulong \<Rightarrow> nat \<Rightarrow> uint32 \<Rightarrow> ulong" where
  "fixed_power_int x frac_bits n =
     (let result = push_bit frac_bits 1 in if n \<noteq> 0 then fixed_power_loop frac_bits result x n else result)"

definition calc_load_n :: "ulong \<Rightarrow> ulong \<Rightarrow> ulong \<Rightarrow> uint32 \<Rightarrow> ulong" where
  "calc_load_n load ex act n = calc_load load (fixed_power_int ex FSHIFT n) act"

definition active_tasks :: "load_state \<Rightarrow> ulong" where
  "active_tasks l = (if sint (calc_load_tasks l) > 0 then calc_load_tasks l * FIXED_1 else 0)"

definition calc_global_nohz :: "nat \<Rightarrow> ulong \<Rightarrow> load_state \<Rightarrow> load_state" where
  "calc_global_nohz hz jiffies l =
     (let l1 = (if \<not> time_before jiffies (calc_load_update l + 10) then
                  let delta = jiffies - calc_load_update l - 10;
                      n = 1 + word_of_int (sint delta sdiv sint (LOAD_FREQ hz)) :: ulong;
                      act = active_tasks l
                  in l\<lparr>avenrun := [calc_load_n (avenrun l ! 0) EXP_1 act n,
                                 calc_load_n (avenrun l ! 1) EXP_5 act n,
                                 calc_load_n (avenrun l ! 2) EXP_15 act n],
                       calc_load_update := calc_load_update l + n * LOAD_FREQ hz\<rparr>
                else l)
      in l1\<lparr>calc_load_idx := calc_load_idx l1 + 1\<rparr>)"

definition calc_global_load :: "nat \<Rightarrow> ulong \<Rightarrow> load_state \<Rightarrow> load_state" where
  "calc_global_load hz jiffies l =
     (if time_before jiffies (calc_load_update l + 10) then l
      else
        let (delta, l1) = calc_load_fold_idle l;
            l2 = (if delta \<noteq> 0 then l1\<lparr>calc_load_tasks := calc_load_tasks l1 + delta\<rparr> else l1);
            act = active_tasks l2;
            l3 = l2\<lparr>avenrun := [calc_load (avenrun l2 ! 0) EXP_1 act, calc_load (avenrun l2 ! 1) EXP_5 act,
                              calc_load (avenrun l2 ! 2) EXP_15 act]\<rparr>;
            l4 = l3\<lparr>calc_load_update := calc_load_update l3 + LOAD_FREQ hz\<rparr>
        in calc_global_nohz hz jiffies l4)"

definition calc_load_account_active :: "nat \<Rightarrow> ulong \<Rightarrow> rq \<Rightarrow> load_state \<Rightarrow> load_state" where
  "calc_load_account_active hz jiffies r l =
     (if time_before jiffies (rq_calc_load_update l) then l
      else
        let (delta, l1) = calc_load_fold_active r l;
            l2 = (if delta \<noteq> 0 then l1\<lparr>calc_load_tasks := calc_load_tasks l1 + delta\<rparr> else l1)
        in l2\<lparr>rq_calc_load_update := rq_calc_load_update l2 + LOAD_FREQ hz\<rparr>)"

definition CPU_LOAD_IDX_MAX :: nat where "CPU_LOAD_IDX_MAX = 5"
definition DEGRADE_SHIFT :: nat where "DEGRADE_SHIFT = 7"

definition degrade_zero_ticks :: "ulong list" where
  "degrade_zero_ticks = [0, 8, 32, 64, 128]"

text \<open>The rows that the initialiser leaves short are filled with zeros.\<close>

definition degrade_factor :: "ulong list list" where
  "degrade_factor = [
     [0, 0, 0, 0, 0, 0, 0, 0],
     [64, 32, 8, 0, 0, 0, 0, 0],
     [96, 72, 40, 12, 1, 0, 0, 0],
     [112, 98, 75, 43, 15, 1, 0, 0],
     [120, 112, 98, 76, 45, 16, 2, 0]]"

text \<open>\<open>None\<close>: an access outside the table.\<close>

function decay_loop :: "nat \<Rightarrow> nat \<Rightarrow> ulong \<Rightarrow> ulong \<Rightarrow> ulong option" where
  "decay_loop idx j missed load =
     (if missed = 0 then Some load
      else if missed mod 2 \<noteq> 0 \<and> \<not> (idx < CPU_LOAD_IDX_MAX \<and> j < DEGRADE_SHIFT + 1) then None
      else
        let load1 = (if missed mod 2 \<noteq> 0 then drop_bit DEGRADE_SHIFT (load * (degrade_factor ! idx ! j)) else load)
        in decay_loop idx (Suc j) (drop_bit 1 missed) load1)"
  by auto
termination
proof (relation "measure (\<lambda>(i, j, m, l). unat m)")
  fix idx j :: nat and missed load load1 :: ulong
  assume "missed \<noteq> 0"
  then have "0 < unat missed" by (simp add: unat_gt_0)
  then have "unat (drop_bit 1 missed) < unat missed" unfolding unat_drop_bit_1 by linarith
  then show "((idx, Suc j, drop_bit 1 missed, load1), (idx, j, missed, load)) \<in> measure (\<lambda>(i, j, m, l). unat m)"
    by (simp only: in_measure prod.case)
qed simp

declare decay_loop.simps [simp del]

definition decay_load_missed :: "ulong \<Rightarrow> ulong \<Rightarrow> nat \<Rightarrow> ulong option" where
  "decay_load_missed load missed_updates idx =
     (if missed_updates = 0 then Some load
      else if \<not> idx < CPU_LOAD_IDX_MAX then None
      else if missed_updates \<ge> degrade_zero_ticks ! idx then Some 0
      else if idx = 1 then Some (drop_bit (unat missed_updates) load)
      else decay_loop idx 0 missed_updates load)"

definition next_cpu_load :: "nat \<Rightarrow> ulong \<Rightarrow> ulong \<Rightarrow> ulong" where
  "next_cpu_load i old_load this_load =
     (let scale = push_bit i 1;
          new_load = (if this_load > old_load then this_load + (scale - 1) else this_load)
      in drop_bit i (old_load * (scale - 1) + new_load))"

fun update_cpu_load_from :: "ulong \<Rightarrow> ulong \<Rightarrow> nat list \<Rightarrow> ulong list \<Rightarrow> ulong list option" where
  "update_cpu_load_from pending this_load [] cl = Some cl"
| "update_cpu_load_from pending this_load (i # js) cl =
     do { old_load \<leftarrow> decay_load_missed (cl ! i) (pending - 1) i;
          update_cpu_load_from pending this_load js (cl[i := next_cpu_load i old_load this_load]) }"

text \<open>\<^verbatim>\<open>sched_avg_update\<close> is empty on one CPU.\<close>

definition update_cpu_load :: "ulong \<Rightarrow> ulong \<Rightarrow> load_state \<Rightarrow> load_state option" where
  "update_cpu_load this_load curr_jiffies l =
     (let l1 = l\<lparr>nr_load_updates := nr_load_updates l + 1\<rparr> in
      if curr_jiffies = last_load_update_tick l1 then Some l1
      else do {
        let pending = curr_jiffies - last_load_update_tick l1;
        cl \<leftarrow> update_cpu_load_from pending this_load [1..<CPU_LOAD_IDX_MAX] ((cpu_load l1)[0 := this_load]);
        Some (l1\<lparr>last_load_update_tick := curr_jiffies, cpu_load := cl\<rparr>) })"

definition update_cpu_load_active :: "nat \<Rightarrow> ulong \<Rightarrow> ulong \<Rightarrow> rq \<Rightarrow> load_state \<Rightarrow> load_state option" where
  "update_cpu_load_active hz this_load jiffies r l =
     do { l1 \<leftarrow> update_cpu_load this_load jiffies l; Some (calc_load_account_active hz jiffies r l1) }"

end
