(* ===== verification/Sample.thy ===== *)
theory Sample
  imports Sched_Types
begin

text \<open>
  A concrete environment and a concrete kernel state, used only to show that the hypotheses of
  the properties can hold together: an idle task (address 1), a stop task (2), two WRR tasks in
  the foreground group (10, 11) and one in the background group (12), a CFS task (20) and a FIFO
  task (30). The lists and bitmaps are \<open>hol_lists\<close> and \<open>hol_bits\<close>; the classes outside the repository only
  count their tasks and pick a fixed one.
\<close>

definition sample_class :: ext_class where
  "sample_class = \<lparr>
     ec_enqueue_task = (\<lambda>p fl s. inc_nr_running s),
     ec_dequeue_task = (\<lambda>p fl s. dec_nr_running s),
     ec_yield_task = (\<lambda>s. s), ec_check_preempt_curr = (\<lambda>p fl s. s),
     ec_pick_next_task = (\<lambda>s. (None, s)), ec_put_prev_task = (\<lambda>p s. s),
     ec_set_curr_task = (\<lambda>s. s), ec_task_tick = (\<lambda>p s. s), ec_task_fork = (\<lambda>p s. s),
     ec_switched_from = (\<lambda>p s. s), ec_switched_to = (\<lambda>p s. s),
     ec_prio_changed = (\<lambda>p oldprio s. s), ec_get_rr_interval = (\<lambda>p s. 0), ec_task_move_group = None, ec_next = None\<rparr>"

definition sample_fair :: ext_class where
  "sample_fair = sample_class\<lparr>
     ec_enqueue_task := (\<lambda>p fl s. inc_nr_running
       (s\<lparr>rq := (rq s)\<lparr>cfs_h_nr_running := cfs_h_nr_running (rq s) + 1\<rparr>\<rparr>)),
     ec_dequeue_task := (\<lambda>p fl s. dec_nr_running
       (s\<lparr>rq := (rq s)\<lparr>cfs_h_nr_running := cfs_h_nr_running (rq s) - 1\<rparr>\<rparr>)),
     ec_pick_next_task := (\<lambda>s. (if cfs_h_nr_running (rq s) = 0 \<or> sched_class (tasks s 20) \<noteq> fair_sched_class \<or>
       \<not> on_rq (tasks s 20)
       then None else Some 20, s)),
     ec_next := Some idle_sched_class\<rparr>"

definition sample_idle :: ext_class where
  "sample_idle = sample_class\<lparr>ec_pick_next_task := (\<lambda>s.
     (if sched_class (tasks s 1) = idle_sched_class then Some 1 else None, s))\<rparr>"

fun sample_ext :: "sched_class \<Rightarrow> ext_class" where
  "sample_ext stop_sched_class = sample_class\<lparr>ec_next := Some rt_sched_class\<rparr>"
| "sample_ext fair_sched_class = sample_fair"
| "sample_ext idle_sched_class = sample_idle"
| "sample_ext _ = sample_class"

definition sample_env :: kenv where
  "sample_env = \<lparr>HZ = 100, klists = hol_lists, kbits = hol_bits, list_add_rcu = Cons,
     list_del_rcu = remove1, hrtimer_active = (\<lambda>tg s. True), root_task_group = 100, idle_task = 1,
     cgroup_path = (\<lambda>tg. if tg = 100 then ''/'' else if tg = 101 then ''/bg_non_interactive''
                         else ''/other''),
     task_rlimit = (\<lambda>p r. -1), task_rlimit_max = (\<lambda>p r. -1), RLIM_INFINITY = -1,
     cpuacct_active = True, ext_class_of = sample_ext,
     sched_clock_cpu = (\<lambda>s. clock (rq s) + 1000),
     signal_pending = (\<lambda>p s. False), fatal_signal_pending1 = (\<lambda>p s. False), preempt_active = (\<lambda>s. False),
     wq_worker_sleeping = (\<lambda>p s. None),
     rt_mutex_getprio = (\<lambda>p s. normal_prio_of (tasks s p)),
     capable_sys_nice = (\<lambda>s. True), security_task_setscheduler = (\<lambda>p s. 0),
     security_task_getscheduler = (\<lambda>p s. 0), security_task_setnice = (\<lambda>p n s. 0),
     find_task_by_vpid = (\<lambda>pid s. if pid = 42 then Some 20 else None),
     task_group_is_autogroup = (\<lambda>tg. False), in_interrupt = (\<lambda>s. False),
     jiffies_to_timespec = (\<lambda>j. (uint j div 100, uint j mod 100 * 10000000)),
     autogroup_task_group = (\<lambda>p tg s. tg), task_css_tg = (\<lambda>p s. if p = 12 then 101 else 100),
     alloc_fair_sched_group = (\<lambda>tg parent s. (1, s)), free_fair_sched_group = (\<lambda>tg s. s),
     unregister_fair_sched_group = (\<lambda>tg s. s), autogroup_free = (\<lambda>tg s. s)\<rparr>"

definition sample_se :: sched_entity where
  "sample_se = \<lparr>se_load = \<lparr>weight = 1024, inv_weight = 4194304\<rparr>, se_on_rq = 0, exec_start = 0,
     sum_exec_runtime = 0, vruntime = 0, prev_sum_exec_runtime = 0, nr_migrations = 0,
     wait_start = 0, sleep_start = 0, block_start = 0, exec_max = 0, nr_wakeups = 0, nr_wakeups_sync = 0\<rparr>"

definition sample_task :: "sched_class \<Rightarrow> int \<Rightarrow> int \<Rightarrow> ptr \<Rightarrow> uint32 \<Rightarrow> task_struct" where
  "sample_task c pol pr tg sl = \<lparr>tstate = 0, tflags = 0, on_rq = True, prio = pr, static_prio = 120,
     normal_prio_of = pr, rt_priority = (if pol = 1 \<or> pol = 2 then word_of_int (99 - pr) else 0), sched_class = c, se = sample_se,
     wrr = \<lparr>wrr_timeout = 0, wrr_time_slice = sl, wrr_parent = None\<rparr>, sched_task_group = tg,
     policy = pol, has_mm = True, sched_reset_on_fork = False, nvcsw = 0, nivcsw = 0,
     sched_exp = 0, need_resched = False, cred_ns = 0, cred_uid = 0, cred_euid = 0, cred_suid = 0\<rparr>"

definition sample_tasks :: "ptr \<Rightarrow> task_struct" where
  "sample_tasks p =
     (if p = 10 \<or> p = 11 then sample_task wrr_sched_class 6 120 100 3
      else if p = 12 then sample_task wrr_sched_class 6 120 101 1
      else if p = 20 then sample_task fair_sched_class 0 120 100 0
      else if p = 30 then sample_task rt_sched_class 1 50 100 0
      else sample_task idle_sched_class 0 120 100 0)"

definition sample_rq :: rq where
  "sample_rq = \<lparr>nr_running = 3, cfs_h_nr_running = 0, skip_clock_update = 0, nr_switches = 0,
     rq_wrr = \<lparr>wrr_nr_running = 3, wrr_queue = [10, 11, 12]\<rparr>, nr_uninterruptible = 0,
     curr = 10, idle = 1, stop = 2, clock = 5000, clock_task = 5000, ttwu_count = 0,
     sched_count = 0, yld_count = 0, leaf_rt_rq_list = []\<rparr>"

definition sample_rt_rq :: rt_rq where
  "sample_rt_rq = \<lparr>active = \<lparr>bitmap = (\<lambda>i. i = 100), rt_queue = (\<lambda>_. [])\<rparr>, rt_nr_running = 0,
     highest_prio_curr = 100, rt_throttled = False, rt_time = 0, rt_runtime = 950000000,
     rt_nr_boosted = 0, rt_tg = Some 100\<rparr>"

definition sample_state :: kstate where
  "sample_state = \<lparr>tasks = sample_tasks, rq = sample_rq, rt_rqs = (\<lambda>_. sample_rt_rq),
     rt_ents = (\<lambda>_. \<lparr>rt_timeout = 0, rt_time_slice = 10, nr_cpus_allowed = 1, rt_parent = None,
                     rt_rq_of = 100, rt_my_q = None\<rparr>),
     tgs = (\<lambda>_. \<lparr>tg_rt_bandwidth = \<lparr>rt_period = 1000000000, bw_rt_runtime = 950000000\<rparr>,
                 tg_rt_se = None, tg_parent = None, tg_children = []\<rparr>),
     ca_chain = (\<lambda>_. [1, 0]), cpuusage = (\<lambda>_. 0), sysctl_sched_rt_runtime = 950000,
     sysctl_sched_rt_period = 1000000, task_groups = [100],
     def_rt_bandwidth = \<lparr>rt_period = 1000000000, bw_rt_runtime = 950000000\<rparr>, trace = []\<rparr>"

lemmas sample_defs = sample_env_def sample_state_def sample_rq_def sample_tasks_def
  sample_task_def sample_se_def sample_rt_rq_def sample_class_def sample_fair_def sample_idle_def

lemma sample_lists [simp]: "klists sample_env = hol_lists"
  by (simp add: sample_env_def)

end
