(* ===== verification/Load_Props.thy ===== *)
theory Load_Props
  imports Complex_Main Load Sample
begin

text \<open>
  The load averages: the fixed-point power is the power up to half a unit per factor, averages stay
  between their inputs, the count of active tasks loses nothing when CPUs go idle, and the per-CPU load
  moves towards the present load in every update.
\<close>

section \<open>Fixed-point arithmetic\<close>

lemma unat_fixed_mult:
  assumes "unat a \<le> 2048" and "unat b \<le> 2048"
  shows "unat (fixed_mult FSHIFT a b) = (unat a * unat b + 1024) div 2048" and "unat (fixed_mult FSHIFT a b) \<le> 2048"
proof -
  have le: "unat a * unat b \<le> 2048 * 2048" by (rule mult_le_mono) (use assms in auto)
  have m: "unat (a * b) = unat a * unat b" by (rule unat_mult_lem [THEN iffD1]) (use le in simp)
  have "unat (a * b + 1024) = unat a * unat b + 1024"
    using unat_add_lem [of "a * b" 1024, THEN iffD1] le by (simp add: m)
  then show eq: "unat (fixed_mult FSHIFT a b) = (unat a * unat b + 1024) div 2048"
    by (simp add: fixed_mult_def FSHIFT_def unat_drop_bit_eq drop_bit_eq_div push_bit_eq_mult unat_div)
  show "unat (fixed_mult FSHIFT a b) \<le> 2048" unfolding eq using le by linarith
qed

lemma fixed_round_err:
  fixes a b :: nat
  assumes a: "a \<le> 2048" and b: "b \<le> 2048" and A: "0 \<le> A" "A \<le> 1" and B: "0 \<le> B" "B \<le> 1"
    and ea: "\<bar>real a - 2048 * A\<bar> \<le> ea" and eb: "\<bar>real b - 2048 * B\<bar> \<le> eb"
  shows "\<bar>real ((a * b + 1024) div 2048) - 2048 * (A * B)\<bar> \<le> ea + eb + 1 / 2"
proof -
  define q where "q = (a * b + 1024) div 2048"
  have "2048 * q \<le> a * b + 1024 \<and> a * b + 1024 < 2048 * q + 2048" unfolding q_def by linarith
  then have "real (2048 * q) \<le> real (a * b + 1024)" "real (a * b + 1024) < real (2048 * q + 2048)"
    by (simp_all only: of_nat_le_iff of_nat_less_iff)
  then have "2048 * real q \<le> real a * real b + 1024" "real a * real b + 1024 < 2048 * real q + 2048" by simp_all
  then have r: "\<bar>real q - real a * real b / 2048\<bar> \<le> 1 / 2" by linarith
  have "real a * real b / 2048 - 2048 * (A * B) = real a / 2048 * (real b - 2048 * B) + B * (real a - 2048 * A)"
    by (simp add: field_simps)
  moreover have "\<bar>real a / 2048 * (real b - 2048 * B)\<bar> \<le> 1 * eb"
    unfolding abs_mult by (rule mult_mono) (use a eb in auto)
  moreover have "\<bar>B * (real a - 2048 * A)\<bar> \<le> 1 * ea"
    unfolding abs_mult by (rule mult_mono) (use B ea in auto)
  ultimately have "\<bar>real a * real b / 2048 - 2048 * (A * B)\<bar> \<le> ea + eb" by linarith
  then show ?thesis using r unfolding q_def by linarith
qed

lemma fixed_mult_err:
  assumes "unat a \<le> 2048" and "unat b \<le> 2048" and "0 \<le> A" "A \<le> 1" and "0 \<le> B" "B \<le> 1"
    and "\<bar>real (unat a) - 2048 * A\<bar> \<le> ea" and "\<bar>real (unat b) - 2048 * B\<bar> \<le> eb"
  shows "\<bar>real (unat (fixed_mult FSHIFT a b)) - 2048 * (A * B)\<bar> \<le> ea + eb + 1 / 2"
  unfolding unat_fixed_mult(1) [OF assms(1,2)] by (rule fixed_round_err [OF assms])

lemma and_1_odd: "(n AND 1 \<noteq> 0) = odd (unat n)" for n :: uint32
  by (simp add: and_one_eq mod_2_eq_odd flip: bit_0) (simp add: bit_unsigned_iff)

lemma fixed_power_loop_err:
  assumes "unat r \<le> 2048" and "unat x \<le> 2048" and "0 \<le> R" and "R \<le> 1" and "0 \<le> X" and "X \<le> 1"
    and "\<bar>real (unat r) - 2048 * R\<bar> \<le> er" and "\<bar>real (unat x) - 2048 * X\<bar> \<le> ex"
  shows "unat (fixed_power_loop FSHIFT r x n) \<le> 2048 \<and>
    \<bar>real (unat (fixed_power_loop FSHIFT r x n)) - 2048 * (R * X ^ unat n)\<bar> \<le> er + real (unat n) * (ex + 1 / 2)"
  using assms
proof (induction FSHIFT r x n arbitrary: R X er ex rule: fixed_power_loop.induct)
  case (1 r x n)
  let ?r = "if n AND 1 \<noteq> 0 then fixed_mult FSHIFT r x else r" and ?x = "fixed_mult FSHIFT x x" and ?n = "drop_bit 1 n"
  let ?R = "if n AND 1 \<noteq> 0 then R * X else R" and ?er = "if n AND 1 \<noteq> 0 then er + ex + 1 / 2 else er"
  note p = 1(2-)
  have r: "unat ?r \<le> 2048" "0 \<le> ?R" "?R \<le> 1" "\<bar>real (unat ?r) - 2048 * ?R\<bar> \<le> ?er"
    using p unat_fixed_mult(2) [of r x] fixed_mult_err [of r x R X er ex] mult_le_one [of R X] by auto
  have x: "unat ?x \<le> 2048" "0 \<le> X * X" "X * X \<le> 1" "\<bar>real (unat ?x) - 2048 * (X * X)\<bar> \<le> ex + ex + 1 / 2"
    using p unat_fixed_mult(2) [of x x] fixed_mult_err [of x x X X ex ex] mult_le_one [of X X] by auto
  have n: "unat ?n = unat n div 2" by (rule unat_drop_bit_1)
  define m where "m = unat n div 2"
  have cases: "unat n = (if n AND 1 \<noteq> 0 then 2 * m + 1 else 2 * m)"
    unfolding and_1_odd m_def by (cases "odd (unat n)") simp_all
  have pow: "?R * (X * X) ^ m = R * X ^ unat n"
    unfolding cases by (simp add: power_mult power2_eq_square)
  have err: "?er + real m * (ex + ex + 1 / 2 + 1 / 2) = er + real (unat n) * (ex + 1 / 2)"
    unfolding cases by (simp add: algebra_simps)
  show ?case
  proof (cases "?n = 0")
    case True
    then have z: "m = 0" using n unfolding m_def by (metis unat_0)
    have "fixed_power_loop FSHIFT r x n = ?r" using True by (subst fixed_power_loop.simps) (simp add: Let_def)
    then show ?thesis using r pow err unfolding z by auto
  next
    case False
    have e: "fixed_power_loop FSHIFT r x n = fixed_power_loop FSHIFT ?r ?x ?n"
      using False by (subst fixed_power_loop.simps) (simp add: Let_def)
    from 1(1) [OF refl refl False r(1) x(1) r(2,3) x(2,3) r(4) x(4)] show ?thesis
      unfolding e n m_def [symmetric] pow err .
  qed
qed

section \<open>The global average\<close>

lemma FIXED_1_num [simp]: "FIXED_1 = 2048"
  by (simp add: FIXED_1_def FSHIFT_def)

lemma unat_mult_less: "unat a * unat b < 2 ^ 32 \<Longrightarrow> unat (a * b) = unat a * unat b" for a b :: ulong
  using unat_mult_lem [of a b] by simp

lemma unat_add_less: "unat a + unat b < 2 ^ 32 \<Longrightarrow> unat (a + b) = unat a + unat b" for a b :: ulong
  using unat_add_lem [of a b] by simp

lemma convex_bound:
  fixes L A e M :: nat
  assumes "e \<le> 2048" and "L \<le> M" and "A \<le> M"
  shows "L * e + A * (2048 - e) \<le> M * 2048"
proof -
  have "L * e + A * (2048 - e) \<le> M * e + M * (2048 - e)" using assms by (intro add_mono mult_le_mono1)
  also have "\<dots> = M * 2048" using assms(1) by (simp flip: distrib_left)
  finally show ?thesis .
qed

lemma convex_bound_below:
  fixes L A e m :: nat
  assumes "e \<le> 2048" and "m \<le> L" and "m \<le> A"
  shows "m * 2048 \<le> L * e + A * (2048 - e)"
proof -
  have "m * 2048 = m * e + m * (2048 - e)" using assms(1) by (simp flip: distrib_left)
  also have "\<dots> \<le> L * e + A * (2048 - e)" using assms by (intro add_mono mult_le_mono1)
  finally show ?thesis .
qed

text \<open>Averages up to 1023 tasks do not overflow 32 bits.\<close>

definition load_max :: nat where "load_max = 2097150"

lemma unat_calc_load:
  assumes e: "unat ex \<le> 2048" and l: "unat load \<le> load_max" and a: "unat act \<le> load_max"
  shows "unat (calc_load load ex act) = (unat load * unat ex + unat act * (2048 - unat ex) + 1024) div 2048"
proof -
  have s: "unat (FIXED_1 - ex) = 2048 - unat ex" using e by (simp add: unat_sub word_le_nat_alt)
  have b: "unat load * unat ex + unat act * (2048 - unat ex) \<le> load_max * 2048" by (rule convex_bound [OF e l a])
  have p: "unat (load * ex) = unat load * unat ex" "unat (act * (FIXED_1 - ex)) = unat act * (2048 - unat ex)"
    unfolding s [symmetric] by (rule unat_mult_less, use b s in \<open>simp add: load_max_def\<close>)+
  have "unat (load * ex + act * (FIXED_1 - ex)) = unat load * unat ex + unat act * (2048 - unat ex)"
    unfolding p [symmetric] by (rule unat_add_less) (use b in \<open>simp add: p load_max_def del: FIXED_1_num\<close>)
  then have "unat (load * ex + act * (FIXED_1 - ex) + 1024) = unat load * unat ex + unat act * (2048 - unat ex) + 1024"
    using b by (subst unat_add_less) (simp_all add: load_max_def del: FIXED_1_num)
  then show ?thesis
    by (simp add: calc_load_def FSHIFT_def Let_def drop_bit_eq_div push_bit_eq_mult unat_div)
qed

lemma calc_load_between:
  assumes "unat ex \<le> 2048" and "unat load \<le> load_max" and "unat act \<le> load_max"
  shows "min load act \<le> calc_load load ex act" and "calc_load load ex act \<le> max load act"
proof -
  let ?v = "unat load * unat ex + unat act * (2048 - unat ex)"
  have "?v \<le> max (unat load) (unat act) * 2048" "min (unat load) (unat act) * 2048 \<le> ?v"
    by (rule convex_bound [OF assms(1)] convex_bound_below [OF assms(1)]; simp)+
  then have "min (unat load) (unat act) \<le> unat (calc_load load ex act)" "unat (calc_load load ex act) \<le> max (unat load) (unat act)"
    unfolding unat_calc_load [OF assms] by linarith+
  then show "min load act \<le> calc_load load ex act" "calc_load load ex act \<le> max load act"
    by (auto simp: word_le_nat_alt min_def max_def split: if_splits)
qed

lemma fixed_power_int_le:
  assumes "unat x \<le> 2048"
  shows "unat (fixed_power_int x FSHIFT n) \<le> 2048"
    and "\<bar>real (unat (fixed_power_int x FSHIFT n)) - 2048 * (real (unat x) / 2048) ^ unat n\<bar> \<le> real (unat n) / 2"
proof -
  have one: "push_bit FSHIFT (1 :: ulong) = 2048" by (simp add: FSHIFT_def)
  define X where "X = real (unat x) / 2048"
  have "real (unat x) \<le> 2048" using of_nat_mono [OF assms, where 'a = real] unfolding of_nat_numeral .
  then have X: "0 \<le> X" "X \<le> 1" "\<bar>real (unat x) - 2048 * X\<bar> \<le> 0" using of_nat_0_le_iff [of "unat x", where 'a = real]
    unfolding X_def by linarith+
  have e: "unat (fixed_power_loop FSHIFT 2048 x n) \<le> 2048 \<and>
      \<bar>real (unat (fixed_power_loop FSHIFT 2048 x n)) - 2048 * (1 * X ^ unat n)\<bar> \<le> 0 + real (unat n) * (0 + 1 / 2)"
    by (rule fixed_power_loop_err [OF _ assms _ _ X(1,2) _ X(3)]) simp_all
  have f: "fixed_power_int x FSHIFT n = (if n = 0 then 2048 else fixed_power_loop FSHIFT 2048 x n)"
    by (simp add: fixed_power_int_def one del: push_bit_of_1)
  show "unat (fixed_power_int x FSHIFT n) \<le> 2048"
    "\<bar>real (unat (fixed_power_int x FSHIFT n)) - 2048 * (real (unat x) / 2048) ^ unat n\<bar> \<le> real (unat n) / 2"
    unfolding X_def [symmetric] using e by (simp_all add: f)
qed

text \<open>Rounding up keeps a small fifteen-minute average where it is.\<close>

lemma calc_load_stuck:
  assumes "unat load \<le> 93"
  shows "calc_load load EXP_15 0 = load"
proof -
  have e: "unat EXP_15 = 2037" by (simp add: EXP_15_def)
  have "unat (calc_load load EXP_15 0) = (unat load * 2037 + 1024) div 2048"
    using unat_calc_load [of EXP_15 load 0] assms by (simp add: e load_max_def)
  also have "\<dots> = unat load" using assms by (intro div_nat_eqI) simp_all
  finally show ?thesis by (rule unsigned_word_eqI)
qed

section \<open>The count of active tasks\<close>

text \<open>What the tasks and the two idle deltas hold together is what the run queue was last sampled with.\<close>

definition load_sum :: "load_state \<Rightarrow> ulong" where
  "load_sum l = calc_load_tasks l + calc_load_idle l False + calc_load_idle l True"

inductive load_step :: "nat \<Rightarrow> load_state \<Rightarrow> load_state \<Rightarrow> bool" for hz where
  enter_idle: "load_step hz l (calc_load_enter_idle j r l)"
| exit_idle: "load_step hz l (calc_load_exit_idle hz j l)"
| global: "load_step hz l (calc_global_load hz j l)"
| tick: "update_cpu_load_active hz w j r l = Some l' \<Longrightarrow> load_step hz l l'"

inductive load_reachable :: "nat \<Rightarrow> load_state \<Rightarrow> load_state \<Rightarrow> bool" for hz l where
  start: "load_reachable hz l l"
| step: "load_reachable hz l m \<Longrightarrow> load_step hz m n \<Longrightarrow> load_reachable hz l n"

lemma load_sum_upd: "load_sum (l\<lparr>calc_load_idle := (calc_load_idle l)(i := calc_load_idle l i + d)\<rparr>) = load_sum l + d"
  by (cases i) (simp_all add: load_sum_def)

lemma load_sum_frame [simp]:
  "load_sum (l\<lparr>avenrun := a\<rparr>) = load_sum l" "load_sum (l\<lparr>calc_load_update := u\<rparr>) = load_sum l"
  "load_sum (l\<lparr>calc_load_idx := x\<rparr>) = load_sum l" "load_sum (l\<lparr>rq_calc_load_update := v\<rparr>) = load_sum l"
  "load_sum (l\<lparr>calc_load_active := w\<rparr>) = load_sum l" "load_sum (l\<lparr>nr_load_updates := y\<rparr>) = load_sum l"
  "load_sum (l\<lparr>last_load_update_tick := t, cpu_load := c\<rparr>) = load_sum l"
  "load_sum (l\<lparr>calc_load_tasks := calc_load_tasks l + d\<rparr>) = load_sum l + d"
  by (simp_all add: load_sum_def)

lemma fold_active_sum:
  assumes "calc_load_fold_active r l = (d, m)"
  shows "load_sum m = load_sum l" and "calc_load_active m = calc_load_active l + d"
    and "calc_load_active m = nr_running r + nr_uninterruptible r"
  using assms by (auto simp: calc_load_fold_active_def Let_def split: if_splits)

lemma calc_global_nohz_sum:
  "load_sum (calc_global_nohz hz j l) = load_sum l" "calc_load_active (calc_global_nohz hz j l) = calc_load_active l"
  by (simp_all add: calc_global_nohz_def Let_def load_sum_def)

lemma calc_global_load_sum:
  "load_sum (calc_global_load hz j l) = load_sum l" "calc_load_active (calc_global_load hz j l) = calc_load_active l"
proof -
  obtain d m where f: "calc_load_fold_idle l = (d, m)" by fastforce
  have m: "load_sum m + d = load_sum l" "calc_load_active m = calc_load_active l"
    using f by (cases "calc_load_read_idx l"; auto simp: calc_load_fold_idle_def Let_def load_sum_def split: if_splits)+
  then show "load_sum (calc_global_load hz j l) = load_sum l" "calc_load_active (calc_global_load hz j l) = calc_load_active l"
    by (auto simp: calc_global_load_def f Let_def calc_global_nohz_sum)
qed

lemma account_active_sum:
  "load_sum (calc_load_account_active hz j r l) - calc_load_active (calc_load_account_active hz j r l) =
   load_sum l - calc_load_active l"
proof -
  obtain d m where f: "calc_load_fold_active r l = (d, m)" by fastforce
  show ?thesis using fold_active_sum [OF f] by (simp add: calc_load_account_active_def f Let_def)
qed

lemma load_step_sum:
  assumes "load_step hz l m" and "load_sum l = calc_load_active l"
  shows "load_sum m = calc_load_active m"
  using assms(1)
proof cases
  case (enter_idle j r)
  obtain d m1 where f: "calc_load_fold_active r l = (d, m1)" by fastforce
  show ?thesis using fold_active_sum [OF f] assms(2) by (simp add: enter_idle calc_load_enter_idle_def f Let_def load_sum_upd)
next
  case (exit_idle j)
  then show ?thesis using assms(2) by (simp add: calc_load_exit_idle_def Let_def)
next
  case (global j)
  then show ?thesis using assms(2) calc_global_load_sum by simp
next
  case (tick w j r)
  then obtain l1 where l1: "update_cpu_load w j l = Some l1" "m = calc_load_account_active hz j r l1"
    by (auto simp: update_cpu_load_active_def bind_eq_Some_conv)
  have "load_sum l1 = load_sum l" "calc_load_active l1 = calc_load_active l"
    using l1(1) by (auto simp: update_cpu_load_def Let_def bind_eq_Some_conv load_sum_def split: if_splits)
  then show ?thesis using account_active_sum [of hz j r l1] assms(2) l1(2) by simp
qed

section \<open>The load of a CPU\<close>

lemma next_cpu_load_towards:
  assumes i: "1 \<le> i" "i < CPU_LOAD_IDX_MAX" and b: "unat old < 2 ^ 27" "unat this < 2 ^ 27"
  shows "this > old \<Longrightarrow> old < next_cpu_load i old this \<and> next_cpu_load i old this \<le> this"
    and "this < old \<Longrightarrow> this \<le> next_cpu_load i old this \<and> next_cpu_load i old this < old"
    and "this = old \<Longrightarrow> next_cpu_load i old this = old"
proof -
  define S where "S = (2 :: nat) ^ i"
  have "i = 1 \<or> i = 2 \<or> i = 3 \<or> i = 4" using i by (auto simp: CPU_LOAD_IDX_MAX_def)
  then have S: "2 \<le> S" "S \<le> 16" and sc: "unat (2 ^ i - 1 :: ulong) = S - 1" "unat (2 ^ i :: ulong) = S"
    by (auto simp: S_def)
  define L where "L = unat old" define T where "T = unat this"
  have le: "L * (S - 1) \<le> 2 ^ 27 * 15" using b(1) S by (intro mult_le_mono) (auto simp: L_def)
  have m: "unat (old * (2 ^ i - 1)) = L * (S - 1)"
    using le by (subst unat_mult_less) (simp_all add: sc L_def)
  have t: "unat (this + (2 ^ i - 1)) = T + (S - 1)"
    using b(2) S by (subst unat_add_less) (simp_all add: sc T_def)
  have v: "unat (next_cpu_load i old this) = (L * (S - 1) + (if L < T then T + (S - 1) else T)) div S"
  proof (cases "L < T")
    case True
    then have "old < this" by (simp add: L_def T_def word_less_nat_alt)
    moreover have "unat (old * (2 ^ i - 1) + (this + (2 ^ i - 1))) = L * (S - 1) + (T + (S - 1))"
      using le b(2) S by (subst unat_add_less) (simp_all add: m t T_def)
    ultimately show ?thesis using True
      by (simp add: next_cpu_load_def Let_def drop_bit_eq_div unat_div sc)
  next
    case False
    then have "\<not> old < this" by (simp add: L_def T_def word_less_nat_alt)
    moreover have "unat (old * (2 ^ i - 1) + this) = L * (S - 1) + T"
      using le b(2) by (subst unat_add_less) (simp_all add: m T_def)
    ultimately show ?thesis using False
      by (simp add: next_cpu_load_def Let_def drop_bit_eq_div unat_div sc)
  qed
  have Ls: "L * (S - 1) = L * S - L" "L \<le> L * S" using S by (simp_all add: diff_mult_distrib2)
  have up: "L < T \<Longrightarrow> (L + 1) * S \<le> L * (S - 1) + (T + (S - 1))" "L < T \<Longrightarrow> L * (S - 1) + (T + (S - 1)) < (T + 1) * S"
  proof -
    assume lt: "L < T"
    show "(L + 1) * S \<le> L * (S - 1) + (T + (S - 1))" using lt Ls S by (simp add: algebra_simps)
    obtain u v where uv: "T = Suc u" "S = Suc v" using lt S by (cases T; cases S) auto
    have "L * v \<le> u * v" using lt uv by (intro mult_le_mono1) simp
    then have "L * v < Suc (v + u * v)" by linarith
    then show "L * (S - 1) + (T + (S - 1)) < (T + 1) * S" by (simp add: uv algebra_simps)
  qed
  have down: "T < L \<Longrightarrow> T * S \<le> L * (S - 1) + T" "T < L \<Longrightarrow> L * (S - 1) + T < L * S"
  proof -
    assume lt: "T < L"
    have "T * (S - 1) \<le> L * (S - 1)" using lt by (intro mult_le_mono1) simp
    moreover have "T * S = T * (S - 1) + T" using S by (cases S) simp_all
    ultimately show "T * S \<le> L * (S - 1) + T" by simp
    have "L * S = L * (S - 1) + L" using S by (cases S) simp_all
    then show "L * (S - 1) + T < L * S" using lt by linarith
  qed
  have S0: "0 < S" using S by simp
  have dv: "a * S \<le> x \<Longrightarrow> x < b * S \<Longrightarrow> a \<le> x div S \<and> x div S < b" for a b x
    using less_eq_div_iff_mult_less_eq [OF S0] div_less_iff_less_mult [OF S0] by blast
  note w = word_less_nat_alt word_le_nat_alt v L_def [symmetric] T_def [symmetric]
  show "this > old \<Longrightarrow> old < next_cpu_load i old this \<and> next_cpu_load i old this \<le> this"
    using dv [OF up] unfolding w by auto
  show "this < old \<Longrightarrow> this \<le> next_cpu_load i old this \<and> next_cpu_load i old this < old"
    using dv [OF down] unfolding w by auto
  have eq: "(L * (S - 1) + L) div S = L" using Ls S by (simp add: mult.commute)
  show "next_cpu_load i old this = old" if "this = old"
  proof (rule unsigned_word_eqI)
    have "L = T" using that by (simp add: L_def T_def)
    with v eq show "unat (next_cpu_load i old this) = unat old" by (simp add: L_def [symmetric])
  qed
qed

lemma degrade_le:
  assumes "idx < CPU_LOAD_IDX_MAX" and "j < DEGRADE_SHIFT + 1"
  shows "unat (degrade_factor ! idx ! j) \<le> 128"
proof -
  have "list_all (list_all (\<lambda>f. unat f \<le> 128)) degrade_factor" by (simp add: degrade_factor_def)
  moreover have "idx < length degrade_factor" "list_all (\<lambda>r. length r = 8) degrade_factor"
    using assms by (simp_all add: degrade_factor_def CPU_LOAD_IDX_MAX_def)
  ultimately show ?thesis using assms(2) by (simp add: list_all_length DEGRADE_SHIFT_def)
qed

lemma decay_loop_bounds:
  assumes "idx < CPU_LOAD_IDX_MAX" and "unat missed < 2 ^ k" and "j + k \<le> 8" and "unat load < 2 ^ 25"
  shows "\<exists>l. decay_loop idx j missed load = Some l \<and> l \<le> load"
  using assms(2-4)
proof (induction k arbitrary: j missed load)
  case 0
  then have "missed = 0" by (simp add: unat_eq_zero)
  then show ?case by (simp add: decay_loop.simps)
next
  case (Suc k)
  let ?l = "drop_bit DEGRADE_SHIFT (load * (degrade_factor ! idx ! j))"
  have f: "unat (degrade_factor ! idx ! j) \<le> 128" using degrade_le [OF assms(1), of j] Suc.prems(2) by (simp add: DEGRADE_SHIFT_def)
  then have le: "unat load * unat (degrade_factor ! idx ! j) \<le> unat load * 128" by (rule mult_le_mono2)
  then have "unat (load * (degrade_factor ! idx ! j)) = unat load * unat (degrade_factor ! idx ! j)"
    using Suc.prems(3) by (intro unat_mult_less le_less_trans [OF le]) simp
  then have "unat ?l = unat load * unat (degrade_factor ! idx ! j) div 128"
    by (simp add: DEGRADE_SHIFT_def drop_bit_eq_div unat_div)
  then have l: "unat ?l \<le> unat load" using div_le_mono [OF le, of 128] by simp
  have m: "unat (drop_bit 1 missed) < 2 ^ k" unfolding unat_drop_bit_1 using Suc.prems(1) by simp
  have j: "Suc j + k \<le> 8" using Suc.prems(2) by simp
  define l1 where "l1 = (if missed mod 2 \<noteq> 0 then ?l else load)"
  have l1: "unat l1 \<le> unat load" using l by (simp add: l1_def)
  obtain r where r: "decay_loop idx (Suc j) (drop_bit 1 missed) l1 = Some r" "r \<le> l1"
    using Suc.IH [OF m j, of l1] l1 Suc.prems(3) by auto
  have "decay_loop idx j missed load = (if missed = 0 then Some load else decay_loop idx (Suc j) (drop_bit 1 missed) l1)"
    using assms(1) Suc.prems(2) by (subst decay_loop.simps) (simp add: l1_def Let_def DEGRADE_SHIFT_def)
  then show ?case using r l1 by (auto simp: word_le_nat_alt)
qed

lemma decay_load_missed_ok:
  assumes "idx < CPU_LOAD_IDX_MAX" and "unat load < 2 ^ 25"
  shows "\<exists>l. decay_load_missed load missed idx = Some l \<and> l \<le> load"
proof (cases "missed = 0 \<or> degrade_zero_ticks ! idx \<le> missed")
  case True
  then show ?thesis using assms(1) by (auto simp: decay_load_missed_def)
next
  case False
  have "idx = 0 \<or> idx = 1 \<or> idx = 2 \<or> idx = 3 \<or> idx = 4" using assms(1) by (auto simp: CPU_LOAD_IDX_MAX_def)
  then have "unat (degrade_zero_ticks ! idx) \<le> 2 ^ 7" by (auto simp: degrade_zero_ticks_def)
  then have "unat missed < 2 ^ 7" using False by (simp add: word_le_nat_alt)
  then have "\<exists>l. decay_loop idx 0 missed load = Some l \<and> l \<le> load"
    by (intro decay_loop_bounds [OF assms(1) _ _ assms(2), of _ 7]) simp_all
  moreover have "drop_bit n load \<le> load" for n
    by (simp add: word_le_nat_alt unat_drop_bit_eq) (simp add: drop_bit_eq_div)
  ultimately show ?thesis using False assms(1) by (auto simp: decay_load_missed_def)
qed

lemma update_from_ok:
  assumes "distinct js" and "\<forall>i \<in> set js. 1 \<le> i \<and> i < CPU_LOAD_IDX_MAX" and "length cl = CPU_LOAD_IDX_MAX"
    and "\<forall>i \<in> set js. unat (cl ! i) < 2 ^ 25"
  shows "\<exists>cl'. update_cpu_load_from pending w js cl = Some cl' \<and> length cl' = CPU_LOAD_IDX_MAX \<and>
    (\<forall>i. i \<notin> set js \<longrightarrow> cl' ! i = cl ! i) \<and>
    (\<forall>i \<in> set js. \<exists>old. decay_load_missed (cl ! i) (pending - 1) i = Some old \<and> old \<le> cl ! i \<and> cl' ! i = next_cpu_load i old w)"
  using assms
proof (induction js arbitrary: cl)
  case (Cons i js)
  obtain old where old: "decay_load_missed (cl ! i) (pending - 1) i = Some old" "old \<le> cl ! i"
    using decay_load_missed_ok [of i "cl ! i" "pending - 1"] Cons.prems by auto
  let ?c = "cl[i := next_cpu_load i old w]"
  have same: "?c ! x = cl ! x" if "x \<in> set js" for x using that Cons.prems(1) by (metis distinct.simps(2) nth_list_update_neq)
  obtain cl' where c: "update_cpu_load_from pending w js ?c = Some cl'" "length cl' = CPU_LOAD_IDX_MAX"
    "\<forall>x. x \<notin> set js \<longrightarrow> cl' ! x = ?c ! x"
    "\<forall>x \<in> set js. \<exists>old. decay_load_missed (?c ! x) (pending - 1) x = Some old \<and> old \<le> ?c ! x \<and> cl' ! x = next_cpu_load x old w"
    using Cons.IH [of ?c] Cons.prems same by auto
  have "cl' ! i = next_cpu_load i old w" using c(3) Cons.prems by simp
  moreover have "cl' ! x = cl ! x" if "x \<notin> set (i # js)" for x using c(3) that by simp
  ultimately show ?case using old c(1,2,4) same by (simp add: bind_eq_Some_conv)
qed simp

section \<open>Properties\<close>

text \<open>C25: \<^verbatim>\<open>fixed_power_int\<close> computes the power of a fixed-point number up to 1.0 with an error of at most half a unit in
  the last place per factor, never more than 1.0, and without overflow.\<close>

theorem fixed_power_int_accurate:
  assumes "x \<le> FIXED_1"
  shows "fixed_power_int x FSHIFT n \<le> FIXED_1 \<and>
    \<bar>real (unat (fixed_power_int x FSHIFT n)) - 2048 * (real (unat x) / 2048) ^ unat n\<bar> \<le> real (unat n) / 2"
proof -
  have "unat x \<le> 2048" using assms by (simp add: word_le_nat_alt)
  then show ?thesis using fixed_power_int_le [of x n] by (simp add: word_le_nat_alt)
qed

theorem fixed_power_int_accurate_witness: "fixed_power_int EXP_1 FSHIFT 12 \<le> FIXED_1"
  using fixed_power_int_accurate [of EXP_1 12] by (simp add: EXP_1_def)

text \<open>Folding any number of missed intervals into an average keeps it between the old average and the number of
  active tasks, as long as both are below 1024 tasks: there is no overflow and no overshoot.\<close>

lemma calc_load_n_between:
  assumes "ex \<le> FIXED_1" and "unat load \<le> load_max" and "unat act \<le> load_max"
  shows "min load act \<le> calc_load_n load ex act n \<and> calc_load_n load ex act n \<le> max load act"
proof -
  have "unat ex \<le> 2048" using assms(1) by (simp add: word_le_nat_alt)
  from calc_load_between [OF fixed_power_int_le(1) [OF this] assms(2,3)] show ?thesis by (simp add: calc_load_n_def)
qed

lemma calc_load_n_between_witness: "calc_load_n 4096 EXP_1 2048 3 \<le> 4096"
  using calc_load_n_between [of EXP_1 4096 2048 3] by (simp add: EXP_1_def load_max_def max_def)

text \<open>A fifteen-minute load average of at most 93/2048, shown as 0.05, never decays on an idle system.\<close>

lemma load_average_stuck:
  assumes "unat load \<le> 93"
  shows "((\<lambda>l. calc_load l EXP_15 0) ^^ n) load = load"
  using calc_load_stuck [OF assms] by (induction n) simp_all

lemma load_average_stuck_witness: "((\<lambda>l. calc_load l EXP_15 0) ^^ 1000) 93 = 93"
  using load_average_stuck [of 93 1000] by simp

text \<open>C26: No change of the number of active tasks is lost between ticks, tickless idle and the global update: the global
  count and the pending idle deltas always add up to the number the run queue was last sampled with, and
  a sample makes that the present number of running and uninterruptible tasks.\<close>

theorem load_count_exact:
  assumes "load_reachable hz l m" and "load_sum l = calc_load_active l"
  shows "load_sum m = calc_load_active m \<and>
    load_sum (calc_load_enter_idle j r m) = nr_running r + nr_uninterruptible r \<and>
    (\<not> time_before j (rq_calc_load_update m) \<longrightarrow>
       load_sum (calc_load_account_active hz j r m) = nr_running r + nr_uninterruptible r)"
proof -
  have m: "load_sum m = calc_load_active m" using assms(1) by induction (use assms(2) load_step_sum in blast)+
  obtain d m1 where f: "calc_load_fold_active r m = (d, m1)" by fastforce
  note a = fold_active_sum [OF f]
  have "load_sum (calc_load_enter_idle j r m) = nr_running r + nr_uninterruptible r"
    using a m by (simp add: calc_load_enter_idle_def f Let_def load_sum_upd)
  moreover have "load_sum (calc_load_account_active hz j r m) = nr_running r + nr_uninterruptible r"
    if "\<not> time_before j (rq_calc_load_update m)"
    using a m that by (simp add: calc_load_account_active_def f Let_def)
  ultimately show ?thesis using m by blast
qed

definition sample_load :: load_state where
  "sample_load = \<lparr>calc_load_tasks = 0, calc_load_update = 501, avenrun = [0, 0, 0], calc_load_idle = (\<lambda>_. 0), calc_load_idx = 0,
     calc_load_active = 0, rq_calc_load_update = 501, cpu_load = [0, 0, 0, 0, 0], last_load_update_tick = 0, nr_load_updates = 0\<rparr>"

theorem load_count_exact_witness:
  "load_sum (calc_load_enter_idle 7 sample_rq (calc_global_load 100 600 sample_load)) = 3"
proof -
  have "load_reachable 100 sample_load (calc_global_load 100 600 sample_load)"
    by (rule load_reachable.step [OF load_reachable.start load_step.global])
  from load_count_exact [OF this, of 7 sample_rq] show ?thesis by (simp add: load_sum_def sample_load_def sample_rq_def)
qed

text \<open>C27: \<^verbatim>\<open>update_cpu_load\<close> stays inside its tables for every gap between updates; in consecutive ticks each average moves
  strictly towards the present load without passing it. The present load and the averages are below \<open>2 ^ 25\<close>, so that the products by the
  degradation factors do not wrap.\<close>

theorem cpu_load_converges:
  assumes "length (cpu_load l) = CPU_LOAD_IDX_MAX" and "\<forall>i < CPU_LOAD_IDX_MAX. unat (cpu_load l ! i) < 2 ^ 25"
    and "unat w < 2 ^ 25"
  shows "\<exists>m. update_cpu_load w j l = Some m \<and> length (cpu_load m) = CPU_LOAD_IDX_MAX \<and>
    (j = last_load_update_tick l + 1 \<longrightarrow> cpu_load m ! 0 = w \<and> (\<forall>i. 1 \<le> i \<and> i < CPU_LOAD_IDX_MAX \<longrightarrow>
      (w > cpu_load l ! i \<longrightarrow> cpu_load l ! i < cpu_load m ! i \<and> cpu_load m ! i \<le> w) \<and>
      (w < cpu_load l ! i \<longrightarrow> w \<le> cpu_load m ! i \<and> cpu_load m ! i < cpu_load l ! i) \<and>
      (w = cpu_load l ! i \<longrightarrow> cpu_load m ! i = w)))"
proof (cases "j = last_load_update_tick l")
  case True
  then show ?thesis using assms(1) by (simp add: update_cpu_load_def Let_def)
next
  case False
  let ?c = "(cpu_load l)[0 := w]" and ?js = "[1..<CPU_LOAD_IDX_MAX]"
  obtain cl where c: "update_cpu_load_from (j - last_load_update_tick l) w ?js ?c = Some cl" "length cl = CPU_LOAD_IDX_MAX"
    "\<forall>i. i \<notin> set ?js \<longrightarrow> cl ! i = ?c ! i"
    "\<forall>i \<in> set ?js. \<exists>old. decay_load_missed (?c ! i) (j - last_load_update_tick l - 1) i = Some old \<and> old \<le> ?c ! i \<and>
      cl ! i = next_cpu_load i old w"
    using update_from_ok [of ?js ?c "j - last_load_update_tick l" w] assms by (auto simp: nth_list_update)
  have "cl ! i = next_cpu_load i (cpu_load l ! i) w" if "j = last_load_update_tick l + 1" "1 \<le> i" "i < CPU_LOAD_IDX_MAX" for i
    using c(4) that by (auto simp: decay_load_missed_def)
  moreover have "cl ! 0 = w" using c(3) assms(1) by (simp add: CPU_LOAD_IDX_MAX_def)
  moreover have "(w > old \<longrightarrow> old < v \<and> v \<le> w) \<and> (w < old \<longrightarrow> w \<le> v \<and> v < old) \<and> (w = old \<longrightarrow> v = w)"
    if "1 \<le> i" "i < CPU_LOAD_IDX_MAX" "old = cpu_load l ! i" "v = next_cpu_load i old w" for i old v
  proof -
    have "unat old < 2 ^ 27" "unat w < 2 ^ 27" using assms(2,3) that(2,3) by (auto intro: less_trans)
    from next_cpu_load_towards [OF that(1,2) this] show ?thesis using that(4) by simp
  qed
  ultimately show ?thesis using False c(1,2) by (simp add: update_cpu_load_def Let_def)
qed

theorem cpu_load_converges_witness:
  "\<exists>m. update_cpu_load 1024 1 sample_load = Some m \<and> 0 < cpu_load m ! 4"
proof -
  have a: "length (cpu_load sample_load) = CPU_LOAD_IDX_MAX" by (simp add: sample_load_def CPU_LOAD_IDX_MAX_def)
  have z: "cpu_load sample_load ! i = 0" if "i < CPU_LOAD_IDX_MAX" for i
  proof -
    have "i = 0 \<or> i = 1 \<or> i = 2 \<or> i = 3 \<or> i = 4" using that by (auto simp: CPU_LOAD_IDX_MAX_def)
    then show ?thesis by (auto simp: sample_load_def)
  qed
  have "last_load_update_tick sample_load = 0" by (simp add: sample_load_def)
  then show ?thesis using cpu_load_converges [OF a, of 1024 1] z by (auto simp: CPU_LOAD_IDX_MAX_def)
qed

end
