(* ===== verification/Run_Queue.thy ===== *)
theory Run_Queue
  imports Prelude
begin

text \<open>
  The contract between the scheduler core and a scheduling class that keeps its runnable
  tasks in first-in first-out queues: what enqueueing, dequeueing, requeueing and picking do
  to the sequence of queued tasks. The consequences proved here once, in particular that
  requeueing every picked task at the tail serves the tasks in turn, hold for each class that
  meets the contract (\<^verbatim>\<open>wrr.c\<close> as a whole, and each priority level of \<^verbatim>\<open>rt.c\<close>).
\<close>

text \<open>One turn: requeue the first task at the tail; \<open>turns\<close> collects the tasks served.\<close>

primrec turns :: "('s \<Rightarrow> 'a option) \<Rightarrow> (bool \<Rightarrow> 'a \<Rightarrow> 's \<Rightarrow> 's) \<Rightarrow> nat \<Rightarrow> 's \<Rightarrow> 'a list \<times> 's" where
  "turns pick requeue 0 s = ([], s)"
| "turns pick requeue (Suc n) s =
     (case pick s of
        None \<Rightarrow> ([], s)
      | Some x \<Rightarrow> (case turns pick requeue n (requeue False x s) of (xs, t) \<Rightarrow> (x # xs, t)))"

locale run_queue =
  fixes enqueue :: "bool \<Rightarrow> 'a \<Rightarrow> 's \<Rightarrow> 's"
    and dequeue :: "'a \<Rightarrow> 's \<Rightarrow> 's"
    and requeue :: "bool \<Rightarrow> 'a \<Rightarrow> 's \<Rightarrow> 's"
    and pick :: "'s \<Rightarrow> 'a option"
    and queue :: "'s \<Rightarrow> 'a list"
    and valid :: "'a \<Rightarrow> bool"
    and invar :: "'s \<Rightarrow> bool"
  assumes invar_distinct: "invar s \<Longrightarrow> distinct (queue s)"
    and queue_enqueue: "invar s \<Longrightarrow> valid x \<Longrightarrow> x \<notin> set (queue s) \<Longrightarrow>
      queue (enqueue head x s) = (if head then x # queue s else queue s @ [x])"
    and queue_dequeue: "invar s \<Longrightarrow> x \<in> set (queue s) \<Longrightarrow>
      queue (dequeue x s) = remove1 x (queue s)"
    and queue_requeue: "invar s \<Longrightarrow> x \<in> set (queue s) \<Longrightarrow>
      queue (requeue head x s) =
        (if head then x # remove1 x (queue s) else remove1 x (queue s) @ [x])"
    and pick_first: "invar s \<Longrightarrow>
      pick s = (case queue s of [] \<Rightarrow> None | x # _ \<Rightarrow> Some x)"
    and invar_enqueue: "invar s \<Longrightarrow> valid x \<Longrightarrow> x \<notin> set (queue s) \<Longrightarrow> invar (enqueue head x s)"
    and invar_dequeue: "invar s \<Longrightarrow> x \<in> set (queue s) \<Longrightarrow> invar (dequeue x s)"
    and invar_requeue: "invar s \<Longrightarrow> x \<in> set (queue s) \<Longrightarrow> invar (requeue head x s)"
begin

lemmas queue_specs = queue_enqueue queue_dequeue queue_requeue pick_first

lemma dequeue_enqueue:
  assumes "invar s" and "valid x" and "x \<notin> set (queue s)"
  shows "queue (dequeue x (enqueue head x s)) = queue s"
proof -
  have "x \<in> set (queue (enqueue head x s))"
    using assms by (simp add: queue_enqueue)
  then show ?thesis
    using assms by (simp add: queue_dequeue invar_enqueue queue_enqueue remove1_append)
qed

lemma set_requeue:
  assumes "invar s" and "x \<in> set (queue s)"
  shows "set (queue (requeue head x s)) = set (queue s)"
  using assms by (auto simp: queue_requeue invar_distinct)

lemma pick_in_queue: "invar s \<Longrightarrow> pick s = Some x \<Longrightarrow> x \<in> set (queue s)"
  by (auto simp: pick_first split: list.splits)

lemma pick_None_iff: "invar s \<Longrightarrow> pick s = None \<longleftrightarrow> queue s = []"
  by (auto simp: pick_first split: list.splits)

lemma turn_queue:
  assumes "invar s" and "queue s = x # xs"
  shows "pick s = Some x" and "queue (requeue False x s) = xs @ [x]"
    and "invar (requeue False x s)"
  using assms by (simp_all add: pick_first queue_requeue invar_requeue)

text \<open>The tasks served in \<open>n\<close> turns are the heads met by rotating the queue.\<close>

lemma turns_rotation:
  "invar s \<Longrightarrow> fst (turns pick requeue n s) = rotation_heads n (queue s)"
proof (induction n arbitrary: s)
  case (Suc n)
  show ?case
  proof (cases "queue s")
    case Nil
    with Suc.prems show ?thesis by (simp add: pick_first)
  next
    case (Cons x xs)
    note turn = turn_queue [OF Suc.prems Cons]
    from Suc.IH [OF turn(3)] turn Cons show ?thesis
      by (simp add: split_beta)
  qed
qed simp

lemma turns_queue:
  "invar s \<Longrightarrow> queue (snd (turns pick requeue n s)) = rotate n (queue s)
     \<and> invar (snd (turns pick requeue n s))"
proof (induction n arbitrary: s)
  case (Suc n)
  show ?case
  proof (cases "queue s")
    case Nil
    with Suc.prems show ?thesis by (simp add: pick_first)
  next
    case (Cons x xs)
    note turn = turn_queue [OF Suc.prems Cons]
    have "rotate (Suc n) (queue s) = rotate n (xs @ [x])"
      by (simp add: Cons rotate1_rotate_swap [symmetric] del: rotate_Suc)
        (simp add: rotate1_rotate_swap)
    with Suc.IH [OF turn(3)] turn show ?thesis
      by (simp add: split_beta)
  qed
qed simp

text \<open>One full round serves every queued task exactly once and restores the order.\<close>

lemma full_round:
  assumes "invar s"
  shows "fst (turns pick requeue (length (queue s)) s) = queue s"
    and "queue (snd (turns pick requeue (length (queue s)) s)) = queue s"
  using turns_rotation [OF assms] turns_queue [OF assms] by (simp_all add: rotation_heads_length)

end

end
