(* ===== verification/Rt_Queue.thy ===== *)
theory Rt_Queue
  imports Sample Run_Queue "HOL-Library.Multiset"
begin

text \<open>
  The priority array of the real-time class and the counters of one \<^verbatim>\<open>struct rt_rq\<close>: the parts of
  \<^verbatim>\<open>basic/kernel/sched/rt.c\<close> that read and write a single \<^verbatim>\<open>rt_rq\<close>. The invariant \<open>rt_rq_wf\<close> says that the
  bitmap marks exactly the non-empty queues, that no entity is queued twice, and that
  \<^verbatim>\<open>rt_nr_running\<close> and \<^verbatim>\<open>highest_prio.curr\<close> agree with the queues.
\<close>

section \<open>Operations on one \<^verbatim>\<open>rt_rq\<close>\<close>

abbreviation rtq :: "rt_rq \<Rightarrow> int \<Rightarrow> ptr list" where
  "rtq r \<equiv> rt_queue (active r)"

abbreviation rtbm :: "rt_rq \<Rightarrow> int \<Rightarrow> bool" where
  "rtbm r \<equiv> bitmap (active r)"

text \<open>
  The loop of \<^verbatim>\<open>init_rt_rq\<close> runs over the priorities below \<open>MAX_RT_PRIO\<close>; \<^verbatim>\<open>highest_prio\<close> is set by the
  function only under \<^verbatim>\<open>CONFIG_SMP\<close> (and by \<^verbatim>\<open>init_tg_rt_entry\<close> under \<^verbatim>\<open>CONFIG_RT_GROUP_SCHED\<close>).
\<close>

definition init_rt_rq :: "kenv \<Rightarrow> rt_rq \<Rightarrow> rt_rq" where
  "init_rt_rq K r =
     (let a = fold (\<lambda>i a. a\<lparr>rt_queue := (rt_queue a)(i := []),
                            bitmap := clear_bit_op (kbits K) i (bitmap a)\<rparr>)
                [0..MAX_RT_PRIO - 1] (active r)
      in r\<lparr>active := a\<lparr>bitmap := set_bit_op (kbits K) MAX_RT_PRIO (bitmap a)\<rparr>,
           rt_time := 0, rt_throttled := False, rt_runtime := 0\<rparr>)"

definition rt_rq_throttled :: "rt_rq \<Rightarrow> bool" where
  "rt_rq_throttled r = (rt_throttled r \<and> rt_nr_boosted r = 0)"

definition sched_rt_runtime :: "rt_rq \<Rightarrow> u64" where
  "sched_rt_runtime r = (if rt_tg r = None then RUNTIME_INF else rt_runtime r)"

definition inc_rt_prio :: "int \<Rightarrow> rt_rq \<Rightarrow> rt_rq" where
  "inc_rt_prio pr r =
     (let prev_prio = highest_prio_curr r
      in if pr < prev_prio then r\<lparr>highest_prio_curr := pr\<rparr> else r)"

definition dec_rt_prio :: "kenv \<Rightarrow> int \<Rightarrow> rt_rq \<Rightarrow> rt_rq" where
  "dec_rt_prio K pr r =
     (let prev_prio = highest_prio_curr r in
      if rt_nr_running r \<noteq> 0 then
        if pr = prev_prio
        then r\<lparr>highest_prio_curr := find_first_bit_op (kbits K) (rtbm r)\<rparr>
        else r
      else r\<lparr>highest_prio_curr := MAX_RT_PRIO\<rparr>)"

text \<open>Linking an entity into the queue of its priority, and unlinking it from the list it is on.\<close>

definition rt_link :: "kenv \<Rightarrow> ptr \<Rightarrow> int \<Rightarrow> bool \<Rightarrow> rt_rq \<Rightarrow> rt_rq" where
  "rt_link K e pr head r =
     r\<lparr>active := \<lparr>bitmap = set_bit_op (kbits K) pr (rtbm r),
        rt_queue = (rtq r)(pr := (if head then list_add_op (klists K) e (rtq r pr)
                                  else list_add_tail_op (klists K) e (rtq r pr)))\<rparr>\<rparr>"

definition rt_unlink :: "kenv \<Rightarrow> ptr \<Rightarrow> int \<Rightarrow> rt_rq \<Rightarrow> rt_rq" where
  "rt_unlink K e pr r =
     (let qs = (\<lambda>i. if e \<in> set (rtq r i) then list_del_init_op (klists K) e (rtq r i) else rtq r i)
      in r\<lparr>active := \<lparr>bitmap = (if qs pr = [] then clear_bit_op (kbits K) pr (rtbm r) else rtbm r),
                       rt_queue = qs\<rparr>\<rparr>)"

definition rt_requeue :: "kenv \<Rightarrow> ptr \<Rightarrow> int \<Rightarrow> bool \<Rightarrow> rt_rq \<Rightarrow> rt_rq" where
  "rt_requeue K e pr head r =
     r\<lparr>active := (active r)\<lparr>rt_queue := (rtq r)(pr :=
        (if head then list_move_op (klists K) e (rtq r pr)
         else list_move_tail_op (klists K) e (rtq r pr)))\<rparr>\<rparr>"

text \<open>
  \<^verbatim>\<open>pick_next_rt_entity\<close>: \<open>None\<close> is \<^verbatim>\<open>BUG_ON(idx >= MAX_RT_PRIO)\<close> or the entry of an empty queue.
\<close>

definition pick_next_rt_entity :: "kenv \<Rightarrow> rt_rq \<Rightarrow> ptr option" where
  "pick_next_rt_entity K r =
     (let idx = find_first_bit_op (kbits K) (rtbm r) in
      if idx \<ge> MAX_RT_PRIO then None
      else case rtq r idx of [] \<Rightarrow> None | e # _ \<Rightarrow> Some e)"

definition on_rt_list :: "ptr \<Rightarrow> rt_rq \<Rightarrow> bool" where
  "on_rt_list e r = list_ex (\<lambda>i. e \<in> set (rtq r i)) [0..MAX_RT_PRIO - 1]"

section \<open>The invariant\<close>

definition rt_all :: "rt_rq \<Rightarrow> ptr multiset" where
  "rt_all r = (\<Sum>i\<in>{0..<MAX_RT_PRIO}. mset (rtq r i))"

definition rt_arr_wf :: "rt_rq \<Rightarrow> bool" where
  "rt_arr_wf r \<longleftrightarrow>
     rtbm r MAX_RT_PRIO \<and>
     (\<forall>i\<in>{0..<MAX_RT_PRIO}. rtbm r i \<longleftrightarrow> rtq r i \<noteq> []) \<and>
     (\<forall>x. count (rt_all r) x \<le> 1) \<and> 0 \<notin># rt_all r \<and>
     (\<forall>i. i \<notin> {0..<MAX_RT_PRIO} \<longrightarrow> rtq r i = [])"

lemma rt_arr_wfI:
  assumes "rtbm r MAX_RT_PRIO"
    and "\<And>i. 0 \<le> i \<Longrightarrow> i < MAX_RT_PRIO \<Longrightarrow> rtbm r i \<longleftrightarrow> rtq r i \<noteq> []"
    and "\<And>x. count (rt_all r) x \<le> 1" and "0 \<notin># rt_all r"
    and "\<And>i. i \<notin> {0..<MAX_RT_PRIO} \<Longrightarrow> rtq r i = []"
  shows "rt_arr_wf r"
  using assms by (simp add: rt_arr_wf_def)

lemma rt_arr_wfD:
  assumes "rt_arr_wf r"
  shows "rtbm r MAX_RT_PRIO"
    and "\<And>i. 0 \<le> i \<Longrightarrow> i < MAX_RT_PRIO \<Longrightarrow> rtbm r i \<longleftrightarrow> rtq r i \<noteq> []"
    and "\<And>x. count (rt_all r) x \<le> 1" and "0 \<notin># rt_all r"
    and "\<And>i. i \<notin> {0..<MAX_RT_PRIO} \<Longrightarrow> rtq r i = []"
  using assms by (simp_all add: rt_arr_wf_def)

definition rt_first :: "rt_rq \<Rightarrow> int" where
  "rt_first r = (case filter (\<lambda>i. rtq r i \<noteq> []) [0..MAX_RT_PRIO - 1] of
                   [] \<Rightarrow> MAX_RT_PRIO | i # _ \<Rightarrow> i)"

definition rt_rq_wf :: "rt_rq \<Rightarrow> bool" where
  "rt_rq_wf r \<longleftrightarrow> rt_arr_wf r \<and> rt_nr_running r = of_nat (size (rt_all r))
     \<and> highest_prio_curr r = rt_first r"

lemma filter_upto_first:
  assumes "filter b [m..n] = i # is"
  shows "m \<le> i" and "i \<le> n" and "b i" and "\<And>j. m \<le> j \<Longrightarrow> j < i \<Longrightarrow> \<not> b j"
proof -
  from assms obtain us vs where *: "[m..n] = us @ i # vs" "\<forall>u\<in>set us. \<not> b u" "b i"
    by (auto simp: filter_eq_Cons_iff)
  then have i: "i \<in> set [m..n]" by (metis in_set_conv_decomp)
  then show "m \<le> i" and "i \<le> n" by simp_all
  show "b i" by (rule *(3))
  fix j assume j: "m \<le> j" "j < i"
  then have "j \<in> set [m..n]" using i by simp
  then have "j \<in> set (us @ i # vs)" using *(1) by metis
  moreover have "sorted_wrt (<) (us @ i # vs)" using *(1) by (metis sorted_wrt_upto)
  ultimately show "\<not> b j" using *(2) j(2) by (auto simp: sorted_wrt_append)
qed

lemma filter_upto_cases:
  fixes b :: "int \<Rightarrow> bool"
  obtains "\<And>i. m \<le> i \<Longrightarrow> i \<le> n \<Longrightarrow> \<not> b i" and "filter b [m..n] = []"
  | i "is" where "filter b [m..n] = i # is" "m \<le> i" "i \<le> n" "b i" "\<And>j. m \<le> j \<Longrightarrow> j < i \<Longrightarrow> \<not> b j"
proof (cases "filter b [m..n]")
  case Nil
  then show ?thesis by (intro that(1)) (auto simp: filter_empty_conv)
next
  case (Cons i "is")
  then show ?thesis by (intro that(2)) (auto dest: filter_upto_first)
qed

lemma bits_ok_hol [simp]: "bit_ops_ok hol_bits"
proof -
  have "0 \<le> MAX_RT_PRIO" by (simp add: sched_consts)
  moreover have "find_first_bit_op hol_bits b =
      (case filter b [0..MAX_RT_PRIO] of [] \<Rightarrow> MAX_RT_PRIO + 1 | i # _ \<Rightarrow> i)" for b
    by (simp add: hol_bits_def)
  ultimately have "0 \<le> find_first_bit_op hol_bits b \<and> b (find_first_bit_op hol_bits b) \<and>
      (\<forall>j. 0 \<le> j \<and> j < find_first_bit_op hol_bits b \<longrightarrow> \<not> b j)" if "b MAX_RT_PRIO" for b
    using that by (cases rule: filter_upto_cases [of 0 MAX_RT_PRIO b]) auto
  moreover have "set_bit_op hol_bits i b = b(i := True)" "clear_bit_op hol_bits i b = b(i := False)" for i b
    by (simp_all add: hol_bits_def)
  ultimately show ?thesis unfolding bit_ops_ok_def by blast
qed

text \<open>What the bitmap search finds on a well-formed array.\<close>

lemma find_first_rt_first:
  assumes "bit_ops_ok (kbits K)" and "rt_arr_wf r"
  shows "find_first_bit_op (kbits K) (rtbm r) = rt_first r"
proof -
  let ?f = "find_first_bit_op (kbits K) (rtbm r)"
  have f: "0 \<le> ?f" "rtbm r ?f" "\<And>j. 0 \<le> j \<Longrightarrow> j < ?f \<Longrightarrow> \<not> rtbm r j"
    using assms by (auto simp: bit_ops_ok_def rt_arr_wf_def)
  have bm: "rtbm r MAX_RT_PRIO" "\<And>i. 0 \<le> i \<Longrightarrow> i < MAX_RT_PRIO \<Longrightarrow> rtbm r i \<longleftrightarrow> rtq r i \<noteq> []"
    using assms(2) by (auto simp: rt_arr_wf_def)
  have "0 \<le> MAX_RT_PRIO" by (simp add: sched_consts)
  then have le: "?f \<le> MAX_RT_PRIO" using f(3) [of MAX_RT_PRIO] bm(1) by (meson not_le)
  show ?thesis
  proof (cases rule: filter_upto_cases [of 0 "MAX_RT_PRIO - 1" "\<lambda>i. rtq r i \<noteq> []"])
    case 1
    then have "\<not> ?f < MAX_RT_PRIO" using f(1,2) bm(2) [of ?f] by auto
    with le 1(2) show ?thesis by (simp add: rt_first_def)
  next
    case (2 i "is")
    then have "\<not> ?f < i" using f(1,2) bm(2) [of ?f] by auto
    moreover have "\<not> i < ?f" using 2 f(3) [of i] bm(2) [of i] by auto
    ultimately show ?thesis using 2(1) by (simp add: rt_first_def)
  qed
qed

section \<open>Linking and unlinking keep the array well-formed\<close>

lemma rt_all_split:
  assumes "0 \<le> pr" and "pr < MAX_RT_PRIO"
  shows "rt_all r = mset (rtq r pr) + (\<Sum>i\<in>{0..<MAX_RT_PRIO} - {pr}. mset (rtq r i))"
  using assms unfolding rt_all_def by (subst sum.remove [of _ pr]) auto

text \<open>Changing one queue changes the multiset of queued entities by that queue alone.\<close>

lemma rt_all_upd:
  assumes "0 \<le> pr" and "pr < MAX_RT_PRIO" and "rtq r' = (rtq r)(pr := q)"
  shows "rt_all r' + mset (rtq r pr) = rt_all r + mset q"
proof -
  have "(\<Sum>i\<in>{0..<MAX_RT_PRIO} - {pr}. mset (rtq r' i)) = (\<Sum>i\<in>{0..<MAX_RT_PRIO} - {pr}. mset (rtq r i))"
    by (rule sum.cong) (auto simp: assms(3))
  then show ?thesis
    using rt_all_split [OF assms(1,2), of r] rt_all_split [OF assms(1,2), of r'] assms(3) by simp
qed

lemma rtq_distinct:
  assumes "rt_arr_wf r" and "0 \<le> pr" and "pr < MAX_RT_PRIO"
  shows "distinct (rtq r pr)" and "set (rtq r pr) \<subseteq> set_mset (rt_all r)"
proof -
  note sp = rt_all_split [OF assms(2,3), of r]
  have "count (mset (rtq r pr)) x \<le> 1" for x
  proof -
    have "count (rt_all r) x \<le> 1" using assms(1) by (simp add: rt_arr_wf_def)
    then show ?thesis by (simp only: sp count_union)
  qed
  then show "distinct (rtq r pr)"
    by (metis count_greater_eq_one_iff count_inI distinct_count_atmost_1 le_antisym set_mset_mset)
  show "set (rtq r pr) \<subseteq> set_mset (rt_all r)" by (simp add: sp)
qed

lemma in_rt_all: "x \<in># rt_all r \<longleftrightarrow> (\<exists>i\<in>{0..<MAX_RT_PRIO}. x \<in> set (rtq r i))"
  by (simp add: rt_all_def set_mset_sum)

lemma on_rt_list_iff: "on_rt_list e r \<longleftrightarrow> e \<in># rt_all r"
  by (auto simp: on_rt_list_def in_rt_all list_ex_iff Bex_def)

text \<open>An entity of a well-formed array is on one queue only.\<close>

lemma rt_queue_unique:
  assumes "rt_arr_wf r" and "e \<in> set (rtq r i)" and "e \<in> set (rtq r j)"
    and "i \<in> {0..<MAX_RT_PRIO}" and "j \<in> {0..<MAX_RT_PRIO}"
  shows "i = j"
proof (rule ccontr)
  assume "i \<noteq> j"
  have "rt_all r = mset (rtq r i) + (\<Sum>k\<in>{0..<MAX_RT_PRIO} - {i}. mset (rtq r k))"
    using assms(4) by (intro rt_all_split) auto
  moreover have "e \<in># (\<Sum>k\<in>{0..<MAX_RT_PRIO} - {i}. mset (rtq r k))"
    using assms(3,5) \<open>i \<noteq> j\<close> by (auto simp: set_mset_sum)
  ultimately have "2 \<le> count (rt_all r) e"
    using assms(2) by (simp add: Suc_le_eq)
       (metis One_nat_def Suc_leI add_mono_thms_linordered_semiring(1) count_greater_zero_iff
          in_multiset_in_set numeral_2_eq_2 plus_1_eq_Suc)
  then show False using assms(1) by (auto simp: rt_arr_wf_def dest: spec [of _ e])
qed

lemma rtq_rt_unlink:
  assumes "list_ops_ok (klists K)" and "rt_arr_wf r" and "e \<in> set (rtq r pr)"
    and "0 \<le> pr" and "pr < MAX_RT_PRIO"
  shows "rtq (rt_unlink K e pr r) = (rtq r)(pr := remove1 e (rtq r pr))"
proof
  fix i
  have "distinct (rtq r pr)" by (rule rtq_distinct [OF assms(2,4,5)])
  moreover have "e \<notin> set (rtq r i)" if "i \<noteq> pr"
    using rt_queue_unique [OF assms(2) _ assms(3), of i] rt_arr_wfD(5) [OF assms(2), of i] assms(4,5) that
    by (cases "i \<in> {0..<MAX_RT_PRIO}") auto
  ultimately show "rtq (rt_unlink K e pr r) i = ((rtq r)(pr := remove1 e (rtq r pr))) i"
    using assms(1,3) by (simp add: rt_unlink_def Let_def list_laws)
qed

lemma rt_arr_wf_link:
  assumes "list_ops_ok (klists K)" and "bit_ops_ok (kbits K)" and "rt_arr_wf r"
    and "e \<notin># rt_all r" and "e \<noteq> 0" and "0 \<le> pr" and "pr < MAX_RT_PRIO"
  shows "rt_arr_wf (rt_link K e pr head r)"
    and "rt_all (rt_link K e pr head r) = add_mset e (rt_all r)"
    and "rtq (rt_link K e pr head r) = (rtq r)(pr := (if head then e # rtq r pr else rtq r pr @ [e]))"
proof -
  let ?r = "rt_link K e pr head r"
  have "distinct (rtq r pr)" and "e \<notin> set (rtq r pr)"
    using rtq_distinct [OF assms(3,6,7)] assms(4) by auto
  then show q: "rtq ?r = (rtq r)(pr := (if head then e # rtq r pr else rtq r pr @ [e]))"
    using assms(1) by (auto simp: rt_link_def list_laws)
  have "rt_all ?r + mset (rtq r pr) = rt_all r + mset (if head then e # rtq r pr else rtq r pr @ [e])"
    using q by (intro rt_all_upd assms)
  then show all: "rt_all ?r = add_mset e (rt_all r)" by (cases head) auto
  have bm: "rtbm ?r = (rtbm r)(pr := True)"
    using assms(2) by (simp add: rt_link_def bit_ops_ok_def)
  note wf = rt_arr_wfD [OF assms(3)]
  have "count (rt_all r) e = 0" using assms(4) by (simp add: not_in_iff)
  then have "count (rt_all ?r) x \<le> 1" for x
    using wf(3) [of x] by (cases "x = e") (simp_all add: all)
  moreover have "0 \<notin># rt_all ?r" using wf(4) assms(5) by (simp add: all)
  moreover have "rtbm ?r MAX_RT_PRIO" using wf(1) by (simp add: bm)
  moreover have "rtbm ?r i \<longleftrightarrow> rtq ?r i \<noteq> []" if "0 \<le> i" "i < MAX_RT_PRIO" for i
    using wf(2) [OF that] by (simp add: bm q)
  moreover have "rtq ?r i = []" if "i \<notin> {0..<MAX_RT_PRIO}" for i
    using wf(5) [OF that] that assms(6,7) by (auto simp: q)
  ultimately show "rt_arr_wf ?r" by (intro rt_arr_wfI) assumption+
qed

lemma rt_arr_wf_unlink:
  assumes "list_ops_ok (klists K)" and "bit_ops_ok (kbits K)" and "rt_arr_wf r"
    and "e \<in> set (rtq r pr)" and "0 \<le> pr" and "pr < MAX_RT_PRIO"
  shows "rt_arr_wf (rt_unlink K e pr r)"
    and "add_mset e (rt_all (rt_unlink K e pr r)) = rt_all r"
proof -
  let ?r = "rt_unlink K e pr r"
  have q: "rtq ?r = (rtq r)(pr := remove1 e (rtq r pr))"
    using assms(1,3-6) by (intro rtq_rt_unlink)
  have "rt_all ?r + mset (rtq r pr) = rt_all r + mset (remove1 e (rtq r pr))"
    using q by (intro rt_all_upd assms)
  moreover obtain M where "mset (remove1 e (rtq r pr)) = M" and "mset (rtq r pr) = add_mset e M"
    using assms(4) by (metis insert_DiffM in_multiset_in_set mset_remove1)
  ultimately show all: "add_mset e (rt_all ?r) = rt_all r" by simp
  have "rtbm ?r = (if rtq ?r pr = [] then clear_bit_op (kbits K) pr (rtbm r) else rtbm r)"
    by (simp add: rt_unlink_def Let_def)
  then have bm: "rtbm ?r = (if remove1 e (rtq r pr) = [] then (rtbm r)(pr := False) else rtbm r)"
    using assms(2) by (simp only: q fun_upd_same bit_ops_ok_def)
  note wf = rt_arr_wfD [OF assms(3)]
  have ne: "rtq r pr \<noteq> []" using assms(4) by auto
  have "count (rt_all ?r) x \<le> count (rt_all r) x" for x by (simp add: all [symmetric])
  then have "count (rt_all ?r) x \<le> 1" for x using wf(3) [of x] by (meson order_trans)
  moreover have "0 \<notin># rt_all ?r" using wf(4) by (simp add: all [symmetric])
  moreover have "rtbm ?r MAX_RT_PRIO" using wf(1) assms(6) by (simp add: bm)
  moreover have "rtbm ?r i \<longleftrightarrow> rtq ?r i \<noteq> []" if "0 \<le> i" "i < MAX_RT_PRIO" for i
    using wf(2) [OF that] ne by (cases "i = pr") (simp_all add: bm q)
  moreover have "rtq ?r i = []" if "i \<notin> {0..<MAX_RT_PRIO}" for i
    using wf(5) [OF that] that assms(5,6) by (auto simp: q)
  ultimately show "rt_arr_wf ?r" by (intro rt_arr_wfI) assumption+
qed

section \<open>Counters and highest priority\<close>

lemma rt_first_props:
  shows "0 \<le> rt_first r" and "rt_first r \<le> MAX_RT_PRIO"
    and "rt_first r < MAX_RT_PRIO \<Longrightarrow> rtq r (rt_first r) \<noteq> []"
    and "\<And>j. 0 \<le> j \<Longrightarrow> j < rt_first r \<Longrightarrow> rtq r j = []"
proof -
  have "0 \<le> MAX_RT_PRIO" by (simp add: sched_consts)
  then have "0 \<le> rt_first r \<and> rt_first r \<le> MAX_RT_PRIO
     \<and> (rt_first r < MAX_RT_PRIO \<longrightarrow> rtq r (rt_first r) \<noteq> [])
     \<and> (\<forall>j. 0 \<le> j \<and> j < rt_first r \<longrightarrow> rtq r j = [])"
    by (cases rule: filter_upto_cases [of 0 "MAX_RT_PRIO - 1" "\<lambda>i. rtq r i \<noteq> []"])
      (auto simp: rt_first_def)
  then show "0 \<le> rt_first r" and "rt_first r \<le> MAX_RT_PRIO"
    and "rt_first r < MAX_RT_PRIO \<Longrightarrow> rtq r (rt_first r) \<noteq> []"
    and "\<And>j. 0 \<le> j \<Longrightarrow> j < rt_first r \<Longrightarrow> rtq r j = []" by auto
qed

lemma rt_first_eqI:
  assumes "0 \<le> m" and "m \<le> MAX_RT_PRIO" and "m < MAX_RT_PRIO \<Longrightarrow> rtq r m \<noteq> []"
    and "\<And>j. 0 \<le> j \<Longrightarrow> j < m \<Longrightarrow> rtq r j = []"
  shows "rt_first r = m"
proof -
  note f = rt_first_props [where r = r]
  have "\<not> rt_first r < m" using f(1,3) assms(2) assms(4) [of "rt_first r"] by linarith
  moreover have "\<not> m < rt_first r" using f(2) f(4) [of m] assms(1,3) by linarith
  ultimately show ?thesis by simp
qed

lemma rt_first_le: "0 \<le> i \<Longrightarrow> rtq r i \<noteq> [] \<Longrightarrow> rt_first r \<le> i"
  using rt_first_props(4) [of i r] by linarith

lemma rt_first_MAX: "rt_all r = {#} \<Longrightarrow> rt_first r = MAX_RT_PRIO"
proof (rule rt_first_eqI)
  assume "rt_all r = {#}"
  then show "rtq r j = []" if "0 \<le> j" "j < MAX_RT_PRIO" for j
    using that in_rt_all [of "hd (rtq r j)" r] by (cases "rtq r j") force+
qed (simp_all add: sched_consts)

text \<open>Fewer than \<open>2 ^ 32\<close> entities can be queued, so the counter is 0 only on an empty array.\<close>

lemma rt_all_eq_0:
  assumes "rt_arr_wf r"
  shows "(of_nat (size (rt_all r)) :: 32 word) = 0 \<longleftrightarrow> rt_all r = {#}"
proof -
  obtain xs where xs: "mset xs = rt_all r" using ex_mset by blast
  note wf = rt_arr_wfD [OF assms]
  have "distinct xs"
    using wf(3) unfolding xs [symmetric] distinct_count_atmost_1
    by (metis count_greater_eq_one_iff count_inI le_antisym set_mset_mset)
  moreover have "0 \<notin> set xs" using wf(4) unfolding xs [symmetric] by simp
  ultimately have "(of_nat (length xs) :: 32 word) = 0 \<longleftrightarrow> xs = []" by (rule of_nat_length_eq_0)
  then show ?thesis unfolding xs [symmetric] by simp
qed

definition rt_insert :: "kenv \<Rightarrow> ptr \<Rightarrow> int \<Rightarrow> bool \<Rightarrow> rt_rq \<Rightarrow> rt_rq" where
  "rt_insert K e pr head r =
     (let r1 = rt_link K e pr head r
      in inc_rt_prio pr (r1\<lparr>rt_nr_running := rt_nr_running r1 + 1\<rparr>))"

definition rt_remove :: "kenv \<Rightarrow> ptr \<Rightarrow> int \<Rightarrow> rt_rq \<Rightarrow> rt_rq" where
  "rt_remove K e pr r =
     (let r1 = rt_unlink K e pr r
      in dec_rt_prio K pr (r1\<lparr>rt_nr_running := rt_nr_running r1 - 1\<rparr>))"

text \<open>The array functions see only the \<^verbatim>\<open>active\<close> member.\<close>

lemma active_cong:
  assumes "active r = active r'"
  shows "rt_all r = rt_all r'" and "rt_arr_wf r = rt_arr_wf r'" and "rt_first r = rt_first r'"
    and "on_rt_list e r = on_rt_list e r'"
  using assms by (simp_all add: rt_all_def rt_arr_wf_def rt_first_def on_rt_list_def)

lemma prio_active [simp]:
  "active (inc_rt_prio pr r) = active r" "active (dec_rt_prio K pr r) = active r"
  "rt_nr_running (inc_rt_prio pr r) = rt_nr_running r"
  "rt_nr_running (dec_rt_prio K pr r) = rt_nr_running r"
  by (simp_all add: inc_rt_prio_def dec_rt_prio_def Let_def)

lemma link_counters [simp]:
  "rt_nr_running (rt_link K e pr head r) = rt_nr_running r"
  "highest_prio_curr (rt_link K e pr head r) = highest_prio_curr r"
  "rt_nr_running (rt_unlink K e pr r) = rt_nr_running r"
  "highest_prio_curr (rt_unlink K e pr r) = highest_prio_curr r"
  by (simp_all add: rt_link_def rt_unlink_def Let_def)

lemma rt_insert_active: "active (rt_insert K e pr head r) = active (rt_link K e pr head r)"
  by (simp add: rt_insert_def Let_def)

lemma rt_remove_active: "active (rt_remove K e pr r) = active (rt_unlink K e pr r)"
  by (simp add: rt_remove_def Let_def)

lemma rt_insert_wf:
  assumes "list_ops_ok (klists K)" and "bit_ops_ok (kbits K)" and "rt_rq_wf r"
    and "e \<notin># rt_all r" and "e \<noteq> 0" and "0 \<le> pr" and "pr < MAX_RT_PRIO"
  shows "rt_rq_wf (rt_insert K e pr head r)"
    and "rt_all (rt_insert K e pr head r) = add_mset e (rt_all r)"
proof -
  let ?l = "rt_link K e pr head r" and ?r = "rt_insert K e pr head r"
  have arr: "rt_arr_wf r" and nr: "rt_nr_running r = of_nat (size (rt_all r))"
    and hi: "highest_prio_curr r = rt_first r"
    using assms(3) by (simp_all add: rt_rq_wf_def)
  note l = rt_arr_wf_link [OF assms(1,2) arr assms(4-7), of head]
  note act = active_cong [OF rt_insert_active [of K e pr head r]]
  show all: "rt_all ?r = add_mset e (rt_all r)" by (simp add: act l)
  have "rt_first ?l = min pr (rt_first r)"
  proof (rule rt_first_eqI)
    show "0 \<le> min pr (rt_first r)" using assms(6) rt_first_props(1) [of r] by simp
    show "min pr (rt_first r) \<le> MAX_RT_PRIO" using assms(7) by simp
    show "rtq ?l (min pr (rt_first r)) \<noteq> []"
      using assms(7) rt_first_props(3) [of r] by (auto simp: l min_def)
    show "rtq ?l j = []" if "0 \<le> j" "j < min pr (rt_first r)" for j
      using that rt_first_props(4) [of j r] by (simp add: l)
  qed
  then have "highest_prio_curr ?r = rt_first ?r"
    unfolding act(3) using hi by (simp add: rt_insert_def inc_rt_prio_def Let_def)
  moreover have "rt_nr_running ?r = of_nat (size (rt_all ?r))"
    unfolding all using nr by (simp add: rt_insert_def Let_def)
  ultimately show "rt_rq_wf ?r" using l(1) by (simp add: rt_rq_wf_def act)
qed

lemma rt_remove_wf:
  assumes "list_ops_ok (klists K)" and "bit_ops_ok (kbits K)" and "rt_rq_wf r"
    and "e \<in> set (rtq r pr)" and "0 \<le> pr" and "pr < MAX_RT_PRIO"
  shows "rt_rq_wf (rt_remove K e pr r)"
    and "add_mset e (rt_all (rt_remove K e pr r)) = rt_all r"
proof -
  let ?u = "rt_unlink K e pr r" and ?r = "rt_remove K e pr r"
  have arr: "rt_arr_wf r" and nr: "rt_nr_running r = of_nat (size (rt_all r))"
    and hi: "highest_prio_curr r = rt_first r"
    using assms(3) by (simp_all add: rt_rq_wf_def)
  note u = rt_arr_wf_unlink [OF assms(1,2) arr assms(4-6)]
  note act = active_cong [OF rt_remove_active [of K e pr r]]
  show all: "add_mset e (rt_all ?r) = rt_all r" by (simp add: act u)
  have nr': "rt_nr_running r - 1 = of_nat (size (rt_all ?u))"
    using nr by (simp add: u(2) [symmetric])
  have q: "rtq ?u = (rtq r)(pr := remove1 e (rtq r pr))"
    using assms(1,4-6) arr by (intro rtq_rt_unlink)
  have le: "rt_first r \<le> pr" using assms(4,5) by (intro rt_first_le) auto
  have ff: "find_first_bit_op (kbits K) (rtbm ?u) = rt_first ?u"
    using assms(2) u(1) by (rule find_first_rt_first)
  have keep: "rt_first ?u = rt_first r" if "pr \<noteq> rt_first r"
  proof (rule rt_first_eqI)
    show "rtq ?u (rt_first r) \<noteq> []"
      using that le assms(6) rt_first_props(3) [of r] by (simp add: q)
    show "rtq ?u j = []" if "0 \<le> j" "j < rt_first r" for j
      using that le rt_first_props(4) [of j r] by (simp add: q)
  qed (use rt_first_props(1,2) [of r] in auto)
  have "rt_first ?u = MAX_RT_PRIO" if "rt_nr_running r = 1"
    using that nr' rt_all_eq_0 [OF u(1)] rt_first_MAX [of ?u] by simp
  moreover have "highest_prio_curr ?r = (if rt_nr_running r \<noteq> 1 then
      if pr = rt_first r then find_first_bit_op (kbits K) (rtbm ?u) else rt_first r else MAX_RT_PRIO)"
    by (simp add: rt_remove_def dec_rt_prio_def Let_def hi)
  ultimately have "highest_prio_curr ?r = rt_first ?u"
    using ff keep by (simp split: if_splits)
  then show "rt_rq_wf ?r" using u(1) nr' by (simp add: rt_rq_wf_def act) (simp add: rt_remove_def Let_def)
qed

text \<open>The search of \<^verbatim>\<open>pick_next_rt_entity\<close> finds the head of the first non-empty queue.\<close>

lemma pick_next_rt_entity_wf:
  assumes "bit_ops_ok (kbits K)" and "rt_rq_wf r"
  shows "pick_next_rt_entity K r = (if rt_nr_running r = 0 then None
           else Some (hd (rtq r (highest_prio_curr r))))"
proof -
  have arr: "rt_arr_wf r" and nr: "rt_nr_running r = of_nat (size (rt_all r))"
    and hi: "highest_prio_curr r = rt_first r"
    using assms(2) by (simp_all add: rt_rq_wf_def)
  note ff = find_first_rt_first [OF assms(1) arr]
  have "rt_nr_running r = 0 \<longleftrightarrow> rt_first r = MAX_RT_PRIO"
  proof
    assume "rt_first r = MAX_RT_PRIO"
    then have "rtq r i = []" if "0 \<le> i" "i < MAX_RT_PRIO" for i
      using that rt_first_props(4) [of i r] by simp
    then have "rt_all r = {#}" by (simp add: rt_all_def)
    then show "rt_nr_running r = 0" using nr by simp
  qed (use nr rt_all_eq_0 [OF arr] rt_first_MAX [of r] in auto)
  moreover have "rt_first r < MAX_RT_PRIO \<Longrightarrow> rtq r (rt_first r) \<noteq> []"
    by (rule rt_first_props)
  ultimately show ?thesis
    using ff hi rt_first_props(2) [of r]
    by (auto simp: pick_next_rt_entity_def Let_def split: list.split)
qed

section \<open>Requeueing\<close>

lemma rt_requeue_wf:
  assumes "list_ops_ok (klists K)" and "rt_rq_wf r" and "e \<in> set (rtq r pr)"
    and "0 \<le> pr" and "pr < MAX_RT_PRIO"
  shows "rt_rq_wf (rt_requeue K e pr head r)" and "rt_all (rt_requeue K e pr head r) = rt_all r"
    and "rtq (rt_requeue K e pr head r) =
      (rtq r)(pr := (if head then e # remove1 e (rtq r pr) else remove1 e (rtq r pr) @ [e]))"
proof -
  let ?r = "rt_requeue K e pr head r"
  let ?q = "if head then e # remove1 e (rtq r pr) else remove1 e (rtq r pr) @ [e]"
  have arr: "rt_arr_wf r" using assms(2) by (simp add: rt_rq_wf_def)
  have "distinct (rtq r pr)" using rtq_distinct [OF arr assms(4,5)] by simp
  then show q: "rtq ?r = (rtq r)(pr := ?q)"
    using assms(1,3) by (auto simp: rt_requeue_def list_laws)
  have "mset ?q = mset (rtq r pr)" using assms(3) by (auto simp: insert_DiffM)
  then show all: "rt_all ?r = rt_all r"
    using rt_all_upd [OF assms(4,5) q] by (metis add_right_imp_eq)
  have ne: "rtq ?r i = [] \<longleftrightarrow> rtq r i = []" for i using assms(3) by (auto simp: q)
  have other: "rtbm ?r = rtbm r" "rt_nr_running ?r = rt_nr_running r" "highest_prio_curr ?r = highest_prio_curr r"
    by (simp_all add: rt_requeue_def)
  have "rt_first ?r = rt_first r" by (simp add: rt_first_def ne)
  moreover have "rt_arr_wf ?r"
    using rt_arr_wfD [OF arr] by (intro rt_arr_wfI) (simp_all add: all other ne)
  ultimately show "rt_rq_wf ?r" using assms(2) by (simp add: rt_rq_wf_def all other)
qed

text \<open>
  A queue on which only one priority is present is a first-in first-out run queue.
\<close>

definition rt_level :: "kenv \<Rightarrow> int \<Rightarrow> rt_rq \<Rightarrow> bool" where
  "rt_level K pr r \<longleftrightarrow> list_ops_ok (klists K) \<and> bit_ops_ok (kbits K) \<and> 0 \<le> pr \<and> pr < MAX_RT_PRIO \<and>
     rt_rq_wf r \<and> (\<forall>i. i \<noteq> pr \<longrightarrow> rtq r i = [])"

lemma rt_level_all: "rt_level K pr r \<Longrightarrow> rt_all r = mset (rtq r pr)"
  using rt_all_split [of pr r] by (simp add: rt_level_def)

lemma rt_level_upd:
  assumes "rt_level K pr r" and "rt_rq_wf r'" and "rtq r' = (rtq r)(pr := q)"
  shows "rt_level K pr r'"
  using assms by (simp add: rt_level_def)

lemma rt_level_pick:
  assumes "rt_level K pr r"
  shows "pick_next_rt_entity K r = (case rtq r pr of [] \<Rightarrow> None | x # _ \<Rightarrow> Some x)"
proof -
  have wf: "bit_ops_ok (kbits K)" "rt_rq_wf r" "rt_arr_wf r" using assms by (simp_all add: rt_level_def rt_rq_wf_def)
  have nr: "rt_nr_running r = 0 \<longleftrightarrow> rtq r pr = []"
    using wf(2) rt_all_eq_0 [OF wf(3)] rt_level_all [OF assms] by (simp add: rt_rq_wf_def)
  have "highest_prio_curr r = pr" if "rtq r pr \<noteq> []"
    using that assms wf(2) rt_first_eqI [of pr r] by (auto simp: rt_level_def rt_rq_wf_def)
  then show ?thesis
    using pick_next_rt_entity_wf [OF wf(1,2)] nr by (cases "rtq r pr") auto
qed

interpretation rtlev: run_queue "\<lambda>head e. rt_insert K e pr head" "\<lambda>e. rt_remove K e pr"
  "\<lambda>head e. rt_requeue K e pr head" "pick_next_rt_entity K" "\<lambda>r. rtq r pr" "\<lambda>e. e \<noteq> 0" "rt_level K pr"
  for K pr
proof unfold_locales
  fix r x head assume lev: "rt_level K pr r"
  then have l: "list_ops_ok (klists K)" and b: "bit_ops_ok (kbits K)" and wf: "rt_rq_wf r"
    and pr: "0 \<le> pr" "pr < MAX_RT_PRIO" by (simp_all add: rt_level_def)
  have arr: "rt_arr_wf r" using wf by (simp add: rt_rq_wf_def)
  show "distinct (rtq r pr)" using rtq_distinct [OF arr pr] by simp
  show "pick_next_rt_entity K r = (case rtq r pr of [] \<Rightarrow> None | x # _ \<Rightarrow> Some x)"
    using lev by (rule rt_level_pick)
  { assume x: "x \<noteq> 0" "x \<notin> set (rtq r pr)"
    then have n: "x \<notin># rt_all r" using rt_level_all [OF lev] by simp
    have q: "rtq (rt_insert K x pr head r) = (rtq r)(pr := (if head then x # rtq r pr else rtq r pr @ [x]))"
      using rt_arr_wf_link(3) [OF l b arr n x(1) pr, of head] by (simp add: rt_insert_active)
    then show "rtq (rt_insert K x pr head r) pr = (if head then x # rtq r pr else rtq r pr @ [x])" by simp
    show "rt_level K pr (rt_insert K x pr head r)"
      using rt_level_upd [OF lev rt_insert_wf(1) [OF l b wf n x(1) pr] q] . }
  { assume x: "x \<in> set (rtq r pr)"
    have q: "rtq (rt_remove K x pr r) = (rtq r)(pr := remove1 x (rtq r pr))"
      using rtq_rt_unlink [OF l arr x pr] by (simp add: rt_remove_active)
    then show "rtq (rt_remove K x pr r) pr = remove1 x (rtq r pr)" by simp
    show "rt_level K pr (rt_remove K x pr r)"
      using rt_level_upd [OF lev rt_remove_wf(1) [OF l b wf x pr] q] .
    note rq = rt_requeue_wf [OF l wf x pr, of head]
    show "rtq (rt_requeue K x pr head r) pr = (if head then x # remove1 x (rtq r pr) else remove1 x (rtq r pr) @ [x])"
      by (simp add: rq(3))
    show "rt_level K pr (rt_requeue K x pr head r)" by (rule rt_level_upd [OF lev rq(1,3)]) }
qed

end
