(* ===== verification/Wrr.thy ===== *)
theory Wrr
  imports Sample Run_Queue
begin

text \<open>
  The weighted round-robin class, \<^verbatim>\<open>basic/kernel/sched/wrr.c\<close>: one definition per function, then
  the queue invariant \<open>wrr_wf\<close>, what each operation does to the queue, the refinement of the
  abstract first-in first-out queue, and the time-slice accounting of the tick.

  The \<^verbatim>\<open>printk\<close> calls are left out. An entity pointer is the pointer of its task, so
  \<^verbatim>\<open>container_of\<close> is the identity.
\<close>

section \<open>Operations\<close>

abbreviation wq :: "kstate \<Rightarrow> ptr list" where
  "wq s \<equiv> wrr_queue (rq_wrr (rq s))"

abbreviation wnr :: "kstate \<Rightarrow> uint32" where
  "wnr s \<equiv> wrr_nr_running (rq_wrr (rq s))"

definition set_wrr_rq :: "wrr_rq \<Rightarrow> kstate \<Rightarrow> kstate" where
  "set_wrr_rq w s = s\<lparr>rq := (rq s)\<lparr>rq_wrr := w\<rparr>\<rparr>"

definition upd_wrr :: "ptr \<Rightarrow> (sched_wrr_entity \<Rightarrow> sched_wrr_entity) \<Rightarrow> kstate \<Rightarrow> kstate" where
  "upd_wrr p f = upd_task p (\<lambda>t. t\<lparr>wrr := f (wrr t)\<rparr>)"

definition upd_se :: "ptr \<Rightarrow> (sched_entity \<Rightarrow> sched_entity) \<Rightarrow> kstate \<Rightarrow> kstate" where
  "upd_se p f = upd_task p (\<lambda>t. t\<lparr>se := f (se t)\<rparr>)"

definition init_wrr_rq :: "wrr_rq \<Rightarrow> wrr_rq" where
  "init_wrr_rq w = w\<lparr>wrr_queue := [], wrr_nr_running := 0\<rparr>"

definition enqueue_wrr_entity :: "kenv \<Rightarrow> ptr \<Rightarrow> bool \<Rightarrow> kstate \<Rightarrow> kstate" where
  "enqueue_wrr_entity K p head s =
     set_wrr_rq \<lparr>wrr_nr_running = wnr s + 1,
       wrr_queue = (if head then list_add_op (klists K) p (wq s)
                    else list_add_tail_op (klists K) p (wq s))\<rparr> s"

definition enqueue_task_wrr :: "kenv \<Rightarrow> ptr \<Rightarrow> int \<Rightarrow> kstate \<Rightarrow> kstate" where
  "enqueue_task_wrr K p flags s =
     (let s1 = (if flags AND ENQUEUE_WAKEUP \<noteq> 0 then upd_wrr p (\<lambda>e. e\<lparr>wrr_timeout := 0\<rparr>) s else s);
          s2 = enqueue_wrr_entity K p (flags AND ENQUEUE_HEAD \<noteq> 0) s1
      in inc_nr_running s2)"

definition update_curr_wrr :: "kenv \<Rightarrow> kstate \<Rightarrow> kstate" where
  "update_curr_wrr K s =
     (let c = curr (rq s); t = tasks s c in
      if sched_class t \<noteq> wrr_sched_class then s
      else
        let d0 = clock_task (rq s) - exec_start (se t);
            d = (if sint d0 < 0 then 0 else d0);
            s1 = upd_se c (\<lambda>e. e\<lparr>exec_max := max (exec_max e) d\<rparr>) s;
            s2 = upd_se c (\<lambda>e. e\<lparr>sum_exec_runtime := sum_exec_runtime e + d\<rparr>) s1;
            s3 = emit (AccountGroupExecRuntime c d) s2;
            s4 = upd_se c (\<lambda>e. e\<lparr>exec_start := clock_task (rq s)\<rparr>) s3
        in cpuacct_charge K c d s4)"

definition dequeue_wrr_entity :: "kenv \<Rightarrow> ptr \<Rightarrow> kstate \<Rightarrow> kstate" where
  "dequeue_wrr_entity K p s =
     set_wrr_rq \<lparr>wrr_nr_running = wnr s - 1, wrr_queue = list_del_init_op (klists K) p (wq s)\<rparr> s"

definition dequeue_task_wrr :: "kenv \<Rightarrow> ptr \<Rightarrow> int \<Rightarrow> kstate \<Rightarrow> kstate" where
  "dequeue_task_wrr K p flags s =
     dec_nr_running (dequeue_wrr_entity K p (update_curr_wrr K s))"

definition requeue_task_wrr :: "kenv \<Rightarrow> ptr \<Rightarrow> bool \<Rightarrow> kstate \<Rightarrow> kstate" where
  "requeue_task_wrr K p head s =
     set_wrr_rq \<lparr>wrr_nr_running = wnr s,
       wrr_queue = (if head then list_move_op (klists K) p (wq s)
                    else list_move_tail_op (klists K) p (wq s))\<rparr> s"

definition yield_task_wrr :: "kenv \<Rightarrow> kstate \<Rightarrow> kstate" where
  "yield_task_wrr K s = requeue_task_wrr K (curr (rq s)) False s"

text \<open>\<^verbatim>\<open>list_first_entry\<close> of an empty list is no entry at all: \<open>None\<close>.\<close>

definition pick_next_task_wrr :: "kstate \<Rightarrow> (ptr option \<times> kstate) option" where
  "pick_next_task_wrr s =
     (if wnr s = 0 then Some (None, s)
      else case wq s of
             [] \<Rightarrow> None
           | p # _ \<Rightarrow>
               if p = 0 then Some (None, s)
               else Some (Some p, upd_se p (\<lambda>e. e\<lparr>exec_start := clock_task (rq s)\<rparr>) s))"

definition put_prev_task_wrr :: "kenv \<Rightarrow> ptr \<Rightarrow> kstate \<Rightarrow> kstate" where
  "put_prev_task_wrr K p s = upd_se p (\<lambda>e. e\<lparr>exec_start := 0\<rparr>) (update_curr_wrr K s)"

text \<open>\<^verbatim>\<open>p->wrr.parent\<close> may be NULL, and then the function faults.\<close>

definition task_fork_wrr :: "ptr \<Rightarrow> kstate \<Rightarrow> kstate option" where
  "task_fork_wrr p s =
     (case wrr_parent (wrr (tasks s p)) of
        None \<Rightarrow> None
      | Some q \<Rightarrow> Some (upd_wrr p (\<lambda>e. e\<lparr>wrr_time_slice := wrr_time_slice (wrr (tasks s q))\<rparr>) s))"

definition set_curr_task_wrr :: "kstate \<Rightarrow> kstate" where
  "set_curr_task_wrr s =
     upd_se (curr (rq s)) (\<lambda>e. e\<lparr>exec_start := clock_task (rq s)\<rparr>) s"

definition DIV_ROUND_UP :: "ulong \<Rightarrow> ulong \<Rightarrow> ulong" where
  "DIV_ROUND_UP n d = (n + d - 1) div d"

definition watchdog :: "kenv \<Rightarrow> ptr \<Rightarrow> kstate \<Rightarrow> kstate" where
  "watchdog K p s =
     (let soft = task_rlimit K p RLIMIT_RTTIME;
          hard = task_rlimit_max K p RLIMIT_RTTIME in
      if soft = RLIM_INFINITY K then s
      else
        let s1 = upd_wrr p (\<lambda>e. e\<lparr>wrr_timeout := wrr_timeout e + 1\<rparr>) s;
            next_tick = DIV_ROUND_UP (min soft hard) (of_nat (1000000 div HZ K))
        in if wrr_timeout (wrr (tasks s1 p)) > next_tick
           then upd_task p (\<lambda>t. t\<lparr>sched_exp := sum_exec_runtime (se t)\<rparr>) s1
           else s1)"

definition refill_wrr :: "kenv \<Rightarrow> ptr \<Rightarrow> kstate \<Rightarrow> kstate" where
  "refill_wrr K p s =
     (let group_path = cgroup_path K (sched_task_group (tasks s p)) in
      if group_path = FOREGROUP
      then upd_wrr p (\<lambda>e. e\<lparr>wrr_time_slice := WRR_FORE_TIMESLICE (HZ K)\<rparr>) s
      else if group_path = BACKGROUP
      then upd_wrr p (\<lambda>e. e\<lparr>wrr_time_slice := WRR_BACK_TIMESLICE (HZ K)\<rparr>) s
      else s)"

definition task_tick_wrr :: "kenv \<Rightarrow> ptr \<Rightarrow> kstate \<Rightarrow> kstate" where
  "task_tick_wrr K p s =
     (let s1 = watchdog K p (update_curr_wrr K s) in
      if policy (tasks s1 p) \<noteq> SCHED_WRR then s1
      else
        let s2 = upd_wrr p (\<lambda>e. e\<lparr>wrr_time_slice := wrr_time_slice e - 1\<rparr>) s1 in
        if wrr_time_slice (wrr (tasks s2 p)) \<noteq> 0 then s2
        else
          let s3 = refill_wrr K p s2 in
          if prev_ne_next (wq s3)
          then resched_task p (requeue_task_wrr K p False s3)
          else s3)"

definition get_rr_interval_wrr :: "kenv \<Rightarrow> ptr \<Rightarrow> kstate \<Rightarrow> uint32" where
  "get_rr_interval_wrr K p s =
     (let group_path = cgroup_path K (sched_task_group (tasks s p)) in
      if policy (tasks s p) = SCHED_WRR \<and> group_path = FOREGROUP then WRR_FORE_TIMESLICE (HZ K)
      else if policy (tasks s p) = SCHED_WRR \<and> group_path = BACKGROUP
      then WRR_BACK_TIMESLICE (HZ K)
      else 0)"

text \<open>On one CPU \<^verbatim>\<open>rq == task_rq(p)\<close> always holds.\<close>

definition switched_to_wrr :: "ptr \<Rightarrow> kstate \<Rightarrow> kstate" where
  "switched_to_wrr p s =
     (if on_rq (tasks s p) \<and> curr (rq s) \<noteq> p then
        if policy (tasks s (curr (rq s))) \<noteq> SCHED_WRR then resched_task (curr (rq s)) s else s
      else s)"

definition check_preempt_curr_wrr :: "ptr \<Rightarrow> int \<Rightarrow> kstate \<Rightarrow> kstate" where
  "check_preempt_curr_wrr p flags s = s"

definition switched_from_wrr :: "ptr \<Rightarrow> kstate \<Rightarrow> kstate" where
  "switched_from_wrr p s = s"

definition prio_changed_wrr :: "ptr \<Rightarrow> int \<Rightarrow> kstate \<Rightarrow> kstate" where
  "prio_changed_wrr p oldprio s = s"

definition free_wrr_sched_group :: "ptr \<Rightarrow> kstate \<Rightarrow> kstate" where
  "free_wrr_sched_group tg s = s"

definition alloc_wrr_sched_group :: "ptr \<Rightarrow> ptr \<Rightarrow> kstate \<Rightarrow> int \<times> kstate" where
  "alloc_wrr_sched_group tg parent s = (1, s)"

section \<open>Frames\<close>

lemma set_wrr_rq_simps [simp]:
  "tasks (set_wrr_rq w s) = tasks s" "rq_wrr (rq (set_wrr_rq w s)) = w"
  "curr (rq (set_wrr_rq w s)) = curr (rq s)"
  "nr_running (rq (set_wrr_rq w s)) = nr_running (rq s)"
  "clock_task (rq (set_wrr_rq w s)) = clock_task (rq s)"
  "rt_rqs (set_wrr_rq w s) = rt_rqs s" "rt_ents (set_wrr_rq w s) = rt_ents s"
  "trace (set_wrr_rq w s) = trace s" "cpuusage (set_wrr_rq w s) = cpuusage s"
  by (simp_all add: set_wrr_rq_def)

lemma upd_wrr_simps [simp]:
  "rq (upd_wrr p f s) = rq s"
  "tasks (upd_wrr p f s) = (tasks s)(p := (tasks s p)\<lparr>wrr := f (wrr (tasks s p))\<rparr>)"
  "rt_rqs (upd_wrr p f s) = rt_rqs s" "rt_ents (upd_wrr p f s) = rt_ents s"
  by (simp_all add: upd_wrr_def)

lemma upd_se_simps [simp]:
  "rq (upd_se p g s) = rq s"
  "tasks (upd_se p g s) = (tasks s)(p := (tasks s p)\<lparr>se := g (se (tasks s p))\<rparr>)"
  "rt_rqs (upd_se p g s) = rt_rqs s" "rt_ents (upd_se p g s) = rt_ents s"
  "ca_chain (upd_se p g s) = ca_chain s" "cpuusage (upd_se p g s) = cpuusage s"
  "trace (upd_se p g s) = trace s"
  by (simp_all add: upd_se_def)

lemma resched_task_simps [simp]:
  "rq (resched_task p s) = rq s" "rt_rqs (resched_task p s) = rt_rqs s"
  "rt_ents (resched_task p s) = rt_ents s" "tgs (resched_task p s) = tgs s"
  "tasks (resched_task p s) = (tasks s)(p := (tasks s p)\<lparr>need_resched := True\<rparr>)"
  by (simp_all add: resched_task_def)

text \<open>The run time that \<^verbatim>\<open>update_curr_wrr\<close> accounts: negative differences of the clock count as 0.\<close>

definition delta_exec :: "kstate \<Rightarrow> u64" where
  "delta_exec s =
     (let d0 = clock_task (rq s) - exec_start (se (tasks s (curr (rq s))))
      in if sint d0 < 0 then 0 else d0)"

lemma update_curr_wrr_rq [simp]: "rq (update_curr_wrr K s) = rq s"
  by (simp add: update_curr_wrr_def Let_def)

lemma update_curr_wrr_rt [simp]:
  "rt_rqs (update_curr_wrr K s) = rt_rqs s" "rt_ents (update_curr_wrr K s) = rt_ents s"
  by (simp_all add: update_curr_wrr_def Let_def)

lemma update_curr_wrr_task [simp]:
  "policy (tasks (update_curr_wrr K s) q) = policy (tasks s q)"
  "wrr (tasks (update_curr_wrr K s) q) = wrr (tasks s q)"
  "sched_class (tasks (update_curr_wrr K s) q) = sched_class (tasks s q)"
  "sched_task_group (tasks (update_curr_wrr K s) q) = sched_task_group (tasks s q)"
  "on_rq (tasks (update_curr_wrr K s) q) = on_rq (tasks s q)"
  "need_resched (tasks (update_curr_wrr K s) q) = need_resched (tasks s q)"
  "prio (tasks (update_curr_wrr K s) q) = prio (tasks s q)"
  by (simp_all add: update_curr_wrr_def Let_def)

lemma update_curr_wrr_params [simp]:
  "task_params (tasks (update_curr_wrr K s) q) = task_params (tasks s q)"
  by (simp add: update_curr_wrr_def Let_def task_params_def)

lemma watchdog_rq [simp]: "rq (watchdog K p s) = rq s"
  by (simp add: watchdog_def Let_def)

lemma watchdog_task [simp]:
  "policy (tasks (watchdog K p s) q) = policy (tasks s q)"
  "wrr_time_slice (wrr (tasks (watchdog K p s) q)) = wrr_time_slice (wrr (tasks s q))"
  "sched_class (tasks (watchdog K p s) q) = sched_class (tasks s q)"
  "sched_task_group (tasks (watchdog K p s) q) = sched_task_group (tasks s q)"
  "on_rq (tasks (watchdog K p s) q) = on_rq (tasks s q)"
  "need_resched (tasks (watchdog K p s) q) = need_resched (tasks s q)"
  by (simp_all add: watchdog_def Let_def)

lemma refill_wrr_rq [simp]: "rq (refill_wrr K p s) = rq s"
  by (simp add: refill_wrr_def Let_def)

lemma refill_wrr_task [simp]:
  "policy (tasks (refill_wrr K p s) q) = policy (tasks s q)"
  "sched_class (tasks (refill_wrr K p s) q) = sched_class (tasks s q)"
  "sched_task_group (tasks (refill_wrr K p s) q) = sched_task_group (tasks s q)"
  "need_resched (tasks (refill_wrr K p s) q) = need_resched (tasks s q)"
  by (simp_all add: refill_wrr_def Let_def)

section \<open>The queue invariant\<close>

text \<open>
  Every queued task is queued once, none is NULL, and \<^verbatim>\<open>wrr_nr_running\<close> counts the queue.
\<close>

definition wrr_wf :: "kstate \<Rightarrow> bool" where
  "wrr_wf s \<longleftrightarrow> distinct (wq s) \<and> 0 \<notin> set (wq s) \<and> wnr s = of_nat (length (wq s))"

lemma wrr_wf_cong: "rq_wrr (rq s) = rq_wrr (rq t) \<Longrightarrow> wrr_wf s = wrr_wf t"
  by (simp add: wrr_wf_def)

lemma wrr_wf_frames [simp]:
  "wrr_wf (update_curr_wrr K s) = wrr_wf s" "wrr_wf (watchdog K p s) = wrr_wf s"
  "wrr_wf (refill_wrr K p s) = wrr_wf s" "wrr_wf (upd_task p f s) = wrr_wf s"
  "wrr_wf (upd_wrr p g s) = wrr_wf s" "wrr_wf (upd_se p h s) = wrr_wf s"
  "wrr_wf (inc_nr_running s) = wrr_wf s" "wrr_wf (dec_nr_running s) = wrr_wf s"
  "wrr_wf (resched_task p s) = wrr_wf s"
  by (rule wrr_wf_cong, simp)+

lemma wnr_eq_0: "wrr_wf s \<Longrightarrow> wnr s = 0 \<longleftrightarrow> wq s = []"
  by (simp add: wrr_wf_def of_nat_length_eq_0)

lemma wrr_wf_init: "wrr_wf (set_wrr_rq (init_wrr_rq w) s)"
  by (simp add: wrr_wf_def init_wrr_rq_def)

lemma wq_enqueue_task_wrr:
  assumes "list_ops_ok (klists K)" and "wrr_wf s" and "p \<notin> set (wq s)"
  shows "wq (enqueue_task_wrr K p flags s) =
    (if flags AND ENQUEUE_HEAD \<noteq> 0 then p # wq s else wq s @ [p])"
  using assms by (simp add: enqueue_task_wrr_def enqueue_wrr_entity_def Let_def wrr_wf_def list_laws)

lemma wnr_enqueue_task_wrr: "wnr (enqueue_task_wrr K p flags s) = wnr s + 1"
  by (simp add: enqueue_task_wrr_def enqueue_wrr_entity_def Let_def)

lemma wq_dequeue_task_wrr:
  assumes "list_ops_ok (klists K)" and "wrr_wf s" and "p \<in> set (wq s)"
  shows "wq (dequeue_task_wrr K p flags s) = remove1 p (wq s)"
  using assms by (simp add: dequeue_task_wrr_def dequeue_wrr_entity_def wrr_wf_def list_laws)

lemma wnr_dequeue_task_wrr: "wnr (dequeue_task_wrr K p flags s) = wnr s - 1"
  by (simp add: dequeue_task_wrr_def dequeue_wrr_entity_def)

lemma wq_requeue_task_wrr:
  assumes "list_ops_ok (klists K)" and "wrr_wf s" and "p \<in> set (wq s)"
  shows "wq (requeue_task_wrr K p head s) =
    (if head then p # remove1 p (wq s) else remove1 p (wq s) @ [p])"
  using assms by (simp add: requeue_task_wrr_def wrr_wf_def list_laws)

lemma requeue_task_wrr_simps [simp]:
  "wnr (requeue_task_wrr K p head s) = wnr s" "tasks (requeue_task_wrr K p head s) = tasks s"
  "curr (rq (requeue_task_wrr K p head s)) = curr (rq s)"
  "nr_running (rq (requeue_task_wrr K p head s)) = nr_running (rq s)"
  by (simp_all add: requeue_task_wrr_def)

lemma wrr_wf_enqueue:
  assumes "list_ops_ok (klists K)" and "wrr_wf s" and "p \<notin> set (wq s)" and "p \<noteq> 0"
  shows "wrr_wf (enqueue_task_wrr K p flags s)"
  using assms
  by (simp add: wrr_wf_def [of "enqueue_task_wrr K p flags s"] wq_enqueue_task_wrr
      wnr_enqueue_task_wrr) (simp add: wrr_wf_def)

lemma wrr_wf_dequeue:
  assumes "list_ops_ok (klists K)" and "wrr_wf s" and "p \<in> set (wq s)"
  shows "wrr_wf (dequeue_task_wrr K p flags s)"
proof -
  have "of_nat (length (wq s)) = of_nat (length (remove1 p (wq s))) + (1 :: uint32)"
    using length_remove1_Suc [OF assms(3)] by (metis of_nat_Suc add.commute)
  with assms show ?thesis
    by (simp add: wrr_wf_def [of "dequeue_task_wrr K p flags s"] wq_dequeue_task_wrr
        wnr_dequeue_task_wrr) (simp add: wrr_wf_def)
qed

lemma wrr_wf_requeue:
  assumes "list_ops_ok (klists K)" and "wrr_wf s" and "p \<in> set (wq s)"
  shows "wrr_wf (requeue_task_wrr K p head s)"
  using assms length_remove1_Suc [OF assms(3)]
  by (simp add: wrr_wf_def [of "requeue_task_wrr K p head s"] wq_requeue_task_wrr)
     (auto simp: wrr_wf_def simp flip: of_nat_Suc)

lemma pick_next_task_wrr_wf:
  assumes "wrr_wf s"
  shows "pick_next_task_wrr s =
    Some (case wq s of [] \<Rightarrow> (None, s)
          | p # _ \<Rightarrow> (Some p, upd_se p (\<lambda>e. e\<lparr>exec_start := clock_task (rq s)\<rparr>) s))"
proof (cases "wq s")
  case Nil
  with assms show ?thesis by (simp add: pick_next_task_wrr_def wnr_eq_0)
next
  case (Cons p xs)
  with assms have "wnr s \<noteq> 0" and "p \<noteq> 0"
    by (simp add: wnr_eq_0, auto simp: wrr_wf_def)
  with Cons show ?thesis by (simp add: pick_next_task_wrr_def)
qed

section \<open>WRR meets the queue contract\<close>

interpretation wrrq: run_queue
  "\<lambda>head p. enqueue_task_wrr K p (if head then ENQUEUE_HEAD else 0)"
  "\<lambda>p. dequeue_task_wrr K p flags"
  "\<lambda>head p. requeue_task_wrr K p head"
  "\<lambda>s. Option.bind (pick_next_task_wrr s) fst"
  wq "\<lambda>p. p \<noteq> 0" "\<lambda>s. list_ops_ok (klists K) \<and> wrr_wf s"
  for K flags
proof (unfold_locales, goal_cases)
  case (1 s) then show ?case by (simp add: wrr_wf_def)
next
  case (2 s x head) then show ?case by (simp add: wq_enqueue_task_wrr ENQUEUE_HEAD_def)
next
  case (3 s x) then show ?case by (simp add: wq_dequeue_task_wrr)
next
  case (4 s x head) then show ?case by (simp add: wq_requeue_task_wrr)
next
  case (5 s) then show ?case by (auto simp: pick_next_task_wrr_wf split: list.splits)
next
  case (6 s x head) then show ?case by (simp add: wrr_wf_enqueue)
next
  case (7 s x) then show ?case by (simp add: wrr_wf_dequeue)
next
  case (8 s x head) then show ?case by (simp add: wrr_wf_requeue)
qed

section \<open>Ticks and time slices\<close>

abbreviation slice :: "kstate \<Rightarrow> ptr \<Rightarrow> uint32" where
  "slice s p \<equiv> wrr_time_slice (wrr (tasks s p))"

text \<open>The slice a task of a group is refilled with; \<open>None\<close> for a group that is neither of the two.\<close>

definition group_slice :: "kenv \<Rightarrow> ptr \<Rightarrow> uint32 option" where
  "group_slice K tg =
     (if cgroup_path K tg = FOREGROUP then Some (WRR_FORE_TIMESLICE (HZ K))
      else if cgroup_path K tg = BACKGROUP then Some (WRR_BACK_TIMESLICE (HZ K))
      else None)"

lemma slice_refill_wrr:
  "slice (refill_wrr K p s) p =
     (case group_slice K (sched_task_group (tasks s p)) of None \<Rightarrow> slice s p | Some n \<Rightarrow> n)"
  by (simp add: refill_wrr_def group_slice_def Let_def)

lemma slice_task_tick_wrr:
  assumes "policy (tasks s p) = SCHED_WRR"
  shows "slice (task_tick_wrr K p s) p =
    (if slice s p \<noteq> 1 then slice s p - 1
     else case group_slice K (sched_task_group (tasks s p)) of None \<Rightarrow> 0 | Some n \<Rightarrow> n)"
  using assms by (simp add: task_tick_wrr_def Let_def slice_refill_wrr split: option.split)

lemma wq_task_tick_wrr_running:
  "policy (tasks s p) \<noteq> SCHED_WRR \<or> slice s p \<noteq> 1 \<Longrightarrow> rq (task_tick_wrr K p s) = rq s"
  by (auto simp: task_tick_wrr_def Let_def)

lemma wq_task_tick_wrr_expired:
  assumes "list_ops_ok (klists K)" and "wrr_wf s" and "p \<in> set (wq s)"
    and "policy (tasks s p) = SCHED_WRR" and "slice s p = 1"
  shows "wq (task_tick_wrr K p s) = remove1 p (wq s) @ [p]"
proof (cases "prev_ne_next (wq s)")
  case True
  with assms show ?thesis
    by (simp add: task_tick_wrr_def Let_def wq_requeue_task_wrr)
next
  case False
  have "distinct (wq s)" using assms(2) by (simp add: wrr_wf_def)
  with False have "length (wq s) < 2" by (simp add: prev_ne_next_iff)
  with assms(3) have "wq s = [p]" by (cases "wq s") (auto simp: less_Suc_eq_le)
  with False assms show ?thesis by (simp add: task_tick_wrr_def Let_def)
qed

lemma task_tick_wrr_task [simp]:
  "policy (tasks (task_tick_wrr K p s) q) = policy (tasks s q)"
  "sched_class (tasks (task_tick_wrr K p s) q) = sched_class (tasks s q)"
  "sched_task_group (tasks (task_tick_wrr K p s) q) = sched_task_group (tasks s q)"
  by (simp_all add: task_tick_wrr_def Let_def)

lemma task_tick_wrr_curr [simp]:
  "curr (rq (task_tick_wrr K p s)) = curr (rq s)"
  "nr_running (rq (task_tick_wrr K p s)) = nr_running (rq s)"
  by (simp_all add: task_tick_wrr_def Let_def)

lemma need_resched_task_tick_wrr:
  assumes "wrr_wf s" and "policy (tasks s p) = SCHED_WRR"
  shows "need_resched (tasks (task_tick_wrr K p s) p) =
    (need_resched (tasks s p) \<or> slice s p = 1 \<and> 2 \<le> length (wq s))"
proof -
  have "distinct (wq s)" using assms(1) by (simp add: wrr_wf_def)
  with assms(2) show ?thesis
    by (simp add: task_tick_wrr_def Let_def prev_ne_next_iff)
qed

lemma wrr_wf_tick:
  assumes "list_ops_ok (klists K)" and "wrr_wf s" and "p \<in> set (wq s)"
  shows "wrr_wf (task_tick_wrr K p s)"
  using assms by (simp add: task_tick_wrr_def Let_def wrr_wf_requeue)

text \<open>
  Successive ticks of the running task \<open>p\<close>; between them only the clock moves, to the values
  of the list.
\<close>

definition set_clock_task :: "u64 \<Rightarrow> kstate \<Rightarrow> kstate" where
  "set_clock_task c s = s\<lparr>rq := (rq s)\<lparr>clock_task := c\<rparr>\<rparr>"

primrec tick_run :: "kenv \<Rightarrow> ptr \<Rightarrow> u64 list \<Rightarrow> kstate \<Rightarrow> kstate" where
  "tick_run K p [] s = s"
| "tick_run K p (c # cs) s = tick_run K p cs (task_tick_wrr K p (set_clock_task c s))"

lemma set_clock_task_simps [simp]:
  "tasks (set_clock_task c s) = tasks s" "rq_wrr (rq (set_clock_task c s)) = rq_wrr (rq s)"
  "curr (rq (set_clock_task c s)) = curr (rq s)" "wrr_wf (set_clock_task c s) = wrr_wf s"
  by (simp_all add: set_clock_task_def wrr_wf_def)

lemma word_pos_sub1:
  fixes w :: uint32
  assumes "Suc n < unat w"
  shows "w \<noteq> 1" and "n < unat (w - 1)" and "unat (w - 1) = unat w - 1"
proof -
  have "w \<noteq> 0" using assms by auto
  then show "unat (w - 1) = unat w - 1" by (rule unat_minus_one)
  with assms show "n < unat (w - 1)" by simp
  show "w \<noteq> 1" using assms by auto
qed

text \<open>While the slice lasts, a tick only counts it down.\<close>

lemma tick_run_counts_down:
  assumes "policy (tasks s p) = SCHED_WRR" and "length cs < unat (slice s p)"
  shows "unat (slice (tick_run K p cs s) p) = unat (slice s p) - length cs
    \<and> rq_wrr (rq (tick_run K p cs s)) = rq_wrr (rq s)
    \<and> policy (tasks (tick_run K p cs s) p) = SCHED_WRR
    \<and> sched_task_group (tasks (tick_run K p cs s) p) = sched_task_group (tasks s p)"
  using assms
proof (induction cs arbitrary: s)
  case (Cons c cs)
  let ?t = "task_tick_wrr K p (set_clock_task c s)"
  have sl: "Suc (length cs) < unat (slice s p)" using Cons.prems(2) by simp
  note sub = word_pos_sub1 [OF sl]
  have t: "slice ?t p = slice s p - 1"
    using Cons.prems(1) sub(1) by (simp add: slice_task_tick_wrr)
  have q: "rq_wrr (rq ?t) = rq_wrr (rq s)"
    using sub(1) by (simp add: wq_task_tick_wrr_running)
  have len: "length cs < unat (slice ?t p)" using t sub(2) by simp
  have pol: "policy (tasks ?t p) = SCHED_WRR" using Cons.prems(1) by simp
  from Cons.IH [OF pol len] q t sub(3) show ?case by simp
qed simp

lemma tick_run_append: "tick_run K p (cs @ ds) s = tick_run K p ds (tick_run K p cs s)"
  by (induction cs arbitrary: s) simp_all

section \<open>Executions of the class\<close>

text \<open>
  The calls the core makes into the class, under the core's side of the contract: a task is
  enqueued only when it is not queued, and dequeued, yielded or ticked only when it is. Between the calls everything
  but the queue of the class may change in any way (\<open>elsewhere\<close>): a context switch, the clock, the tasks, the other classes.
\<close>

inductive wrr_step :: "kenv \<Rightarrow> kstate \<Rightarrow> kstate \<Rightarrow> bool" for K where
  enqueue: "p \<noteq> 0 \<Longrightarrow> p \<notin> set (wq s) \<Longrightarrow> wrr_step K s (enqueue_task_wrr K p flags s)"
| dequeue: "p \<in> set (wq s) \<Longrightarrow> wrr_step K s (dequeue_task_wrr K p flags s)"
| yield: "curr (rq s) \<in> set (wq s) \<Longrightarrow> wrr_step K s (yield_task_wrr K s)"
| tick: "curr (rq s) \<in> set (wq s) \<Longrightarrow> wrr_step K s (task_tick_wrr K (curr (rq s)) s)"
| pick: "pick_next_task_wrr s = Some (r, t) \<Longrightarrow> wrr_step K s t"
| put_prev: "wrr_step K s (put_prev_task_wrr K p s)"
| set_curr: "wrr_step K s (set_curr_task_wrr s)"
| fork: "task_fork_wrr p s = Some t \<Longrightarrow> wrr_step K s t"
| switched_to: "wrr_step K s (switched_to_wrr p s)"
| elsewhere: "rq_wrr (rq t) = rq_wrr (rq s) \<Longrightarrow> wrr_step K s t"

inductive wrr_reachable :: "kenv \<Rightarrow> kstate \<Rightarrow> bool" for K where
  boot: "wrr_reachable K (set_wrr_rq (init_wrr_rq w) s)"
| step: "wrr_reachable K s \<Longrightarrow> wrr_step K s t \<Longrightarrow> wrr_reachable K t"

lemma wrr_step_wf:
  assumes "list_ops_ok (klists K)" and "wrr_step K s t" and "wrr_wf s"
  shows "wrr_wf t"
  using assms(2,3,1)
proof (induction rule: wrr_step.induct)
  case (pick s r t)
  then show ?case by (auto simp: pick_next_task_wrr_wf split: list.splits)
next
  case (fork p s t)
  then show ?case by (auto simp: task_fork_wrr_def split: option.splits)
next
  case (elsewhere t s)
  then show ?case using wrr_wf_cong by blast
qed (simp_all add: wrr_wf_enqueue wrr_wf_dequeue yield_task_wrr_def wrr_wf_requeue wrr_wf_tick
       put_prev_task_wrr_def set_curr_task_wrr_def switched_to_wrr_def)

section \<open>Properties\<close>

text \<open>C3: In every state that the WRR class reaches from an initialised run queue by any sequence of
  the core's calls, with context switches, clock updates and any change of the tasks and of the queues
  of the other classes between them, no task is queued twice, NULL is never queued, and \<^verbatim>\<open>wrr_nr_running\<close> is the
  number of queued tasks, so that \<^verbatim>\<open>pick_next_task_wrr\<close> never takes the first entry of an empty list.\<close>

theorem wrr_reachable_wf:
  assumes "list_ops_ok (klists K)" and "wrr_reachable K s"
  shows "wrr_wf s \<and> unat (wnr s) = length (wq s) \<and> pick_next_task_wrr s \<noteq> None"
proof -
  from assms(2,1) have wf: "wrr_wf s"
    by (induction rule: wrr_reachable.induct) (auto intro: wrr_wf_init wrr_step_wf)
  then have "length (wq s) < 2 ^ 32"
    using distinct_ptrs_bound [of "wq s"] by (simp add: wrr_wf_def)
  then have "unat (wnr s) = length (wq s)"
    using wf by (simp add: wrr_wf_def unat_of_nat)
  with wf show ?thesis by (simp add: pick_next_task_wrr_wf)
qed

theorem wrr_reachable_wf_witness:
  "\<exists>s. wq s = [10] \<and> wrr_wf s \<and> unat (wnr s) = length (wq s) \<and> pick_next_task_wrr s \<noteq> None"
proof -
  let ?s0 = "set_wrr_rq (init_wrr_rq (rq_wrr sample_rq)) sample_state"
  let ?s = "enqueue_task_wrr sample_env 10 0 ?s0"
  have "wrr_reachable sample_env ?s"
    by (rule wrr_reachable.step [OF wrr_reachable.boot], rule wrr_step.enqueue)
      (simp_all add: init_wrr_rq_def)
  moreover have "wq ?s = [10]"
    by (simp add: enqueue_task_wrr_def enqueue_wrr_entity_def init_wrr_rq_def)
  ultimately show ?thesis using wrr_reachable_wf [of sample_env ?s] by auto
qed

text \<open>Round robin. As long as no task arrives or leaves, letting each picked task run and putting
  it back at the tail serves every queued task exactly once per round, in queue order, and
  leaves the queue as it was.\<close>

lemma wrr_full_round:
  assumes "list_ops_ok (klists K)" and "wrr_wf s"
  defines "round \<equiv> turns (\<lambda>s. Option.bind (pick_next_task_wrr s) fst)
             (\<lambda>head p. requeue_task_wrr K p head) (length (wq s)) s"
  shows "fst round = wq s \<and> wq (snd round) = wq s \<and> wrr_wf (snd round)"
  using wrrq.full_round [of K s] wrrq.turns_queue [of K s "length (wq s)"] assms by simp

lemma wrr_full_round_witness:
  "fst (turns (\<lambda>s. Option.bind (pick_next_task_wrr s) fst)
     (\<lambda>head p. requeue_task_wrr sample_env p head) 3 sample_state) = [10, 11, 12]"
  using wrr_full_round [of sample_env sample_state]
  by (simp add: wrr_wf_def sample_state_def sample_rq_def numeral_3_eq_3)

text \<open>C4: A WRR task whose slice is \<open>n > 0\<close> ticks and whose group is the foreground or background
  group keeps its place in the queue for \<open>n - 1\<close> ticks, whatever the clock reads; at the \<open>n\<close>-th
  tick it goes to the tail, staying queued, with the slice of its group refilled, and it is asked to
  reschedule when another task is queued.\<close>

theorem wrr_slice_expires:
  assumes "list_ops_ok (klists K)" and "wrr_wf s" and "p \<in> set (wq s)"
    and "policy (tasks s p) = SCHED_WRR"
    and "group_slice K (sched_task_group (tasks s p)) = Some m"
    and "Suc (length cs) = unat (slice s p)"
  shows "wq (tick_run K p cs s) = wq s
    \<and> wq (tick_run K p (cs @ [c]) s) = remove1 p (wq s) @ [p]
    \<and> slice (tick_run K p (cs @ [c]) s) p = m
    \<and> (2 \<le> length (wq s) \<longrightarrow> need_resched (tasks (tick_run K p (cs @ [c]) s) p))"
proof -
  let ?t = "set_clock_task c (tick_run K p cs s)"
  have len: "length cs < unat (slice s p)" using assms(6) by simp
  note down = tick_run_counts_down [OF assms(4) len]
  have wrr: "rq_wrr (rq ?t) = rq_wrr (rq s)" using down by simp
  have "unat (slice ?t p) = 1" using down assms(6) by simp
  then have one: "slice ?t p = 1" by (simp add: word_unat_eq_iff)
  have wf: "wrr_wf ?t" using wrr assms(2) by (simp add: wrr_wf_def)
  have pol: "policy (tasks ?t p) = SCHED_WRR" using down by simp
  have "wq (task_tick_wrr K p ?t) = remove1 p (wq s) @ [p]"
    using wq_task_tick_wrr_expired [OF assms(1) wf _ pol one] assms(3) wrr by simp
  moreover have "slice (task_tick_wrr K p ?t) p = m"
    using slice_task_tick_wrr [OF pol] one assms(5) down by simp
  moreover have "2 \<le> length (wq s) \<longrightarrow> need_resched (tasks (task_tick_wrr K p ?t) p)"
    using need_resched_task_tick_wrr [OF wf pol] one wrr by simp
  ultimately show ?thesis using down by (simp add: tick_run_append)
qed

theorem wrr_slice_expires_witness:
  "wq (tick_run sample_env 10 [6000, 7000, 8000] sample_state) = [11, 12, 10]
   \<and> slice (tick_run sample_env 10 [6000, 7000, 8000] sample_state) 10 = 10"
  using wrr_slice_expires [of sample_env sample_state 10 10 "[6000, 7000]" 8000]
  by (simp add: wrr_wf_def sample_defs SCHED_WRR_def group_slice_def FOREGROUP_def
      WRR_FORE_TIMESLICE_def)

text \<open>C5: The slice counter is unsigned and decremented before it is tested, so a WRR task whose slice
  is 0 is not requeued at its next tick: the counter wraps to \<open>2 ^ 32 - 1\<close> and the task keeps its
  place for all of the following \<open>2 ^ 32 - 1\<close> ticks, whatever its group. (Nothing in the
  repository gives \<^verbatim>\<open>wrr.time_slice\<close> a first value when a task enters the class.)\<close>

theorem wrr_zero_slice_wraps:
  assumes "policy (tasks s p) = SCHED_WRR" and "slice s p = 0" and "length cs < 2 ^ 32 - 1"
  shows "wq (tick_run K p (c # cs) s) = wq s
    \<and> unat (slice (tick_run K p (c # cs) s) p) = 2 ^ 32 - 1 - length cs"
proof -
  let ?t = "task_tick_wrr K p (set_clock_task c s)"
  have sl: "slice ?t p = -1" using assms(1,2) by (simp add: slice_task_tick_wrr)
  have q: "rq_wrr (rq ?t) = rq_wrr (rq s)" using assms(2) by (simp add: wq_task_tick_wrr_running)
  have "unat (slice ?t p) = 2 ^ 32 - 1" using sl by (simp add: unsigned_minus_1_eq_mask mask_eq_exp_minus_1)
  with tick_run_counts_down [of ?t p cs K] assms(1,3) q show ?thesis by simp
qed

theorem wrr_zero_slice_wraps_witness:
  "wq (tick_run sample_env 10 [6000, 7000] (upd_wrr 10 (\<lambda>e. e\<lparr>wrr_time_slice := 0\<rparr>) sample_state))
     = [10, 11, 12]"
  using wrr_zero_slice_wraps [of "upd_wrr 10 (\<lambda>e. e\<lparr>wrr_time_slice := 0\<rparr>) sample_state" 10 "[7000]"
      sample_env 6000]
  by (simp add: sample_state_def sample_rq_def sample_tasks_def sample_task_def SCHED_WRR_def)

text \<open>A task in a group other than the foreground and background groups is never given a new
  slice: the tick that uses up its slice leaves the counter at 0, the value from which the next
  tick wraps around.\<close>

lemma wrr_other_group_not_refilled:
  assumes "list_ops_ok (klists K)" and "wrr_wf s" and "p \<in> set (wq s)"
    and "policy (tasks s p) = SCHED_WRR" and "slice s p = 1"
    and "cgroup_path K (sched_task_group (tasks s p)) \<noteq> FOREGROUP"
    and "cgroup_path K (sched_task_group (tasks s p)) \<noteq> BACKGROUP"
  shows "slice (task_tick_wrr K p s) p = 0
    \<and> slice (tick_run K p [c] (task_tick_wrr K p s)) p = -1
    \<and> wq (tick_run K p [c] (task_tick_wrr K p s)) = remove1 p (wq s) @ [p]"
proof -
  let ?t = "task_tick_wrr K p s"
  have sl: "slice ?t p = 0" using assms(4-7) by (simp add: slice_task_tick_wrr group_slice_def)
  moreover have "slice (task_tick_wrr K p (set_clock_task c ?t)) p = -1"
    using sl assms(4) by (simp add: slice_task_tick_wrr)
  moreover have "wq (task_tick_wrr K p (set_clock_task c ?t)) = wq ?t"
    using sl by (simp add: wq_task_tick_wrr_running)
  ultimately show ?thesis using wq_task_tick_wrr_expired [OF assms(1-5)] by simp
qed

definition sample_other_group :: kstate where
  "sample_other_group = upd_task 12 (\<lambda>t. t\<lparr>sched_task_group := 102\<rparr>) sample_state"

lemma wrr_other_group_not_refilled_witness:
  "slice (task_tick_wrr sample_env 12 sample_other_group) 12 = 0"
  using wrr_other_group_not_refilled [of sample_env sample_other_group 12 0]
  by (simp add: sample_other_group_def wrr_wf_def sample_defs SCHED_WRR_def FOREGROUP_def BACKGROUP_def)

text \<open>When the current task is of the WRR class and the clock has not gone back since it was last
  accounted, \<^verbatim>\<open>update_curr_wrr\<close> adds exactly the time passed to the task's \<^verbatim>\<open>sum_exec_runtime\<close> and to the
  usage of every cpuacct group above it, restarts the measurement at the present clock, and
  changes nothing of any other task or of the run queue; accounting again at once adds 0.\<close>

lemma update_curr_wrr_accounts:
  assumes "sched_class (tasks s (curr (rq s))) = wrr_sched_class"
    and "exec_start (se (tasks s (curr (rq s)))) \<le> clock_task (rq s)"
    and "clock_task (rq s) < 2 ^ 63"
    and "cpuacct_active K" and "distinct (ca_chain s (curr (rq s)))"
  defines "c \<equiv> curr (rq s)"
  defines "d \<equiv> clock_task (rq s) - exec_start (se (tasks s c))"
  shows "sum_exec_runtime (se (tasks (update_curr_wrr K s) c)) = sum_exec_runtime (se (tasks s c)) + d
    \<and> exec_start (se (tasks (update_curr_wrr K s) c)) = clock_task (rq s)
    \<and> exec_max (se (tasks (update_curr_wrr K s) c)) = max (exec_max (se (tasks s c))) d
    \<and> (\<forall>g. cpuusage (update_curr_wrr K s) g =
          (if g \<in> set (ca_chain s c) then cpuusage s g + d else cpuusage s g))
    \<and> (\<forall>q. q \<noteq> c \<longrightarrow> tasks (update_curr_wrr K s) q = tasks s q)
    \<and> rq (update_curr_wrr K s) = rq s
    \<and> delta_exec (update_curr_wrr K s) = 0"
proof -
  have "unat (clock_task (rq s)) < 2 ^ 63"
    using assms(3) by (simp add: word_less_nat_alt)
  then have "unat d < 2 ^ 63"
    using assms(2) unfolding d_def c_def by (simp add: unat_sub)
  then have "\<not> sint d < 0"
    by (simp add: sint_u64_small)
  then have pos: "\<not> sint (clock_task (rq s) - exec_start (se (tasks s (curr (rq s))))) < 0"
    by (simp add: d_def c_def)
  show ?thesis
    unfolding c_def d_def
    using assms(1,4,5) pos
    by (simp add: update_curr_wrr_def Let_def cpuusage_charge delta_exec_def)
qed

lemma update_curr_wrr_accounts_witness:
  "sum_exec_runtime (se (tasks (update_curr_wrr sample_env sample_state) 10)) = 5000"
  using update_curr_wrr_accounts [of sample_state sample_env]
  by (simp add: sample_defs)

text \<open>Enqueueing a task that is not queued and dequeueing it again restores the WRR queue, its
  counter and \<^verbatim>\<open>rq->nr_running\<close>; in between the task stands at the end the flags ask for.\<close>

lemma wrr_enqueue_dequeue_roundtrip:
  fixes flags flags' :: int
  assumes "list_ops_ok (klists K)" and "wrr_wf s" and "p \<notin> set (wq s)" and "p \<noteq> 0"
  defines "t \<equiv> enqueue_task_wrr K p flags s"
  shows "wq t = (if flags AND ENQUEUE_HEAD \<noteq> 0 then p # wq s else wq s @ [p])
    \<and> nr_running (rq t) = nr_running (rq s) + 1
    \<and> rq_wrr (rq (dequeue_task_wrr K p flags' t)) = rq_wrr (rq s)
    \<and> nr_running (rq (dequeue_task_wrr K p flags' t)) = nr_running (rq s)"
proof -
  have q: "wq t = (if flags AND ENQUEUE_HEAD \<noteq> 0 then p # wq s else wq s @ [p])"
    unfolding t_def using assms(1-3) by (rule wq_enqueue_task_wrr)
  have wf: "wrr_wf t" unfolding t_def using assms(1-4) by (rule wrr_wf_enqueue)
  have "wq (dequeue_task_wrr K p flags' t) = wq s"
    using wq_dequeue_task_wrr [OF assms(1) wf] q assms(3) by (simp add: remove1_append)
  moreover have "wnr (dequeue_task_wrr K p flags' t) = wnr s"
    by (simp add: wnr_dequeue_task_wrr t_def wnr_enqueue_task_wrr)
  moreover have "nr_running (rq t) = nr_running (rq s) + 1"
    by (simp add: t_def enqueue_task_wrr_def enqueue_wrr_entity_def Let_def)
  moreover have "nr_running (rq (dequeue_task_wrr K p flags' t)) = nr_running (rq t) - 1"
    by (simp add: dequeue_task_wrr_def dequeue_wrr_entity_def)
  ultimately show ?thesis using q by (simp add: wrr_rq.equality)
qed

lemma wrr_enqueue_dequeue_roundtrip_witness:
  "rq_wrr (rq (dequeue_task_wrr sample_env 20 0 (enqueue_task_wrr sample_env 20 0 sample_state)))
     = \<lparr>wrr_nr_running = 3, wrr_queue = [10, 11, 12]\<rparr>"
  using wrr_enqueue_dequeue_roundtrip [of sample_env sample_state 20 0 0]
  by (simp add: wrr_wf_def sample_state_def sample_rq_def)

text \<open>The interval reported to user space is the slice a WRR task is really refilled with, for both
  groups; with \<^verbatim>\<open>HZ\<close> at least 100 neither slice is 0, and with \<^verbatim>\<open>HZ\<close> a multiple of 100 a foreground
  slice is ten background slices, of 100 and 10 milliseconds.\<close>

lemma wrr_interval_is_slice:
  assumes "100 \<le> HZ K" and "HZ K < 2 ^ 32"
    and "policy (tasks s p) = SCHED_WRR"
    and "group_slice K (sched_task_group (tasks s p)) = Some m"
  shows "get_rr_interval_wrr K p s = m \<and> slice (refill_wrr K p s) p = m \<and> m \<noteq> 0
    \<and> (100 dvd HZ K \<longrightarrow> unat (WRR_FORE_TIMESLICE (HZ K)) * 1000 = 100 * HZ K
          \<and> unat (WRR_BACK_TIMESLICE (HZ K)) * 1000 = 10 * HZ K)"
proof -
  have fore: "unat (WRR_FORE_TIMESLICE (HZ K)) = 100 * HZ K div 1000"
    using assms(2) by (simp add: WRR_FORE_TIMESLICE_def unat_of_nat)
  have bck: "unat (WRR_BACK_TIMESLICE (HZ K)) = 10 * HZ K div 1000"
    using assms(2) by (simp add: WRR_BACK_TIMESLICE_def unat_of_nat)
  have "0 < 100 * HZ K div 1000" and "0 < 10 * HZ K div 1000"
    using assms(1) by auto
  then have "WRR_FORE_TIMESLICE (HZ K) \<noteq> 0" and "WRR_BACK_TIMESLICE (HZ K) \<noteq> 0"
    using fore bck by (metis unat_0 less_irrefl)+
  then have "m \<noteq> 0" using assms(4) by (auto simp: group_slice_def split: if_splits)
  moreover have "get_rr_interval_wrr K p s = m"
    using assms(3,4) by (auto simp: get_rr_interval_wrr_def group_slice_def split: if_splits)
  moreover have "slice (refill_wrr K p s) p = m"
    using assms(4) by (simp add: slice_refill_wrr)
  moreover have "100 dvd HZ K \<Longrightarrow> 1000 dvd 100 * HZ K \<and> 1000 dvd 10 * HZ K"
    by (auto elim!: dvdE)
  ultimately show ?thesis using fore bck by auto
qed

lemma wrr_interval_is_slice_witness: "get_rr_interval_wrr sample_env 12 sample_state = 1"
  using wrr_interval_is_slice [of sample_env sample_state 12 1]
  by (simp add: sample_defs SCHED_WRR_def group_slice_def FOREGROUP_def BACKGROUP_def
      WRR_BACK_TIMESLICE_def)

end
