(* ===== verification/Rt.thy ===== *)
theory Rt
  imports Rt_Queue Wrr
begin

text \<open>
  The real-time class, \<^verbatim>\<open>basic/kernel/sched/rt.c\<close>, for one CPU with \<^verbatim>\<open>CONFIG_RT_GROUP_SCHED\<close>: entities
  of tasks and of task groups, queued in the \<^verbatim>\<open>rt_rq\<close> of their parent group. The push and pull
  operations are empty on one CPU and left out, as are the lists of pushable tasks.

  \<^verbatim>\<open>for_each_sched_rt_entity\<close> follows \<^verbatim>\<open>parent\<close> pointers; \<open>rt_chain\<close> is the list of entities it
  visits, \<open>None\<close> if the pointers form a cycle.
\<close>

section \<open>Entities\<close>

partial_function (option) rt_chain :: "kstate \<Rightarrow> ptr option \<Rightarrow> ptr list option" where
  "rt_chain s e =
     (case e of
        None \<Rightarrow> Some []
      | Some x \<Rightarrow> Option.bind (rt_chain s (rt_parent (rt_ents s x))) (\<lambda>xs. Some (x # xs)))"

definition group_rt_rq :: "kstate \<Rightarrow> ptr \<Rightarrow> ptr option" where
  "group_rt_rq s e = rt_my_q (rt_ents s e)"

definition on_rt_rq :: "kstate \<Rightarrow> ptr \<Rightarrow> bool" where
  "on_rt_rq s e = on_rt_list e (rt_rqs s (rt_rq_of (rt_ents s e)))"

definition rt_se_prio :: "kstate \<Rightarrow> ptr \<Rightarrow> int" where
  "rt_se_prio s e =
     (case group_rt_rq s e of Some g \<Rightarrow> highest_prio_curr (rt_rqs s g) | None \<Rightarrow> prio (tasks s e))"

definition rt_se_boosted :: "kstate \<Rightarrow> ptr \<Rightarrow> bool" where
  "rt_se_boosted s e =
     (case group_rt_rq s e of
        Some g \<Rightarrow> rt_nr_boosted (rt_rqs s g) \<noteq> 0
      | None \<Rightarrow> prio (tasks s e) \<noteq> normal_prio_of (tasks s e))"

section \<open>Enqueueing and dequeueing\<close>

definition start_rt_bandwidth :: "kenv \<Rightarrow> ptr \<Rightarrow> kstate \<Rightarrow> kstate" where
  "start_rt_bandwidth K tg s =
     (if \<not> rt_bandwidth_enabled s \<or> bw_rt_runtime (tg_rt_bandwidth (tgs s tg)) = RUNTIME_INF then s
      else if hrtimer_active K tg s then s
      else emit (StartBandwidthTimer tg) s)"

definition inc_rt_group :: "kenv \<Rightarrow> ptr \<Rightarrow> ptr \<Rightarrow> kstate \<Rightarrow> kstate" where
  "inc_rt_group K e g s =
     (let s1 = (if rt_se_boosted s e
                then upd_rt_rq g (\<lambda>r. r\<lparr>rt_nr_boosted := rt_nr_boosted r + 1\<rparr>) s else s)
      in case rt_tg (rt_rqs s1 g) of None \<Rightarrow> s1 | Some tg \<Rightarrow> start_rt_bandwidth K tg s1)"

definition dec_rt_group :: "ptr \<Rightarrow> ptr \<Rightarrow> kstate \<Rightarrow> kstate" where
  "dec_rt_group e g s =
     (if rt_se_boosted s e
      then upd_rt_rq g (\<lambda>r. r\<lparr>rt_nr_boosted := rt_nr_boosted r - 1\<rparr>) s else s)"

definition inc_rt_tasks :: "kenv \<Rightarrow> ptr \<Rightarrow> ptr \<Rightarrow> kstate \<Rightarrow> kstate" where
  "inc_rt_tasks K e g s =
     (let pr = rt_se_prio s e
      in inc_rt_group K e g
           (upd_rt_rq g (\<lambda>r. inc_rt_prio pr (r\<lparr>rt_nr_running := rt_nr_running r + 1\<rparr>)) s))"

definition dec_rt_tasks :: "kenv \<Rightarrow> ptr \<Rightarrow> ptr \<Rightarrow> kstate \<Rightarrow> kstate" where
  "dec_rt_tasks K e g s =
     (let s1 = upd_rt_rq g (\<lambda>r. r\<lparr>rt_nr_running := rt_nr_running r - 1\<rparr>) s
      in dec_rt_group e g (upd_rt_rq g (dec_rt_prio K (rt_se_prio s1 e)) s1))"

definition enqueue_rt_entity1 :: "kenv \<Rightarrow> bool \<Rightarrow> ptr \<Rightarrow> kstate \<Rightarrow> kstate" where
  "enqueue_rt_entity1 K head e s =
     (let g = rt_rq_of (rt_ents s e) in
      if (case group_rt_rq s e of
            None \<Rightarrow> False
          | Some gq \<Rightarrow> rt_rq_throttled (rt_rqs s gq) \<or> rt_nr_running (rt_rqs s gq) = 0)
      then s
      else
        let s1 = (if rt_nr_running (rt_rqs s g) = 0
                  then s\<lparr>rq := (rq s)\<lparr>leaf_rt_rq_list := list_add_rcu K g (leaf_rt_rq_list (rq s))\<rparr>\<rparr>
                  else s);
            s2 = upd_rt_rq g (rt_link K e (rt_se_prio s1 e) head) s1
        in inc_rt_tasks K e g s2)"

definition dequeue_rt_entity1 :: "kenv \<Rightarrow> ptr \<Rightarrow> kstate \<Rightarrow> kstate" where
  "dequeue_rt_entity1 K e s =
     (let g = rt_rq_of (rt_ents s e);
          s1 = upd_rt_rq g (rt_unlink K e (rt_se_prio s e)) s;
          s2 = dec_rt_tasks K e g s1
      in if rt_nr_running (rt_rqs s2 g) = 0
         then s2\<lparr>rq := (rq s2)\<lparr>leaf_rt_rq_list := list_del_rcu K g (leaf_rt_rq_list (rq s2))\<rparr>\<rparr>
         else s2)"

text \<open>
  \<^verbatim>\<open>dequeue_rt_stack\<close> links the entities by \<^verbatim>\<open>back\<close> on the way up and follows these pointers down: the
  chain in reverse.
\<close>

definition dequeue_rt_stack :: "kenv \<Rightarrow> ptr list \<Rightarrow> kstate \<Rightarrow> kstate" where
  "dequeue_rt_stack K es s =
     fold (\<lambda>e s. if on_rt_rq s e then dequeue_rt_entity1 K e s else s) (rev es) s"

definition enqueue_rt_entity :: "kenv \<Rightarrow> ptr \<Rightarrow> bool \<Rightarrow> kstate \<Rightarrow> kstate option" where
  "enqueue_rt_entity K e head s =
     do { es \<leftarrow> rt_chain s (Some e);
          Some (fold (enqueue_rt_entity1 K head) es (dequeue_rt_stack K es s)) }"

definition dequeue_rt_entity :: "kenv \<Rightarrow> ptr \<Rightarrow> kstate \<Rightarrow> kstate option" where
  "dequeue_rt_entity K e s =
     do { es \<leftarrow> rt_chain s (Some e);
          Some (fold (\<lambda>e s. case group_rt_rq s e of
                        Some g \<Rightarrow> if rt_nr_running (rt_rqs s g) \<noteq> 0 then enqueue_rt_entity1 K False e s else s
                      | None \<Rightarrow> s) es (dequeue_rt_stack K es s)) }"

section \<open>Bandwidth\<close>

definition sched_rt_rq_enqueue :: "kenv \<Rightarrow> ptr \<Rightarrow> kstate \<Rightarrow> kstate option" where
  "sched_rt_rq_enqueue K g s =
     do { tg \<leftarrow> rt_tg (rt_rqs s g);
          if rt_nr_running (rt_rqs s g) \<noteq> 0 then
            do { s1 \<leftarrow> (case tg_rt_se (tgs s tg) of
                          Some e \<Rightarrow> if \<not> on_rt_rq s e then enqueue_rt_entity K e False s else Some s
                        | None \<Rightarrow> Some s);
                 let c = curr (rq s1);
                 Some (if highest_prio_curr (rt_rqs s1 g) < prio (tasks s1 c) then resched_task c s1 else s1) }
          else Some s }"

definition sched_rt_rq_dequeue :: "kenv \<Rightarrow> ptr \<Rightarrow> kstate \<Rightarrow> kstate option" where
  "sched_rt_rq_dequeue K g s =
     do { tg \<leftarrow> rt_tg (rt_rqs s g);
          case tg_rt_se (tgs s tg) of
            Some e \<Rightarrow> if on_rt_rq s e then dequeue_rt_entity K e s else Some s
          | None \<Rightarrow> Some s }"

text \<open>On one CPU \<^verbatim>\<open>balance_runtime\<close> does nothing. The first value of the result is the returned flag.\<close>

definition sched_rt_runtime_exceeded :: "kenv \<Rightarrow> ptr \<Rightarrow> kstate \<Rightarrow> (bool \<times> kstate) option" where
  "sched_rt_runtime_exceeded K g s =
     (let r = rt_rqs s g; runtime = sched_rt_runtime r in
      if rt_throttled r then Some (rt_rq_throttled r, s)
      else
        do { tg \<leftarrow> rt_tg r;
             if runtime \<ge> rt_period (tg_rt_bandwidth (tgs s tg)) then Some (False, s)
             else if runtime = RUNTIME_INF then Some (False, s)
             else if rt_time r > runtime then
               do { let s1 = (if bw_rt_runtime (tg_rt_bandwidth (tgs s tg)) \<noteq> 0
                              then upd_rt_rq g (\<lambda>r. r\<lparr>rt_throttled := True\<rparr>) s
                              else upd_rt_rq g (\<lambda>r. r\<lparr>rt_time := 0\<rparr>) s);
                    if rt_rq_throttled (rt_rqs s1 g)
                    then do { s2 \<leftarrow> sched_rt_rq_dequeue K g s1; Some (True, s2) }
                    else Some (False, s1) }
             else Some (False, s) })"

definition charge_rt_rq :: "kenv \<Rightarrow> ptr \<Rightarrow> u64 \<Rightarrow> ptr \<Rightarrow> kstate \<Rightarrow> kstate option" where
  "charge_rt_rq K c d e s =
     (let g = rt_rq_of (rt_ents s e) in
      if sched_rt_runtime (rt_rqs s g) \<noteq> RUNTIME_INF then
        do { let s1 = upd_rt_rq g (\<lambda>r. r\<lparr>rt_time := rt_time r + d\<rparr>) s;
             (ex, s2) \<leftarrow> sched_rt_runtime_exceeded K g s1;
             Some (if ex then resched_task c s2 else s2) }
      else Some s)"

fun charge_rt_rqs :: "kenv \<Rightarrow> ptr \<Rightarrow> u64 \<Rightarrow> ptr list \<Rightarrow> kstate \<Rightarrow> kstate option" where
  "charge_rt_rqs K c d [] s = Some s"
| "charge_rt_rqs K c d (e # es) s = do { s1 \<leftarrow> charge_rt_rq K c d e s; charge_rt_rqs K c d es s1 }"

definition update_curr_rt :: "kenv \<Rightarrow> kstate \<Rightarrow> kstate option" where
  "update_curr_rt K s =
     (let c = curr (rq s); t = tasks s c in
      if sched_class t \<noteq> rt_sched_class then Some s
      else
        let d0 = clock_task (rq s) - exec_start (se t);
            d = (if sint d0 < 0 then 0 else d0);
            s1 = upd_se c (\<lambda>e. e\<lparr>exec_max := max (exec_max e) d\<rparr>) s;
            s2 = upd_se c (\<lambda>e. e\<lparr>sum_exec_runtime := sum_exec_runtime e + d\<rparr>) s1;
            s3 = emit (AccountGroupExecRuntime c d) s2;
            s4 = upd_se c (\<lambda>e. e\<lparr>exec_start := clock_task (rq s)\<rparr>) s3;
            s5 = cpuacct_charge K c d s4
        in if \<not> rt_bandwidth_enabled s5 then Some s5
           else do { es \<leftarrow> rt_chain s5 (Some c); charge_rt_rqs K c d es s5 })"

text \<open>
  The period timer of a group's bandwidth. The CPU mask is the one online CPU, so its loop runs
  once, on the group's \<^verbatim>\<open>rt_rq\<close>.
\<close>

definition do_sched_rt_period_timer :: "kenv \<Rightarrow> ptr \<Rightarrow> int \<Rightarrow> kstate \<Rightarrow> (bool \<times> kstate) option" where
  "do_sched_rt_period_timer K tg overrun s =
     (let r = rt_rqs s tg;
          (idle, enqueue, s1) =
            (if rt_time r \<noteq> 0 then
               let runtime = rt_runtime r;
                   t = rt_time r - min (rt_time r) (of_int overrun * runtime);
                   s1 = upd_rt_rq tg (\<lambda>r. r\<lparr>rt_time := t\<rparr>) s;
                   un = rt_throttled r \<and> t < runtime;
                   s2 = (if un then upd_rt_rq tg (\<lambda>r. r\<lparr>rt_throttled := False\<rparr>) s1 else s1);
                   s3 = (if un \<and> rt_nr_running r \<noteq> 0 \<and> curr (rq s2) = idle (rq s2)
                         then s2\<lparr>rq := (rq s2)\<lparr>skip_clock_update := -1\<rparr>\<rparr> else s2)
               in (\<not> (t \<noteq> 0 \<or> rt_nr_running r \<noteq> 0), un, s3)
             else if rt_nr_running r \<noteq> 0 then (False, \<not> rt_rq_throttled r, s)
             else (True, False, s));
          throttled = rt_throttled (rt_rqs s1 tg)
      in do { s2 \<leftarrow> (if enqueue then sched_rt_rq_enqueue K tg s1 else Some s1);
              Some (if \<not> throttled \<and>
                       (\<not> rt_bandwidth_enabled s2 \<or> bw_rt_runtime (tg_rt_bandwidth (tgs s2 tg)) = RUNTIME_INF)
                    then True else idle, s2) })"

section \<open>The operations of the class\<close>

definition enqueue_task_rt :: "kenv \<Rightarrow> ptr \<Rightarrow> int \<Rightarrow> kstate \<Rightarrow> kstate option" where
  "enqueue_task_rt K p flags s =
     do { let s1 = (if flags AND ENQUEUE_WAKEUP \<noteq> 0 then upd_rt p (\<lambda>e. e\<lparr>rt_timeout := 0\<rparr>) s else s);
          s2 \<leftarrow> enqueue_rt_entity K p (flags AND ENQUEUE_HEAD \<noteq> 0) s1;
          Some (inc_nr_running s2) }"

definition dequeue_task_rt :: "kenv \<Rightarrow> ptr \<Rightarrow> int \<Rightarrow> kstate \<Rightarrow> kstate option" where
  "dequeue_task_rt K p flags s =
     do { s1 \<leftarrow> update_curr_rt K s;
          s2 \<leftarrow> dequeue_rt_entity K p s1;
          Some (dec_nr_running s2) }"

definition requeue_rt_entity :: "kenv \<Rightarrow> bool \<Rightarrow> ptr \<Rightarrow> kstate \<Rightarrow> kstate" where
  "requeue_rt_entity K head e s =
     (if on_rt_rq s e
      then upd_rt_rq (rt_rq_of (rt_ents s e)) (rt_requeue K e (rt_se_prio s e) head) s
      else s)"

definition requeue_task_rt :: "kenv \<Rightarrow> ptr \<Rightarrow> bool \<Rightarrow> kstate \<Rightarrow> kstate option" where
  "requeue_task_rt K p head s =
     do { es \<leftarrow> rt_chain s (Some p); Some (fold (requeue_rt_entity K head) es s) }"

definition yield_task_rt :: "kenv \<Rightarrow> kstate \<Rightarrow> kstate option" where
  "yield_task_rt K s = requeue_task_rt K (curr (rq s)) False s"

definition check_preempt_curr_rt :: "ptr \<Rightarrow> int \<Rightarrow> kstate \<Rightarrow> kstate" where
  "check_preempt_curr_rt p flags s =
     (if prio (tasks s p) < prio (tasks s (curr (rq s))) then resched_task (curr (rq s)) s else s)"

text \<open>The loop of \<^verbatim>\<open>_pick_next_task_rt\<close>: descend through the group queues to a task.\<close>

partial_function (option) pick_rt_loop :: "kenv \<Rightarrow> kstate \<Rightarrow> ptr \<Rightarrow> ptr option" where
  "pick_rt_loop K s g =
     Option.bind (pick_next_rt_entity K (rt_rqs s g))
       (\<lambda>e. case group_rt_rq s e of None \<Rightarrow> Some e | Some g' \<Rightarrow> pick_rt_loop K s g')"

definition pick_next_task_rt :: "kenv \<Rightarrow> kstate \<Rightarrow> (ptr option \<times> kstate) option" where
  "pick_next_task_rt K s =
     (let r = rt_rqs s (root_task_group K) in
      if rt_nr_running r = 0 then Some (None, s)
      else if rt_rq_throttled r then Some (None, s)
      else do { p \<leftarrow> pick_rt_loop K s (root_task_group K);
                Some (Some p, upd_se p (\<lambda>e. e\<lparr>exec_start := clock_task (rq s)\<rparr>) s) })"

definition put_prev_task_rt :: "kenv \<Rightarrow> ptr \<Rightarrow> kstate \<Rightarrow> kstate option" where
  "put_prev_task_rt K p s = update_curr_rt K s"

definition switched_to_rt :: "ptr \<Rightarrow> kstate \<Rightarrow> kstate" where
  "switched_to_rt p s =
     (if on_rq (tasks s p) \<and> curr (rq s) \<noteq> p then
        if prio (tasks s p) < prio (tasks s (curr (rq s))) then resched_task (curr (rq s)) s else s
      else s)"

definition prio_changed_rt :: "ptr \<Rightarrow> int \<Rightarrow> kstate \<Rightarrow> kstate" where
  "prio_changed_rt p oldprio s =
     (if \<not> on_rq (tasks s p) then s
      else if curr (rq s) = p then (if oldprio < prio (tasks s p) then resched_task p s else s)
      else if prio (tasks s p) < prio (tasks s (curr (rq s))) then resched_task (curr (rq s)) s
      else s)"

definition rt_watchdog :: "kenv \<Rightarrow> ptr \<Rightarrow> kstate \<Rightarrow> kstate" where
  "rt_watchdog K p s =
     (let soft = task_rlimit K p RLIMIT_RTTIME;
          hard = task_rlimit_max K p RLIMIT_RTTIME in
      if soft = RLIM_INFINITY K then s
      else
        let s1 = upd_rt p (\<lambda>e. e\<lparr>rt_timeout := rt_timeout e + 1\<rparr>) s;
            next_tick = DIV_ROUND_UP (min soft hard) (of_nat (1000000 div HZ K))
        in if rt_timeout (rt_ents s1 p) > next_tick
           then upd_task p (\<lambda>t. t\<lparr>sched_exp := sum_exec_runtime (se t)\<rparr>) s1
           else s1)"

text \<open>
  \<^verbatim>\<open>rt_se->run_list.prev != rt_se->run_list.next\<close>: the entity shares its queue with another. (Alone on
  the queue both neighbours are the head; unlinked, both are the entity itself.)
\<close>

definition rt_not_alone :: "kstate \<Rightarrow> ptr \<Rightarrow> bool" where
  "rt_not_alone s e =
     list_ex (\<lambda>i. e \<in> set (rtq (rt_rqs s (rt_rq_of (rt_ents s e))) i)
                   \<and> 2 \<le> length (rtq (rt_rqs s (rt_rq_of (rt_ents s e))) i)) [0..MAX_RT_PRIO - 1]"

definition task_tick_rt :: "kenv \<Rightarrow> ptr \<Rightarrow> kstate \<Rightarrow> kstate option" where
  "task_tick_rt K p s =
     do { s0 \<leftarrow> update_curr_rt K s;
          let s1 = rt_watchdog K p s0;
          if policy (tasks s1 p) \<noteq> SCHED_RR then Some s1
          else do {
            let s2 = upd_rt p (\<lambda>e. e\<lparr>rt_time_slice := rt_time_slice e - 1\<rparr>) s1;
            if rt_time_slice (rt_ents s2 p) \<noteq> 0 then Some s2
            else do {
              let s3 = upd_rt p (\<lambda>e. e\<lparr>rt_time_slice := RR_TIMESLICE (HZ K)\<rparr>) s2;
              es \<leftarrow> rt_chain s3 (Some p);
              if list_ex (rt_not_alone s3) es
              then do { s4 \<leftarrow> requeue_task_rt K p False s3;
                        Some (upd_task p (\<lambda>t. t\<lparr>need_resched := True\<rparr>) s4) }
              else Some s3 } } }"

definition set_curr_task_rt :: "kstate \<Rightarrow> kstate" where
  "set_curr_task_rt s = upd_se (curr (rq s)) (\<lambda>e. e\<lparr>exec_start := clock_task (rq s)\<rparr>) s"

definition get_rr_interval_rt :: "kenv \<Rightarrow> ptr \<Rightarrow> kstate \<Rightarrow> uint32" where
  "get_rr_interval_rt K p s = (if policy (tasks s p) = SCHED_RR then RR_TIMESLICE (HZ K) else 0)"

section \<open>What one step of the stack operations changes\<close>

lemma start_rt_bandwidth_simps [simp]:
  "rt_rqs (start_rt_bandwidth K tg s) = rt_rqs s" "rt_ents (start_rt_bandwidth K tg s) = rt_ents s"
  "tasks (start_rt_bandwidth K tg s) = tasks s" "tgs (start_rt_bandwidth K tg s) = tgs s"
  "rq (start_rt_bandwidth K tg s) = rq s"
  by (simp_all add: start_rt_bandwidth_def)

lemma rt_group_frames [simp]:
  "rt_ents (inc_rt_group K e g s) = rt_ents s" "rt_ents (dec_rt_group e g s) = rt_ents s"
  "tasks (inc_rt_group K e g s) = tasks s" "tasks (dec_rt_group e g s) = tasks s"
  "tgs (inc_rt_group K e g s) = tgs s" "tgs (dec_rt_group e g s) = tgs s"
  "rq (inc_rt_group K e g s) = rq s" "rq (dec_rt_group e g s) = rq s"
  by (simp_all add: inc_rt_group_def dec_rt_group_def Let_def split: option.split)

lemma rt_rqs_inc_rt_group:
  "\<exists>b. rt_rqs (inc_rt_group K e g s) = (rt_rqs s)(g := (rt_rqs s g)\<lparr>rt_nr_boosted := b\<rparr>)"
proof (cases "rt_se_boosted s e")
  case True
  then show ?thesis
    by (intro exI [of _ "rt_nr_boosted (rt_rqs s g) + 1"])
      (simp add: inc_rt_group_def Let_def split: option.split)
next
  case False
  then show ?thesis
    by (intro exI [of _ "rt_nr_boosted (rt_rqs s g)"])
      (simp add: inc_rt_group_def Let_def split: option.split)
qed

lemma rt_rqs_dec_rt_group:
  "\<exists>b. rt_rqs (dec_rt_group e g s) = (rt_rqs s)(g := (rt_rqs s g)\<lparr>rt_nr_boosted := b\<rparr>)"
proof (cases "rt_se_boosted s e")
  case True
  then show ?thesis
    by (intro exI [of _ "rt_nr_boosted (rt_rqs s g) - 1"]) (simp add: dec_rt_group_def)
next
  case False
  then show ?thesis
    by (intro exI [of _ "rt_nr_boosted (rt_rqs s g)"]) (simp add: dec_rt_group_def)
qed

lemma enqueue_rt_entity1_frames [simp]:
  "rt_ents (enqueue_rt_entity1 K head e s) = rt_ents s"
  "tasks (enqueue_rt_entity1 K head e s) = tasks s"
  "tgs (enqueue_rt_entity1 K head e s) = tgs s"
  "rq_wrr (rq (enqueue_rt_entity1 K head e s)) = rq_wrr (rq s)"
  "curr (rq (enqueue_rt_entity1 K head e s)) = curr (rq s)"
  "nr_running (rq (enqueue_rt_entity1 K head e s)) = nr_running (rq s)"
  by (simp_all add: enqueue_rt_entity1_def inc_rt_tasks_def Let_def split: option.split)

lemma dequeue_rt_entity1_frames [simp]:
  "rt_ents (dequeue_rt_entity1 K e s) = rt_ents s"
  "tasks (dequeue_rt_entity1 K e s) = tasks s"
  "tgs (dequeue_rt_entity1 K e s) = tgs s"
  "rq_wrr (rq (dequeue_rt_entity1 K e s)) = rq_wrr (rq s)"
  "curr (rq (dequeue_rt_entity1 K e s)) = curr (rq s)"
  "nr_running (rq (dequeue_rt_entity1 K e s)) = nr_running (rq s)"
  by (simp_all add: dequeue_rt_entity1_def dec_rt_tasks_def Let_def)

lemma rt_se_prio_cong:
  assumes "tasks s e = tasks t e" and "rt_ents s e = rt_ents t e"
    and "\<And>g. highest_prio_curr (rt_rqs s g) = highest_prio_curr (rt_rqs t g)"
  shows "rt_se_prio s e = rt_se_prio t e"
  using assms by (simp add: rt_se_prio_def group_rt_rq_def split: option.split)

text \<open>One dequeue is \<open>rt_remove\<close> on the queue the entity is on, up to the count of boosted entities.\<close>

lemma rt_rqs_dequeue_rt_entity1:
  fixes s e
  defines "g \<equiv> rt_rq_of (rt_ents s e)"
  shows "\<exists>b. rt_rqs (dequeue_rt_entity1 K e s) =
    (rt_rqs s)(g := (rt_remove K e (rt_se_prio s e) (rt_rqs s g))\<lparr>rt_nr_boosted := b\<rparr>)"
proof -
  let ?s1 = "upd_rt_rq g (rt_unlink K e (rt_se_prio s e)) s"
  let ?s2 = "upd_rt_rq g (\<lambda>r. r\<lparr>rt_nr_running := rt_nr_running r - 1\<rparr>) ?s1"
  let ?s3 = "upd_rt_rq g (dec_rt_prio K (rt_se_prio ?s2 e)) ?s2"
  have pr: "rt_se_prio ?s2 e = rt_se_prio s e"
    by (rule rt_se_prio_cong) simp_all
  obtain b where "rt_rqs (dec_rt_group e g ?s3) = (rt_rqs ?s3)(g := (rt_rqs ?s3 g)\<lparr>rt_nr_boosted := b\<rparr>)"
    using rt_rqs_dec_rt_group by blast
  moreover have "rt_rqs ?s3 = (rt_rqs s)(g := rt_remove K e (rt_se_prio s e) (rt_rqs s g))"
    by (simp add: pr rt_remove_def Let_def)
  ultimately have "rt_rqs (dec_rt_group e g ?s3) =
      (rt_rqs s)(g := (rt_remove K e (rt_se_prio s e) (rt_rqs s g))\<lparr>rt_nr_boosted := b\<rparr>)"
    by (simp only: fun_upd_upd fun_upd_same)
  then show ?thesis
    by (intro exI [of _ b]) (simp add: dequeue_rt_entity1_def dec_rt_tasks_def Let_def g_def)
qed

lemma rt_rqs_enqueue_rt_entity1:
  fixes s e
  defines "g \<equiv> rt_rq_of (rt_ents s e)"
  assumes "\<And>gq. group_rt_rq s e = Some gq \<Longrightarrow>
    \<not> rt_rq_throttled (rt_rqs s gq) \<and> rt_nr_running (rt_rqs s gq) \<noteq> 0"
  shows "\<exists>b. rt_rqs (enqueue_rt_entity1 K head e s) =
    (rt_rqs s)(g := (rt_insert K e (rt_se_prio s e) head (rt_rqs s g))\<lparr>rt_nr_boosted := b\<rparr>)"
proof -
  define s1 where "s1 = (if rt_nr_running (rt_rqs s g) = 0
      then s\<lparr>rq := (rq s)\<lparr>leaf_rt_rq_list := list_add_rcu K g (leaf_rt_rq_list (rq s))\<rparr>\<rparr> else s)"
  let ?s2 = "upd_rt_rq g (rt_link K e (rt_se_prio s1 e) head) s1"
  let ?s3 = "upd_rt_rq g (\<lambda>r. inc_rt_prio (rt_se_prio ?s2 e) (r\<lparr>rt_nr_running := rt_nr_running r + 1\<rparr>)) ?s2"
  have rq1: "rt_rqs s1 = rt_rqs s" "rt_ents s1 = rt_ents s" "tasks s1 = tasks s"
    by (simp_all add: s1_def)
  have pr1: "rt_se_prio s1 e = rt_se_prio s e" by (rule rt_se_prio_cong) (simp_all add: rq1)
  have pr2: "rt_se_prio ?s2 e = rt_se_prio s e"
    by (rule rt_se_prio_cong) (simp_all add: rq1)
  have eq: "enqueue_rt_entity1 K head e s = inc_rt_group K e g ?s3"
    using assms(2) unfolding enqueue_rt_entity1_def inc_rt_tasks_def Let_def g_def s1_def
    by (auto split: option.split)
  have "rt_rqs ?s3 = (rt_rqs s)(g := rt_insert K e (rt_se_prio s e) head (rt_rqs s g))"
    unfolding pr2 unfolding pr1 by (simp add: rt_insert_def Let_def rq1)
  moreover obtain b where
    "rt_rqs (inc_rt_group K e g ?s3) = (rt_rqs ?s3)(g := (rt_rqs ?s3 g)\<lparr>rt_nr_boosted := b\<rparr>)"
    using rt_rqs_inc_rt_group by blast
  ultimately show ?thesis unfolding eq by (intro exI [of _ b]) (simp only: fun_upd_upd fun_upd_same)
qed

lemma boosted_wf [simp]:
  "rt_rq_wf (r\<lparr>rt_nr_boosted := b\<rparr>) = rt_rq_wf r" "rt_all (r\<lparr>rt_nr_boosted := b\<rparr>) = rt_all r"
  by (simp_all add: rt_rq_wf_def rt_arr_wf_def rt_all_def rt_first_def)

section \<open>The hierarchy of entities\<close>

text \<open>
  \<open>rt_hier\<close> is what \<^verbatim>\<open>init_tg_rt_entry\<close> and \<^verbatim>\<open>set_task_rq\<close> set up: the parent of an entity owns the queue
  the entity goes to, a queue has one owner, the entities without parent go to a queue without
  owner, and following \<^verbatim>\<open>parent\<close> ends.
\<close>

definition rt_hier :: "kstate \<Rightarrow> bool" where
  "rt_hier s \<longleftrightarrow>
     (\<forall>x y. rt_parent (rt_ents s x) = Some y \<longrightarrow> group_rt_rq s y = Some (rt_rq_of (rt_ents s x))) \<and>
     (\<forall>x y g. group_rt_rq s x = Some g \<and> group_rt_rq s y = Some g \<longrightarrow> x = y) \<and>
     (\<forall>x. rt_parent (rt_ents s x) = None \<longrightarrow> (\<forall>y. group_rt_rq s y \<noteq> Some (rt_rq_of (rt_ents s x)))) \<and>
     (\<forall>x. rt_parent (rt_ents s x) \<noteq> Some 0) \<and>
     (\<forall>x. rt_chain s (Some x) \<noteq> None)"

lemma rt_hierD:
  assumes "rt_hier s"
  shows "rt_parent (rt_ents s x) = Some y \<Longrightarrow> group_rt_rq s y = Some (rt_rq_of (rt_ents s x))"
    and "group_rt_rq s x = Some g \<Longrightarrow> group_rt_rq s y = Some g \<Longrightarrow> x = y"
    and "rt_parent (rt_ents s x) = None \<Longrightarrow> group_rt_rq s y \<noteq> Some (rt_rq_of (rt_ents s x))"
    and "\<exists>xs. rt_chain s (Some x) = Some xs" and "rt_parent (rt_ents s x) \<noteq> Some 0"
  using assms by (auto simp: rt_hier_def)

lemma rt_hier_parent:
  assumes "rt_hier s" and "group_rt_rq s y = Some (rt_rq_of (rt_ents s x))"
  shows "rt_parent (rt_ents s x) = Some y"
  using assms rt_hierD by (cases "rt_parent (rt_ents s x)") blast+

lemma rt_chain_None [simp]: "rt_chain s None = Some []"
  by (subst rt_chain.simps) simp

lemma rt_chain_Some:
  "rt_chain s (Some x) = Option.bind (rt_chain s (rt_parent (rt_ents s x))) (\<lambda>xs. Some (x # xs))"
  by (subst rt_chain.simps) simp

lemma rt_chain_SomeE:
  assumes "rt_chain s (Some x) = Some xs"
  obtains ys where "xs = x # ys" and "rt_chain s (rt_parent (rt_ents s x)) = Some ys"
  using assms by (auto simp: rt_chain_Some bind_eq_Some_conv)

lemma rt_chain_head: "rt_chain s (Some x) = Some xs \<Longrightarrow> x \<in> set xs"
  by (erule rt_chain_SomeE) simp

lemma rt_chain_Cons:
  "rt_chain s e = Some (x # ys) \<Longrightarrow> rt_chain s (rt_parent (rt_ents s x)) = Some ys"
  by (cases e) (auto elim: rt_chain_SomeE)

lemma rt_chain_mono:
  assumes "\<And>x. rt_parent (rt_ents s x) = rt_parent (rt_ents t x)" and "rt_chain s e = Some xs"
  shows "rt_chain t e = Some xs"
  using assms(2)
proof (induction xs arbitrary: e)
  case Nil
  then show ?case by (cases e) (auto simp: rt_chain_Some bind_eq_Some_conv)
next
  case (Cons x xs)
  then obtain y where "e = Some y" by (cases e) auto
  with Cons show ?case by (auto simp: assms(1) rt_chain_Some bind_eq_Some_conv)
qed

lemma rt_chain_cong:
  assumes "\<And>x. rt_parent (rt_ents s x) = rt_parent (rt_ents t x)"
  shows "rt_chain s e = rt_chain t e"
  using rt_chain_mono [of s t e] rt_chain_mono [of t s e] assms
  by (cases "rt_chain s e"; cases "rt_chain t e") fastforce+

lemma rt_hier_cong:
  assumes "\<And>x. rt_parent (rt_ents s x) = rt_parent (rt_ents t x)"
    and "\<And>x. rt_rq_of (rt_ents s x) = rt_rq_of (rt_ents t x)"
    and "\<And>x. rt_my_q (rt_ents s x) = rt_my_q (rt_ents t x)"
  shows "rt_hier s = rt_hier t"
  unfolding rt_hier_def group_rt_rq_def rt_chain_cong [of s t, OF assms(1)] assms ..

lemma rt_chain_tail:
  assumes "rt_chain s e = Some xs" and "y \<in> set xs"
  shows "\<exists>us ys. xs = us @ y # ys \<and> rt_chain s (Some y) = Some (y # ys)"
  using assms
proof (induction xs arbitrary: e)
  case (Cons x xs)
  then obtain z where e: "e = Some z" by (cases e) auto
  with Cons.prems(1) obtain ys where ys: "x # xs = z # ys" "rt_chain s (rt_parent (rt_ents s z)) = Some ys"
    by (auto elim: rt_chain_SomeE)
  show ?case
  proof (cases "y = x")
    case True
    with Cons.prems(1) e ys show ?thesis by (intro exI [of _ "[]"] exI [of _ xs]) auto
  next
    case False
    with Cons.IH [of "rt_parent (rt_ents s z)"] Cons.prems(2) ys
    obtain us vs where "xs = us @ y # vs" "rt_chain s (Some y) = Some (y # vs)" by auto
    then show ?thesis by (intro exI [of _ "x # us"] exI [of _ vs]) auto
  qed
qed simp

text \<open>A chain visits no entity twice.\<close>

lemma rt_chain_distinct:
  assumes "rt_chain s e = Some xs"
  shows "distinct xs"
  using assms
proof (induction xs arbitrary: e)
  case (Cons x xs)
  then obtain z where e: "e = Some z" by (cases e) auto
  with Cons.prems obtain ys where ys: "x # xs = z # ys" "rt_chain s (rt_parent (rt_ents s z)) = Some ys"
    by (auto elim: rt_chain_SomeE)
  have "x \<notin> set xs"
  proof
    assume "x \<in> set xs"
    then obtain us vs where "xs = us @ x # vs" "rt_chain s (Some x) = Some (x # vs)"
      using rt_chain_tail [of s "rt_parent (rt_ents s z)" xs x] ys by auto
    with Cons.prems e ys show False by auto
  qed
  with Cons.IH ys show ?case by auto
qed simp

lemma rt_hier_no_loop:
  assumes "rt_hier s"
  shows "group_rt_rq s x \<noteq> Some (rt_rq_of (rt_ents s x))"
proof
  assume "group_rt_rq s x = Some (rt_rq_of (rt_ents s x))"
  then have p: "rt_parent (rt_ents s x) = Some x" using assms by (intro rt_hier_parent)
  obtain xs where xs: "rt_chain s (Some x) = Some xs" using rt_hierD(4) [OF assms] by blast
  then show False by (rule rt_chain_SomeE) (use p xs in auto)
qed

section \<open>The invariant of the queues\<close>

text \<open>
  Every \<^verbatim>\<open>rt_rq\<close> is well formed, and an entity is queued only on the \<^verbatim>\<open>rt_rq\<close> it belongs to, at the level
  of its priority. For a group that priority is the highest one queued in the group, so a change
  inside a group's queue keeps the invariant only while the group itself is not queued: this is why
  \<^verbatim>\<open>enqueue_rt_entity\<close> and \<^verbatim>\<open>dequeue_rt_entity\<close> take the whole chain off first.
\<close>

definition rt_inv :: "kstate \<Rightarrow> bool" where
  "rt_inv s \<longleftrightarrow> (\<forall>g. rt_rq_wf (rt_rqs s g) \<and>
     (\<forall>i e. e \<in> set (rtq (rt_rqs s g) i) \<longrightarrow> rt_rq_of (rt_ents s e) = g \<and> i = rt_se_prio s e))"

definition rt_env :: "kenv \<Rightarrow> bool" where
  "rt_env K \<longleftrightarrow> list_ops_ok (klists K) \<and> bit_ops_ok (kbits K)"

lemma rt_inv_queued:
  assumes "rt_inv s" and "e \<in> set (rtq (rt_rqs s g) i)"
  shows "on_rt_rq s e" and "rt_rq_of (rt_ents s e) = g" and "i = rt_se_prio s e"
    and "0 \<le> i" and "i < MAX_RT_PRIO"
proof -
  have wf: "rt_arr_wf (rt_rqs s g)" using assms(1) by (simp add: rt_inv_def rt_rq_wf_def)
  show g: "rt_rq_of (rt_ents s e) = g" and "i = rt_se_prio s e"
    using assms by (auto simp: rt_inv_def)
  have "i \<in> {0..<MAX_RT_PRIO}" using rt_arr_wfD(5) [OF wf, of i] assms(2) by fastforce
  then show "0 \<le> i" and "i < MAX_RT_PRIO" and "on_rt_rq s e"
    using assms(2) g by (auto simp: on_rt_rq_def on_rt_list_iff in_rt_all)
qed

lemma rt_inv_on:
  assumes "rt_inv s" and "on_rt_rq s e"
  shows "e \<in> set (rtq (rt_rqs s (rt_rq_of (rt_ents s e))) (rt_se_prio s e))"
    and "0 \<le> rt_se_prio s e" and "rt_se_prio s e < MAX_RT_PRIO"
proof -
  obtain i where i: "e \<in> set (rtq (rt_rqs s (rt_rq_of (rt_ents s e))) i)"
    using assms(2) by (auto simp: on_rt_rq_def on_rt_list_iff in_rt_all)
  from rt_inv_queued [OF assms(1) i] i
  show "e \<in> set (rtq (rt_rqs s (rt_rq_of (rt_ents s e))) (rt_se_prio s e))"
    and "0 \<le> rt_se_prio s e" and "rt_se_prio s e < MAX_RT_PRIO" by auto
qed

lemma rt_inv_upd:
  assumes inv: "rt_inv s" and frame: "rt_ents t = rt_ents s" "tasks t = tasks s"
    and upd: "rt_rqs t = (rt_rqs s)(g := r)" and wf: "rt_rq_wf r"
    and new: "\<And>i x. x \<in> set (rtq r i) \<Longrightarrow> x \<in> set (rtq (rt_rqs s g) i) \<or>
        rt_rq_of (rt_ents s x) = g \<and> i = rt_se_prio s x \<and> group_rt_rq s x \<noteq> Some g"
    and owner: "\<And>y. group_rt_rq s y = Some g \<Longrightarrow> \<not> on_rt_rq s y"
  shows "rt_inv t"
proof -
  have pr: "rt_se_prio t x = rt_se_prio s x" if "group_rt_rq s x \<noteq> Some g" for x
    using that by (simp add: rt_se_prio_def group_rt_rq_def frame upd split: option.split)
  have old: "rt_rq_of (rt_ents t x) = h \<and> i = rt_se_prio t x" if "x \<in> set (rtq (rt_rqs s h) i)" for h i x
    using rt_inv_queued(1-3) [OF inv that] owner [of x] pr [of x] by (metis frame(1))
  have "rt_rq_of (rt_ents t x) = h \<and> i = rt_se_prio t x" if "x \<in> set (rtq (rt_rqs t h) i)" for h i x
    using that old [of x h i] new [of x i] pr [of x] by (cases "h = g") (auto simp: upd frame)
  then show ?thesis using inv wf by (simp add: rt_inv_def upd)
qed

lemma dequeue_rt_entity1_inv:
  assumes K: "rt_env K" and inv: "rt_inv s" and on: "on_rt_rq s e"
    and owner: "\<And>y. group_rt_rq s y = Some (rt_rq_of (rt_ents s e)) \<Longrightarrow> \<not> on_rt_rq s y"
  shows "rt_inv (dequeue_rt_entity1 K e s)"
    and "on_rt_rq (dequeue_rt_entity1 K e s) y \<longleftrightarrow> on_rt_rq s y \<and> y \<noteq> e"
proof -
  let ?g = "rt_rq_of (rt_ents s e)" and ?pr = "rt_se_prio s e"
  let ?r = "rt_rqs s ?g" and ?t = "dequeue_rt_entity1 K e s"
  have lok: "list_ops_ok (klists K)" and bok: "bit_ops_ok (kbits K)" using K by (simp_all add: rt_env_def)
  note q = rt_inv_on [OF inv on]
  have wf: "rt_rq_wf ?r" using inv by (simp add: rt_inv_def)
  note rm = rt_remove_wf [OF lok bok wf q]
  obtain b where t: "rt_rqs ?t = (rt_rqs s)(?g := (rt_remove K e ?pr ?r)\<lparr>rt_nr_boosted := b\<rparr>)"
    using rt_rqs_dequeue_rt_entity1 by blast
  have arr: "rt_arr_wf ?r" using wf by (simp add: rt_rq_wf_def)
  have "rtq (rt_remove K e ?pr ?r) = (rtq ?r)(?pr := remove1 e (rtq ?r ?pr))"
    using rtq_rt_unlink [OF lok arr q] by (simp add: rt_remove_active)
  then have new: "x \<in> set (rtq ((rt_remove K e ?pr ?r)\<lparr>rt_nr_boosted := b\<rparr>) i) \<Longrightarrow> x \<in> set (rtq ?r i)" for i x
    using notin_set_remove1 [of x "rtq ?r i" e] by (cases "i = ?pr") auto
  show "rt_inv ?t"
    by (rule rt_inv_upd [OF inv _ _ t]) (use rm(1) new owner in auto)
  have "count (rt_all ?r) e \<le> 1" using rt_arr_wfD(3) [OF arr] .
  then have "e \<notin># rt_all (rt_remove K e ?pr ?r)"
    unfolding rm(2) [symmetric] by (simp add: not_in_iff)
  moreover have "on_rt_rq ?t y \<longleftrightarrow> y \<in># rt_all (rt_rqs ?t (rt_rq_of (rt_ents s y)))"
    by (simp add: on_rt_rq_def on_rt_list_iff)
  moreover have "on_rt_rq s y \<longleftrightarrow> y \<in># rt_all (rt_rqs s (rt_rq_of (rt_ents s y)))"
    by (simp add: on_rt_rq_def on_rt_list_iff)
  ultimately show "on_rt_rq ?t y \<longleftrightarrow> on_rt_rq s y \<and> y \<noteq> e"
    using arg_cong [OF rm(2), of "\<lambda>m. y \<in># m"]
    by (cases "rt_rq_of (rt_ents s y) = ?g") (auto simp: t)
qed

text \<open>Whether \<^verbatim>\<open>__enqueue_rt_entity\<close> skips the entity: a group that is throttled or empty.\<close>

definition rt_skip :: "kstate \<Rightarrow> ptr \<Rightarrow> bool" where
  "rt_skip s e = (case group_rt_rq s e of
     None \<Rightarrow> False | Some gq \<Rightarrow> rt_rq_throttled (rt_rqs s gq) \<or> rt_nr_running (rt_rqs s gq) = 0)"

lemma enqueue_rt_entity1_skip: "rt_skip s e \<Longrightarrow> enqueue_rt_entity1 K head e s = s"
  by (simp add: enqueue_rt_entity1_def rt_skip_def Let_def split: option.splits)

lemma rt_rq_wf_nonempty:
  assumes "rt_rq_wf r" and "rt_nr_running r \<noteq> 0"
  shows "0 \<le> highest_prio_curr r" and "highest_prio_curr r < MAX_RT_PRIO"
proof -
  have wf: "rt_arr_wf r" "rt_nr_running r = of_nat (size (rt_all r))" "highest_prio_curr r = rt_first r"
    using assms(1) by (simp_all add: rt_rq_wf_def)
  then have "rt_all r \<noteq> {#}" using assms(2) by auto
  then obtain e i where "e \<in> set (rtq r i)" "0 \<le> i" "i < MAX_RT_PRIO"
    using in_rt_all by (metis atLeastLessThan_iff multiset_nonemptyE bexE)
  then have "rt_first r < MAX_RT_PRIO" using rt_first_le [of i r] by fastforce
  then show "0 \<le> highest_prio_curr r" and "highest_prio_curr r < MAX_RT_PRIO"
    using rt_first_props(1) [of r] by (simp_all add: wf)
qed

lemma enqueue_rt_entity1_inv:
  assumes K: "rt_env K" and inv: "rt_inv s" and off: "\<not> on_rt_rq s e" and skip: "\<not> rt_skip s e"
    and e: "e \<noteq> 0" "group_rt_rq s e \<noteq> Some (rt_rq_of (rt_ents s e))"
    and task: "group_rt_rq s e = None \<Longrightarrow> 0 \<le> prio (tasks s e) \<and> prio (tasks s e) < MAX_RT_PRIO"
    and owner: "\<And>y. group_rt_rq s y = Some (rt_rq_of (rt_ents s e)) \<Longrightarrow> \<not> on_rt_rq s y"
  shows "rt_inv (enqueue_rt_entity1 K head e s)"
    and "on_rt_rq (enqueue_rt_entity1 K head e s) y \<longleftrightarrow> on_rt_rq s y \<or> y = e"
proof -
  let ?g = "rt_rq_of (rt_ents s e)" and ?pr = "rt_se_prio s e"
  let ?r = "rt_rqs s ?g" and ?t = "enqueue_rt_entity1 K head e s"
  have lok: "list_ops_ok (klists K)" and bok: "bit_ops_ok (kbits K)" using K by (simp_all add: rt_env_def)
  have wf: "rt_rq_wf (rt_rqs s h)" for h using inv by (simp add: rt_inv_def)
  have "0 \<le> ?pr \<and> ?pr < MAX_RT_PRIO"
  proof (cases "group_rt_rq s e")
    case (Some h)
    with skip have "rt_nr_running (rt_rqs s h) \<noteq> 0" by (simp add: rt_skip_def)
    with rt_rq_wf_nonempty [OF wf] Some show ?thesis by (simp add: rt_se_prio_def)
  qed (simp add: task rt_se_prio_def)
  then have pr: "0 \<le> ?pr" "?pr < MAX_RT_PRIO" by simp_all
  have notin: "e \<notin># rt_all ?r" using off by (simp add: on_rt_rq_def on_rt_list_iff)
  note ins = rt_insert_wf [OF lok bok wf notin e(1) pr, of head]
  obtain b where t: "rt_rqs ?t = (rt_rqs s)(?g := (rt_insert K e ?pr head ?r)\<lparr>rt_nr_boosted := b\<rparr>)"
    using rt_rqs_enqueue_rt_entity1 [of s e K head] skip
    by (cases "group_rt_rq s e") (auto simp: rt_skip_def)
  have arr: "rt_arr_wf ?r" using wf by (simp add: rt_rq_wf_def)
  have "rtq (rt_insert K e ?pr head ?r) = (rtq ?r)(?pr := (if head then e # rtq ?r ?pr else rtq ?r ?pr @ [e]))"
    using rt_arr_wf_link(3) [OF lok bok arr notin e(1) pr, of head] by (simp add: rt_insert_active)
  then have new: "x \<in> set (rtq ((rt_insert K e ?pr head ?r)\<lparr>rt_nr_boosted := b\<rparr>) i) \<Longrightarrow>
      x \<in> set (rtq ?r i) \<or> x = e \<and> i = ?pr" for i x
    by (auto split: if_splits)
  show "rt_inv ?t"
    by (rule rt_inv_upd [OF inv _ _ t]) (use ins(1) new owner e(2) in auto)
  show "on_rt_rq ?t y \<longleftrightarrow> on_rt_rq s y \<or> y = e"
    using arg_cong [OF ins(2), of "\<lambda>m. y \<in># m"]
    by (cases "rt_rq_of (rt_ents s y) = ?g") (auto simp: on_rt_rq_def on_rt_list_iff t)
qed

section \<open>Whole chains\<close>

lemma rt_chain_parent:
  assumes "rt_chain s e = Some es" and "z \<in> set es" and "rt_parent (rt_ents s z) = Some x"
  shows "x \<in> set es"
proof -
  obtain us ys where es: "es = us @ z # ys" and ys: "rt_chain s (Some z) = Some (z # ys)"
    using rt_chain_tail [OF assms(1,2)] by blast
  from ys have "rt_chain s (Some x) = Some ys" using assms(3) by (auto elim: rt_chain_SomeE)
  then have "x \<in> set ys" by (auto elim: rt_chain_SomeE)
  with es show ?thesis by simp
qed

lemma dequeue_rt_stack_frames [simp]:
  "rt_ents (dequeue_rt_stack K es s) = rt_ents s" "tasks (dequeue_rt_stack K es s) = tasks s"
  "tgs (dequeue_rt_stack K es s) = tgs s" "curr (rq (dequeue_rt_stack K es s)) = curr (rq s)"
  "nr_running (rq (dequeue_rt_stack K es s)) = nr_running (rq s)"
  "rq_wrr (rq (dequeue_rt_stack K es s)) = rq_wrr (rq s)"
  unfolding dequeue_rt_stack_def
  by (rule fold_frame [where F = rt_ents] fold_frame [where F = tasks] fold_frame [where F = tgs]
      fold_frame [where F = "\<lambda>s. curr (rq s)"] fold_frame [where F = "\<lambda>s. nr_running (rq s)"]
      fold_frame [where F = "\<lambda>s. rq_wrr (rq s)"], simp)+

lemma group_rt_rq_cong: "rt_ents s = rt_ents t \<Longrightarrow> group_rt_rq s = group_rt_rq t"
  by (simp add: group_rt_rq_def fun_eq_iff)

text \<open>Top down, every queued entity of the chain is taken off.\<close>

lemma dequeue_rt_stack_inv:
  assumes K: "rt_env K" and hier: "rt_hier s" and inv: "rt_inv s" and chain: "rt_chain s e = Some es"
  shows "rt_inv (dequeue_rt_stack K es s) \<and>
    (\<forall>y. on_rt_rq (dequeue_rt_stack K es s) y \<longleftrightarrow> on_rt_rq s y \<and> y \<notin> set es)"
  using chain
proof (induction es arbitrary: e)
  case Nil
  show ?case using inv by (simp add: dequeue_rt_stack_def)
next
  case (Cons x ys)
  then have ys: "rt_chain s (rt_parent (rt_ents s x)) = Some ys" by (intro rt_chain_Cons)
  let ?t = "dequeue_rt_stack K ys s"
  have step: "dequeue_rt_stack K (x # ys) s = (if on_rt_rq ?t x then dequeue_rt_entity1 K x ?t else ?t)"
    by (simp add: dequeue_rt_stack_def)
  have IH: "rt_inv ?t" "on_rt_rq ?t y \<longleftrightarrow> on_rt_rq s y \<and> y \<notin> set ys" for y
    using Cons.IH [OF ys] by auto
  have owner: "\<not> on_rt_rq ?t y" if "group_rt_rq ?t y = Some (rt_rq_of (rt_ents ?t x))" for y
  proof -
    have "rt_parent (rt_ents s x) = Some y"
      using that hier by (intro rt_hier_parent) (simp_all add: group_rt_rq_def)
    with ys have "y \<in> set ys" by (simp add: rt_chain_head)
    then show ?thesis by (simp add: IH)
  qed
  show ?case
  proof (cases "on_rt_rq ?t x")
    case True
    note dq = dequeue_rt_entity1_inv [OF K IH(1) True owner]
    show ?thesis unfolding step using True dq(1) dq(2) IH(2) by auto
  next
    case False
    then show ?thesis using IH by (auto simp: step)
  qed
qed

text \<open>Bottom up, the selected entities of the chain are put back unless they are to be skipped.\<close>

definition rt_refill :: "kenv \<Rightarrow> bool \<Rightarrow> (ptr \<Rightarrow> bool) \<Rightarrow> ptr list \<Rightarrow> kstate \<Rightarrow> kstate" where
  "rt_refill K head A = fold (\<lambda>e s. if A e then enqueue_rt_entity1 K head e s else s)"

lemma rt_refill_simps [simp]:
  "rt_refill K head A [] s = s"
  "rt_refill K head A (e # es) s =
     rt_refill K head A es (if A e then enqueue_rt_entity1 K head e s else s)"
  by (simp_all add: rt_refill_def)

lemma rt_refill_frames [simp]:
  "rt_ents (rt_refill K head A es s) = rt_ents s" "tasks (rt_refill K head A es s) = tasks s"
  "tgs (rt_refill K head A es s) = tgs s" "curr (rq (rt_refill K head A es s)) = curr (rq s)"
  "nr_running (rq (rt_refill K head A es s)) = nr_running (rq s)"
  "rq_wrr (rq (rt_refill K head A es s)) = rq_wrr (rq s)"
  by (induction es arbitrary: s) auto

lemma rt_skip_other:
  assumes "rt_ents t = rt_ents s" and "rt_rqs t = (rt_rqs s)(g := r)" and "group_rt_rq s y \<noteq> Some g"
  shows "rt_skip t y = rt_skip s y"
  using assms by (simp add: rt_skip_def group_rt_rq_def split: option.split)

lemma rt_skip_enqueue1:
  assumes "group_rt_rq s y \<noteq> Some (rt_rq_of (rt_ents s x))"
  shows "rt_skip (enqueue_rt_entity1 K head x s) y = rt_skip s y"
proof (cases "rt_skip s x")
  case True
  then show ?thesis by (simp add: enqueue_rt_entity1_skip)
next
  case False
  then obtain b where "rt_rqs (enqueue_rt_entity1 K head x s) = (rt_rqs s)(rt_rq_of (rt_ents s x) :=
      (rt_insert K x (rt_se_prio s x) head (rt_rqs s (rt_rq_of (rt_ents s x))))\<lparr>rt_nr_boosted := b\<rparr>)"
    using rt_rqs_enqueue_rt_entity1 [of s x K head] by (cases "group_rt_rq s x") (auto simp: rt_skip_def)
  then show ?thesis using assms by (intro rt_skip_other) simp_all
qed

lemma rt_skip_dequeue1:
  assumes "group_rt_rq s y \<noteq> Some (rt_rq_of (rt_ents s x))"
  shows "rt_skip (dequeue_rt_entity1 K x s) y = rt_skip s y"
proof -
  obtain b where "rt_rqs (dequeue_rt_entity1 K x s) = (rt_rqs s)(rt_rq_of (rt_ents s x) :=
      (rt_remove K x (rt_se_prio s x) (rt_rqs s (rt_rq_of (rt_ents s x))))\<lparr>rt_nr_boosted := b\<rparr>)"
    using rt_rqs_dequeue_rt_entity1 by blast
  then show ?thesis using assms by (intro rt_skip_other) simp_all
qed

lemma rt_skip_stack:
  assumes "\<And>z. z \<in> set es \<Longrightarrow> group_rt_rq s y \<noteq> Some (rt_rq_of (rt_ents s z))"
  shows "rt_skip (dequeue_rt_stack K es s) y = rt_skip s y"
  using assms
proof (induction es)
  case (Cons x es)
  let ?t = "dequeue_rt_stack K es s"
  have "dequeue_rt_stack K (x # es) s = (if on_rt_rq ?t x then dequeue_rt_entity1 K x ?t else ?t)"
    by (simp add: dequeue_rt_stack_def)
  moreover have "rt_skip (dequeue_rt_entity1 K x ?t) y = rt_skip ?t y"
    using Cons.prems [of x] by (intro rt_skip_dequeue1) (simp add: group_rt_rq_def)
  moreover have "rt_skip ?t y = rt_skip s y" using Cons by auto
  ultimately show ?case by simp
qed (simp add: dequeue_rt_stack_def)

lemma rt_skip_refill:
  assumes "\<And>z. z \<in> set es \<Longrightarrow> group_rt_rq s y \<noteq> Some (rt_rq_of (rt_ents s z))"
  shows "rt_skip (rt_refill K head A es s) y = rt_skip s y"
  using assms
proof (induction es arbitrary: s)
  case (Cons x es)
  let ?t = "if A x then enqueue_rt_entity1 K head x s else s"
  have "rt_ents ?t = rt_ents s" by simp
  then have "rt_skip (rt_refill K head A es ?t) y = rt_skip ?t y"
    using Cons.prems by (intro Cons.IH) (metis group_rt_rq_cong list.set_intros(2))
  moreover have "rt_skip ?t y = rt_skip s y" using Cons.prems [of x] rt_skip_enqueue1 by simp
  ultimately show ?case by simp
qed simp

lemma rt_refill_inv:
  assumes "rt_env K" and "rt_hier s" and "rt_inv s" and "rt_chain s e = Some es"
    and "\<And>y. y \<in> set es \<Longrightarrow> \<not> on_rt_rq s y" and "0 \<notin> set es"
    and "\<And>y. y \<in> set es \<Longrightarrow> A y \<Longrightarrow> group_rt_rq s y = None \<Longrightarrow> 0 \<le> prio (tasks s y) \<and> prio (tasks s y) < MAX_RT_PRIO"
  shows "rt_inv (rt_refill K head A es s) \<and>
    (\<forall>y. on_rt_rq (rt_refill K head A es s) y \<longleftrightarrow>
       on_rt_rq s y \<or> y \<in> set es \<and> A y \<and> \<not> rt_skip (rt_refill K head A es s) y)"
  using assms
proof (induction es arbitrary: e s)
  case (Cons x ys)
  then have ys: "rt_chain s (rt_parent (rt_ents s x)) = Some ys" by (intro rt_chain_Cons)
  have dist: "x \<notin> set ys" using rt_chain_distinct [OF Cons.prems(4)] by simp
  let ?t = "if A x then enqueue_rt_entity1 K head x s else s"
  have ents: "rt_ents ?t = rt_ents s" "tasks ?t = tasks s" by simp_all
  have owner: "\<not> on_rt_rq s y" if "group_rt_rq s y = Some (rt_rq_of (rt_ents s x))" for y
    using rt_hier_parent [OF Cons.prems(2) that] ys Cons.prems(5) by (simp add: rt_chain_head)
  have t: "rt_inv ?t \<and> (\<forall>y. on_rt_rq ?t y \<longleftrightarrow> on_rt_rq s y \<or> y = x \<and> A x \<and> \<not> rt_skip s x)"
  proof (cases "A x \<and> \<not> rt_skip s x")
    case True
    have "rt_inv (enqueue_rt_entity1 K head x s)"
      "on_rt_rq (enqueue_rt_entity1 K head x s) y \<longleftrightarrow> on_rt_rq s y \<or> y = x" for y
      using True Cons.prems(5-7) owner rt_hier_no_loop [OF Cons.prems(2)]
      by (auto intro!: enqueue_rt_entity1_inv [OF Cons.prems(1,3)]
          simp: enqueue_rt_entity1_inv(2) [OF Cons.prems(1,3)])
    with True show ?thesis by auto
  qed (use Cons.prems(3) enqueue_rt_entity1_skip in auto)
  have hier: "rt_hier ?t" using rt_hier_cong [of s ?t] Cons.prems(2) ents by simp
  have chain: "rt_chain ?t (rt_parent (rt_ents s x)) = Some ys"
    using rt_chain_cong [of s ?t] ys ents by simp
  have g: "group_rt_rq ?t = group_rt_rq s" by (rule group_rt_rq_cong) (simp add: ents)
  have IH: "rt_inv (rt_refill K head A ys ?t) \<and>
    (\<forall>y. on_rt_rq (rt_refill K head A ys ?t) y \<longleftrightarrow>
       on_rt_rq ?t y \<or> y \<in> set ys \<and> A y \<and> \<not> rt_skip (rt_refill K head A ys ?t) y)"
    using Cons.prems(1,5-7) hier t chain dist
    by (intro Cons.IH [of ?t]) (auto simp: g ents)
  have "rt_skip (rt_refill K head A ys ?t) x = rt_skip ?t x"
  proof (rule rt_skip_refill)
    fix z assume z: "z \<in> set ys"
    show "group_rt_rq ?t x \<noteq> Some (rt_rq_of (rt_ents ?t z))"
      using rt_hier_parent [OF Cons.prems(2), of x z] rt_chain_parent [OF ys z, of x] dist
      by (auto simp: g ents)
  qed
  moreover have "rt_skip ?t x = rt_skip s x"
    using rt_skip_enqueue1 [OF rt_hier_no_loop [OF Cons.prems(2)]] by simp
  ultimately show ?case using IH t dist by (auto simp: rt_refill_simps)
qed simp

text \<open>
  \<open>rt_full\<close>: a group is queued exactly when it has something queued and is not throttled.
\<close>

definition rt_full :: "kstate \<Rightarrow> bool" where
  "rt_full s \<longleftrightarrow> (\<forall>y. group_rt_rq s y \<noteq> None \<longrightarrow> (on_rt_rq s y \<longleftrightarrow> \<not> rt_skip s y))"

lemma rt_chain_nonnull:
  assumes "rt_hier s" and "rt_chain s e = Some es" and "e \<noteq> Some 0"
  shows "0 \<notin> set es"
  using assms(2,3)
proof (induction es arbitrary: e)
  case (Cons x es)
  then show ?case using Cons.IH [OF rt_chain_Cons [OF Cons.prems(1)]] rt_hierD(5) [OF assms(1)]
    by (cases e) (auto elim: rt_chain_SomeE)
qed simp

text \<open>Above its first entity a chain has only groups.\<close>

lemma rt_chain_groups:
  assumes "rt_hier s" and "rt_chain s (Some e) = Some es" and "y \<in> set es" and "y \<noteq> e"
  shows "group_rt_rq s y \<noteq> None"
proof -
  have "\<exists>x. rt_parent (rt_ents s x) = Some y"
    if "rt_chain s (rt_parent (rt_ents s u)) = Some vs" "y \<in> set vs" for u vs
    using that
  proof (induction vs arbitrary: u)
    case (Cons v vs)
    then have "rt_parent (rt_ents s u) = Some v"
      by (cases "rt_parent (rt_ents s u)") (auto elim: rt_chain_SomeE)
    with Cons.IH [OF rt_chain_Cons [OF Cons.prems(1)]] Cons.prems(2) show ?case by auto
  qed simp
  moreover obtain zs where "es = e # zs" "rt_chain s (rt_parent (rt_ents s e)) = Some zs"
    using assms(2) by (rule rt_chain_SomeE)
  ultimately obtain x where "rt_parent (rt_ents s x) = Some y" using assms(3,4) by auto
  then show ?thesis using rt_hierD(1) [OF assms(1)] by auto
qed

lemma rt_rebuild:
  fixes head
  assumes K: "rt_env K" and hier: "rt_hier s" and inv: "rt_inv s"
    and chain: "rt_chain s (Some e) = Some es" and e: "e \<noteq> 0"
    and full: "\<And>y. y \<notin> set es \<Longrightarrow> group_rt_rq s y \<noteq> None \<Longrightarrow> on_rt_rq s y \<longleftrightarrow> \<not> rt_skip s y"
    and A: "\<And>y. group_rt_rq s y \<noteq> None \<Longrightarrow> A y"
    and task: "A e \<Longrightarrow> group_rt_rq s e = None \<Longrightarrow> 0 \<le> prio (tasks s e) \<and> prio (tasks s e) < MAX_RT_PRIO"
  defines "t \<equiv> rt_refill K head A es (dequeue_rt_stack K es s)"
  shows "rt_inv t" and "rt_full t"
    and "on_rt_rq t y \<longleftrightarrow> (if y \<in> set es then A y \<and> \<not> rt_skip t y else on_rt_rq s y)"
proof -
  let ?d = "dequeue_rt_stack K es s"
  note d = dequeue_rt_stack_inv [OF K hier inv chain]
  have g: "group_rt_rq ?d = group_rt_rq s" "group_rt_rq t = group_rt_rq s"
    by (rule group_rt_rq_cong, simp add: t_def)+
  have task': "0 \<le> prio (tasks s y) \<and> prio (tasks s y) < MAX_RT_PRIO"
    if "y \<in> set es" "A y" "group_rt_rq s y = None" for y
    using that task rt_chain_groups [OF hier chain that(1)] by (cases "y = e") auto
  have hier': "rt_hier ?d" and chain': "rt_chain ?d (Some e) = Some es"
    using hier chain rt_hier_cong [of s ?d] rt_chain_cong [of s ?d] by simp_all
  have inv': "rt_inv ?d" using d by blast
  have r: "rt_inv t \<and> (\<forall>y. on_rt_rq t y \<longleftrightarrow> on_rt_rq ?d y \<or> y \<in> set es \<and> A y \<and> \<not> rt_skip t y)"
    unfolding t_def
  proof (rule rt_refill_inv [OF K hier' inv' chain'])
    show "0 \<notin> set es" using hier chain e by (intro rt_chain_nonnull) auto
    show "\<not> on_rt_rq ?d y" if "y \<in> set es" for y using that d by blast
    show "0 \<le> prio (tasks ?d y) \<and> prio (tasks ?d y) < MAX_RT_PRIO"
      if "y \<in> set es" "A y" "group_rt_rq ?d y = None" for y
      using task' [of y] that by (simp add: g)
  qed
  then show "rt_inv t" by blast
  show on: "on_rt_rq t y \<longleftrightarrow> (if y \<in> set es then A y \<and> \<not> rt_skip t y else on_rt_rq s y)" for y
    using conjunct2 [OF r, THEN spec, of y] conjunct2 [OF d, THEN spec, of y] by simp
  have "rt_skip t y = rt_skip s y" if "y \<notin> set es" for y
  proof -
    have *: "group_rt_rq s y \<noteq> Some (rt_rq_of (rt_ents s z))" if "z \<in> set es" for z
      using rt_hier_parent [OF hier, of y z] rt_chain_parent [OF chain that, of y] \<open>y \<notin> set es\<close> by auto
    then have "rt_skip t y = rt_skip ?d y"
      unfolding t_def by (intro rt_skip_refill) (simp add: g)
    with * show ?thesis by (simp add: rt_skip_stack)
  qed
  then have "on_rt_rq t y \<longleftrightarrow> \<not> rt_skip t y" if "group_rt_rq s y \<noteq> None" for y
    using on [of y] full [of y] A [of y] that by (cases "y \<in> set es") simp_all
  then show "rt_full t" by (simp add: rt_full_def g)
qed

lemma dequeue_rt_fold:
  assumes "rt_ents s = rt_ents s0"
  shows "fold (\<lambda>e s. case group_rt_rq s e of
           Some g \<Rightarrow> if rt_nr_running (rt_rqs s g) \<noteq> 0 then enqueue_rt_entity1 K False e s else s
         | None \<Rightarrow> s) es s = rt_refill K False (\<lambda>e. group_rt_rq s0 e \<noteq> None) es s"
  using assms
proof (induction es arbitrary: s)
  case (Cons x es)
  have "(case group_rt_rq s x of
           Some g \<Rightarrow> if rt_nr_running (rt_rqs s g) \<noteq> 0 then enqueue_rt_entity1 K False x s else s
         | None \<Rightarrow> s) = (if group_rt_rq s0 x \<noteq> None then enqueue_rt_entity1 K False x s else s)"
    using Cons.prems enqueue_rt_entity1_skip [of s x K False]
    by (cases "group_rt_rq s x") (auto simp: group_rt_rq_def rt_skip_def)
  then show ?case using Cons.prems by (simp add: Cons.IH)
qed simp

text \<open>The two operations on a chain, for an entity of a task or a group.\<close>

lemma enqueue_rt_entity_ok:
  assumes "rt_env K" and "rt_hier s" and "rt_inv s" and "rt_chain s (Some e) = Some es" and "e \<noteq> 0"
    and "\<And>y. y \<notin> set es \<Longrightarrow> group_rt_rq s y \<noteq> None \<Longrightarrow> on_rt_rq s y \<longleftrightarrow> \<not> rt_skip s y"
    and "group_rt_rq s e = None \<Longrightarrow> 0 \<le> prio (tasks s e) \<and> prio (tasks s e) < MAX_RT_PRIO"
  shows "\<exists>t. enqueue_rt_entity K e head s = Some t \<and> t = rt_refill K head (\<lambda>_. True) es (dequeue_rt_stack K es s) \<and>
    rt_inv t \<and> rt_full t \<and> (\<forall>y. on_rt_rq t y \<longleftrightarrow> (if y \<in> set es then \<not> rt_skip t y else on_rt_rq s y))"
  using rt_rebuild [OF assms(1-5), of "\<lambda>_. True"] assms(4,6,7)
  by (simp add: enqueue_rt_entity_def rt_refill_def)

lemma dequeue_rt_entity_ok:
  assumes "rt_env K" and "rt_hier s" and "rt_inv s" and "rt_chain s (Some e) = Some es" and "e \<noteq> 0"
    and "\<And>y. y \<notin> set es \<Longrightarrow> group_rt_rq s y \<noteq> None \<Longrightarrow> on_rt_rq s y \<longleftrightarrow> \<not> rt_skip s y"
  shows "\<exists>t. dequeue_rt_entity K e s = Some t \<and>
    t = rt_refill K False (\<lambda>y. group_rt_rq s y \<noteq> None) es (dequeue_rt_stack K es s) \<and> rt_inv t \<and> rt_full t \<and>
    (\<forall>y. on_rt_rq t y \<longleftrightarrow> (if y \<in> set es then group_rt_rq s y \<noteq> None \<and> \<not> rt_skip t y else on_rt_rq s y))"
  using rt_rebuild [OF assms(1-5), of "\<lambda>y. group_rt_rq s y \<noteq> None"] assms(4,6)
    dequeue_rt_fold [of "dequeue_rt_stack K es s" s]
  by (simp add: dequeue_rt_entity_def)

end
