(* ===== verification/Rt_Inv.thy ===== *)
theory Rt_Inv
  imports Rt
begin

text \<open>
  The invariant \<open>rt_ok\<close> of the real-time class and its preservation: charging run time with
  throttling, the period timer, enqueueing, dequeueing, requeueing, the tick and picking the next task
  all return (they never reach a \<^verbatim>\<open>BUG\<close> or a NULL entity) and keep it.
\<close>

section \<open>The fields the queue operations leave alone\<close>

definition rt_meta :: "rt_rq \<Rightarrow> ptr option \<times> bool \<times> u64 \<times> u64" where
  "rt_meta r = (rt_tg r, rt_throttled r, rt_time r, rt_runtime r)"

lemma rt_meta_queue [simp]:
  "rt_meta (rt_insert K e pr head r) = rt_meta r" "rt_meta (rt_remove K e pr r) = rt_meta r"
  "rt_meta (r\<lparr>rt_nr_boosted := b\<rparr>) = rt_meta r" "rt_meta (rt_requeue K e pr head r) = rt_meta r"
  by (simp_all add: rt_meta_def rt_insert_def rt_remove_def inc_rt_prio_def dec_rt_prio_def Let_def
      rt_link_def rt_unlink_def rt_requeue_def)

lemma rt_metaD:
  assumes "rt_meta r = rt_meta r'"
  shows "rt_tg r = rt_tg r'" and "rt_throttled r = rt_throttled r'" and "rt_time r = rt_time r'"
    and "rt_runtime r = rt_runtime r'"
  using assms by (simp_all add: rt_meta_def)

lemma rt_meta_enqueue1: "rt_meta (rt_rqs (enqueue_rt_entity1 K head e s) g) = rt_meta (rt_rqs s g)"
proof (cases "rt_skip s e")
  case True
  then show ?thesis by (simp add: enqueue_rt_entity1_skip)
next
  case False
  then obtain b where "rt_rqs (enqueue_rt_entity1 K head e s) = (rt_rqs s)(rt_rq_of (rt_ents s e) :=
      (rt_insert K e (rt_se_prio s e) head (rt_rqs s (rt_rq_of (rt_ents s e))))\<lparr>rt_nr_boosted := b\<rparr>)"
    using rt_rqs_enqueue_rt_entity1 [of s e K head] by (cases "group_rt_rq s e") (auto simp: rt_skip_def)
  then show ?thesis by simp
qed

lemma rt_meta_dequeue1: "rt_meta (rt_rqs (dequeue_rt_entity1 K e s) g) = rt_meta (rt_rqs s g)"
proof -
  obtain b where "rt_rqs (dequeue_rt_entity1 K e s) = (rt_rqs s)(rt_rq_of (rt_ents s e) :=
      (rt_remove K e (rt_se_prio s e) (rt_rqs s (rt_rq_of (rt_ents s e))))\<lparr>rt_nr_boosted := b\<rparr>)"
    using rt_rqs_dequeue_rt_entity1 by blast
  then show ?thesis by simp
qed

lemma rt_meta_stack: "rt_meta (rt_rqs (dequeue_rt_stack K es s) g) = rt_meta (rt_rqs s g)"
  unfolding dequeue_rt_stack_def
  by (rule fold_frame [where F = "\<lambda>s. rt_meta (rt_rqs s g)"]) (simp add: rt_meta_dequeue1)

lemma rt_meta_refill: "rt_meta (rt_rqs (rt_refill K head A es s) g) = rt_meta (rt_rqs s g)"
  unfolding rt_refill_def
  by (rule fold_frame [where F = "\<lambda>s. rt_meta (rt_rqs s g)"]) (simp add: rt_meta_enqueue1)

section \<open>The invariant\<close>

text \<open>\<open>rt_tgs\<close>: a group, its queue and its entity point to each other; the root group has no entity.\<close>

definition rt_tgs :: "kstate \<Rightarrow> bool" where
  "rt_tgs s \<longleftrightarrow>
     (\<forall>g. \<exists>tg. rt_tg (rt_rqs s g) = Some tg \<and>
        (\<forall>y. tg_rt_se (tgs s tg) = Some y \<longleftrightarrow> group_rt_rq s y = Some g) \<and> tg_rt_se (tgs s tg) \<noteq> Some 0)"

definition rt_ok :: "kstate \<Rightarrow> bool" where
  "rt_ok s \<longleftrightarrow> rt_hier s \<and> rt_tgs s \<and> rt_inv s \<and> rt_full s"

text \<open>What \<open>rt_ok\<close> depends on.\<close>

definition rt_same :: "kstate \<Rightarrow> kstate \<Rightarrow> bool" where
  "rt_same s t \<longleftrightarrow> rt_rqs s = rt_rqs t \<and> tgs s = tgs t \<and> (\<forall>x. prio (tasks s x) = prio (tasks t x)) \<and>
     (\<forall>x. rt_parent (rt_ents s x) = rt_parent (rt_ents t x)) \<and>
     (\<forall>x. rt_rq_of (rt_ents s x) = rt_rq_of (rt_ents t x)) \<and>
     (\<forall>x. rt_my_q (rt_ents s x) = rt_my_q (rt_ents t x))"

lemma rt_same_facts:
  assumes "rt_same s t"
  shows "group_rt_rq s = group_rt_rq t" and "on_rt_rq s = on_rt_rq t" and "rt_se_prio s = rt_se_prio t"
    and "rt_skip s = rt_skip t" and "rt_chain s = rt_chain t" and "rt_hier s = rt_hier t"
  using assms rt_chain_cong [of s t] rt_hier_cong [of s t]
  by (auto simp: rt_same_def fun_eq_iff group_rt_rq_def on_rt_rq_def rt_se_prio_def rt_skip_def
      split: option.split)

lemma rt_same_inv:
  assumes "rt_same s t"
  shows "rt_inv s = rt_inv t" and "rt_full s = rt_full t" and "rt_tgs s = rt_tgs t" and "rt_ok s = rt_ok t"
proof -
  note f = rt_same_facts [OF assms]
  have "rt_rqs s = rt_rqs t" and "tgs s = tgs t" and "\<And>x. rt_rq_of (rt_ents s x) = rt_rq_of (rt_ents t x)"
    using assms by (simp_all add: rt_same_def)
  then show "rt_inv s = rt_inv t" "rt_full s = rt_full t" "rt_tgs s = rt_tgs t"
    by (simp_all add: rt_inv_def rt_full_def rt_tgs_def f)
  then show "rt_ok s = rt_ok t" by (simp add: rt_ok_def f)
qed

lemma rt_same_upd_task [simp]:
  "(\<And>x. prio (f x) = prio x) \<Longrightarrow> rt_same (upd_task p f s) s"
  by (simp add: rt_same_def)

lemma rt_same_upd_rt [simp]:
  "(\<And>x. rt_parent (f x) = rt_parent x) \<Longrightarrow> (\<And>x. rt_rq_of (f x) = rt_rq_of x) \<Longrightarrow>
   (\<And>x. rt_my_q (f x) = rt_my_q x) \<Longrightarrow> rt_same (upd_rt p f s) s"
  by (simp add: rt_same_def)

lemma rt_same_trans: "rt_same s t \<Longrightarrow> rt_same t u \<Longrightarrow> rt_same s u"
  by (simp add: rt_same_def)

lemma rt_same_refl [simp]: "rt_same s s"
  by (simp add: rt_same_def)

text \<open>Changing only the run time of a queue.\<close>

lemma rt_inv_meta:
  assumes "rt_ents t = rt_ents s" and "tasks t = tasks s"
    and "\<And>g. active (rt_rqs t g) = active (rt_rqs s g)"
    and "\<And>g. rt_nr_running (rt_rqs t g) = rt_nr_running (rt_rqs s g)"
    and "\<And>g. highest_prio_curr (rt_rqs t g) = highest_prio_curr (rt_rqs s g)"
  shows "rt_inv t = rt_inv s" and "on_rt_rq t = on_rt_rq s" and "group_rt_rq t = group_rt_rq s"
proof -
  have "rt_se_prio t = rt_se_prio s"
    by (intro ext rt_se_prio_cong) (simp_all add: assms)
  moreover have "rt_rq_wf (rt_rqs t g) = rt_rq_wf (rt_rqs s g)" for g
    using active_cong [OF assms(3)] by (simp add: rt_rq_wf_def assms)
  ultimately show "rt_inv t = rt_inv s" by (simp add: rt_inv_def assms)
  show "on_rt_rq t = on_rt_rq s"
    using active_cong(4) [OF assms(3)] by (simp add: fun_eq_iff on_rt_rq_def assms)
  show "group_rt_rq t = group_rt_rq s" by (rule group_rt_rq_cong) (rule assms)
qed

lemma rt_tgs_meta:
  assumes "rt_ents t = rt_ents s" and "tgs t = tgs s" and "\<And>g. rt_tg (rt_rqs t g) = rt_tg (rt_rqs s g)"
  shows "rt_tgs t = rt_tgs s"
proof -
  have "group_rt_rq t = group_rt_rq s" by (rule group_rt_rq_cong) (rule assms)
  then show ?thesis by (simp add: rt_tgs_def assms)
qed

section \<open>Enqueueing and dequeueing keep the invariant\<close>

lemma rt_ok_rebuilt:
  assumes "rt_hier s" and "rt_tgs s" and "t = rt_refill K head A es (dequeue_rt_stack K es s)"
    and "rt_inv t" and "rt_full t"
  shows "rt_ok t"
proof -
  have ents: "rt_ents t = rt_ents s" "tgs t = tgs s" by (simp_all add: assms(3))
  have "rt_hier t" using assms(1) rt_hier_cong [of s t] ents by simp
  moreover have "rt_tgs t = rt_tgs s"
    by (rule rt_tgs_meta [OF ents]) (simp add: assms(3) rt_metaD(1) [OF rt_meta_refill] rt_metaD(1) [OF rt_meta_stack])
  ultimately show ?thesis using assms by (simp add: rt_ok_def)
qed

text \<open>The frame of an operation on a chain.\<close>

definition rt_frame :: "kstate \<Rightarrow> kstate \<Rightarrow> bool" where
  "rt_frame s t \<longleftrightarrow> rt_ents t = rt_ents s \<and> tasks t = tasks s \<and> tgs t = tgs s \<and>
     curr (rq t) = curr (rq s) \<and> nr_running (rq t) = nr_running (rq s) \<and> rq_wrr (rq t) = rq_wrr (rq s) \<and>
     (\<forall>g. rt_meta (rt_rqs t g) = rt_meta (rt_rqs s g))"

lemma rt_frame_refill: "rt_frame s (rt_refill K head A es (dequeue_rt_stack K es s))"
  by (simp add: rt_frame_def rt_meta_refill rt_meta_stack)

lemma enqueue_rt_entity_rt_ok:
  assumes "rt_env K" and "rt_ok s" and "e \<noteq> 0"
    and "group_rt_rq s e = None \<Longrightarrow> 0 \<le> prio (tasks s e) \<and> prio (tasks s e) < MAX_RT_PRIO"
  shows "\<exists>t es. enqueue_rt_entity K e head s = Some t \<and> rt_ok t \<and> rt_frame s t \<and>
    rt_chain s (Some e) = Some es \<and>
    (\<forall>y. on_rt_rq t y \<longleftrightarrow> (if y \<in> set es then \<not> rt_skip t y else on_rt_rq s y))"
proof -
  have s: "rt_hier s" "rt_tgs s" "rt_inv s" and full: "rt_full s" using assms(2) by (simp_all add: rt_ok_def)
  obtain es where es: "rt_chain s (Some e) = Some es" using rt_hierD(4) [OF s(1)] by blast
  have "\<exists>t. enqueue_rt_entity K e head s = Some t \<and> t = rt_refill K head (\<lambda>_. True) es (dequeue_rt_stack K es s) \<and>
    rt_inv t \<and> rt_full t \<and> (\<forall>y. on_rt_rq t y \<longleftrightarrow> (if y \<in> set es then \<not> rt_skip t y else on_rt_rq s y))"
    using assms(4) full by (intro enqueue_rt_entity_ok [OF assms(1) s(1,3) es assms(3)]) (auto simp: rt_full_def)
  then obtain t where t: "enqueue_rt_entity K e head s = Some t"
    "t = rt_refill K head (\<lambda>_. True) es (dequeue_rt_stack K es s)" "rt_inv t" "rt_full t"
    "\<forall>y. on_rt_rq t y \<longleftrightarrow> (if y \<in> set es then \<not> rt_skip t y else on_rt_rq s y)"
    by blast
  then show ?thesis using rt_ok_rebuilt [OF s(1,2) t(2-4)] rt_frame_refill es by blast
qed

lemma dequeue_rt_entity_rt_ok:
  assumes "rt_env K" and s: "rt_hier s" "rt_tgs s" "rt_inv s" and "e \<noteq> 0"
    and full: "\<And>y. y \<noteq> e \<Longrightarrow> group_rt_rq s y \<noteq> None \<Longrightarrow> on_rt_rq s y \<longleftrightarrow> \<not> rt_skip s y"
  shows "\<exists>t es. dequeue_rt_entity K e s = Some t \<and> rt_ok t \<and> rt_frame s t \<and>
    rt_chain s (Some e) = Some es \<and>
    (\<forall>y. on_rt_rq t y \<longleftrightarrow> (if y \<in> set es then group_rt_rq s y \<noteq> None \<and> \<not> rt_skip t y else on_rt_rq s y))"
proof -
  obtain es where es: "rt_chain s (Some e) = Some es" using rt_hierD(4) [OF s(1)] by blast
  have "\<exists>t. dequeue_rt_entity K e s = Some t \<and>
    t = rt_refill K False (\<lambda>y. group_rt_rq s y \<noteq> None) es (dequeue_rt_stack K es s) \<and> rt_inv t \<and> rt_full t \<and>
    (\<forall>y. on_rt_rq t y \<longleftrightarrow> (if y \<in> set es then group_rt_rq s y \<noteq> None \<and> \<not> rt_skip t y else on_rt_rq s y))"
    by (rule dequeue_rt_entity_ok [OF assms(1) s(1,3) es assms(5)], rule full)
      (use rt_chain_head [OF es] in auto)
  then obtain t where t: "dequeue_rt_entity K e s = Some t"
    "t = rt_refill K False (\<lambda>y. group_rt_rq s y \<noteq> None) es (dequeue_rt_stack K es s)" "rt_inv t" "rt_full t"
    "\<forall>y. on_rt_rq t y \<longleftrightarrow> (if y \<in> set es then group_rt_rq s y \<noteq> None \<and> \<not> rt_skip t y else on_rt_rq s y)"
    by blast
  then show ?thesis using rt_ok_rebuilt [OF s(1,2) t(2-4)] rt_frame_refill es by blast
qed

section \<open>Throttling\<close>

lemma rt_rqs_enqueue1_other:
  assumes "g \<noteq> rt_rq_of (rt_ents s e)"
  shows "rt_rqs (enqueue_rt_entity1 K head e s) g = rt_rqs s g"
proof (cases "rt_skip s e")
  case True
  then show ?thesis by (simp add: enqueue_rt_entity1_skip)
next
  case False
  then obtain b where "rt_rqs (enqueue_rt_entity1 K head e s) = (rt_rqs s)(rt_rq_of (rt_ents s e) :=
      (rt_insert K e (rt_se_prio s e) head (rt_rqs s (rt_rq_of (rt_ents s e))))\<lparr>rt_nr_boosted := b\<rparr>)"
    using rt_rqs_enqueue_rt_entity1 [of s e K head] by (cases "group_rt_rq s e") (auto simp: rt_skip_def)
  then show ?thesis using assms by simp
qed

lemma rt_rqs_dequeue1_other:
  assumes "g \<noteq> rt_rq_of (rt_ents s e)"
  shows "rt_rqs (dequeue_rt_entity1 K e s) g = rt_rqs s g"
proof -
  obtain b where "rt_rqs (dequeue_rt_entity1 K e s) = (rt_rqs s)(rt_rq_of (rt_ents s e) :=
      (rt_remove K e (rt_se_prio s e) (rt_rqs s (rt_rq_of (rt_ents s e))))\<lparr>rt_nr_boosted := b\<rparr>)"
    using rt_rqs_dequeue_rt_entity1 by blast
  then show ?thesis using assms by simp
qed

lemma rt_rqs_rebuild_other:
  assumes "\<And>z. z \<in> set es \<Longrightarrow> g \<noteq> rt_rq_of (rt_ents s z)"
  shows "rt_rqs (rt_refill K head A es (dequeue_rt_stack K es s)) g = rt_rqs s g"
proof -
  have up: "rt_rqs (rt_refill K head A xs t) g = rt_rqs t g"
    if "\<And>z. z \<in> set xs \<Longrightarrow> g \<noteq> rt_rq_of (rt_ents t z)" for xs t
    using that by (induction xs arbitrary: t) (auto simp: rt_rqs_enqueue1_other)
  have "rt_rqs (dequeue_rt_stack K es s) g = rt_rqs s g"
    using assms
  proof (induction es)
    case (Cons x es)
    let ?t = "dequeue_rt_stack K es s"
    have "dequeue_rt_stack K (x # es) s = (if on_rt_rq ?t x then dequeue_rt_entity1 K x ?t else ?t)"
      by (simp add: dequeue_rt_stack_def)
    with Cons show ?case by (simp add: rt_rqs_dequeue1_other)
  qed (simp add: dequeue_rt_stack_def)
  with up [of es "dequeue_rt_stack K es s"] assms show ?thesis by simp
qed

text \<open>Operations on the chain of a group entity do not change the group's own queue.\<close>

lemma rt_own_queue:
  assumes "rt_hier s" and "rt_chain s (Some e) = Some es" and "group_rt_rq s e = Some g"
  shows "rt_rqs (rt_refill K head A es (dequeue_rt_stack K es s)) g = rt_rqs s g"
proof (rule rt_rqs_rebuild_other)
  fix z assume z: "z \<in> set es"
  show "g \<noteq> rt_rq_of (rt_ents s z)"
  proof
    assume "g = rt_rq_of (rt_ents s z)"
    then have "rt_parent (rt_ents s z) = Some e" using assms(1,3) by (intro rt_hier_parent) simp_all
    obtain us ys where es: "es = us @ z # ys" "rt_chain s (Some z) = Some (z # ys)"
      using rt_chain_tail [OF assms(2) z] by blast
    then have "e \<in> set ys" using rt_chain_Cons [OF es(2)] \<open>rt_parent _ = _\<close> by (simp add: rt_chain_head)
    moreover obtain zs where "es = e # zs" using assms(2) by (rule rt_chain_SomeE)
    moreover have "distinct es" using assms(2) by (rule rt_chain_distinct)
    ultimately show False using es(1) by (cases us) auto
  qed
qed

text \<open>The chain of a group entity has no task.\<close>

lemma rt_chain_no_task:
  assumes "rt_hier s" and "rt_chain s (Some e) = Some es" and "group_rt_rq s e = Some g"
    and "group_rt_rq s x = None"
  shows "x \<notin> set es"
  using assms(3,4) rt_chain_groups [OF assms(1,2), of x] by (cases "x = e") auto

lemma sched_rt_rq_dequeue_ok:
  assumes K: "rt_env K" and s: "rt_hier s" "rt_tgs s" "rt_inv s"
    and full: "\<And>y. group_rt_rq s y \<notin> {None, Some g} \<Longrightarrow> on_rt_rq s y \<longleftrightarrow> \<not> rt_skip s y"
    and thr: "rt_rq_throttled (rt_rqs s g)"
  shows "\<exists>t. sched_rt_rq_dequeue K g s = Some t \<and> rt_ok t \<and> rt_frame s t \<and> rt_rqs t g = rt_rqs s g \<and>
    (\<forall>x. group_rt_rq s x = None \<longrightarrow> on_rt_rq t x = on_rt_rq s x)"
proof -
  obtain tg where tg: "rt_tg (rt_rqs s g) = Some tg"
    "\<And>y. tg_rt_se (tgs s tg) = Some y \<longleftrightarrow> group_rt_rq s y = Some g" "tg_rt_se (tgs s tg) \<noteq> Some 0"
    using s(2) by (auto simp: rt_tgs_def)
  show ?thesis
  proof (cases "\<exists>y. tg_rt_se (tgs s tg) = Some y \<and> on_rt_rq s y")
    case True
    then obtain y where y: "tg_rt_se (tgs s tg) = Some y" "on_rt_rq s y" by blast
    then have g: "group_rt_rq s y = Some g" by (simp add: tg(2))
    obtain es where es: "rt_chain s (Some y) = Some es" using rt_hierD(4) [OF s(1)] by blast
    have "y \<noteq> 0" using y tg(3) by auto
    moreover have "on_rt_rq s z \<longleftrightarrow> \<not> rt_skip s z" if "z \<noteq> y" "group_rt_rq s z \<noteq> None" for z
      using full [of z] that rt_hierD(2) [OF s(1) g, of z] by auto
    ultimately obtain t where t: "dequeue_rt_entity K y s = Some t" "rt_ok t" "rt_frame s t"
      "\<forall>x. on_rt_rq t x \<longleftrightarrow> (if x \<in> set es then group_rt_rq s x \<noteq> None \<and> \<not> rt_skip t x else on_rt_rq s x)"
      using dequeue_rt_entity_rt_ok [OF K s, of y] es by (metis (no_types, lifting) option.inject)
    have on: "\<forall>x. group_rt_rq s x = None \<longrightarrow> on_rt_rq t x = on_rt_rq s x"
      using t(4) rt_chain_no_task [OF s(1) es g] by simp
    have "t = rt_refill K False (\<lambda>y. group_rt_rq s y \<noteq> None) es (dequeue_rt_stack K es s)"
      using t(1) es dequeue_rt_fold [of "dequeue_rt_stack K es s" s] by (simp add: dequeue_rt_entity_def)
    then have "rt_rqs t g = rt_rqs s g" using rt_own_queue [OF s(1) es g] by simp
    with t(1-3) on y tg(1) show ?thesis by (simp add: sched_rt_rq_dequeue_def)
  next
    case False
    have "on_rt_rq s y \<longleftrightarrow> \<not> rt_skip s y" if "group_rt_rq s y \<noteq> None" for y
      using that full [of y] False thr tg(2) [of y] by (auto simp: rt_skip_def)
    then have "rt_ok s" using s by (simp add: rt_ok_def rt_full_def)
    moreover have "sched_rt_rq_dequeue K g s = Some s"
      using False tg(1) by (auto simp: sched_rt_rq_dequeue_def split: option.split)
    ultimately show ?thesis by (simp add: rt_frame_def)
  qed
qed

lemma rt_time_upd:
  assumes "rt_ok s" and "\<And>r. active (f r) = active r" and "\<And>r. rt_nr_running (f r) = rt_nr_running r"
    and "\<And>r. highest_prio_curr (f r) = highest_prio_curr r" and "\<And>r. rt_tg (f r) = rt_tg r"
  shows "rt_hier (upd_rt_rq g f s)" and "rt_tgs (upd_rt_rq g f s)" and "rt_inv (upd_rt_rq g f s)"
    and "group_rt_rq (upd_rt_rq g f s) = group_rt_rq s" and "on_rt_rq (upd_rt_rq g f s) = on_rt_rq s"
    and "group_rt_rq s y \<noteq> Some g \<Longrightarrow> rt_skip (upd_rt_rq g f s) y = rt_skip s y"
    and "(\<And>r. rt_rq_throttled (f r) = rt_rq_throttled r) \<Longrightarrow> rt_ok (upd_rt_rq g f s)"
proof -
  let ?t = "upd_rt_rq g f s"
  note m = rt_inv_meta [of ?t s]
  show h: "rt_hier ?t" using assms(1) rt_hier_cong [of ?t s] by (simp add: rt_ok_def)
  have "rt_tgs ?t = rt_tgs s" by (rule rt_tgs_meta) (simp_all add: assms)
  then show tg: "rt_tgs ?t" using assms(1) by (simp add: rt_ok_def)
  show inv: "rt_inv ?t" using assms(1) m(1) by (simp add: rt_ok_def assms(2-))
  show gr: "group_rt_rq ?t = group_rt_rq s" and on: "on_rt_rq ?t = on_rt_rq s" using m by (simp_all add: assms(2-))
  show "group_rt_rq s y \<noteq> Some g \<Longrightarrow> rt_skip ?t y = rt_skip s y"
    by (intro rt_skip_other [of _ _ g "f (rt_rqs s g)"]) simp_all
  show "rt_ok ?t" if "\<And>r. rt_rq_throttled (f r) = rt_rq_throttled r"
  proof -
    have "rt_skip ?t y = rt_skip s y" for y
      unfolding rt_skip_def gr by (simp add: that assms(3) split: option.split)
    then show ?thesis using h tg inv assms(1) by (simp add: rt_ok_def rt_full_def gr on)
  qed
qed

text \<open>
  What the accounting of run time leaves alone: only groups are taken off their queue and put back,
  tasks stay queued.
\<close>

definition rt_kept :: "kstate \<Rightarrow> kstate \<Rightarrow> bool" where
  "rt_kept s t \<longleftrightarrow> rt_ents t = rt_ents s \<and> tgs t = tgs s \<and> curr (rq t) = curr (rq s) \<and>
     nr_running (rq t) = nr_running (rq s) \<and> rq_wrr (rq t) = rq_wrr (rq s) \<and>
     (\<forall>x. task_core (tasks t x) = task_core (tasks s x)) \<and>
     (\<forall>x. group_rt_rq s x = None \<longrightarrow> on_rt_rq t x = on_rt_rq s x)"

lemma rt_kept_refl [simp]: "rt_kept s s" by (simp add: rt_kept_def)

lemma rt_kept_trans: "rt_kept s t \<Longrightarrow> rt_kept t u \<Longrightarrow> rt_kept s u"
  by (simp add: rt_kept_def group_rt_rq_def)

lemma rt_keptD:
  assumes "rt_kept s t"
  shows "prio (tasks t x) = prio (tasks s x)" and "policy (tasks t x) = policy (tasks s x)"
    and "group_rt_rq t = group_rt_rq s"
  using assms group_rt_rq_cong [of t s] by (simp_all add: rt_kept_def task_core_def task_params_def)

lemma rt_frame_kept:
  "rt_frame s t \<Longrightarrow> (\<And>x. group_rt_rq s x = None \<Longrightarrow> on_rt_rq t x = on_rt_rq s x) \<Longrightarrow> rt_kept s t"
  by (simp add: rt_frame_def rt_kept_def)

lemma on_rt_rq_cong:
  assumes "rt_ents t = rt_ents s" and "\<And>g. active (rt_rqs t g) = active (rt_rqs s g)"
  shows "on_rt_rq t = on_rt_rq s"
proof
  fix x
  show "on_rt_rq t x = on_rt_rq s x"
    using active_cong(4) [OF assms(2), of x "rt_rq_of (rt_ents s x)"] by (simp add: on_rt_rq_def assms(1))
qed

lemma rt_kept_upd_rt_rq:
  assumes "\<And>r. active (f r) = active r"
  shows "rt_kept s (upd_rt_rq g f s)"
proof -
  have "on_rt_rq (upd_rt_rq g f s) = on_rt_rq s" by (rule on_rt_rq_cong) (simp_all add: assms)
  then show ?thesis by (simp add: rt_kept_def)
qed

lemma rt_kept_resched: "rt_kept s (resched_task c s)"
proof -
  have "on_rt_rq (resched_task c s) = on_rt_rq s" by (rule on_rt_rq_cong) simp_all
  then show ?thesis by (simp add: rt_kept_def task_core_def task_params_def resched_task_def)
qed

lemma rt_kept_resched_trans [simp]: "rt_kept s t \<Longrightarrow> rt_kept s (resched_task c t)"
  by (rule rt_kept_trans [OF _ rt_kept_resched])

lemma sched_rt_runtime_exceeded_ok:
  assumes K: "rt_env K" and ok: "rt_ok s"
  shows "\<exists>b t. sched_rt_runtime_exceeded K g s = Some (b, t) \<and> rt_ok t \<and> rt_kept s t"
proof -
  let ?r = "rt_rqs s g"
  obtain tg where tg: "rt_tg ?r = Some tg" using ok by (auto simp: rt_ok_def rt_tgs_def)
  let ?q = "upd_rt_rq g (\<lambda>r. r\<lparr>rt_throttled := True\<rparr>) s"
  let ?z = "upd_rt_rq g (\<lambda>r. r\<lparr>rt_time := 0\<rparr>) s"
  have z: "rt_ok ?z" by (rule rt_time_upd(7) [OF ok]) (simp_all add: rt_rq_throttled_def)
  have q: "rt_hier ?q" "rt_tgs ?q" "rt_inv ?q" "group_rt_rq ?q = group_rt_rq s" "on_rt_rq ?q = on_rt_rq s"
    "group_rt_rq s y \<noteq> Some g \<Longrightarrow> rt_skip ?q y = rt_skip s y" for y
    using rt_time_upd(1-6) [OF ok, of "\<lambda>r. r\<lparr>rt_throttled := True\<rparr>"] by simp_all
  have full: "on_rt_rq s y \<longleftrightarrow> \<not> rt_skip s y" if "group_rt_rq s y \<noteq> None" for y
    using ok that by (simp add: rt_ok_def rt_full_def)
  have qd: "\<exists>t. sched_rt_rq_dequeue K g ?q = Some t \<and> rt_ok t \<and> rt_kept s t" if thr: "rt_rq_throttled (rt_rqs ?q g)"
  proof -
    have "\<exists>t. sched_rt_rq_dequeue K g ?q = Some t \<and> rt_ok t \<and> rt_frame ?q t \<and> rt_rqs t g = rt_rqs ?q g \<and>
      (\<forall>x. group_rt_rq ?q x = None \<longrightarrow> on_rt_rq t x = on_rt_rq ?q x)"
      by (rule sched_rt_rq_dequeue_ok [OF K q(1-3) _ thr]) (use full q(4-6) in auto)
    then obtain t where t: "sched_rt_rq_dequeue K g ?q = Some t" "rt_ok t" "rt_kept ?q t"
      using rt_frame_kept [of ?q] by metis
    moreover have "rt_kept s ?q" by (rule rt_kept_upd_rt_rq) simp
    ultimately show ?thesis using rt_kept_trans by blast
  qed
  have qb: "rt_ok ?q" if nthr: "\<not> rt_rq_throttled (rt_rqs ?q g)"
  proof -
    have "rt_skip ?q y = rt_skip s y" for y
      using nthr by (auto simp: rt_skip_def q(4) rt_rq_throttled_def split: option.split)
    then show ?thesis using q full by (simp add: rt_ok_def rt_full_def)
  qed
  have zt: "rt_rq_throttled (rt_rqs ?z g) = rt_rq_throttled ?r" by (simp add: rt_rq_throttled_def)
  have "rt_kept s ?q" "rt_kept s ?z" by (simp_all add: rt_kept_upd_rt_rq)
  then show ?thesis
    using tg ok z qd qb zt
    by (auto simp: sched_rt_runtime_exceeded_def Let_def rt_rq_throttled_def) (rule exI [of _ True], simp)
qed

section \<open>Accounting and the period timer\<close>

lemma rt_ok_resched [simp]: "rt_ok (resched_task c s) = rt_ok s"
  by (rule rt_same_inv(4)) (simp add: resched_task_def)

lemma rt_rqs_resched [simp]: "rt_rqs (resched_task c s) = rt_rqs s"
  by (simp add: resched_task_def)

lemma charge_rt_rqs_ok:
  assumes "rt_env K" and "rt_ok s"
  shows "\<exists>t. charge_rt_rqs K c d es s = Some t \<and> rt_ok t \<and> rt_kept s t"
  using assms(2)
proof (induction es arbitrary: s)
  case (Cons e es)
  have "\<exists>t. charge_rt_rq K c d e s = Some t \<and> rt_ok t \<and> rt_kept s t"
  proof -
    let ?g = "rt_rq_of (rt_ents s e)"
    let ?u = "upd_rt_rq ?g (\<lambda>r. r\<lparr>rt_time := rt_time r + d\<rparr>) s"
    have "rt_ok ?u"
      by (rule rt_time_upd(7) [OF Cons.prems]) (simp_all add: rt_rq_throttled_def)
    then obtain b t where t: "sched_rt_runtime_exceeded K ?g ?u = Some (b, t)" "rt_ok t" "rt_kept ?u t"
      using sched_rt_runtime_exceeded_ok [OF assms(1)] by blast
    have "rt_kept s ?u" by (simp add: rt_kept_upd_rt_rq)
    then have "rt_kept s t" using t(3) by (rule rt_kept_trans)
    then show ?thesis using t Cons.prems by (simp add: charge_rt_rq_def Let_def)
  qed
  then obtain t where t: "charge_rt_rq K c d e s = Some t" "rt_ok t" "rt_kept s t" by blast
  from Cons.IH [OF t(2)] t show ?case by (auto intro: rt_kept_trans)
qed simp

text \<open>The state after the accounting part of \<^verbatim>\<open>update_curr_rt\<close>, before any queue is charged.\<close>

definition rt_accounted :: "kenv \<Rightarrow> u64 \<Rightarrow> kstate \<Rightarrow> kstate" where
  "rt_accounted K d s =
     (let c = curr (rq s) in
      cpuacct_charge K c d
        (upd_se c (\<lambda>e. e\<lparr>exec_start := clock_task (rq s)\<rparr>)
          (emit (AccountGroupExecRuntime c d)
            (upd_se c (\<lambda>e. e\<lparr>sum_exec_runtime := sum_exec_runtime e + d\<rparr>)
              (upd_se c (\<lambda>e. e\<lparr>exec_max := max (exec_max e) d\<rparr>) s)))))"

definition rt_delta :: "kstate \<Rightarrow> u64" where
  "rt_delta s = (let d = clock_task (rq s) - exec_start (se (tasks s (curr (rq s))))
                 in if sint d < 0 then 0 else d)"

lemma update_curr_rt_alt:
  "update_curr_rt K s =
     (if sched_class (tasks s (curr (rq s))) \<noteq> rt_sched_class then Some s
      else let s5 = rt_accounted K (rt_delta s) s in
        if \<not> rt_bandwidth_enabled s then Some s5
        else do { es \<leftarrow> rt_chain s5 (Some (curr (rq s)));
                  charge_rt_rqs K (curr (rq s)) (rt_delta s) es s5 })"
  by (simp add: update_curr_rt_def rt_accounted_def rt_delta_def Let_def rt_bandwidth_enabled_def upd_se_def)

lemma rt_accounted_simps [simp]:
  "rt_rqs (rt_accounted K d s) = rt_rqs s" "rt_ents (rt_accounted K d s) = rt_ents s"
  "tgs (rt_accounted K d s) = tgs s" "rq (rt_accounted K d s) = rq s"
  by (simp_all add: rt_accounted_def Let_def upd_se_def)

lemma rt_accounted_tasks:
  "tasks (rt_accounted K d s) = (tasks s)(curr (rq s) := (tasks s (curr (rq s)))\<lparr>se :=
     (se (tasks s (curr (rq s))))\<lparr>exec_max := max (exec_max (se (tasks s (curr (rq s))))) d,
        sum_exec_runtime := sum_exec_runtime (se (tasks s (curr (rq s)))) + d,
        exec_start := clock_task (rq s)\<rparr>\<rparr>)"
  by (simp add: rt_accounted_def Let_def upd_se_def)

lemma rt_accounted_same: "rt_same (rt_accounted K d s) s" "rt_kept s (rt_accounted K d s)"
proof -
  have "on_rt_rq (rt_accounted K d s) = on_rt_rq s" by (rule on_rt_rq_cong) simp_all
  then show "rt_same (rt_accounted K d s) s" "rt_kept s (rt_accounted K d s)"
    by (simp_all add: rt_same_def rt_kept_def rt_accounted_tasks task_core_def task_params_def)
qed

lemma update_curr_rt_ok:
  assumes "rt_env K" and "rt_ok s"
  shows "\<exists>t. update_curr_rt K s = Some t \<and> rt_ok t \<and> rt_kept s t"
proof -
  let ?a = "rt_accounted K (rt_delta s) s" and ?c = "curr (rq s)"
  have ok: "rt_ok ?a" using rt_same_inv(4) [OF rt_accounted_same(1)] assms(2) by simp
  obtain es where es: "rt_chain ?a (Some ?c) = Some es"
    using ok rt_hierD(4) [of ?a] by (auto simp: rt_ok_def)
  obtain t where "charge_rt_rqs K ?c (rt_delta s) es ?a = Some t" "rt_ok t" "rt_kept ?a t"
    using charge_rt_rqs_ok [OF assms(1) ok] by blast
  then show ?thesis
    using es ok assms(2) rt_accounted_same(2) rt_kept_trans [OF rt_accounted_same(2)]
    by (auto simp: update_curr_rt_alt Let_def)
qed

lemma sched_rt_rq_enqueue_ok:
  assumes K: "rt_env K" and s: "rt_hier s" "rt_tgs s" "rt_inv s"
    and full: "\<And>y. group_rt_rq s y \<notin> {None, Some g} \<Longrightarrow> on_rt_rq s y \<longleftrightarrow> \<not> rt_skip s y"
    and own: "\<And>y. group_rt_rq s y = Some g \<Longrightarrow> on_rt_rq s y \<Longrightarrow> \<not> rt_skip s y"
  shows "\<exists>t. sched_rt_rq_enqueue K g s = Some t \<and> rt_ok t \<and> rt_kept s t \<and> rt_rqs t g = rt_rqs s g"
proof -
  obtain tg where tg: "rt_tg (rt_rqs s g) = Some tg"
    "\<And>y. tg_rt_se (tgs s tg) = Some y \<longleftrightarrow> group_rt_rq s y = Some g" "tg_rt_se (tgs s tg) \<noteq> Some 0"
    using s(2) by (auto simp: rt_tgs_def)
  have skip: "rt_ok s" if "\<And>y. group_rt_rq s y = Some g \<Longrightarrow> on_rt_rq s y \<or> rt_skip s y"
  proof -
    have "on_rt_rq s y \<longleftrightarrow> \<not> rt_skip s y" if "group_rt_rq s y \<noteq> None" for y
      using that full [of y] own [of y] \<open>\<And>y. group_rt_rq s y = Some g \<Longrightarrow> on_rt_rq s y \<or> rt_skip s y\<close> [of y]
      by auto
    then show ?thesis using s by (simp add: rt_ok_def rt_full_def)
  qed
  show ?thesis
  proof (cases "rt_nr_running (rt_rqs s g) \<noteq> 0 \<and> (\<exists>y. tg_rt_se (tgs s tg) = Some y \<and> \<not> on_rt_rq s y)")
    case True
    then obtain y where y: "tg_rt_se (tgs s tg) = Some y" "\<not> on_rt_rq s y" by blast
    then have g: "group_rt_rq s y = Some g" by (simp add: tg(2))
    obtain es where es: "rt_chain s (Some y) = Some es" using rt_hierD(4) [OF s(1)] by blast
    have y0: "y \<noteq> 0" using y tg(3) by auto
    have "\<exists>t. enqueue_rt_entity K y False s = Some t \<and>
      t = rt_refill K False (\<lambda>_. True) es (dequeue_rt_stack K es s) \<and> rt_inv t \<and> rt_full t \<and>
      (\<forall>x. on_rt_rq t x \<longleftrightarrow> (if x \<in> set es then \<not> rt_skip t x else on_rt_rq s x))"
    proof (rule enqueue_rt_entity_ok [OF K s(1,3) es y0])
      fix z assume "z \<notin> set es" "group_rt_rq s z \<noteq> None"
      then show "on_rt_rq s z \<longleftrightarrow> \<not> rt_skip s z"
        using full [of z] rt_hierD(2) [OF s(1) g, of z] rt_chain_head [OF es] by auto
    qed (use g in auto)
    then obtain t where t: "enqueue_rt_entity K y False s = Some t"
      "t = rt_refill K False (\<lambda>_. True) es (dequeue_rt_stack K es s)" "rt_inv t" "rt_full t"
      "\<forall>x. on_rt_rq t x \<longleftrightarrow> (if x \<in> set es then \<not> rt_skip t x else on_rt_rq s x)" by blast
    have on: "group_rt_rq s x = None \<Longrightarrow> on_rt_rq t x = on_rt_rq s x" for x
      using t(5) rt_chain_no_task [OF s(1) es g] by simp
    have "rt_ok t" using s(1,2) t(2-4) by (rule rt_ok_rebuilt)
    moreover have "rt_kept s t" using on by (intro rt_frame_kept) (simp_all add: t(2) rt_frame_refill)
    moreover have "rt_rqs t g = rt_rqs s g" unfolding t(2) by (rule rt_own_queue [OF s(1) es g])
    ultimately show ?thesis
      using True y tg(1) t(1) by (auto simp: sched_rt_rq_enqueue_def Let_def)
  next
    case False
    have "rt_ok s"
      by (rule skip) (use False tg(2) in \<open>auto simp: rt_skip_def\<close>)
    with False tg(1) show ?thesis
      by (auto simp: sched_rt_rq_enqueue_def Let_def split: option.split)
  qed
qed

lemma rt_ok_full: "rt_ok s \<Longrightarrow> group_rt_rq s y \<noteq> None \<Longrightarrow> on_rt_rq s y \<longleftrightarrow> \<not> rt_skip s y"
  by (simp add: rt_ok_def rt_full_def)

lemma rt_ok_parts: "rt_ok s \<Longrightarrow> rt_hier s" "rt_ok s \<Longrightarrow> rt_tgs s" "rt_ok s \<Longrightarrow> rt_inv s"
  by (simp_all add: rt_ok_def)

text \<open>The period timer: unthrottling a group puts its entity back.\<close>

lemma sched_rt_rq_enqueue_unthrottled:
  fixes g s
  assumes K: "rt_env K" and ok: "rt_ok s"
  defines "u \<equiv> upd_rt_rq g (\<lambda>r. r\<lparr>rt_throttled := False\<rparr>) s"
  shows "\<exists>t. sched_rt_rq_enqueue K g u = Some t \<and> rt_ok t \<and> rt_kept u t \<and> rt_rqs t g = rt_rqs u g"
proof -
  have u: "rt_hier u" "rt_tgs u" "rt_inv u" "group_rt_rq u = group_rt_rq s" "on_rt_rq u = on_rt_rq s"
    "group_rt_rq s y \<noteq> Some g \<Longrightarrow> rt_skip u y = rt_skip s y" for y
    unfolding u_def using rt_time_upd(1-6) [OF ok, of "\<lambda>r. r\<lparr>rt_throttled := False\<rparr>"] by simp_all
  show ?thesis
  proof (rule sched_rt_rq_enqueue_ok [OF K u(1-3)])
    fix y
    show "on_rt_rq u y = (\<not> rt_skip u y)" if "group_rt_rq u y \<notin> {None, Some g}"
      using that rt_ok_full [OF ok, of y] u(6) [of y] by (simp add: u(4,5))
    show "\<not> rt_skip u y" if y: "group_rt_rq u y = Some g" "on_rt_rq u y"
    proof -
      have "\<not> rt_skip s y" using y rt_ok_full [OF ok, of y] by (simp add: u(4,5))
      then show ?thesis using y by (simp add: rt_skip_def u(4)) (simp add: u_def rt_rq_throttled_def)
    qed
  qed
qed

lemma sched_rt_rq_enqueue_rt_ok:
  assumes "rt_env K" and "rt_ok s"
  shows "\<exists>t. sched_rt_rq_enqueue K g s = Some t \<and> rt_ok t \<and> rt_kept s t \<and> rt_rqs t g = rt_rqs s g"
  using assms(2) by (intro sched_rt_rq_enqueue_ok [OF assms(1)]) (auto simp: rt_ok_parts rt_ok_full)

lemma rt_same_skip_clock: "rt_same (s\<lparr>rq := (rq s)\<lparr>skip_clock_update := c\<rparr>\<rparr>) s"
  by (simp add: rt_same_def)

text \<open>
  What the timer leaves: the group's run time is reduced by the replenished amount, and a group that
  falls below its run time is no longer throttled.
\<close>

lemma do_sched_rt_period_timer_ok:
  fixes tg overrun s
  assumes K: "rt_env K" and ok: "rt_ok s"
  defines "r \<equiv> rt_rqs s tg"
  defines "d \<equiv> rt_time r - min (rt_time r) (of_int overrun * rt_runtime r)"
  shows "\<exists>b t. do_sched_rt_period_timer K tg overrun s = Some (b, t) \<and> rt_ok t \<and> rt_kept s t \<and>
    rt_rqs t tg = r\<lparr>rt_time := d, rt_throttled := rt_throttled r \<and> (rt_time r = 0 \<or> \<not> d < rt_runtime r)\<rparr>"
proof (cases "rt_time r = 0")
  case False
  let ?d = "upd_rt_rq tg (\<lambda>r. r\<lparr>rt_time := d\<rparr>) s"
  have okd: "rt_ok ?d" by (rule rt_time_upd(7) [OF ok]) (simp_all add: rt_rq_throttled_def)
  show ?thesis
  proof (cases "rt_throttled r \<and> d < rt_runtime r")
    case False
    have "rt_kept s ?d" by (rule rt_kept_upd_rt_rq) simp
    with False \<open>rt_time r \<noteq> 0\<close> okd show ?thesis
      by (simp add: do_sched_rt_period_timer_def Let_def r_def d_def) (auto simp: r_def)
  next
    case True
    let ?b = "rt_nr_running r \<noteq> 0 \<and> curr (rq s) = idle (rq s)"
    let ?d' = "if ?b then ?d\<lparr>rq := (rq ?d)\<lparr>skip_clock_update := -1\<rparr>\<rparr> else ?d"
    have "rt_same ?d' ?d" using rt_same_skip_clock [where s = ?d and c = "-1"] by auto
    then have okd': "rt_ok ?d'" using rt_same_inv(4) [of ?d' ?d] okd by blast
    let ?u = "upd_rt_rq tg (\<lambda>r. r\<lparr>rt_throttled := False\<rparr>) ?d'"
    obtain t where t: "sched_rt_rq_enqueue K tg ?u = Some t" "rt_ok t" "rt_kept ?u t" "rt_rqs t tg = rt_rqs ?u tg"
      using sched_rt_rq_enqueue_unthrottled [OF K okd', of tg] by blast
    have comm: "?u = (if ?b then (upd_rt_rq tg (\<lambda>r. r\<lparr>rt_throttled := False\<rparr>) ?d)\<lparr>rq := (rq s)\<lparr>skip_clock_update := -1\<rparr>\<rparr>
        else upd_rt_rq tg (\<lambda>r. r\<lparr>rt_throttled := False\<rparr>) ?d)"
      by (simp add: upd_rt_rq_def)
    have "rt_rqs t tg = r\<lparr>rt_time := d, rt_throttled := False\<rparr>" using t(4) by (simp add: r_def split: if_splits)
    moreover have "rt_kept s t"
    proof (rule rt_kept_trans [OF _ t(3)], rule rt_kept_trans)
      have "on_rt_rq ?d' = on_rt_rq s" by (rule on_rt_rq_cong) simp_all
      then show "rt_kept s ?d'" by (simp add: rt_kept_def)
      show "rt_kept ?d' ?u" by (rule rt_kept_upd_rt_rq) simp
    qed
    ultimately show ?thesis
      using True \<open>rt_time r \<noteq> 0\<close> t(1,2) unfolding comm
      by (auto simp: do_sched_rt_period_timer_def Let_def r_def [symmetric] d_def [symmetric] split: if_splits)
  qed
next
  case True
  then have d: "d = 0" by (simp add: d_def)
  have "r = r\<lparr>rt_time := d, rt_throttled := rt_throttled r\<rparr>" using True d by simp
  then show ?thesis
    using True ok sched_rt_rq_enqueue_rt_ok [OF K ok, of tg]
    by (cases "rt_nr_running r = 0"; cases "rt_rq_throttled r")
      (auto simp: do_sched_rt_period_timer_def Let_def r_def)
qed

end
