(* ===== verification/Rt_Props.thy ===== *)
theory Rt_Props
  imports Rt_Inv
begin

text \<open>
  What the real-time class guarantees: the descent of \<^verbatim>\<open>_pick_next_task_rt\<close> ends at a runnable task
  of the highest priority, the invariant holds in every state reachable by the operations of the
  class, tasks of one priority are served in turn, and groups are throttled and released.
\<close>

section \<open>Requeueing and the tick\<close>

lemma requeue_rt_entity_ok:
  assumes K: "rt_env K" and ok: "rt_ok s"
  shows "rt_ok (requeue_rt_entity K head e s)" and "rt_kept s (requeue_rt_entity K head e s)"
    and "on_rt_rq (requeue_rt_entity K head e s) = on_rt_rq s"
proof -
  let ?t = "requeue_rt_entity K head e s"
  let ?g = "rt_rq_of (rt_ents s e)" and ?pr = "rt_se_prio s e"
  have *: "rt_ok ?t \<and> on_rt_rq ?t = on_rt_rq s"
  proof (cases "on_rt_rq s e")
    case True
    have l: "list_ops_ok (klists K)" using K by (simp add: rt_env_def)
    have inv: "rt_inv s" using ok by (rule rt_ok_parts)
    note q = rt_inv_on [OF inv True]
    have wf: "rt_rq_wf (rt_rqs s ?g)" using inv by (simp add: rt_inv_def)
    note rq = rt_requeue_wf [OF l wf q, of head]
    have t: "rt_rqs ?t = (rt_rqs s)(?g := rt_requeue K e ?pr head (rt_rqs s ?g))"
      and fr: "rt_ents ?t = rt_ents s" "tasks ?t = tasks s" "tgs ?t = tgs s"
      using True by (simp_all add: requeue_rt_entity_def)
    have same: "rt_nr_running (rt_rqs ?t g) = rt_nr_running (rt_rqs s g)"
      "highest_prio_curr (rt_rqs ?t g) = highest_prio_curr (rt_rqs s g)"
      "rt_rq_throttled (rt_rqs ?t g) = rt_rq_throttled (rt_rqs s g)"
      "rt_tg (rt_rqs ?t g) = rt_tg (rt_rqs s g)" for g
      by (simp_all add: t rt_requeue_def rt_rq_throttled_def)
    have gr: "group_rt_rq ?t = group_rt_rq s" by (rule group_rt_rq_cong) (rule fr)
    have pr: "rt_se_prio ?t = rt_se_prio s"
      by (intro ext rt_se_prio_cong) (simp_all add: fr same)
    have on: "on_rt_rq ?t = on_rt_rq s"
      by (simp add: fun_eq_iff on_rt_rq_def on_rt_list_iff fr t rq(2))
    have mem: "x \<in> set (rtq (rt_rqs ?t g) i) \<longleftrightarrow> x \<in> set (rtq (rt_rqs s g) i)" for x g i
      using q(1) rtq_distinct(1) [of "rt_rqs s ?g" ?pr] wf q(2,3)
      by (auto simp: t rq(3) rt_rq_wf_def)
    have "rt_inv ?t"
      using inv rq(1) unfolding rt_inv_def mem fr(1) pr by (simp add: t)
    moreover have "rt_tgs ?t" using rt_tgs_meta [OF fr(1,3) same(4)] ok by (simp add: rt_ok_def)
    moreover have "rt_hier ?t" using rt_hier_cong [of ?t s] ok fr(1) by (simp add: rt_ok_def)
    moreover have "rt_skip ?t = rt_skip s" by (simp add: fun_eq_iff rt_skip_def gr same split: option.split)
    ultimately show ?thesis using ok on by (simp add: rt_ok_def rt_full_def gr)
  qed (simp add: requeue_rt_entity_def ok)
  then show "rt_ok ?t" and "on_rt_rq ?t = on_rt_rq s" by blast+
  show "rt_kept s ?t" using conjunct2 [OF *] by (simp add: requeue_rt_entity_def rt_kept_def)
qed

lemma requeue_fold_ok:
  assumes "rt_env K"
  shows "rt_ok s \<Longrightarrow> rt_ok (fold (requeue_rt_entity K head) es s) \<and>
    rt_kept s (fold (requeue_rt_entity K head) es s) \<and>
    on_rt_rq (fold (requeue_rt_entity K head) es s) = on_rt_rq s"
proof (induction es arbitrary: s)
  case (Cons e es)
  note r = requeue_rt_entity_ok [OF assms Cons.prems, of head e]
  show ?case using Cons.IH [OF r(1)] r(2,3) by (auto intro: rt_kept_trans)
qed simp

lemma requeue_task_rt_ok:
  assumes "rt_env K" and "rt_ok s"
  shows "\<exists>t. requeue_task_rt K p head s = Some t \<and> rt_ok t \<and> rt_kept s t \<and> on_rt_rq t = on_rt_rq s"
proof -
  obtain es where "rt_chain s (Some p) = Some es"
    using rt_hierD(4) [OF rt_ok_parts(1) [OF assms(2)]] by blast
  then show ?thesis using requeue_fold_ok [OF assms] by (auto simp: requeue_task_rt_def)
qed

lemma rt_same_watchdog: "rt_same (rt_watchdog K p s) s"
  by (simp add: rt_watchdog_def Let_def rt_same_def)

lemma watchdog_kept: "task_core (tasks (rt_watchdog K p s) x) = task_core (tasks s x)"
  "rq (rt_watchdog K p s) = rq s" "tgs (rt_watchdog K p s) = tgs s"
  by (simp_all add: rt_watchdog_def Let_def task_core_def task_params_def)

text \<open>The pointers between entities and queues never change.\<close>

definition rt_links :: "kstate \<Rightarrow> kstate \<Rightarrow> bool" where
  "rt_links s t \<longleftrightarrow>
     (\<forall>x. rt_parent (rt_ents t x) = rt_parent (rt_ents s x) \<and> rt_rq_of (rt_ents t x) = rt_rq_of (rt_ents s x) \<and>
          rt_my_q (rt_ents t x) = rt_my_q (rt_ents s x)) \<and>
     (\<forall>g. tg_rt_se (tgs t g) = tg_rt_se (tgs s g))"

lemma rt_links_kept: "rt_kept s t \<Longrightarrow> rt_links s t" by (simp add: rt_kept_def rt_links_def)
lemma rt_links_frame: "rt_frame s t \<Longrightarrow> rt_links s t" by (simp add: rt_frame_def rt_links_def)
lemma rt_links_same: "rt_same t s \<Longrightarrow> rt_links s t" by (simp add: rt_same_def rt_links_def)
lemma rt_links_trans: "rt_links s t \<Longrightarrow> rt_links t u \<Longrightarrow> rt_links s u" by (simp add: rt_links_def)

text \<open>What the operations on the current task keep: links, queued tasks, the other classes' queues.\<close>

definition rt_step_kept :: "kstate \<Rightarrow> kstate \<Rightarrow> bool" where
  "rt_step_kept s t \<longleftrightarrow> rt_links s t \<and> tgs t = tgs s \<and> curr (rq t) = curr (rq s) \<and>
     nr_running (rq t) = nr_running (rq s) \<and> rq_wrr (rq t) = rq_wrr (rq s) \<and>
     (\<forall>x. task_core (tasks t x) = task_core (tasks s x)) \<and>
     (\<forall>x. group_rt_rq s x = None \<longrightarrow> on_rt_rq t x = on_rt_rq s x)"

lemma rt_links_group: "rt_links s t \<Longrightarrow> group_rt_rq t = group_rt_rq s"
  by (simp add: rt_links_def group_rt_rq_def fun_eq_iff)

lemma rt_step_kept_trans: "rt_step_kept s t \<Longrightarrow> rt_step_kept t u \<Longrightarrow> rt_step_kept s u"
  using rt_links_group [of s t] by (auto simp: rt_step_kept_def intro: rt_links_trans)

lemma rt_kept_step: "rt_kept s t \<Longrightarrow> rt_step_kept s t"
  using rt_links_kept by (auto simp: rt_step_kept_def rt_kept_def)

lemma rt_step_kept_same:
  assumes "rt_same t s" and "\<And>x. task_core (tasks t x) = task_core (tasks s x)"
    and "curr (rq t) = curr (rq s)" and "nr_running (rq t) = nr_running (rq s)" and "rq_wrr (rq t) = rq_wrr (rq s)"
  shows "rt_step_kept s t"
  using assms rt_links_same [OF assms(1)] rt_same_facts(2) [OF assms(1)]
  by (simp add: rt_step_kept_def) (simp add: rt_same_def)

lemma task_tick_rt_ok:
  assumes K: "rt_env K" and ok: "rt_ok s"
  shows "\<exists>t. task_tick_rt K p s = Some t \<and> rt_ok t \<and> rt_step_kept s t"
proof -
  obtain s0 where s0: "update_curr_rt K s = Some s0" "rt_ok s0" "rt_kept s s0"
    using update_curr_rt_ok [OF assms] by blast
  let ?s1 = "rt_watchdog K p s0"
  let ?s2 = "upd_rt p (\<lambda>e. e\<lparr>rt_time_slice := rt_time_slice e - 1\<rparr>) ?s1"
  let ?s3 = "upd_rt p (\<lambda>e. e\<lparr>rt_time_slice := RR_TIMESLICE (HZ K)\<rparr>) ?s2"
  have ok1: "rt_ok ?s1" using rt_same_inv(4) [OF rt_same_watchdog] s0(2) by blast
  have "rt_same ?s2 ?s1" by simp
  then have ok2: "rt_ok ?s2" using rt_same_inv(4) ok1 by blast
  have "rt_same ?s3 ?s2" by simp
  then have ok3: "rt_ok ?s3" using rt_same_inv(4) ok2 by blast
  obtain es where es: "rt_chain ?s3 (Some p) = Some es"
    using rt_hierD(4) [OF rt_ok_parts(1) [OF ok3]] by blast
  obtain t where t: "requeue_task_rt K p False ?s3 = Some t" "rt_ok t" "rt_kept ?s3 t"
    using requeue_task_rt_ok [OF K ok3] by blast
  have "rt_step_kept s0 ?s1" by (rule rt_step_kept_same [OF rt_same_watchdog]) (simp_all add: watchdog_kept)
  then have l1: "rt_step_kept s ?s1" by (rule rt_step_kept_trans [OF rt_kept_step [OF s0(3)]])
  have "rt_step_kept ?s1 ?s2" by (rule rt_step_kept_same) simp_all
  then have l2: "rt_step_kept s ?s2" by (rule rt_step_kept_trans [OF l1])
  have "rt_step_kept ?s2 ?s3" by (rule rt_step_kept_same) simp_all
  then have l3: "rt_step_kept s ?s3" by (rule rt_step_kept_trans [OF l2])
  have l4: "rt_step_kept s t" by (rule rt_step_kept_trans [OF l3 rt_kept_step [OF t(3)]])
  have "rt_step_kept t (upd_task p (\<lambda>t. t\<lparr>need_resched := True\<rparr>) t)"
    by (rule rt_step_kept_same) (simp_all add: task_core_def task_params_def)
  then have l5: "rt_step_kept s (upd_task p (\<lambda>t. t\<lparr>need_resched := True\<rparr>) t)" by (rule rt_step_kept_trans [OF l4])
  have "rt_same (upd_task p (\<lambda>t. t\<lparr>need_resched := True\<rparr>) t) t" by simp
  then have "rt_ok (upd_task p (\<lambda>t. t\<lparr>need_resched := True\<rparr>) t)" using rt_same_inv(4) t(2) by blast
  then show ?thesis
    using s0(1) ok1 ok2 ok3 es t(1) l1 l2 l3 l5 by (simp add: task_tick_rt_def Let_def)
qed

section \<open>Picking the next task\<close>

text \<open>All entities from a task up to the root are queued.\<close>

definition rt_runnable :: "kstate \<Rightarrow> ptr \<Rightarrow> bool" where
  "rt_runnable s p = (case rt_chain s (Some p) of None \<Rightarrow> False | Some es \<Rightarrow> list_all (on_rt_rq s) es)"

definition rt_root :: "kenv \<Rightarrow> kstate \<Rightarrow> bool" where
  "rt_root K s \<longleftrightarrow> (\<forall>x. rt_parent (rt_ents s x) = None \<longrightarrow> rt_rq_of (rt_ents s x) = root_task_group K) \<and>
     (\<forall>x. group_rt_rq s x \<noteq> Some (root_task_group K))"

lemma pick_rt_loop_unfold:
  "pick_rt_loop K s g = Option.bind (pick_next_rt_entity K (rt_rqs s g))
     (\<lambda>e. case group_rt_rq s e of None \<Rightarrow> Some e | Some g' \<Rightarrow> pick_rt_loop K s g')"
  by (rule pick_rt_loop.simps)

text \<open>The entity at the head of a non-empty queue.\<close>

lemma rt_head_entity:
  assumes "rt_env K" and "rt_inv s" and "rt_nr_running (rt_rqs s g) \<noteq> 0"
  obtains e where "pick_next_rt_entity K (rt_rqs s g) = Some e" and "on_rt_rq s e" and "e \<noteq> 0"
    and "rt_rq_of (rt_ents s e) = g" and "rt_se_prio s e = highest_prio_curr (rt_rqs s g)"
    and "e = hd (rtq (rt_rqs s g) (rt_se_prio s e))"
proof -
  let ?r = "rt_rqs s g"
  have wf: "rt_rq_wf ?r" using assms(2) by (simp add: rt_inv_def)
  then have arr: "rt_arr_wf ?r" by (simp add: rt_rq_wf_def)
  have "rtq ?r (highest_prio_curr ?r) \<noteq> []"
    using rt_rq_wf_nonempty [OF wf assms(3)] wf rt_first_props(3) [of ?r] by (simp add: rt_rq_wf_def)
  then have e: "hd (rtq ?r (highest_prio_curr ?r)) \<in> set (rtq ?r (highest_prio_curr ?r))" by simp
  note q = rt_inv_queued [OF assms(2) e]
  have pick: "pick_next_rt_entity K ?r = Some (hd (rtq ?r (highest_prio_curr ?r)))"
    using pick_next_rt_entity_wf [OF _ wf, of K] assms(1,3) by (simp add: rt_env_def)
  have "hd (rtq ?r (highest_prio_curr ?r)) \<in># rt_all ?r"
    using q(1,2) by (simp add: on_rt_rq_def on_rt_list_iff)
  then have ne: "hd (rtq ?r (highest_prio_curr ?r)) \<noteq> 0" using rt_arr_wfD(4) [OF arr] by metis
  show thesis by (rule that [OF pick q(1) ne q(2)]) (simp_all add: q(3) [symmetric])
qed

lemma rt_runnable_parent:
  assumes "on_rt_rq s e" and "\<And>y. rt_parent (rt_ents s e) = Some y \<Longrightarrow> rt_runnable s y"
    and "rt_hier s"
  shows "rt_runnable s e"
proof -
  obtain es where es: "rt_chain s (Some e) = Some es" using rt_hierD(4) [OF assms(3)] by blast
  then obtain ys where ys: "es = e # ys" "rt_chain s (rt_parent (rt_ents s e)) = Some ys"
    by (rule rt_chain_SomeE)
  have "list_all (on_rt_rq s) ys"
    using ys(2) assms(2) by (cases "rt_parent (rt_ents s e)") (auto simp: rt_runnable_def)
  then show ?thesis using es ys(1) assms(1) by (simp add: rt_runnable_def)
qed

text \<open>A queued task can run exactly when no group above it is throttled.\<close>

lemma rt_queued_nonempty:
  assumes "rt_inv s" and "on_rt_rq s x"
  shows "rt_nr_running (rt_rqs s (rt_rq_of (rt_ents s x))) \<noteq> 0"
proof -
  let ?r = "rt_rqs s (rt_rq_of (rt_ents s x))"
  have wf: "rt_arr_wf ?r" "rt_nr_running ?r = of_nat (size (rt_all ?r))"
    using assms(1) by (simp_all add: rt_inv_def rt_rq_wf_def)
  have "rt_all ?r \<noteq> {#}" using assms(2) by (auto simp: on_rt_rq_def on_rt_list_iff)
  then show ?thesis using wf rt_all_eq_0 [OF wf(1)] by simp
qed

lemma rt_runnable_unthrottled:
  assumes ok: "rt_ok s" and chain: "rt_chain s (Some p) = Some es" and on: "on_rt_rq s p"
  shows "rt_runnable s p \<longleftrightarrow> (\<forall>y \<in> set es. \<forall>g. group_rt_rq s y = Some g \<longrightarrow> \<not> rt_rq_throttled (rt_rqs s g))"
proof
  assume "rt_runnable s p"
  then have "on_rt_rq s y" if "y \<in> set es" for y using chain that by (simp add: rt_runnable_def list_all_iff)
  moreover have "\<not> rt_rq_throttled (rt_rqs s g)" if "on_rt_rq s y" "group_rt_rq s y = Some g" for y g
    using rt_ok_full [OF ok, of y] that by (simp add: rt_skip_def)
  ultimately show "\<forall>y \<in> set es. \<forall>g. group_rt_rq s y = Some g \<longrightarrow> \<not> rt_rq_throttled (rt_rqs s g)" by blast
next
  assume free: "\<forall>y \<in> set es. \<forall>g. group_rt_rq s y = Some g \<longrightarrow> \<not> rt_rq_throttled (rt_rqs s g)"
  note hier = rt_ok_parts(1) [OF ok] and inv = rt_ok_parts(3) [OF ok]
  from chain on free have "list_all (on_rt_rq s) es"
  proof (induction es arbitrary: p)
    case (Cons z es)
    then have z: "z = p" and es: "rt_chain s (rt_parent (rt_ents s p)) = Some es" by (auto elim: rt_chain_SomeE)
    show ?case
    proof (cases "rt_parent (rt_ents s p)")
      case (Some y)
      have "y \<in> set es" using rt_chain_head es Some by simp
      moreover have "group_rt_rq s y = Some (rt_rq_of (rt_ents s p))" using rt_hierD(1) [OF hier Some] .
      ultimately have "on_rt_rq s y"
        using Cons.prems(3) rt_queued_nonempty [OF inv Cons.prems(2)] rt_ok_full [OF ok, of y] by (simp add: rt_skip_def)
      then show ?thesis using Cons.IH [of y] Cons.prems(2,3) es Some z by simp
    qed (use Cons.prems(2) es z in simp)
  qed simp
  then show "rt_runnable s p" using chain by (simp add: rt_runnable_def)
qed

text \<open>
  The descent ends: the depth of the queue grows at each step and a chain of distinct pointers is
  shorter than \<open>2 ^ 32\<close>.
\<close>

lemma pick_rt_loop_ok:
  assumes K: "rt_env K" and ok: "rt_ok s"
  shows "rt_nr_running (rt_rqs s g) \<noteq> 0 \<Longrightarrow>
    (\<And>y. group_rt_rq s y = Some g \<Longrightarrow> rt_runnable s y) \<Longrightarrow>
    (\<And>x xs. rt_rq_of (rt_ents s x) = g \<Longrightarrow> rt_chain s (Some x) = Some xs \<Longrightarrow> 2 ^ 32 \<le> n + length xs) \<Longrightarrow>
    \<exists>p. pick_rt_loop K s g = Some p \<and> group_rt_rq s p = None \<and> rt_runnable s p \<and>
      prio (tasks s p) = highest_prio_curr (rt_rqs s g) \<and>
      p = hd (rtq (rt_rqs s (rt_rq_of (rt_ents s p))) (prio (tasks s p)))"
proof (induction n arbitrary: g)
  case (0 g)
  obtain e where e: "e \<noteq> 0" "rt_rq_of (rt_ents s e) = g"
    using rt_head_entity [OF K rt_ok_parts(3) [OF ok] 0(1)] by metis
  obtain xs where xs: "rt_chain s (Some e) = Some xs" using rt_hierD(4) [OF rt_ok_parts(1) [OF ok]] by blast
  have "length xs < 2 ^ 32"
    using rt_chain_distinct [OF xs] rt_chain_nonnull [OF rt_ok_parts(1) [OF ok] xs] e(1)
    by (intro distinct_ptrs_bound) simp_all
  with 0(3) [OF e(2) xs] show ?case by simp
next
  case (Suc n g)
  note hier = rt_ok_parts(1) [OF ok] and inv = rt_ok_parts(3) [OF ok]
  obtain e where e: "pick_next_rt_entity K (rt_rqs s g) = Some e" "on_rt_rq s e" "e \<noteq> 0"
    "rt_rq_of (rt_ents s e) = g" "rt_se_prio s e = highest_prio_curr (rt_rqs s g)"
    "e = hd (rtq (rt_rqs s g) (rt_se_prio s e))"
    using rt_head_entity [OF K inv Suc.prems(1)] by metis
  have run: "rt_runnable s e"
  proof (rule rt_runnable_parent [OF e(2) _ hier])
    fix y assume "rt_parent (rt_ents s e) = Some y"
    then show "rt_runnable s y" using rt_hierD(1) [OF hier] e(4) Suc.prems(2) by simp
  qed
  show ?case
  proof (cases "group_rt_rq s e")
    case None
    have "pick_rt_loop K s g = Some e" by (subst pick_rt_loop_unfold) (simp add: e(1) None)
    moreover have "prio (tasks s e) = rt_se_prio s e" by (simp add: rt_se_prio_def None)
    ultimately show ?thesis using None e run by simp
  next
    case (Some g')
    have nr: "rt_nr_running (rt_rqs s g') \<noteq> 0"
      using rt_ok_full [OF ok, of e] Some e(2) by (simp add: rt_skip_def)
    have "\<exists>p. pick_rt_loop K s g' = Some p \<and> group_rt_rq s p = None \<and> rt_runnable s p \<and>
      prio (tasks s p) = highest_prio_curr (rt_rqs s g') \<and>
      p = hd (rtq (rt_rqs s (rt_rq_of (rt_ents s p))) (prio (tasks s p)))"
    proof (rule Suc.IH [OF nr])
      show "rt_runnable s y" if "group_rt_rq s y = Some g'" for y
        using rt_hierD(2) [OF hier that Some] run by simp
      fix x xs assume x: "rt_rq_of (rt_ents s x) = g'" and xs: "rt_chain s (Some x) = Some xs"
      have "rt_parent (rt_ents s x) = Some e" using Some x hier by (intro rt_hier_parent) simp_all
      then obtain ys where "xs = x # ys" "rt_chain s (Some e) = Some ys"
        using xs by (auto elim: rt_chain_SomeE)
      then show "2 ^ 32 \<le> n + length xs" using Suc.prems(3) [OF e(4)] by fastforce
    qed
    moreover have "pick_rt_loop K s g = pick_rt_loop K s g'"
      by (subst pick_rt_loop_unfold) (simp add: e(1) Some)
    moreover have "highest_prio_curr (rt_rqs s g') = highest_prio_curr (rt_rqs s g)"
      using e(5) by (simp add: rt_se_prio_def Some)
    ultimately show ?thesis by simp
  qed
qed

text \<open>No runnable task has a higher priority than the highest one of the root queue.\<close>

lemma rt_root_highest:
  assumes inv: "rt_inv s" and hier: "rt_hier s" and root: "rt_root K s"
    and chain: "rt_chain s (Some x) = Some es" and on: "list_all (on_rt_rq s) es"
  shows "highest_prio_curr (rt_rqs s (root_task_group K)) \<le> rt_se_prio s x"
  using chain on
proof (induction es arbitrary: x)
  case Nil
  then show ?case by (auto elim: rt_chain_SomeE)
next
  case (Cons z es)
  then have z: "z = x" and es: "rt_chain s (rt_parent (rt_ents s x)) = Some es"
    by (auto elim: rt_chain_SomeE)
  let ?g = "rt_rq_of (rt_ents s x)"
  have "on_rt_rq s x" using Cons.prems(2) z by simp
  note q = rt_inv_on [OF inv this]
  have "rt_rq_wf (rt_rqs s ?g)" using inv by (simp add: rt_inv_def)
  moreover have "rtq (rt_rqs s ?g) (rt_se_prio s x) \<noteq> []" using q(1) by (metis empty_iff empty_set)
  ultimately have le: "highest_prio_curr (rt_rqs s ?g) \<le> rt_se_prio s x"
    using rt_first_le [OF q(2), of "rt_rqs s ?g"] by (simp add: rt_rq_wf_def)
  show ?case
  proof (cases "rt_parent (rt_ents s x)")
    case None
    then have "?g = root_task_group K" using root by (simp add: rt_root_def)
    then show ?thesis using le by simp
  next
    case (Some y)
    then have "rt_se_prio s y = highest_prio_curr (rt_rqs s ?g)"
      using rt_hierD(1) [OF hier] by (simp add: rt_se_prio_def)
    moreover have "highest_prio_curr (rt_rqs s (root_task_group K)) \<le> rt_se_prio s y"
      using Cons.IH [of y] es Some Cons.prems(2) by simp
    ultimately show ?thesis using le by simp
  qed
qed

section \<open>The operations of the class as steps\<close>

lemma enqueue_task_rt_ok:
  assumes K: "rt_env K" and ok: "rt_ok s" and p: "p \<noteq> 0"
    and pr: "group_rt_rq s p = None" "0 \<le> prio (tasks s p)" "prio (tasks s p) < MAX_RT_PRIO"
  shows "\<exists>t es. enqueue_task_rt K p flags s = Some t \<and> rt_ok t \<and> rt_chain s (Some p) = Some es \<and>
    (\<forall>y. on_rt_rq t y \<longleftrightarrow> (if y \<in> set es then \<not> rt_skip t y else on_rt_rq s y)) \<and>
    nr_running (rq t) = nr_running (rq s) + 1 \<and> tasks t = tasks s \<and> rt_same (t\<lparr>rt_rqs := rt_rqs s\<rparr>) s \<and>
    rq_wrr (rq t) = rq_wrr (rq s) \<and> curr (rq t) = curr (rq s)"
proof -
  define s1 where "s1 = (if flags AND ENQUEUE_WAKEUP \<noteq> 0 then upd_rt p (\<lambda>e. e\<lparr>rt_timeout := 0\<rparr>) s else s)"
  have same: "rt_same s1 s" by (simp add: s1_def)
  note sf = rt_same_facts [OF same]
  have fr: "tasks s1 = tasks s" "rq s1 = rq s" by (simp_all add: s1_def)
  have ok1: "rt_ok s1" using rt_same_inv(4) [OF same] ok by blast
  have "\<exists>t es. enqueue_rt_entity K p (flags AND ENQUEUE_HEAD \<noteq> 0) s1 = Some t \<and> rt_ok t \<and>
    rt_frame s1 t \<and> rt_chain s1 (Some p) = Some es \<and>
    (\<forall>y. on_rt_rq t y \<longleftrightarrow> (if y \<in> set es then \<not> rt_skip t y else on_rt_rq s1 y))"
    by (rule enqueue_rt_entity_rt_ok [OF K ok1 p]) (simp add: fr pr)
  then obtain t es where t: "enqueue_rt_entity K p (flags AND ENQUEUE_HEAD \<noteq> 0) s1 = Some t" "rt_ok t"
    "rt_frame s1 t" "rt_chain s1 (Some p) = Some es"
    "\<forall>y. on_rt_rq t y \<longleftrightarrow> (if y \<in> set es then \<not> rt_skip t y else on_rt_rq s1 y)"
    by blast
  have i: "rt_same (inc_nr_running t) t" by (simp add: rt_same_def inc_nr_running_def)
  note fi = rt_same_facts [OF i] and oki = rt_same_inv(4) [OF i]
  have "rt_same ((inc_nr_running t)\<lparr>rt_rqs := rt_rqs s\<rparr>) s"
    using t(3) same by (simp add: rt_same_def rt_frame_def inc_nr_running_def)
  moreover have "nr_running (rq (inc_nr_running t)) = nr_running (rq s) + 1"
    "tasks (inc_nr_running t) = tasks s" "rq_wrr (rq (inc_nr_running t)) = rq_wrr (rq s)"
    "curr (rq (inc_nr_running t)) = curr (rq s)"
    using t(3) by (simp_all add: rt_frame_def fr)
  moreover have "enqueue_task_rt K p flags s = Some (inc_nr_running t)"
    using t(1) by (simp add: enqueue_task_rt_def Let_def s1_def)
  ultimately show ?thesis using t(2,4,5) fi oki sf by metis
qed

lemma dequeue_task_rt_ok:
  assumes K: "rt_env K" and ok: "rt_ok s" and p: "p \<noteq> 0" and task: "group_rt_rq s p = None"
  shows "\<exists>t. dequeue_task_rt K p flags s = Some t \<and> rt_ok t \<and> \<not> on_rt_rq t p \<and>
    nr_running (rq t) = nr_running (rq s) - 1 \<and> rt_links s t \<and> tgs t = tgs s \<and>
    rq_wrr (rq t) = rq_wrr (rq s) \<and> curr (rq t) = curr (rq s) \<and>
    (\<forall>x. task_core (tasks t x) = task_core (tasks s x)) \<and>
    (\<forall>x. group_rt_rq s x = None \<and> x \<noteq> p \<longrightarrow> on_rt_rq t x = on_rt_rq s x)"
proof -
  obtain u where u: "update_curr_rt K s = Some u" "rt_ok u" "rt_kept s u" using update_curr_rt_ok [OF K ok] by blast
  have "\<exists>t es. dequeue_rt_entity K p u = Some t \<and> rt_ok t \<and> rt_frame u t \<and>
    rt_chain u (Some p) = Some es \<and>
    (\<forall>y. on_rt_rq t y \<longleftrightarrow> (if y \<in> set es then group_rt_rq u y \<noteq> None \<and> \<not> rt_skip t y else on_rt_rq u y))"
    using rt_ok_parts [OF u(2)] rt_ok_full [OF u(2)] by (intro dequeue_rt_entity_rt_ok [OF K _ _ _ p])
  then obtain t es where t: "dequeue_rt_entity K p u = Some t" "rt_ok t" "rt_frame u t"
    "rt_chain u (Some p) = Some es"
    "\<And>y. on_rt_rq t y \<longleftrightarrow> (if y \<in> set es then group_rt_rq u y \<noteq> None \<and> \<not> rt_skip t y else on_rt_rq u y)"
    by blast
  have g: "group_rt_rq u p = None" using task u(3) by (simp add: group_rt_rq_def rt_kept_def)
  have d: "rt_same (dec_nr_running t) t" by (simp add: rt_same_def dec_nr_running_def)
  have "\<not> on_rt_rq (dec_nr_running t) p"
    using t(5) [of p] rt_chain_head [OF t(4)] g rt_same_facts(2) [OF d] by simp
  moreover have "rt_ok (dec_nr_running t)" using rt_same_inv(4) [OF d] t(2) by blast
  moreover have "nr_running (rq (dec_nr_running t)) = nr_running (rq s) - 1"
    using t(3) u(3) by (simp add: rt_frame_def rt_kept_def)
  moreover have "rt_links s (dec_nr_running t)"
    using rt_links_trans [OF rt_links_kept [OF u(3)] rt_links_frame [OF t(3)]] by (simp add: rt_links_def)
  moreover have "tgs (dec_nr_running t) = tgs s" "rq_wrr (rq (dec_nr_running t)) = rq_wrr (rq s)"
    "curr (rq (dec_nr_running t)) = curr (rq s)"
    "\<forall>x. task_core (tasks (dec_nr_running t) x) = task_core (tasks s x)"
    using t(3) u(3) by (simp_all add: rt_frame_def rt_kept_def dec_nr_running_def)
  moreover have "on_rt_rq (dec_nr_running t) x = on_rt_rq s x" if "group_rt_rq s x = None" "x \<noteq> p" for x
  proof -
    have gx: "group_rt_rq u x = None" using that(1) rt_keptD(3) [OF u(3)] by simp
    then have "x \<notin> set es" using rt_chain_groups [OF rt_ok_parts(1) [OF u(2)] t(4), of x] that(2) by auto
    then have "on_rt_rq t x = on_rt_rq u x" using t(5) [of x] by simp
    then show ?thesis using u(3) that(1) rt_same_facts(2) [OF d] by (simp add: rt_kept_def)
  qed
  ultimately show ?thesis using u(1) t(1) by (auto simp: dequeue_task_rt_def)
qed

lemma pick_next_task_rt_total:
  assumes "rt_env K" and "rt_ok s" and "rt_root K s"
    and "rt_nr_running (rt_rqs s (root_task_group K)) \<noteq> 0"
  shows "\<exists>p. pick_rt_loop K s (root_task_group K) = Some p \<and> group_rt_rq s p = None \<and> rt_runnable s p \<and>
      prio (tasks s p) = highest_prio_curr (rt_rqs s (root_task_group K)) \<and>
      p = hd (rtq (rt_rqs s (rt_rq_of (rt_ents s p))) (prio (tasks s p)))"
  using assms by (intro pick_rt_loop_ok [where n = "2 ^ 32"]) (auto simp: rt_root_def)

lemma pick_next_task_rt_best:
  assumes "rt_env K" and "rt_ok s" and "rt_root K s"
    and "rt_nr_running (rt_rqs s (root_task_group K)) \<noteq> 0"
    and "\<not> rt_rq_throttled (rt_rqs s (root_task_group K))"
  shows "\<exists>p t. pick_next_task_rt K s = Some (Some p, t) \<and> t = upd_se p (\<lambda>e. e\<lparr>exec_start := clock_task (rq s)\<rparr>) s \<and> group_rt_rq s p = None \<and> rt_runnable s p \<and>
    p = hd (rtq (rt_rqs s (rt_rq_of (rt_ents s p))) (prio (tasks s p))) \<and>
    (\<forall>q. group_rt_rq s q = None \<and> rt_runnable s q \<longrightarrow> prio (tasks s p) \<le> prio (tasks s q))"
proof -
  obtain p where p: "pick_rt_loop K s (root_task_group K) = Some p" "group_rt_rq s p = None"
    "rt_runnable s p" "prio (tasks s p) = highest_prio_curr (rt_rqs s (root_task_group K))"
    "p = hd (rtq (rt_rqs s (rt_rq_of (rt_ents s p))) (prio (tasks s p)))"
    using pick_next_task_rt_total [OF assms(1-4)] by blast
  have "prio (tasks s p) \<le> prio (tasks s q)" if "group_rt_rq s q = None" "rt_runnable s q" for q
    using that rt_root_highest [OF rt_ok_parts(3,1) [OF assms(2)] assms(3), of q]
    by (auto simp: p(4) rt_runnable_def rt_se_prio_def split: option.splits)
  moreover have "pick_next_task_rt K s =
      Some (Some p, upd_se p (\<lambda>e. e\<lparr>exec_start := clock_task (rq s)\<rparr>) s)"
    using assms(4,5) p(1) by (simp add: pick_next_task_rt_def)
  ultimately show ?thesis using p by blast
qed

text \<open>
  One operation of the class, called as the core calls it: a task is enqueued with a real-time
  priority, the clock advances between operations.
\<close>

inductive rt_step :: "kenv \<Rightarrow> kstate \<Rightarrow> kstate \<Rightarrow> bool" for K where
  enqueue: "p \<noteq> 0 \<Longrightarrow> group_rt_rq s p = None \<Longrightarrow> 0 \<le> prio (tasks s p) \<Longrightarrow> prio (tasks s p) < MAX_RT_PRIO \<Longrightarrow>
    enqueue_task_rt K p flags s = Some t \<Longrightarrow> rt_step K s t"
| dequeue: "p \<noteq> 0 \<Longrightarrow> group_rt_rq s p = None \<Longrightarrow> dequeue_task_rt K p flags s = Some t \<Longrightarrow> rt_step K s t"
| requeue: "requeue_task_rt K p head s = Some t \<Longrightarrow> rt_step K s t"
| yield: "yield_task_rt K s = Some t \<Longrightarrow> rt_step K s t"
| preempt: "rt_step K s (check_preempt_curr_rt p flags s)"
| pick: "pick_next_task_rt K s = Some (r, t) \<Longrightarrow> rt_step K s t"
| put_prev: "put_prev_task_rt K p s = Some t \<Longrightarrow> rt_step K s t"
| tick: "task_tick_rt K p s = Some t \<Longrightarrow> rt_step K s t"
| set_curr: "rt_step K s (set_curr_task_rt s)"
| switched_to: "rt_step K s (switched_to_rt p s)"
| prio_changed: "rt_step K s (prio_changed_rt p oldprio s)"
| timer: "do_sched_rt_period_timer K tg overrun s = Some (b, t) \<Longrightarrow> rt_step K s t"
| clock: "rt_step K s (s\<lparr>rq := (rq s)\<lparr>clock_task := c, curr := q\<rparr>\<rparr>)"

inductive rt_reachable :: "kenv \<Rightarrow> kstate \<Rightarrow> kstate \<Rightarrow> bool" for K s where
  start: "rt_reachable K s s"
| step: "rt_reachable K s t \<Longrightarrow> rt_step K t u \<Longrightarrow> rt_reachable K s u"

lemma rt_step_same_ops:
  "rt_same (check_preempt_curr_rt p flags s) s" "rt_same (set_curr_task_rt s) s"
  "rt_same (switched_to_rt p s) s" "rt_same (prio_changed_rt p oldprio s) s"
  "rt_same (s\<lparr>rq := (rq s)\<lparr>clock_task := c, curr := q\<rparr>\<rparr>) s"
  by (simp_all add: rt_same_def check_preempt_curr_rt_def set_curr_task_rt_def switched_to_rt_def
      prio_changed_rt_def resched_task_def upd_se_def)

lemma pick_next_task_rt_same:
  assumes "pick_next_task_rt K s = Some (r, t)"
  shows "rt_same t s"
  using assms by (auto simp: pick_next_task_rt_def Let_def bind_eq_Some_conv rt_same_def upd_se_def split: if_splits)

lemma rt_step_ok:
  assumes K: "rt_env K" and step: "rt_step K s t" and ok: "rt_ok s"
  shows "rt_ok t \<and> rt_links s t"
  using step
proof cases
  case (enqueue p flags)
  then show ?thesis using enqueue_task_rt_ok [OF K ok enqueue(1-4), of flags] rt_links_same [of "t\<lparr>rt_rqs := rt_rqs s\<rparr>" s]
    by (auto simp: rt_links_def)
next
  case (dequeue p flags)
  then show ?thesis using dequeue_task_rt_ok [OF K ok dequeue(1,2), of flags] by (metis option.inject)
next
  case (requeue p head)
  then show ?thesis using requeue_task_rt_ok [OF K ok, of p head] rt_links_kept by auto
next
  case yield
  then show ?thesis using requeue_task_rt_ok [OF K ok, of "curr (rq s)" False] rt_links_kept
    by (auto simp: yield_task_rt_def)
next
  case (pick r)
  then show ?thesis using rt_same_inv(4) [OF pick_next_task_rt_same [OF pick]]
      rt_links_same [OF pick_next_task_rt_same [OF pick]] ok by simp
next
  case (put_prev p)
  then show ?thesis using update_curr_rt_ok [OF K ok] rt_links_kept by (auto simp: put_prev_task_rt_def)
next
  case (tick p)
  then show ?thesis using task_tick_rt_ok [OF K ok, of p] by (auto simp: rt_step_kept_def)
next
  case (timer tg overrun b)
  then show ?thesis using do_sched_rt_period_timer_ok [OF K ok, of tg overrun] rt_links_kept by auto
qed (use ok rt_step_same_ops rt_same_inv(4) rt_links_same in \<open>blast+\<close>)

lemma rt_root_links: "rt_links s t \<Longrightarrow> rt_root K t = rt_root K s"
  by (simp add: rt_root_def rt_links_def group_rt_rq_def)

lemma rt_reachable_links:
  assumes "rt_reachable K s t" and "rt_env K" and "rt_ok s"
  shows "rt_ok t \<and> rt_links s t"
  using assms(1)
proof induction
  case start
  show ?case using assms(3) by (simp add: rt_links_def)
next
  case (step t u)
  then show ?case using rt_step_ok [OF assms(2)] rt_links_trans by blast
qed

section \<open>The queue of a requeued task\<close>

lemma rt_chain_other_queue:
  assumes "rt_hier s" and "rt_chain s (Some p) = Some (p # ys)" and "z \<in> set ys"
  shows "rt_rq_of (rt_ents s z) \<noteq> rt_rq_of (rt_ents s p)"
proof
  assume eq: "rt_rq_of (rt_ents s z) = rt_rq_of (rt_ents s p)"
  have ys: "rt_chain s (rt_parent (rt_ents s p)) = Some ys" by (rule rt_chain_Cons [OF assms(2)])
  with assms(3) obtain y where y: "rt_parent (rt_ents s p) = Some y" by (cases "rt_parent (rt_ents s p)") auto
  then have "group_rt_rq s y = Some (rt_rq_of (rt_ents s z))" using rt_hierD(1) [OF assms(1) y] eq by simp
  then have pz: "rt_parent (rt_ents s z) = Some y" using assms(1) by (intro rt_hier_parent)
  obtain us vs where zs: "ys = us @ z # vs" "rt_chain s (Some z) = Some (z # vs)"
    using rt_chain_tail [OF ys assms(3)] by blast
  then have "rt_chain s (Some y) = Some vs" using rt_chain_Cons [OF zs(2)] pz by simp
  with ys y zs(1) show False by simp
qed

lemma rt_rqs_requeue_fold_other:
  assumes "\<And>z. z \<in> set zs \<Longrightarrow> rt_rq_of (rt_ents s z) \<noteq> g"
  shows "rt_rqs (fold (requeue_rt_entity K head) zs s) g = rt_rqs s g"
  using assms by (induction zs arbitrary: s) (auto simp: requeue_rt_entity_def)

lemma requeue_task_rt_queue:
  assumes K: "rt_env K" and ok: "rt_ok s" and p: "group_rt_rq s p = None"
    and q: "rtq (rt_rqs s (rt_rq_of (rt_ents s p))) (prio (tasks s p)) = xs" and "p \<in> set xs"
    and t: "requeue_task_rt K p head s = Some t"
  shows "rtq (rt_rqs t (rt_rq_of (rt_ents s p))) (prio (tasks s p)) =
    (if head then p # remove1 p xs else remove1 p xs @ [p])"
proof -
  note inv = rt_ok_parts(3) [OF ok] and hier = rt_ok_parts(1) [OF ok]
  let ?g = "rt_rq_of (rt_ents s p)" and ?pr = "prio (tasks s p)"
  have mem: "p \<in> set (rtq (rt_rqs s ?g) ?pr)" using assms(4,5) by simp
  note iq = rt_inv_queued [OF inv mem]
  obtain ys where ys: "rt_chain s (Some p) = Some (p # ys)"
    using rt_hierD(4) [OF hier, of p] by (auto elim: rt_chain_SomeE)
  let ?u = "requeue_rt_entity K head p s"
  have u: "?u = upd_rt_rq ?g (rt_requeue K p ?pr head) s"
    using iq(1) p by (simp add: requeue_rt_entity_def rt_se_prio_def)
  have "t = fold (requeue_rt_entity K head) ys ?u" using t ys by (simp add: requeue_task_rt_def)
  moreover have "rt_rqs (fold (requeue_rt_entity K head) ys ?u) ?g = rt_rqs ?u ?g"
    by (rule rt_rqs_requeue_fold_other) (use rt_chain_other_queue [OF hier ys] in \<open>simp add: u\<close>)
  moreover have "rt_rqs ?u ?g = rt_requeue K p ?pr head (rt_rqs s ?g)" by (simp add: u)
  moreover have "list_ops_ok (klists K)" "rt_rq_wf (rt_rqs s ?g)"
    using K inv by (simp_all add: rt_env_def rt_inv_def)
  ultimately show ?thesis using rt_requeue_wf(3) [of K "rt_rqs s ?g" p ?pr head] mem iq(4,5) q by simp
qed

section \<open>A sample hierarchy\<close>

text \<open>
  Group 101 below the root group 100, with entity 201; tasks 31 and 32 of the group are queued at
  priority 50. Unless the group is throttled (\<open>thr\<close>) it is queued at priority 50 in the root queue.
\<close>

definition sample_rtq :: "ptr list \<Rightarrow> ptr \<Rightarrow> rt_rq" where
  "sample_rtq xs g = sample_rt_rq\<lparr>rt_tg := Some g,
     active := \<lparr>bitmap = (\<lambda>i. i = 100 \<or> i = 50 \<and> xs \<noteq> []), rt_queue = (\<lambda>i. if i = 50 then xs else [])\<rparr>,
     rt_nr_running := of_nat (length xs), highest_prio_curr := (if xs = [] then 100 else 50)\<rparr>"

definition sample_rt0 :: "bool \<Rightarrow> kstate" where
  "sample_rt0 thr = sample_state\<lparr>
     tasks := sample_tasks(31 := sample_task rt_sched_class 2 50 101 0, 32 := sample_task rt_sched_class 2 50 101 0),
     rq := sample_rq\<lparr>curr := 31\<rparr>,
     rt_rqs := (\<lambda>g. if g = 100 then sample_rtq (if thr then [] else [201]) 100
       else if g = 101 then (sample_rtq [31, 32] 101)\<lparr>rt_throttled := thr, rt_time := (if thr then 960000000 else 0)\<rparr>
       else sample_rtq [] g),
     rt_ents := (\<lambda>x. \<lparr>rt_timeout = 0, rt_time_slice = 1, nr_cpus_allowed = 1,
        rt_parent = (if x = 31 \<or> x = 32 then Some 201 else None), rt_rq_of = (if x = 31 \<or> x = 32 then 101 else 100),
        rt_my_q = (if x = 201 then Some 101 else None)\<rparr>),
     tgs := (\<lambda>tg. \<lparr>tg_rt_bandwidth = \<lparr>rt_period = 1000000000, bw_rt_runtime = 950000000\<rparr>,
        tg_rt_se = (if tg = 101 then Some 201 else None), tg_parent = None, tg_children = []\<rparr>)\<rparr>"

abbreviation sample_rt :: kstate where
  "sample_rt \<equiv> sample_rt0 False"

lemma sample_rt_env [simp]: "rt_env sample_env"
  by (simp add: rt_env_def sample_env_def)

lemma sample_rtq_wf:
  assumes "distinct xs" and "0 \<notin> set xs"
  shows "rt_rq_wf (sample_rtq xs g)" and "on_rt_list y (sample_rtq xs g) \<longleftrightarrow> y \<in> set xs"
proof -
  have e0: "rt_all (sample_rtq [] g) = {#}" by (simp add: rt_all_def sample_rtq_def)
  have "rt_all (sample_rtq xs g) + mset (rtq (sample_rtq [] g) 50) = rt_all (sample_rtq [] g) + mset xs"
    by (rule rt_all_upd) (simp_all add: sample_rtq_def sched_consts fun_eq_iff)
  then have all: "rt_all (sample_rtq xs g) = mset xs" using e0 by (simp add: sample_rtq_def)
  have "rt_first (sample_rtq xs g) = highest_prio_curr (sample_rtq xs g)"
    by (rule rt_first_eqI) (auto simp: sample_rtq_def sched_consts split: if_splits)
  moreover have "rt_arr_wf (sample_rtq xs g)"
  proof (rule rt_arr_wfI)
    show "count (rt_all (sample_rtq xs g)) x \<le> 1" for x
      using assms(1) by (simp add: all distinct_count_atmost_1)
    show "0 \<notin># rt_all (sample_rtq xs g)" using assms(2) by (simp add: all)
  qed (auto simp: sample_rtq_def sched_consts)
  ultimately show "rt_rq_wf (sample_rtq xs g)"
    by (simp add: rt_rq_wf_def all) (simp add: sample_rtq_def)
  show "on_rt_list y (sample_rtq xs g) \<longleftrightarrow> y \<in> set xs" by (simp add: on_rt_list_iff all)
qed

lemma sample_rt_simps [simp]:
  "group_rt_rq (sample_rt0 thr) x = (if x = 201 then Some 101 else None)"
  "rt_parent (rt_ents (sample_rt0 thr) x) = (if x = 31 \<or> x = 32 then Some 201 else None)"
  "rt_rq_of (rt_ents (sample_rt0 thr) x) = (if x = 31 \<or> x = 32 then 101 else 100)"
  "rt_rqs (sample_rt0 thr) g = (if g = 100 then sample_rtq (if thr then [] else [201]) 100
     else if g = 101 then (sample_rtq [31, 32] 101)\<lparr>rt_throttled := thr, rt_time := (if thr then 960000000 else 0)\<rparr>
     else sample_rtq [] g)"
  "tg_rt_se (tgs (sample_rt0 thr) tg) = (if tg = 101 then Some 201 else None)"
  "prio (tasks (sample_rt0 thr) 31) = 50" "prio (tasks (sample_rt0 thr) 32) = 50"
  "prio (tasks (sample_rt0 thr) 30) = 50" "nr_running (rq (sample_rt0 thr)) = 3"
  by (simp_all add: group_rt_rq_def sample_rt0_def sample_tasks_def sample_task_def sample_rq_def)

lemma sample_rt_chain:
  "rt_chain (sample_rt0 thr) (Some x) = Some (if x = 31 \<or> x = 32 then [x, 201] else [x])"
  by (simp add: rt_chain_Some)

lemma sample_rtq_meta [simp]:
  "rt_rq_wf (r\<lparr>rt_throttled := b, rt_time := d\<rparr>) = rt_rq_wf r"
  "on_rt_list y (r\<lparr>rt_throttled := b, rt_time := d\<rparr>) = on_rt_list y r"
  by (simp_all add: rt_rq_wf_def rt_arr_wf_def rt_all_def rt_first_def on_rt_list_def)

lemma sample_rt_on: "on_rt_rq (sample_rt0 thr) x \<longleftrightarrow> x = 31 \<or> x = 32 \<or> x = 201 \<and> \<not> thr"
  by (simp add: on_rt_rq_def sample_rtq_wf(2))

lemma sample_rt_ok [simp]: "rt_ok (sample_rt0 thr)" "rt_root sample_env (sample_rt0 thr)"
proof -
  let ?s = "sample_rt0 thr"
  have hier: "rt_hier ?s" by (auto simp: rt_hier_def sample_rt_chain split: if_splits)
  have tg: "rt_tgs ?s"
    by (auto simp: rt_tgs_def sample_rtq_def sample_rt_rq_def split: if_splits)
  have pr: "rt_se_prio ?s 31 = 50" "rt_se_prio ?s 32 = 50" "rt_se_prio ?s 201 = 50"
    by (simp_all add: rt_se_prio_def sample_rtq_def)
  have "rt_rq_of (rt_ents ?s x) = g \<and> i = rt_se_prio ?s x" if "x \<in> set (rtq (rt_rqs ?s g) i)" for g i x
    using that pr by (auto simp: sample_rtq_def split: if_splits)
  then have inv: "rt_inv ?s" by (simp add: rt_inv_def sample_rtq_wf(1))
  have "rt_full ?s"
    by (auto simp: rt_full_def sample_rt_on rt_skip_def sample_rtq_def sample_rt_rq_def rt_rq_throttled_def split: if_splits)
  then show "rt_ok ?s" using hier tg inv by (simp add: rt_ok_def)
  show "rt_root sample_env ?s" by (auto simp: rt_root_def sample_env_def split: if_splits)
qed

section \<open>Properties\<close>

text \<open>C6: From a well-formed state, every sequence of calls into the real-time class reaches a
  well-formed state, and there no operation of the class can reach a \<^verbatim>\<open>BUG\<close>, an empty queue entry
  or a NULL group: enqueueing a task with a real-time priority, dequeueing, requeueing, the tick, the
  period timer and picking the next task all return.\<close>

theorem rt_reachable_ok:
  assumes "rt_env K" and "rt_ok s" and "rt_root K s" and "rt_reachable K s t"
  shows "rt_ok t \<and> task_tick_rt K p t \<noteq> None \<and> requeue_task_rt K p head t \<noteq> None \<and>
    do_sched_rt_period_timer K tg overrun t \<noteq> None \<and> pick_next_task_rt K t \<noteq> None \<and>
    (p \<noteq> 0 \<and> group_rt_rq t p = None \<longrightarrow> dequeue_task_rt K p flags t \<noteq> None) \<and>
    (p \<noteq> 0 \<and> group_rt_rq t p = None \<and> 0 \<le> prio (tasks t p) \<and> prio (tasks t p) < MAX_RT_PRIO \<longrightarrow>
      enqueue_task_rt K p flags t \<noteq> None)"
proof -
  have ok: "rt_ok t" and "rt_links s t" using rt_reachable_links [OF assms(4,1,2)] by blast+
  then have root: "rt_root K t" using rt_root_links assms(3) by blast
  have "task_tick_rt K p t \<noteq> None" using task_tick_rt_ok [OF assms(1) ok, of p] by auto
  moreover have "requeue_task_rt K p head t \<noteq> None" using requeue_task_rt_ok [OF assms(1) ok, of p head] by auto
  moreover have "do_sched_rt_period_timer K tg overrun t \<noteq> None"
    using do_sched_rt_period_timer_ok [OF assms(1) ok, of tg overrun] by auto
  moreover have "pick_next_task_rt K t \<noteq> None"
    using pick_next_task_rt_total [OF assms(1) ok root] by (auto simp: pick_next_task_rt_def Let_def)
  moreover have "dequeue_task_rt K p flags t \<noteq> None" if "p \<noteq> 0" "group_rt_rq t p = None"
    using dequeue_task_rt_ok [OF assms(1) ok that, of flags] by auto
  moreover have "enqueue_task_rt K p flags t \<noteq> None"
    if "p \<noteq> 0" "group_rt_rq t p = None" "0 \<le> prio (tasks t p)" "prio (tasks t p) < MAX_RT_PRIO"
    using enqueue_task_rt_ok [OF assms(1) ok that, of flags] by auto
  ultimately show ?thesis using ok by blast
qed

theorem rt_reachable_ok_witness:
  "rt_ok (set_curr_task_rt sample_rt) \<and> pick_next_task_rt sample_env (set_curr_task_rt sample_rt) \<noteq> None"
proof -
  have "rt_reachable sample_env sample_rt (set_curr_task_rt sample_rt)"
    by (rule rt_reachable.step [OF rt_reachable.start rt_step.set_curr])
  from rt_reachable_ok [OF sample_rt_env sample_rt_ok this] show ?thesis by blast
qed

text \<open>C7: The picked real-time task is at the head of its queue, it and all groups above it are queued,
  and no runnable real-time task has a higher priority (a smaller number). The descent through the
  groups always ends at a task.\<close>

theorem rt_pick_highest:
  assumes "rt_env K" and "rt_ok s" and "rt_root K s"
    and "rt_nr_running (rt_rqs s (root_task_group K)) \<noteq> 0"
    and "\<not> rt_rq_throttled (rt_rqs s (root_task_group K))"
  shows "\<exists>p t. pick_next_task_rt K s = Some (Some p, t) \<and> group_rt_rq s p = None \<and> rt_runnable s p \<and>
    p = hd (rtq (rt_rqs s (rt_rq_of (rt_ents s p))) (prio (tasks s p))) \<and>
    (\<forall>q. group_rt_rq s q = None \<and> rt_runnable s q \<longrightarrow> prio (tasks s p) \<le> prio (tasks s q))"
  using pick_next_task_rt_best [OF assms] by blast

theorem rt_pick_highest_witness:
  "\<exists>p t. pick_next_task_rt sample_env sample_rt = Some (Some p, t) \<and> group_rt_rq sample_rt p = None \<and>
    rt_runnable sample_rt p"
proof -
  have r: "root_task_group sample_env = 100" by (simp add: sample_env_def)
  have "rt_nr_running (rt_rqs sample_rt 100) \<noteq> 0" "\<not> rt_rq_throttled (rt_rqs sample_rt 100)"
    by (simp_all add: sample_rtq_def sample_rt_rq_def rt_rq_throttled_def)
  then show ?thesis using rt_pick_highest [OF sample_rt_env sample_rt_ok] unfolding r by blast
qed

text \<open>C8: Enqueueing a task puts it on its queue at its priority, queues exactly those groups above it that are neither
  throttled nor empty (\<open>rt_skip\<close>; a group is empty when what it holds is throttled further down), leaves every other entity as
  it was, and counts the task in \<^verbatim>\<open>nr_running\<close>. The task can be picked exactly when none of the groups above it is throttled.\<close>

theorem rt_enqueue_queues:
  assumes "rt_env K" and "rt_ok s" and "p \<noteq> 0"
    and "group_rt_rq s p = None" and "0 \<le> prio (tasks s p)" and "prio (tasks s p) < MAX_RT_PRIO"
  shows "\<exists>t es. enqueue_task_rt K p flags s = Some t \<and> rt_ok t \<and> rt_chain s (Some p) = Some es \<and>
    p \<in> set (rtq (rt_rqs t (rt_rq_of (rt_ents t p))) (prio (tasks s p))) \<and>
    (\<forall>y. on_rt_rq t y \<longleftrightarrow> (if y \<in> set es then \<not> rt_skip t y else on_rt_rq s y)) \<and>
    nr_running (rq t) = nr_running (rq s) + 1 \<and>
    (rt_runnable t p \<longleftrightarrow> (\<forall>y \<in> set es. \<forall>g. group_rt_rq t y = Some g \<longrightarrow> \<not> rt_rq_throttled (rt_rqs t g)))"
proof -
  obtain t es where t: "enqueue_task_rt K p flags s = Some t" "rt_ok t" "rt_chain s (Some p) = Some es"
    "\<forall>y. on_rt_rq t y \<longleftrightarrow> (if y \<in> set es then \<not> rt_skip t y else on_rt_rq s y)"
    "nr_running (rq t) = nr_running (rq s) + 1" "tasks t = tasks s" "rt_same (t\<lparr>rt_rqs := rt_rqs s\<rparr>) s"
    using enqueue_task_rt_ok [OF assms, of flags] by blast
  have g: "group_rt_rq t p = None" using t(7) assms(4) by (simp add: group_rt_rq_def rt_same_def)
  then have "on_rt_rq t p" using t(4) rt_chain_head [OF t(3)] by (simp add: rt_skip_def)
  from rt_inv_on(1) [OF rt_ok_parts(3) [OF t(2)] this]
  have "p \<in> set (rtq (rt_rqs t (rt_rq_of (rt_ents t p))) (prio (tasks s p)))"
    using g t(6) by (simp add: rt_se_prio_def)
  moreover have "rt_chain t (Some p) = Some es"
    using t(3,7) rt_chain_cong [of t s "Some p"] by (simp add: rt_same_def)
  note rt_runnable_unthrottled [OF t(2) this \<open>on_rt_rq t p\<close>]
  ultimately show ?thesis using t by blast
qed

theorem rt_enqueue_queues_witness:
  "\<exists>t. enqueue_task_rt sample_env 30 0 sample_rt = Some t \<and> rt_ok t \<and> nr_running (rq t) = 4"
proof -
  have "prio (tasks sample_rt 30) < MAX_RT_PRIO" by (simp add: sched_consts)
  with rt_enqueue_queues [OF sample_rt_env sample_rt_ok(1) [of False], of 30 0]
  show ?thesis by auto
qed

text \<open>Dequeueing a task takes it off its queue whatever throttling the time accounting inside the
  operation causes, keeps the invariant and decrements \<^verbatim>\<open>nr_running\<close>; the task is then not runnable.\<close>

lemma rt_dequeue_removes:
  assumes "rt_env K" and "rt_ok s" and "p \<noteq> 0" and "group_rt_rq s p = None"
  shows "\<exists>t. dequeue_task_rt K p flags s = Some t \<and> rt_ok t \<and> \<not> on_rt_rq t p \<and> \<not> rt_runnable t p \<and>
    nr_running (rq t) = nr_running (rq s) - 1"
proof -
  obtain t where t: "dequeue_task_rt K p flags s = Some t" "rt_ok t" "\<not> on_rt_rq t p"
    "nr_running (rq t) = nr_running (rq s) - 1"
    using dequeue_task_rt_ok [OF assms] by blast
  moreover have "\<not> rt_runnable t p"
    using t(3) by (auto simp: rt_runnable_def list_all_iff dest: rt_chain_head split: option.splits)
  ultimately show ?thesis by blast
qed

lemma rt_dequeue_removes_witness:
  "\<exists>t. dequeue_task_rt sample_env 31 0 sample_rt = Some t \<and> \<not> on_rt_rq t 31 \<and> nr_running (rq t) = 2"
  using rt_dequeue_removes [OF sample_rt_env sample_rt_ok(1) [of False], of 31 0] by auto

text \<open>C9: When the tick takes away the last unit of a \<^verbatim>\<open>SCHED_RR\<close> task's slice and another task waits at
  its priority, the task goes to the tail of its queue with a full slice and is asked to
  reschedule.\<close>

theorem rt_rr_tick_rotates:
  assumes "rt_env K" and "rt_ok s" and "group_rt_rq s p = None"
    and "policy (tasks s p) = SCHED_RR" and "rt_time_slice (rt_ents s p) = 1"
    and "update_curr_rt K s = Some s0"
    and "rtq (rt_rqs s0 (rt_rq_of (rt_ents s p))) (prio (tasks s p)) = p # q # qs"
  shows "\<exists>t. task_tick_rt K p s = Some t \<and> need_resched (tasks t p) \<and>
    rt_time_slice (rt_ents t p) = RR_TIMESLICE (HZ K) \<and>
    rtq (rt_rqs t (rt_rq_of (rt_ents s p))) (prio (tasks s p)) = q # qs @ [p]"
proof -
  let ?g = "rt_rq_of (rt_ents s p)" and ?pr = "prio (tasks s p)"
  have s0: "rt_ok s0" "rt_kept s s0" using update_curr_rt_ok [OF assms(1,2)] assms(6) by auto
  define s1 where "s1 = rt_watchdog K p s0"
  define s3 where "s3 = upd_rt p (\<lambda>e. e\<lparr>rt_time_slice := RR_TIMESLICE (HZ K)\<rparr>)
    (upd_rt p (\<lambda>e. e\<lparr>rt_time_slice := rt_time_slice e - 1\<rparr>) s1)"
  have w: "rt_same s1 s0" "policy (tasks s1 p) = SCHED_RR" "rt_time_slice (rt_ents s1 p) = 1"
    using s0(2) assms(4,5) rt_same_watchdog
    by (simp_all add: s1_def rt_watchdog_def Let_def rt_kept_def task_core_def task_params_def)
  have same: "rt_same s3 s0" using w(1) by (simp add: s3_def rt_same_def)
  have ok3: "rt_ok s3" using rt_same_inv(4) [OF same] s0(1) by blast
  have eq: "rt_rq_of (rt_ents s3 p) = ?g" "prio (tasks s3 p) = ?pr" "group_rt_rq s3 p = None"
    "rt_rqs s3 = rt_rqs s0"
    using same s0(2) assms(3) by (simp_all add: rt_same_def rt_kept_def group_rt_rq_def task_core_def task_params_def)
  have q3: "rtq (rt_rqs s3 (rt_rq_of (rt_ents s3 p))) (prio (tasks s3 p)) = p # q # qs"
    using assms(7) by (simp add: eq)
  have "p \<in> set (rtq (rt_rqs s3 ?g) ?pr)" using q3 by (simp add: eq)
  note iq = rt_inv_queued [OF rt_ok_parts(3) [OF ok3] this]
  have na: "rt_not_alone s3 p"
    using q3 iq(4,5) by (auto simp: rt_not_alone_def list_ex_iff eq intro!: bexI [of _ ?pr])
  obtain t where t: "requeue_task_rt K p False s3 = Some t" "rt_kept s3 t"
    using requeue_task_rt_ok [OF assms(1) ok3] by blast
  have tq: "rtq (rt_rqs t ?g) ?pr = q # qs @ [p]"
    using requeue_task_rt_queue [OF assms(1) ok3 eq(3) q3 _ t(1)] by (simp add: eq)
  obtain es where es: "rt_chain s3 (Some p) = Some es"
    using rt_hierD(4) [OF rt_ok_parts(1) [OF ok3]] by blast
  then have "list_ex (rt_not_alone s3) es" using na rt_chain_head [OF es] by (auto simp: list_ex_iff)
  then have "task_tick_rt K p s = Some (upd_task p (\<lambda>t. t\<lparr>need_resched := True\<rparr>) t)"
    using assms(6) w es t(1) by (simp add: task_tick_rt_def s1_def [symmetric] Let_def s3_def)
  moreover have "rt_time_slice (rt_ents t p) = RR_TIMESLICE (HZ K)"
    using t(2) by (simp add: rt_kept_def s3_def)
  ultimately show ?thesis using tq by simp
qed

theorem rt_rr_tick_rotates_witness:
  "\<exists>t. task_tick_rt sample_env 31 (sample_rt\<lparr>sysctl_sched_rt_runtime := -1\<rparr>) = Some t \<and>
    rtq (rt_rqs t 101) 50 = [32, 31]"
proof -
  let ?s = "sample_rt\<lparr>sysctl_sched_rt_runtime := -1\<rparr>"
  have same: "rt_same ?s sample_rt" by (simp add: rt_same_def)
  have ok: "rt_ok ?s" using rt_same_inv(4) [OF same] by simp
  have "update_curr_rt sample_env ?s = Some (rt_accounted sample_env (rt_delta ?s) ?s)"
    by (simp add: update_curr_rt_alt Let_def rt_bandwidth_enabled_def)
      (simp add: sample_rt0_def sample_task_def sample_rq_def)
  moreover have "rtq (rt_rqs ?s 101) 50 = [31, 32]" by (simp add: sample_rtq_def)
  moreover have "group_rt_rq ?s 31 = None" using rt_same_facts(1) [OF same] by simp
  moreover have "policy (tasks ?s 31) = SCHED_RR" "rt_time_slice (rt_ents ?s 31) = 1"
    by (simp_all add: sample_rt0_def sample_task_def SCHED_RR_def)
  ultimately show ?thesis
    using rt_rr_tick_rotates [OF sample_rt_env ok, of 31 _ 32 "[]"] by auto
qed

text \<open>On a queue with tasks of one priority, as many picks and tail requeues as there are tasks
  serve each exactly once, in order, and restore the queue.\<close>

lemma rt_full_round:
  assumes "rt_level K pr r"
  shows "fst (turns (pick_next_rt_entity K) (\<lambda>head e. rt_requeue K e pr head) (length (rtq r pr)) r) = rtq r pr \<and>
    rtq (snd (turns (pick_next_rt_entity K) (\<lambda>head e. rt_requeue K e pr head) (length (rtq r pr)) r)) pr = rtq r pr"
  using rtlev.full_round [OF assms] by blast

lemma rt_full_round_witness:
  "fst (turns (pick_next_rt_entity sample_env) (\<lambda>head e. rt_requeue sample_env e 50 head) 2 (sample_rtq [31, 32] 101)) = [31, 32]"
proof -
  have "rt_level sample_env 50 (sample_rtq [31, 32] 101)"
    using sample_rtq_wf(1) [of "[31, 32]" 101] sample_rt_env
    by (simp add: rt_level_def rt_env_def sched_consts) (simp add: sample_rtq_def)
  from rt_full_round [OF this] show ?thesis by (simp add: sample_rtq_def numeral_2_eq_2)
qed

text \<open>C10: A group that has used more than its run time is throttled: its entity is taken off the queue,
  so that no task below it is runnable, and a throttled root group makes the class pick nothing.\<close>

theorem rt_throttle_stops_group:
  assumes "rt_env K" and "rt_ok s"
    and "rt_tg (rt_rqs s g) = Some tg" and "\<not> rt_throttled (rt_rqs s g)" and "rt_nr_boosted (rt_rqs s g) = 0"
    and "rt_runtime (rt_rqs s g) < rt_period (tg_rt_bandwidth (tgs s tg))" and "rt_runtime (rt_rqs s g) \<noteq> RUNTIME_INF"
    and "bw_rt_runtime (tg_rt_bandwidth (tgs s tg)) \<noteq> 0" and "rt_runtime (rt_rqs s g) < rt_time (rt_rqs s g)"
  shows "\<exists>t. sched_rt_runtime_exceeded K g s = Some (True, t) \<and> rt_ok t \<and> rt_throttled (rt_rqs t g) \<and>
    (\<forall>p y es. group_rt_rq s y = Some g \<and> rt_chain s (Some p) = Some es \<and> y \<in> set es \<longrightarrow> \<not> rt_runnable t p) \<and>
    (g = root_task_group K \<longrightarrow> pick_next_task_rt K t = Some (None, t))"
proof -
  let ?q = "upd_rt_rq g (\<lambda>r. r\<lparr>rt_throttled := True\<rparr>) s"
  have q: "rt_hier ?q" "rt_tgs ?q" "rt_inv ?q" "group_rt_rq ?q = group_rt_rq s" "on_rt_rq ?q = on_rt_rq s"
    "group_rt_rq s y \<noteq> Some g \<Longrightarrow> rt_skip ?q y = rt_skip s y" for y
    using rt_time_upd(1-6) [OF assms(2), of "\<lambda>r. r\<lparr>rt_throttled := True\<rparr>"] by simp_all
  have thr: "rt_rq_throttled (rt_rqs ?q g)" using assms(5) by (simp add: rt_rq_throttled_def)
  have "\<exists>t. sched_rt_rq_dequeue K g ?q = Some t \<and> rt_ok t \<and> rt_frame ?q t \<and> rt_rqs t g = rt_rqs ?q g \<and>
    (\<forall>x. group_rt_rq ?q x = None \<longrightarrow> on_rt_rq t x = on_rt_rq ?q x)"
    by (rule sched_rt_rq_dequeue_ok [OF assms(1) q(1-3) _ thr]) (use rt_ok_full [OF assms(2)] q(4-6) in auto)
  then obtain t where t: "sched_rt_rq_dequeue K g ?q = Some t" "rt_ok t" "rt_frame ?q t" "rt_rqs t g = rt_rqs ?q g"
    by blast
  have ents: "rt_ents t = rt_ents s" using t(3) by (simp add: rt_frame_def)
  have gr: "group_rt_rq t = group_rt_rq s" by (rule group_rt_rq_cong) (rule ents)
  have off: "\<not> on_rt_rq t y" if "group_rt_rq s y = Some g" for y
    using rt_ok_full [OF t(2), of y] that thr by (simp add: gr rt_skip_def t(4))
  have "\<not> rt_runnable t p" if "group_rt_rq s y = Some g" "rt_chain s (Some p) = Some es" "y \<in> set es" for p y es
    using that off rt_chain_cong [of s t "Some p"] ents by (auto simp: rt_runnable_def list_all_iff)
  moreover have "sched_rt_runtime_exceeded K g s = Some (True, t)"
    using assms(3-9) thr t(1) by (simp add: sched_rt_runtime_exceeded_def Let_def sched_rt_runtime_def not_le)
  moreover have "g = root_task_group K \<Longrightarrow> pick_next_task_rt K t = Some (None, t)"
    using thr t(4) by (simp add: pick_next_task_rt_def Let_def)
  ultimately show ?thesis using t(2,4) by fastforce
qed

theorem rt_throttle_stops_group_witness:
  "\<exists>t. sched_rt_runtime_exceeded sample_env 101 (upd_rt_rq 101 (\<lambda>r. r\<lparr>rt_time := 960000000\<rparr>) sample_rt) = Some (True, t) \<and>
    \<not> rt_runnable t 31"
proof -
  let ?s = "upd_rt_rq 101 (\<lambda>r. r\<lparr>rt_time := 960000000\<rparr>) sample_rt"
  have ok: "rt_ok ?s" by (rule rt_time_upd(7)) (simp_all add: rt_rq_throttled_def)
  have g: "group_rt_rq ?s = group_rt_rq sample_rt" by (rule group_rt_rq_cong) simp
  have c: "rt_chain ?s (Some 31) = Some [31, 201]"
    using rt_chain_cong [of ?s sample_rt "Some 31"] by (simp add: sample_rt_chain)
  have tg: "tgs ?s tg = \<lparr>tg_rt_bandwidth = \<lparr>rt_period = 1000000000, bw_rt_runtime = 950000000\<rparr>,
        tg_rt_se = (if tg = 101 then Some 201 else None), tg_parent = None, tg_children = []\<rparr>" for tg by (simp add: sample_rt0_def)
  show ?thesis
    using rt_throttle_stops_group [OF sample_rt_env ok, of 101 101] c tg g
    by (auto simp: sample_rtq_def sample_rt_rq_def RUNTIME_INF_def)
qed

text \<open>C11: When the period timer brings a throttled group with queued tasks below its run time, the group
  is unthrottled and its entity is back on the queue.\<close>

theorem rt_unthrottle_requeues_group:
  assumes "rt_env K" and "rt_ok s" and "rt_throttled (rt_rqs s tg)" and "rt_time (rt_rqs s tg) \<noteq> 0"
    and "rt_nr_running (rt_rqs s tg) \<noteq> 0"
    and "rt_time (rt_rqs s tg) - min (rt_time (rt_rqs s tg)) (of_int overrun * rt_runtime (rt_rqs s tg))
      < rt_runtime (rt_rqs s tg)"
  shows "\<exists>b t. do_sched_rt_period_timer K tg overrun s = Some (b, t) \<and> rt_ok t \<and>
    \<not> rt_throttled (rt_rqs t tg) \<and> rt_time (rt_rqs t tg) < rt_runtime (rt_rqs t tg) \<and>
    (\<forall>y. group_rt_rq s y = Some tg \<longrightarrow> on_rt_rq t y)"
proof -
  let ?r = "rt_rqs s tg"
  let ?d = "rt_time ?r - min (rt_time ?r) (of_int overrun * rt_runtime ?r)"
  obtain b t where t: "do_sched_rt_period_timer K tg overrun s = Some (b, t)" "rt_ok t" "rt_kept s t"
    "rt_rqs t tg = ?r\<lparr>rt_time := ?d, rt_throttled := rt_throttled ?r \<and> (rt_time ?r = 0 \<or> \<not> ?d < rt_runtime ?r)\<rparr>"
    using do_sched_rt_period_timer_ok [OF assms(1,2), of tg overrun] by blast
  have "on_rt_rq t y" if "group_rt_rq s y = Some tg" for y
  proof -
    have "group_rt_rq t y = Some tg" using that t(3) by (simp add: group_rt_rq_def rt_kept_def)
    then show ?thesis
      using rt_ok_full [OF t(2), of y] assms(4-6) by (simp add: rt_skip_def t(4) rt_rq_throttled_def)
  qed
  then show ?thesis using t assms(4,6) by auto
qed

theorem rt_unthrottle_requeues_group_witness:
  "\<exists>b t. do_sched_rt_period_timer sample_env 101 1 (sample_rt0 True) = Some (b, t) \<and> on_rt_rq t 201"
  using rt_unthrottle_requeues_group [OF sample_rt_env sample_rt_ok(1) [of True], of 101 1]
  by (auto simp: sample_rtq_def sample_rt_rq_def min_def)

end
