(* ===== verification/Core.thy ===== *)
theory Core
  imports Rt_Props
begin

text \<open>
  The part of \<^verbatim>\<open>basic/kernel/sched/core.c\<close> that drives the classes: the run queue clock, load weights and
  priorities, enqueueing through the class of a task, wakeups, fork, the tick and \<^verbatim>\<open>__schedule\<close>.
  A call through a \<^verbatim>\<open>struct sched_class\<close> pointer is a case distinction on the class: the real-time and
  the weighted round-robin operations are the ones of \<open>Rt\<close> and \<open>Wrr\<close>, those of the other classes come from
  the environment. Tracing, lockdep and memory management calls are left out, and so is everything
  that is compiled only under \<^verbatim>\<open>CONFIG_SMP\<close>.
\<close>

section \<open>Calls through the class of a task\<close>

definition class_next :: "kenv \<Rightarrow> sched_class \<Rightarrow> sched_class option" where
  "class_next K c = (case c of
      rt_sched_class \<Rightarrow> Some wrr_sched_class
    | wrr_sched_class \<Rightarrow> Some fair_sched_class
    | _ \<Rightarrow> ec_next (ext_class_of K c))"

definition class_enqueue_task :: "kenv \<Rightarrow> sched_class \<Rightarrow> ptr \<Rightarrow> int \<Rightarrow> kstate \<Rightarrow> kstate option" where
  "class_enqueue_task K c p flags s = (case c of
      rt_sched_class \<Rightarrow> enqueue_task_rt K p flags s
    | wrr_sched_class \<Rightarrow> Some (enqueue_task_wrr K p flags s)
    | _ \<Rightarrow> Some (ec_enqueue_task (ext_class_of K c) p flags s))"

definition class_dequeue_task :: "kenv \<Rightarrow> sched_class \<Rightarrow> ptr \<Rightarrow> int \<Rightarrow> kstate \<Rightarrow> kstate option" where
  "class_dequeue_task K c p flags s = (case c of
      rt_sched_class \<Rightarrow> dequeue_task_rt K p flags s
    | wrr_sched_class \<Rightarrow> Some (dequeue_task_wrr K p flags s)
    | _ \<Rightarrow> Some (ec_dequeue_task (ext_class_of K c) p flags s))"

definition class_yield_task :: "kenv \<Rightarrow> sched_class \<Rightarrow> kstate \<Rightarrow> kstate option" where
  "class_yield_task K c s = (case c of
      rt_sched_class \<Rightarrow> yield_task_rt K s
    | wrr_sched_class \<Rightarrow> Some (yield_task_wrr K s)
    | _ \<Rightarrow> Some (ec_yield_task (ext_class_of K c) s))"

definition class_check_preempt_curr :: "kenv \<Rightarrow> sched_class \<Rightarrow> ptr \<Rightarrow> int \<Rightarrow> kstate \<Rightarrow> kstate" where
  "class_check_preempt_curr K c p flags s = (case c of
      rt_sched_class \<Rightarrow> check_preempt_curr_rt p flags s
    | wrr_sched_class \<Rightarrow> check_preempt_curr_wrr p flags s
    | _ \<Rightarrow> ec_check_preempt_curr (ext_class_of K c) p flags s)"

definition class_pick_next_task :: "kenv \<Rightarrow> sched_class \<Rightarrow> kstate \<Rightarrow> (ptr option \<times> kstate) option" where
  "class_pick_next_task K c s = (case c of
      rt_sched_class \<Rightarrow> pick_next_task_rt K s
    | wrr_sched_class \<Rightarrow> pick_next_task_wrr s
    | _ \<Rightarrow> Some (ec_pick_next_task (ext_class_of K c) s))"

definition class_put_prev_task :: "kenv \<Rightarrow> sched_class \<Rightarrow> ptr \<Rightarrow> kstate \<Rightarrow> kstate option" where
  "class_put_prev_task K c p s = (case c of
      rt_sched_class \<Rightarrow> put_prev_task_rt K p s
    | wrr_sched_class \<Rightarrow> Some (put_prev_task_wrr K p s)
    | _ \<Rightarrow> Some (ec_put_prev_task (ext_class_of K c) p s))"

definition class_set_curr_task :: "kenv \<Rightarrow> sched_class \<Rightarrow> kstate \<Rightarrow> kstate" where
  "class_set_curr_task K c s = (case c of
      rt_sched_class \<Rightarrow> set_curr_task_rt s
    | wrr_sched_class \<Rightarrow> set_curr_task_wrr s
    | _ \<Rightarrow> ec_set_curr_task (ext_class_of K c) s)"

definition class_task_tick :: "kenv \<Rightarrow> sched_class \<Rightarrow> ptr \<Rightarrow> kstate \<Rightarrow> kstate option" where
  "class_task_tick K c p s = (case c of
      rt_sched_class \<Rightarrow> task_tick_rt K p s
    | wrr_sched_class \<Rightarrow> Some (task_tick_wrr K p s)
    | _ \<Rightarrow> Some (ec_task_tick (ext_class_of K c) p s))"

text \<open>The real-time class has no \<^verbatim>\<open>task_fork\<close> and, on one CPU, no \<^verbatim>\<open>switched_from\<close>.\<close>

definition class_task_fork :: "kenv \<Rightarrow> sched_class \<Rightarrow> ptr \<Rightarrow> kstate \<Rightarrow> kstate option" where
  "class_task_fork K c p s = (case c of
      rt_sched_class \<Rightarrow> Some s
    | wrr_sched_class \<Rightarrow> task_fork_wrr p s
    | _ \<Rightarrow> Some (ec_task_fork (ext_class_of K c) p s))"

definition class_switched_from :: "kenv \<Rightarrow> sched_class \<Rightarrow> ptr \<Rightarrow> kstate \<Rightarrow> kstate" where
  "class_switched_from K c p s = (case c of
      rt_sched_class \<Rightarrow> s
    | wrr_sched_class \<Rightarrow> switched_from_wrr p s
    | _ \<Rightarrow> ec_switched_from (ext_class_of K c) p s)"

definition class_switched_to :: "kenv \<Rightarrow> sched_class \<Rightarrow> ptr \<Rightarrow> kstate \<Rightarrow> kstate" where
  "class_switched_to K c p s = (case c of
      rt_sched_class \<Rightarrow> switched_to_rt p s
    | wrr_sched_class \<Rightarrow> switched_to_wrr p s
    | _ \<Rightarrow> ec_switched_to (ext_class_of K c) p s)"

definition class_prio_changed :: "kenv \<Rightarrow> sched_class \<Rightarrow> ptr \<Rightarrow> int \<Rightarrow> kstate \<Rightarrow> kstate" where
  "class_prio_changed K c p oldprio s = (case c of
      rt_sched_class \<Rightarrow> prio_changed_rt p oldprio s
    | wrr_sched_class \<Rightarrow> prio_changed_wrr p oldprio s
    | _ \<Rightarrow> ec_prio_changed (ext_class_of K c) p oldprio s)"

definition class_get_rr_interval :: "kenv \<Rightarrow> sched_class \<Rightarrow> ptr \<Rightarrow> kstate \<Rightarrow> uint32" where
  "class_get_rr_interval K c p s = (case c of
      rt_sched_class \<Rightarrow> get_rr_interval_rt K p s
    | wrr_sched_class \<Rightarrow> get_rr_interval_wrr K p s
    | _ \<Rightarrow> ec_get_rr_interval (ext_class_of K c) p s)"

abbreviation class_of :: "kstate \<Rightarrow> ptr \<Rightarrow> sched_class" where
  "class_of s p \<equiv> sched_class (tasks s p)"

section \<open>Clock, weights and priorities\<close>

definition update_rq_clock_task :: "u64 \<Rightarrow> kstate \<Rightarrow> kstate" where
  "update_rq_clock_task delta s = s\<lparr>rq := (rq s)\<lparr>clock_task := clock_task (rq s) + delta\<rparr>\<rparr>"

definition update_rq_clock :: "kenv \<Rightarrow> kstate \<Rightarrow> kstate" where
  "update_rq_clock K s =
     (if skip_clock_update (rq s) > 0 then s
      else
        let delta = sched_clock_cpu K s - clock (rq s);
            s1 = s\<lparr>rq := (rq s)\<lparr>clock := clock (rq s) + delta\<rparr>\<rparr>
        in update_rq_clock_task delta s1)"

definition WEIGHT_IDLEPRIO :: ulong where "WEIGHT_IDLEPRIO = 3"
definition WMULT_IDLEPRIO :: ulong where "WMULT_IDLEPRIO = 1431655765"

definition prio_to_weight :: "ulong list" where
  "prio_to_weight = [
     88761, 71755, 56483, 46273, 36291,
     29154, 23254, 18705, 14949, 11916,
     9548, 7620, 6100, 4904, 3906,
     3121, 2501, 1991, 1586, 1277,
     1024, 820, 655, 526, 423,
     335, 272, 215, 172, 137,
     110, 87, 70, 56, 45,
     36, 29, 23, 18, 15]"

definition prio_to_wmult :: "ulong list" where
  "prio_to_wmult = [
     48388, 59856, 76040, 92818, 118348,
     147320, 184698, 229616, 287308, 360437,
     449829, 563644, 704093, 875809, 1099582,
     1376151, 1717300, 2157191, 2708050, 3363326,
     4194304, 5237765, 6557202, 8165337, 10153587,
     12820798, 15790321, 19976592, 24970740, 31350126,
     39045157, 49367440, 61356676, 76695844, 95443717,
     119304647, 148102320, 186737708, 238609294, 286331153]"

text \<open>\<^verbatim>\<open>scale_load\<close> is the identity on 32 bits. \<open>None\<close>: the index is outside the tables.\<close>

definition set_load_weight :: "ptr \<Rightarrow> kstate \<Rightarrow> kstate option" where
  "set_load_weight p s =
     (let pr = static_prio (tasks s p) - MAX_RT_PRIO in
      if policy (tasks s p) = SCHED_IDLE
      then Some (upd_se p (\<lambda>e. e\<lparr>se_load := \<lparr>weight = WEIGHT_IDLEPRIO, inv_weight = WMULT_IDLEPRIO\<rparr>\<rparr>) s)
      else if 0 \<le> pr \<and> pr < 40
      then Some (upd_se p (\<lambda>e. e\<lparr>se_load := \<lparr>weight = prio_to_weight ! nat pr,
                                              inv_weight = prio_to_wmult ! nat pr\<rparr>\<rparr>) s)
      else None)"

definition normal_prio1 :: "task_struct \<Rightarrow> int" where
  "normal_prio1 t = static_prio t"

definition normal_prio :: "task_struct \<Rightarrow> int" where
  "normal_prio t =
     (if task_has_rt_policy t then MAX_RT_PRIO - 1 - uint (rt_priority t) else normal_prio1 t)"

text \<open>\<^verbatim>\<open>effective_prio\<close> stores the normal priority and returns the effective one.\<close>

definition effective_prio :: "ptr \<Rightarrow> kstate \<Rightarrow> int \<times> kstate" where
  "effective_prio p s =
     (let s1 = upd_task p (\<lambda>t. t\<lparr>normal_prio_of := normal_prio t\<rparr>) s in
      if \<not> rt_prio (prio (tasks s1 p)) then (normal_prio_of (tasks s1 p), s1)
      else (prio (tasks s1 p), s1))"

definition task_curr :: "ptr \<Rightarrow> kstate \<Rightarrow> bool" where
  "task_curr p s = (curr (rq s) = p)"

section \<open>Enqueueing and preemption\<close>

definition enqueue_task :: "kenv \<Rightarrow> ptr \<Rightarrow> int \<Rightarrow> kstate \<Rightarrow> kstate option" where
  "enqueue_task K p flags s =
     (let s1 = emit (SchedInfoQueued p) (update_rq_clock K s)
      in class_enqueue_task K (class_of s1 p) p flags s1)"

definition dequeue_task :: "kenv \<Rightarrow> ptr \<Rightarrow> int \<Rightarrow> kstate \<Rightarrow> kstate option" where
  "dequeue_task K p flags s =
     (let s1 = emit (SchedInfoDequeued p) (update_rq_clock K s)
      in class_dequeue_task K (class_of s1 p) p flags s1)"

definition activate_task :: "kenv \<Rightarrow> ptr \<Rightarrow> int \<Rightarrow> kstate \<Rightarrow> kstate option" where
  "activate_task K p flags s =
     enqueue_task K p flags
       (if task_contributes_to_load (tasks s p)
        then s\<lparr>rq := (rq s)\<lparr>nr_uninterruptible := nr_uninterruptible (rq s) - 1\<rparr>\<rparr> else s)"

definition deactivate_task :: "kenv \<Rightarrow> ptr \<Rightarrow> int \<Rightarrow> kstate \<Rightarrow> kstate option" where
  "deactivate_task K p flags s =
     dequeue_task K p flags
       (if task_contributes_to_load (tasks s p)
        then s\<lparr>rq := (rq s)\<lparr>nr_uninterruptible := nr_uninterruptible (rq s) + 1\<rparr>\<rparr> else s)"

definition check_class_changed :: "kenv \<Rightarrow> ptr \<Rightarrow> sched_class \<Rightarrow> int \<Rightarrow> kstate \<Rightarrow> kstate" where
  "check_class_changed K p prev_class oldprio s =
     (if prev_class \<noteq> class_of s p
      then let s1 = class_switched_from K prev_class p s
           in class_switched_to K (class_of s1 p) p s1
      else if oldprio \<noteq> prio (tasks s p) then class_prio_changed K (class_of s p) p oldprio s
      else s)"

text \<open>The \<^verbatim>\<open>for_each_class\<close> loop of \<^verbatim>\<open>check_preempt_curr\<close>: is the class of the task met before that of the current one?\<close>

partial_function (option) preempt_loop :: "kenv \<Rightarrow> sched_class \<Rightarrow> sched_class \<Rightarrow> sched_class \<Rightarrow> bool option" where
  "preempt_loop K cc pc c =
     (if c = cc then Some False
      else if c = pc then Some True
      else (case class_next K c of
              None \<Rightarrow> Some False
            | Some d \<Rightarrow> preempt_loop K cc pc d))"

definition check_preempt_curr :: "kenv \<Rightarrow> ptr \<Rightarrow> int \<Rightarrow> kstate \<Rightarrow> kstate option" where
  "check_preempt_curr K p flags s =
     do { let c = curr (rq s);
          s1 \<leftarrow> (if class_of s p = class_of s c
                 then Some (class_check_preempt_curr K (class_of s c) p flags s)
                 else do { b \<leftarrow> preempt_loop K (class_of s c) (class_of s p) stop_sched_class;
                           Some (if b then resched_task c s else s) });
          let c1 = curr (rq s1);
          Some (if on_rq (tasks s1 c1) \<and> need_resched (tasks s1 c1)
                then s1\<lparr>rq := (rq s1)\<lparr>skip_clock_update := 1\<rparr>\<rparr> else s1) }"

section \<open>Wakeups\<close>

definition ttwu_stat :: "ptr \<Rightarrow> int \<Rightarrow> kstate \<Rightarrow> kstate" where
  "ttwu_stat p wake_flags s =
     (let s1 = s\<lparr>rq := (rq s)\<lparr>ttwu_count := ttwu_count (rq s) + 1\<rparr>\<rparr>;
          s2 = upd_se p (\<lambda>e. e\<lparr>nr_wakeups := nr_wakeups e + 1\<rparr>) s1
      in if wake_flags AND WF_SYNC \<noteq> 0
         then upd_se p (\<lambda>e. e\<lparr>nr_wakeups_sync := nr_wakeups_sync e + 1\<rparr>) s2 else s2)"

definition ttwu_activate :: "kenv \<Rightarrow> ptr \<Rightarrow> int \<Rightarrow> kstate \<Rightarrow> kstate option" where
  "ttwu_activate K p en_flags s =
     do { s1 \<leftarrow> activate_task K p en_flags s;
          let s2 = upd_task p (\<lambda>t. t\<lparr>on_rq := True\<rparr>) s1;
          Some (if tflags (tasks s2 p) AND PF_WQ_WORKER \<noteq> 0 then emit (WqWorkerWakingUp p) s2 else s2) }"

definition ttwu_do_wakeup :: "kenv \<Rightarrow> ptr \<Rightarrow> int \<Rightarrow> kstate \<Rightarrow> kstate option" where
  "ttwu_do_wakeup K p wake_flags s =
     do { s1 \<leftarrow> check_preempt_curr K p wake_flags s;
          Some (upd_task p (\<lambda>t. t\<lparr>tstate := TASK_RUNNING\<rparr>) s1) }"

definition ttwu_do_activate :: "kenv \<Rightarrow> ptr \<Rightarrow> int \<Rightarrow> kstate \<Rightarrow> kstate option" where
  "ttwu_do_activate K p wake_flags s =
     do { s1 \<leftarrow> ttwu_activate K p (ENQUEUE_WAKEUP OR ENQUEUE_WAKING) s;
          ttwu_do_wakeup K p wake_flags s1 }"

definition ttwu_remote :: "kenv \<Rightarrow> ptr \<Rightarrow> int \<Rightarrow> kstate \<Rightarrow> (bool \<times> kstate) option" where
  "ttwu_remote K p wake_flags s =
     (if on_rq (tasks s p) then do { s1 \<leftarrow> ttwu_do_wakeup K p wake_flags s; Some (True, s1) }
      else Some (False, s))"

definition ttwu_queue :: "kenv \<Rightarrow> ptr \<Rightarrow> kstate \<Rightarrow> kstate option" where
  "ttwu_queue K p s = ttwu_do_activate K p 0 s"

definition try_to_wake_up :: "kenv \<Rightarrow> ptr \<Rightarrow> int \<Rightarrow> int \<Rightarrow> kstate \<Rightarrow> (bool \<times> kstate) option" where
  "try_to_wake_up K p state wake_flags s =
     (if tstate (tasks s p) AND state = 0 then Some (False, s)
      else do {
        (remote, s1) \<leftarrow> (if on_rq (tasks s p) then ttwu_remote K p wake_flags s else Some (False, s));
        s2 \<leftarrow> (if remote then Some s1 else ttwu_queue K p s1);
        Some (True, ttwu_stat p wake_flags s2) })"

definition try_to_wake_up_local :: "kenv \<Rightarrow> ptr \<Rightarrow> kstate \<Rightarrow> kstate option" where
  "try_to_wake_up_local K p s =
     (if p = curr (rq s) then Some s
      else if tstate (tasks s p) AND TASK_NORMAL = 0 then Some s
      else do {
        s1 \<leftarrow> (if \<not> on_rq (tasks s p) then ttwu_activate K p ENQUEUE_WAKEUP s else Some s);
        s2 \<leftarrow> ttwu_do_wakeup K p 0 s1;
        Some (ttwu_stat p 0 s2) })"

definition wake_up_process :: "kenv \<Rightarrow> ptr \<Rightarrow> kstate \<Rightarrow> (bool \<times> kstate) option" where
  "wake_up_process K p s = try_to_wake_up K p TASK_NORMAL 0 s"

definition wake_up_state :: "kenv \<Rightarrow> ptr \<Rightarrow> int \<Rightarrow> kstate \<Rightarrow> (bool \<times> kstate) option" where
  "wake_up_state K p state s = try_to_wake_up K p state 0 s"

section \<open>Fork\<close>

text \<open>
  The statistics of the entity are cleared with it. \<^verbatim>\<open>INIT_LIST_HEAD\<close> resets links of the child's own
  copy, which is on no queue. The call of \<^verbatim>\<open>set_task_cpu\<close> at the end of \<^verbatim>\<open>sched_fork\<close> is an empty inline function
  on one CPU (\<^verbatim>\<open>linux/sched.h\<close>): the child keeps the links to its parent's group that it copied.
\<close>

definition sched_fork1 :: "ptr \<Rightarrow> kstate \<Rightarrow> kstate" where
  "sched_fork1 p =
     upd_task p (\<lambda>t. t\<lparr>on_rq := False, se := (se t)\<lparr>se_on_rq := 0, exec_start := 0, sum_exec_runtime := 0,
        prev_sum_exec_runtime := 0, nr_migrations := 0, vruntime := 0,
        wait_start := 0, sleep_start := 0, block_start := 0, exec_max := 0, nr_wakeups := 0, nr_wakeups_sync := 0\<rparr>\<rparr>)"

definition sched_fork :: "kenv \<Rightarrow> ptr \<Rightarrow> kstate \<Rightarrow> kstate option" where
  "sched_fork K p s =
     do { let s1 = sched_fork1 p s;
          let s2 = upd_task p (\<lambda>t. t\<lparr>tstate := TASK_RUNNING\<rparr>) s1;
          let s3 = upd_task p (\<lambda>t. t\<lparr>prio := normal_prio_of (tasks s2 (curr (rq s2)))\<rparr>) s2;
          s4 \<leftarrow> (if sched_reset_on_fork (tasks s3 p) then
                   do { let s31 = upd_task p (\<lambda>t.
                          if task_has_rt_policy t
                          then t\<lparr>policy := SCHED_NORMAL, static_prio := NICE_TO_PRIO 0, rt_priority := 0\<rparr>
                          else if PRIO_TO_NICE (static_prio t) < 0 then t\<lparr>static_prio := NICE_TO_PRIO 0\<rparr>
                          else t) s3;
                        let s32 = upd_task p (\<lambda>t. t\<lparr>normal_prio_of := normal_prio1 t, prio := normal_prio1 t\<rparr>) s31;
                        s33 \<leftarrow> set_load_weight p s32;
                        Some (upd_task p (\<lambda>t. t\<lparr>sched_reset_on_fork := False\<rparr>) s33) }
                 else Some s3);
          let s5 = (if \<not> rt_prio (prio (tasks s4 p))
                    then upd_task p (\<lambda>t. t\<lparr>sched_class := fair_sched_class\<rparr>) s4 else s4);
          class_task_fork K (class_of s5 p) p s5 }"

definition wake_up_new_task :: "kenv \<Rightarrow> ptr \<Rightarrow> kstate \<Rightarrow> kstate option" where
  "wake_up_new_task K p s =
     do { s1 \<leftarrow> activate_task K p 0 s;
          check_preempt_curr K p WF_FORK (upd_task p (\<lambda>t. t\<lparr>on_rq := True\<rparr>) s1) }"

text \<open>
  \<^verbatim>\<open>set_task_rq\<close> of \<^verbatim>\<open>sched.h\<close> links a task to the queue of its group; \<^verbatim>\<open>sched_move_task\<close> and \<^verbatim>\<open>init_idle\<close> call it.
\<close>

definition set_task_rq :: "ptr \<Rightarrow> kstate \<Rightarrow> kstate" where
  "set_task_rq p s =
     (let tg = sched_task_group (tasks s p)
      in upd_rt p (\<lambda>e. e\<lparr>rt_rq_of := tg, rt_parent := tg_rt_se (tgs s tg)\<rparr>) s)"

section \<open>The tick and the main scheduler function\<close>

definition scheduler_tick :: "kenv \<Rightarrow> kstate \<Rightarrow> kstate option" where
  "scheduler_tick K s =
     (let c = curr (rq s);
          s1 = emit UpdateCpuLoadActive (update_rq_clock K s)
      in class_task_tick K (class_of s1 c) c s1)"

definition schedule_debug :: "kstate \<Rightarrow> kstate" where
  "schedule_debug s = s\<lparr>rq := (rq s)\<lparr>sched_count := sched_count (rq s) + 1\<rparr>\<rparr>"

definition put_prev_task :: "kenv \<Rightarrow> ptr \<Rightarrow> kstate \<Rightarrow> kstate option" where
  "put_prev_task K prev s =
     (let s1 = (if on_rq (tasks s prev) \<or> skip_clock_update (rq s) < 0 then update_rq_clock K s else s)
      in class_put_prev_task K (class_of s1 prev) prev s1)"

text \<open>The \<^verbatim>\<open>for_each_class\<close> loop of \<^verbatim>\<open>pick_next_task\<close>; running out of classes is \<^verbatim>\<open>BUG()\<close>.\<close>

partial_function (option) pick_class_loop :: "kenv \<Rightarrow> sched_class \<Rightarrow> kstate \<Rightarrow> (ptr \<times> kstate) option" where
  "pick_class_loop K c s =
     Option.bind (class_pick_next_task K c s)
       (\<lambda>r. case fst r of
               Some p \<Rightarrow> Some (p, snd r)
             | None \<Rightarrow> (case class_next K c of
                 None \<Rightarrow> None
               | Some d \<Rightarrow> pick_class_loop K d (snd r)))"

definition pick_next_task :: "kenv \<Rightarrow> kstate \<Rightarrow> (ptr \<times> kstate) option" where
  "pick_next_task K s =
     (if nr_running (rq s) = cfs_h_nr_running (rq s) then
        (case ec_pick_next_task (ext_class_of K fair_sched_class) s of
           (Some p, s1) \<Rightarrow> Some (p, s1)
         | (None, s1) \<Rightarrow> pick_class_loop K stop_sched_class s1)
      else pick_class_loop K stop_sched_class s)"

text \<open>
  One pass of \<^verbatim>\<open>__schedule\<close> from the label \<^verbatim>\<open>need_resched\<close>, in three parts: the previous task goes to sleep or
  stays (the flag says whether the switch is voluntary), the next task is picked, and the switch. A
  context switch is an event; what follows it in the source runs in the next task, whose flag decides
  about another pass.
\<close>

definition sched_out :: "kenv \<Rightarrow> ptr \<Rightarrow> kstate \<Rightarrow> (bool \<times> kstate) option" where
  "sched_out K prev s1 =
     (if tstate (tasks s1 prev) \<noteq> 0 \<and> \<not> preempt_active K s1 then
        do { s2 \<leftarrow> (if signal_pending_state K (tstate (tasks s1 prev)) prev s1
                    then Some (upd_task prev (\<lambda>t. t\<lparr>tstate := TASK_RUNNING\<rparr>) s1)
                    else do {
                      s11 \<leftarrow> deactivate_task K prev DEQUEUE_SLEEP s1;
                      let s12 = upd_task prev (\<lambda>t. t\<lparr>on_rq := False\<rparr>) s11;
                      if tflags (tasks s12 prev) AND PF_WQ_WORKER \<noteq> 0
                      then (case wq_worker_sleeping K prev s12 of
                              Some w \<Rightarrow> try_to_wake_up_local K w s12
                            | None \<Rightarrow> Some s12)
                      else Some s12 });
             Some (True, s2) }
      else Some (False, s1))"

definition switch_to :: "ptr \<Rightarrow> bool \<Rightarrow> ptr \<Rightarrow> kstate \<Rightarrow> kstate" where
  "switch_to prev vol next s4 =
     (let s5 = upd_task prev (\<lambda>t. t\<lparr>need_resched := False\<rparr>) s4;
          s6 = s5\<lparr>rq := (rq s5)\<lparr>skip_clock_update := 0\<rparr>\<rparr> in
      if prev \<noteq> next then
        let s7 = s6\<lparr>rq := (rq s6)\<lparr>nr_switches := nr_switches (rq s6) + 1, curr := next\<rparr>\<rparr>;
            s8 = (if vol then upd_task prev (\<lambda>t. t\<lparr>nvcsw := nvcsw t + 1\<rparr>) s7
                  else upd_task prev (\<lambda>t. t\<lparr>nivcsw := nivcsw t + 1\<rparr>) s7)
        in emit (ContextSwitch prev next) s8
      else s6)"

definition schedule_pass :: "kenv \<Rightarrow> kstate \<Rightarrow> kstate option" where
  "schedule_pass K s =
     do { let prev = curr (rq s);
          (vol, s2) \<leftarrow> sched_out K prev (schedule_debug s);
          s3 \<leftarrow> put_prev_task K prev s2;
          (next, s4) \<leftarrow> pick_next_task K s3;
          Some (switch_to prev vol next s4) }"

text \<open>
  \<^verbatim>\<open>PREEMPT_ACTIVE\<close> is a bit of the preemption counter of a task. The callers of \<^verbatim>\<open>__schedule\<close> that set it run it in the
  environment where the bit is set for the calling task \<open>p\<close>, and for no other.
\<close>

definition with_preempt_active :: "kenv \<Rightarrow> ptr \<Rightarrow> kenv" where
  "with_preempt_active K p = K\<lparr>preempt_active := \<lambda>t. curr (rq t) = p \<or> preempt_active K t\<rparr>"

partial_function (option) schedule_loop :: "kenv \<Rightarrow> kstate \<Rightarrow> kstate option" where
  "schedule_loop K s =
     Option.bind (schedule_pass K s)
       (\<lambda>s1. if need_resched (tasks s1 (curr (rq s1))) then schedule_loop K s1 else Some s1)"

end
