(* ===== verification/Core_Inv.thy ===== *)
theory Core_Inv
  imports Core
begin

text \<open>
  The invariant of the whole scheduler: the queues of the real-time and the weighted round-robin class
  hold exactly the tasks of these classes that are marked runnable. The locale \<open>class_queue\<close> is what the core
  relies on when it enqueues and dequeues through a class; both classes are interpretations of it. The
  classes outside the repository are assumed to leave the two queues alone (\<open>ext_ok\<close>).
\<close>

section \<open>What the core needs of a class\<close>

locale class_queue =
  fixes enq deq :: "ptr \<Rightarrow> int \<Rightarrow> kstate \<Rightarrow> kstate option"
    and queued :: "kstate \<Rightarrow> ptr \<Rightarrow> bool"
    and valid :: "kstate \<Rightarrow> ptr \<Rightarrow> bool"
    and invar :: "kstate \<Rightarrow> bool"
  assumes enq_ok: "invar s \<Longrightarrow> valid s p \<Longrightarrow> \<not> queued s p \<Longrightarrow>
      \<exists>t. enq p f s = Some t \<and> invar t \<and> (\<forall>q. queued t q \<longleftrightarrow> queued s q \<or> q = p) \<and>
        (\<forall>q. valid t q = valid s q) \<and> nr_running (rq t) = nr_running (rq s) + 1"
    and deq_ok: "invar s \<Longrightarrow> valid s p \<Longrightarrow> queued s p \<Longrightarrow>
      \<exists>t. deq p f s = Some t \<and> invar t \<and> (\<forall>q. queued t q \<longleftrightarrow> queued s q \<and> q \<noteq> p) \<and>
        (\<forall>q. valid t q = valid s q) \<and> nr_running (rq t) = nr_running (rq s) - 1"
begin

lemma enq_deq:
  assumes "invar s" and "valid s p" and "\<not> queued s p"
  shows "\<exists>t u. enq p f s = Some t \<and> deq p g t = Some u \<and> invar u \<and> queued u = queued s \<and>
    nr_running (rq u) = nr_running (rq s)"
proof -
  obtain t where t: "enq p f s = Some t" "invar t" "\<forall>q. queued t q \<longleftrightarrow> queued s q \<or> q = p"
    "valid t p" "nr_running (rq t) = nr_running (rq s) + 1"
    using enq_ok [OF assms] assms(2) by blast
  moreover obtain u where "deq p g t = Some u" "invar u" "\<forall>q. queued u q \<longleftrightarrow> queued t q \<and> q \<noteq> p"
    "nr_running (rq u) = nr_running (rq t) - 1"
    using deq_ok [OF t(2) t(4)] t(3) by blast
  moreover have "queued u = queued s" using calculation assms(3) by (auto simp: fun_eq_iff)
  ultimately show ?thesis by auto
qed

lemma deq_enq:
  assumes "invar s" and "valid s p" and "queued s p"
  shows "\<exists>t u. deq p f s = Some t \<and> enq p g t = Some u \<and> invar u \<and> queued u = queued s \<and>
    nr_running (rq u) = nr_running (rq s)"
proof -
  obtain t where t: "deq p f s = Some t" "invar t" "\<forall>q. queued t q \<longleftrightarrow> queued s q \<and> q \<noteq> p"
    "valid t p" "nr_running (rq t) = nr_running (rq s) - 1"
    using deq_ok [OF assms] assms(2) by blast
  moreover obtain u where "enq p g t = Some u" "invar u" "\<forall>q. queued u q \<longleftrightarrow> queued t q \<or> q = p"
    "nr_running (rq u) = nr_running (rq t) + 1"
    using enq_ok [OF t(2) t(4)] t(3) by blast
  moreover have "queued u = queued s" using calculation assms(3) by (auto simp: fun_eq_iff)
  ultimately show ?thesis by auto
qed

end

definition rt_queued :: "kstate \<Rightarrow> ptr \<Rightarrow> bool" where
  "rt_queued s p \<longleftrightarrow> group_rt_rq s p = None \<and> on_rt_rq s p"

definition rt_valid :: "kstate \<Rightarrow> ptr \<Rightarrow> bool" where
  "rt_valid s p \<longleftrightarrow> p \<noteq> 0 \<and> group_rt_rq s p = None \<and> 0 \<le> prio (tasks s p) \<and> prio (tasks s p) < MAX_RT_PRIO"

interpretation rtc: class_queue "enqueue_task_rt K" "dequeue_task_rt K" rt_queued rt_valid
  "\<lambda>s. rt_env K \<and> rt_ok s" for K
proof unfold_locales
  fix s p f
  assume inv: "rt_env K \<and> rt_ok s" and v: "rt_valid s p"
  then have p: "p \<noteq> 0" "group_rt_rq s p = None" "0 \<le> prio (tasks s p)" "prio (tasks s p) < MAX_RT_PRIO"
    by (simp_all add: rt_valid_def)
  note hier = rt_ok_parts(1) [OF conjunct2 [OF inv]]
  show "\<exists>t. enqueue_task_rt K p f s = Some t \<and> (rt_env K \<and> rt_ok t) \<and> (\<forall>q. rt_queued t q \<longleftrightarrow> rt_queued s q \<or> q = p) \<and>
      (\<forall>q. rt_valid t q = rt_valid s q) \<and> nr_running (rq t) = nr_running (rq s) + 1"
  proof -
    obtain t es where t: "enqueue_task_rt K p f s = Some t" "rt_ok t" "rt_chain s (Some p) = Some es"
      "\<forall>y. on_rt_rq t y \<longleftrightarrow> (if y \<in> set es then \<not> rt_skip t y else on_rt_rq s y)"
      "nr_running (rq t) = nr_running (rq s) + 1" "tasks t = tasks s" "rt_same (t\<lparr>rt_rqs := rt_rqs s\<rparr>) s"
      using enqueue_task_rt_ok [OF conjunct1 [OF inv] conjunct2 [OF inv] p, of f] by blast
    have g: "group_rt_rq t = group_rt_rq s" using t(7) by (simp add: group_rt_rq_def rt_same_def fun_eq_iff)
    have "rt_queued t q \<longleftrightarrow> rt_queued s q \<or> q = p" for q
      using t(4) rt_chain_head [OF t(3)] rt_chain_groups [OF hier t(3), of q] p(2)
      by (cases "q = p") (auto simp: rt_queued_def g rt_skip_def)
    then show ?thesis using inv t(1,2,5,6) by (simp add: rt_valid_def g)
  qed
  show "\<exists>t. dequeue_task_rt K p f s = Some t \<and> (rt_env K \<and> rt_ok t) \<and> (\<forall>q. rt_queued t q \<longleftrightarrow> rt_queued s q \<and> q \<noteq> p) \<and>
      (\<forall>q. rt_valid t q = rt_valid s q) \<and> nr_running (rq t) = nr_running (rq s) - 1"
  proof -
    obtain t where t: "dequeue_task_rt K p f s = Some t" "rt_ok t" "\<not> on_rt_rq t p"
      "nr_running (rq t) = nr_running (rq s) - 1" "rt_links s t"
      "\<forall>x. task_core (tasks t x) = task_core (tasks s x)"
      "\<forall>x. group_rt_rq s x = None \<and> x \<noteq> p \<longrightarrow> on_rt_rq t x = on_rt_rq s x"
      using dequeue_task_rt_ok [OF conjunct1 [OF inv] conjunct2 [OF inv] p(1,2), of f] by blast
    note g = rt_links_group [OF t(5)]
    have "rt_queued t q \<longleftrightarrow> rt_queued s q \<and> q \<noteq> p" for q
      using t(3,7) by (cases "q = p") (auto simp: rt_queued_def g)
    then show ?thesis using inv t(1,2,4,6) by (simp add: rt_valid_def g task_core_def task_params_def)
  qed
qed

lemma nr_running_wrr:
  "nr_running (rq (enqueue_task_wrr K p f s)) = nr_running (rq s) + 1"
  "nr_running (rq (dequeue_task_wrr K p f s)) = nr_running (rq s) - 1"
  by (simp_all add: enqueue_task_wrr_def enqueue_wrr_entity_def dequeue_task_wrr_def dequeue_wrr_entity_def Let_def)

interpretation wrrc: class_queue "\<lambda>p f s. Some (enqueue_task_wrr K p f s)" "\<lambda>p f s. Some (dequeue_task_wrr K p f s)"
  "\<lambda>s p. p \<in> set (wq s)" "\<lambda>s p. p \<noteq> 0" "\<lambda>s. list_ops_ok (klists K) \<and> wrr_wf s" for K
proof unfold_locales
  fix s and p :: ptr and f assume inv: "list_ops_ok (klists K) \<and> wrr_wf s" and p: "p \<noteq> 0"
  show "\<exists>t. Some (enqueue_task_wrr K p f s) = Some t \<and> (list_ops_ok (klists K) \<and> wrr_wf t) \<and>
      (\<forall>q. q \<in> set (wq t) \<longleftrightarrow> q \<in> set (wq s) \<or> q = p) \<and> (\<forall>q. (q \<noteq> 0) = (q \<noteq> 0)) \<and>
      nr_running (rq t) = nr_running (rq s) + 1" if "p \<notin> set (wq s)"
    using inv p that by (auto simp: wq_enqueue_task_wrr wrr_wf_enqueue nr_running_wrr)
  show "\<exists>t. Some (dequeue_task_wrr K p f s) = Some t \<and> (list_ops_ok (klists K) \<and> wrr_wf t) \<and>
      (\<forall>q. q \<in> set (wq t) \<longleftrightarrow> q \<in> set (wq s) \<and> q \<noteq> p) \<and> (\<forall>q. (q \<noteq> 0) = (q \<noteq> 0)) \<and>
      nr_running (rq t) = nr_running (rq s) - 1" if "p \<in> set (wq s)"
  proof -
    have "set (remove1 p (wq s)) = set (wq s) - {p}" using inv by (simp add: wrr_wf_def)
    then show ?thesis using inv that by (auto simp: wq_dequeue_task_wrr wrr_wf_dequeue nr_running_wrr)
  qed
qed

section \<open>The classes outside the repository\<close>

definition core3 :: "task_struct \<Rightarrow> int \<times> sched_class \<times> bool \<times> params" where
  "core3 t = (prio t, sched_class t, on_rq t, task_params t)"

text \<open>
  An operation that leaves both queues, the current task, and priority, class, \<^verbatim>\<open>on_rq\<close> and scheduling parameters of
  every task alone.
\<close>

definition ext_keep :: "kstate \<Rightarrow> kstate \<Rightarrow> bool" where
  "ext_keep s t \<longleftrightarrow> rt_rqs t = rt_rqs s \<and> rt_ents t = rt_ents s \<and> tgs t = tgs s \<and>
     rq_wrr (rq t) = rq_wrr (rq s) \<and> curr (rq t) = curr (rq s) \<and> (\<forall>x. core3 (tasks t x) = core3 (tasks s x))"

definition ext_class_ok :: "sched_class \<Rightarrow> ext_class \<Rightarrow> bool" where
  "ext_class_ok c E \<longleftrightarrow>
     (\<forall>p f s. ext_keep s (ec_enqueue_task E p f s)) \<and> (\<forall>p f s. ext_keep s (ec_dequeue_task E p f s)) \<and>
     (\<forall>s. ext_keep s (ec_yield_task E s)) \<and> (\<forall>p f s. ext_keep s (ec_check_preempt_curr E p f s)) \<and>
     (\<forall>s. ext_keep s (snd (ec_pick_next_task E s))) \<and> (\<forall>p s. ext_keep s (ec_put_prev_task E p s)) \<and>
     (\<forall>s. ext_keep s (ec_set_curr_task E s)) \<and> (\<forall>p s. ext_keep s (ec_task_tick E p s)) \<and>
     (\<forall>p s. ext_keep s (ec_task_fork E p s)) \<and> (\<forall>p s. ext_keep s (ec_switched_from E p s)) \<and>
     (\<forall>p s. ext_keep s (ec_switched_to E p s)) \<and> (\<forall>p oldprio s. ext_keep s (ec_prio_changed E p oldprio s)) \<and>
     (\<forall>s p. fst (ec_pick_next_task E s) = Some p \<longrightarrow>
        class_of s p = c \<and> (c \<noteq> idle_sched_class \<longrightarrow> on_rq (tasks s p)))"

text \<open>
  Documented behaviour of \<^verbatim>\<open>stop_task.c\<close>, \<^verbatim>\<open>fair.c\<close> and \<^verbatim>\<open>idle_task.c\<close>: each class works on its own queue,
  picks a runnable task of its own (the idle task is never marked runnable), the classes are linked stop, rt, ..., fair, idle, and the idle class picks a
  task as long as the idle task of the CPU is in it.
\<close>

definition ext_ok :: "kenv \<Rightarrow> bool" where
  "ext_ok K \<longleftrightarrow> (\<forall>c \<in> {stop_sched_class, fair_sched_class, idle_sched_class}. ext_class_ok c (ext_class_of K c)) \<and>
     ec_next (ext_class_of K stop_sched_class) = Some rt_sched_class \<and>
     ec_next (ext_class_of K fair_sched_class) = Some idle_sched_class \<and>
     ec_next (ext_class_of K idle_sched_class) = None \<and>
     (\<forall>s. class_of s (idle_task K) = idle_sched_class \<longrightarrow>
        fst (ec_pick_next_task (ext_class_of K idle_sched_class) s) \<noteq> None)"

abbreviation ext_classes :: "sched_class set" where
  "ext_classes \<equiv> {stop_sched_class, fair_sched_class, idle_sched_class}"

lemma ext_okD:
  assumes "ext_ok K" and "c \<in> ext_classes"
  shows "ext_keep s (ec_enqueue_task (ext_class_of K c) p f s)"
    and "ext_keep s (ec_dequeue_task (ext_class_of K c) p f s)"
    and "ext_keep s (ec_yield_task (ext_class_of K c) s)"
    and "ext_keep s (ec_check_preempt_curr (ext_class_of K c) p f s)"
    and "ext_keep s (snd (ec_pick_next_task (ext_class_of K c) s))"
    and "ext_keep s (ec_put_prev_task (ext_class_of K c) p s)"
    and "ext_keep s (ec_set_curr_task (ext_class_of K c) s)"
    and "ext_keep s (ec_task_tick (ext_class_of K c) p s)"
    and "ext_keep s (ec_task_fork (ext_class_of K c) p s)"
    and "ext_keep s (ec_switched_from (ext_class_of K c) p s)"
    and "ext_keep s (ec_switched_to (ext_class_of K c) p s)"
    and "ext_keep s (ec_prio_changed (ext_class_of K c) p oldprio s)"
    and "fst (ec_pick_next_task (ext_class_of K c) s) = Some q \<Longrightarrow>
      class_of s q = c \<and> (c \<noteq> idle_sched_class \<longrightarrow> on_rq (tasks s q))"
proof -
  have "ext_class_ok c (ext_class_of K c)" using assms unfolding ext_ok_def by blast
  note e = this [unfolded ext_class_ok_def]
  show "ext_keep s (ec_enqueue_task (ext_class_of K c) p f s)"
    "ext_keep s (ec_dequeue_task (ext_class_of K c) p f s)"
    "ext_keep s (ec_yield_task (ext_class_of K c) s)"
    "ext_keep s (ec_check_preempt_curr (ext_class_of K c) p f s)"
    "ext_keep s (snd (ec_pick_next_task (ext_class_of K c) s))"
    "ext_keep s (ec_put_prev_task (ext_class_of K c) p s)"
    "ext_keep s (ec_set_curr_task (ext_class_of K c) s)"
    "ext_keep s (ec_task_tick (ext_class_of K c) p s)"
    "ext_keep s (ec_task_fork (ext_class_of K c) p s)"
    "ext_keep s (ec_switched_from (ext_class_of K c) p s)"
    "ext_keep s (ec_switched_to (ext_class_of K c) p s)"
    "ext_keep s (ec_prio_changed (ext_class_of K c) p oldprio s)"
    "fst (ec_pick_next_task (ext_class_of K c) s) = Some q \<Longrightarrow>
      class_of s q = c \<and> (c \<noteq> idle_sched_class \<longrightarrow> on_rq (tasks s q))"
    using e by simp_all
qed

lemma ext_keep_refl [simp]: "ext_keep s s" by (simp add: ext_keep_def)
lemma ext_keep_trans: "ext_keep s t \<Longrightarrow> ext_keep t u \<Longrightarrow> ext_keep s u" by (simp add: ext_keep_def)

lemma ext_keep_same: "ext_keep s t \<Longrightarrow> rt_same t s"
  by (simp add: ext_keep_def rt_same_def core3_def task_params_def)

text \<open>Simple updates of the core.\<close>

lemma ext_keep_upds [simp]:
  "ext_keep s (update_rq_clock K s)" "ext_keep s (emit e s)" "ext_keep s (ttwu_stat p w s)"
  "ext_keep s (resched_task p s)" "ext_keep s (schedule_debug s)"
  "ext_keep s (s\<lparr>rq := (rq s)\<lparr>skip_clock_update := c\<rparr>\<rparr>)"
  "ext_keep s (s\<lparr>rq := (rq s)\<lparr>nr_uninterruptible := n\<rparr>\<rparr>)"
  "(\<And>t. core3 (f t) = core3 t) \<Longrightarrow> ext_keep s (upd_task p f s)"
  "ext_keep s (upd_se p h s)" "ext_keep s (upd_wrr p g s)"
  by (simp_all add: ext_keep_def update_rq_clock_def update_rq_clock_task_def Let_def core3_def task_params_def ttwu_stat_def
      resched_task_def schedule_debug_def upd_se_def upd_wrr_def)

section \<open>The invariant\<close>

text \<open>\<open>but\<close>: a task in transit, on neither queue.\<close>

definition sched_but :: "ptr option \<Rightarrow> kstate \<Rightarrow> bool" where
  "sched_but b s \<longleftrightarrow> rt_ok s \<and> wrr_wf s \<and>
     (\<forall>q. q \<in> set (wq s) \<longleftrightarrow> b \<noteq> Some q \<and> on_rq (tasks s q) \<and> class_of s q = wrr_sched_class) \<and>
     (\<forall>q. rt_queued s q \<longleftrightarrow> b \<noteq> Some q \<and> on_rq (tasks s q) \<and> class_of s q = rt_sched_class) \<and>
     (\<forall>q. class_of s q = rt_sched_class \<longrightarrow> rt_valid s q) \<and>
     (\<forall>q. class_of s q = wrr_sched_class \<longrightarrow> q \<noteq> 0)"

definition curr_ok :: "kstate \<Rightarrow> bool" where
  "curr_ok s \<longleftrightarrow> (class_of s (curr (rq s)) \<noteq> idle_sched_class \<longrightarrow> on_rq (tasks s (curr (rq s))))"

definition sched_ok :: "kstate \<Rightarrow> bool" where
  "sched_ok s \<longleftrightarrow> sched_but None s \<and> curr_ok s"

definition kenv_ok :: "kenv \<Rightarrow> bool" where
  "kenv_ok K \<longleftrightarrow> rt_env K \<and> ext_ok K"

lemma kenv_okD: "kenv_ok K \<Longrightarrow> rt_env K" "kenv_ok K \<Longrightarrow> list_ops_ok (klists K)" "kenv_ok K \<Longrightarrow> ext_ok K"
  by (simp_all add: kenv_ok_def rt_env_def)

lemma sched_but_keep:
  assumes "ext_keep s t" and "sched_but b s"
  shows "sched_but b t"
proof -
  have c: "prio (tasks t x) = prio (tasks s x)" "class_of t x = class_of s x" "on_rq (tasks t x) = on_rq (tasks s x)" for x
    using assms(1) by (simp_all add: ext_keep_def core3_def task_params_def)
  note same = ext_keep_same [OF assms(1)]
  note f = rt_same_facts [OF same]
  have w: "wq t = wq s" "wrr_wf t = wrr_wf s"
    using assms(1) wrr_wf_cong [of t s] by (simp_all add: ext_keep_def)
  show ?thesis
    using assms(2) rt_same_inv(4) [OF same]
    by (simp add: sched_but_def rt_queued_def rt_valid_def c f w)
qed

lemma curr_ok_keep: "ext_keep s t \<Longrightarrow> curr_ok t = curr_ok s"
  by (simp add: ext_keep_def curr_ok_def core3_def task_params_def)

lemma sched_ok_keep: "ext_keep s t \<Longrightarrow> sched_ok s \<Longrightarrow> sched_ok t"
  using sched_but_keep curr_ok_keep by (auto simp: sched_ok_def)

text \<open>Marking the task in transit.\<close>

lemma sched_but_off:
  assumes "sched_but (Some p) s" and "\<not> on_rq (tasks s p)"
  shows "sched_but None s"
  using assms by (auto simp: sched_but_def)

lemma sched_but_on:
  assumes "sched_but None s" and "\<not> on_rq (tasks s p)"
  shows "sched_but (Some p) s"
  using assms by (auto simp: sched_but_def)

lemma rt_same_on_rq: "rt_same (upd_task p (\<lambda>t. t\<lparr>on_rq := b\<rparr>) s) s"
  by simp

lemma sched_but_set_off:
  assumes "sched_but (Some p) s"
  shows "sched_but None (upd_task p (\<lambda>t. t\<lparr>on_rq := False\<rparr>) s)"
proof -
  let ?t = "upd_task p (\<lambda>t. t\<lparr>on_rq := False\<rparr>) s"
  note f = rt_same_facts [OF rt_same_on_rq [of p False s]]
  have "wrr_wf ?t = wrr_wf s" by (rule wrr_wf_cong) simp
  then show ?thesis
    using assms rt_same_inv(4) [OF rt_same_on_rq [of p False s]]
    by (auto simp: sched_but_def rt_queued_def rt_valid_def f)
qed

section \<open>Enqueueing and dequeueing through the class\<close>

lemma ext_keepD:
  assumes "ext_keep s t"
  shows "rt_ok t = rt_ok s" and "wrr_wf t = wrr_wf s" and "wq t = wq s" and "rt_queued t = rt_queued s"
    and "rt_valid t = rt_valid s" and "class_of t x = class_of s x" and "on_rq (tasks t x) = on_rq (tasks s x)"
    and "curr (rq t) = curr (rq s)" and "task_params (tasks t x) = task_params (tasks s x)"
proof -
  note same = ext_keep_same [OF assms]
  note f = rt_same_facts [OF same]
  show "rt_ok t = rt_ok s" by (rule rt_same_inv [OF same])
  show "wrr_wf t = wrr_wf s" using assms by (intro wrr_wf_cong) (simp add: ext_keep_def)
  show "wq t = wq s" "class_of t x = class_of s x" "on_rq (tasks t x) = on_rq (tasks s x)" "curr (rq t) = curr (rq s)"
    "task_params (tasks t x) = task_params (tasks s x)"
    using assms by (simp_all add: ext_keep_def core3_def task_params_def)
  have "prio (tasks t y) = prio (tasks s y)" for y using assms by (simp add: ext_keep_def core3_def task_params_def)
  then show "rt_queued t = rt_queued s" "rt_valid t = rt_valid s"
    by (simp_all add: fun_eq_iff rt_queued_def rt_valid_def f)
qed

lemma wrr_ops_core3:
  "core3 (tasks (enqueue_task_wrr K p f s) x) = core3 (tasks s x)"
  "core3 (tasks (dequeue_task_wrr K p f s) x) = core3 (tasks s x)"
  by (simp_all add: enqueue_task_wrr_def enqueue_wrr_entity_def dequeue_task_wrr_def dequeue_wrr_entity_def
      Let_def core3_def) (simp_all add: task_params_def)

lemma wrr_ops_rt_same:
  "rt_same (enqueue_task_wrr K p f s) s" "rt_same (dequeue_task_wrr K p f s) s"
  by (simp_all add: rt_same_def enqueue_task_wrr_def enqueue_wrr_entity_def dequeue_task_wrr_def
      dequeue_wrr_entity_def Let_def set_wrr_rq_def upd_wrr_def update_curr_wrr_def upd_se_def
      inc_nr_running_def dec_nr_running_def)

lemma wrr_ops_curr:
  "curr (rq (enqueue_task_wrr K p f s)) = curr (rq s)" "curr (rq (dequeue_task_wrr K p f s)) = curr (rq s)"
  by (simp_all add: enqueue_task_wrr_def enqueue_wrr_entity_def dequeue_task_wrr_def dequeue_wrr_entity_def Let_def)

text \<open>
  After the class has queued a task in transit and the core has marked it, the invariant holds again.
\<close>

lemma class_enqueue_ok:
  assumes K: "kenv_ok K" and s: "sched_but (Some p) s"
  shows "\<exists>t. class_enqueue_task K (class_of s p) p f s = Some t \<and> curr (rq t) = curr (rq s) \<and> rt_links s t \<and>
    (\<forall>x. core3 (tasks t x) = core3 (tasks s x)) \<and> sched_but None (upd_task p (\<lambda>t. t\<lparr>on_rq := True\<rparr>) t)"
proof -
  have parts: "rt_ok s" "wrr_wf s" "p \<notin> set (wq s)" "\<not> rt_queued s p"
    "class_of s p = rt_sched_class \<Longrightarrow> rt_valid s p" "class_of s p = wrr_sched_class \<Longrightarrow> p \<noteq> 0"
    using s by (auto simp: sched_but_def)
  define u where "u t = upd_task p (\<lambda>t. t\<lparr>on_rq := True\<rparr>) t" for t
  have *: "sched_but None (u t)" if "rt_ok t" "wrr_wf t"
    "\<And>q. q \<in> set (wq t) \<longleftrightarrow> q \<in> set (wq s) \<or> q = p \<and> class_of s p = wrr_sched_class"
    "\<And>q. rt_queued t q \<longleftrightarrow> rt_queued s q \<or> q = p \<and> class_of s p = rt_sched_class"
    "\<And>q. rt_valid t q = rt_valid s q" "\<And>x. core3 (tasks t x) = core3 (tasks s x)" for t
  proof -
    have same: "rt_same (u t) t" unfolding u_def by (rule rt_same_on_rq)
    have "wrr_wf (u t) = wrr_wf t" "wq (u t) = wq t" by (simp_all add: u_def wrr_wf_def)
    moreover have "rt_queued (u t) = rt_queued t" "rt_valid (u t) = rt_valid t"
      using rt_same_facts(1,2) [OF same] by (simp_all add: fun_eq_iff rt_queued_def rt_valid_def u_def)
    moreover have "class_of (u t) q = class_of s q" "on_rq (tasks (u t) q) \<longleftrightarrow> on_rq (tasks s q) \<or> q = p" for q
      using that(6) [of q] that(6) [of p] by (simp_all add: u_def core3_def task_params_def)
    ultimately show ?thesis
      using s that(1-5) rt_same_inv(4) [OF same] unfolding sched_but_def by auto
  qed
  consider "class_of s p = rt_sched_class" | "class_of s p = wrr_sched_class"
    | "class_of s p \<in> {stop_sched_class, fair_sched_class, idle_sched_class}"
    by (cases "class_of s p") auto
  then show ?thesis
  proof cases
    case 1
    then obtain t where t: "enqueue_task_rt K p f s = Some t" "rt_ok t"
      "\<forall>q. rt_queued t q \<longleftrightarrow> rt_queued s q \<or> q = p" "\<forall>q. rt_valid t q = rt_valid s q"
      using rtc.enq_ok [of K s p f] parts kenv_okD(1) [OF K] by blast
    have v: "p \<noteq> 0" "group_rt_rq s p = None" "0 \<le> prio (tasks s p)" "prio (tasks s p) < MAX_RT_PRIO"
      using parts(5) 1 by (simp_all add: rt_valid_def)
    have fr: "tasks t = tasks s" "rq_wrr (rq t) = rq_wrr (rq s)" "curr (rq t) = curr (rq s)"
      "rt_same (t\<lparr>rt_rqs := rt_rqs s\<rparr>) s"
      using enqueue_task_rt_ok [OF kenv_okD(1) [OF K] parts(1) v, of f] t(1) by auto
    have links: "rt_links s t" using rt_links_same [OF fr(4)] by (simp add: rt_links_def)
    have "sched_but None (u t)"
      by (rule *) (use t fr parts(2) 1 wrr_wf_cong [of t s] in auto)
    then show ?thesis using 1 t(1) fr links by (simp add: class_enqueue_task_def u_def)
  next
    case 2
    let ?t = "enqueue_task_wrr K p f s"
    have t: "wrr_wf ?t" "q \<in> set (wq ?t) \<longleftrightarrow> q \<in> set (wq s) \<or> q = p" for q
      using wrrc.enq_ok [of K s p f] parts kenv_okD(2) [OF K] 2 by auto
    note same = wrr_ops_rt_same(1) [of K p f s]
    have "rt_ok ?t" using rt_same_inv(4) [OF same] parts(1) by simp
    moreover have "rt_queued ?t q = rt_queued s q" "rt_valid ?t q = rt_valid s q" for q
      using rt_same_facts(1,2) [OF same] same by (simp_all add: rt_queued_def rt_valid_def rt_same_def)
    ultimately have "sched_but None (u ?t)"
      by (intro *) (use t 2 wrr_ops_core3 in auto)
    then show ?thesis using 2 wrr_ops_core3 wrr_ops_curr rt_links_same [OF same]
      by (simp add: class_enqueue_task_def u_def)
  next
    case 3
    let ?t = "ec_enqueue_task (ext_class_of K (class_of s p)) p f s"
    have k: "ext_keep s ?t"
      using ext_okD [OF kenv_okD(3) [OF K]] 3 by simp
    note e = ext_keepD [OF k]
    have "sched_but None (u ?t)"
      by (rule *) (use e parts 3 k in \<open>auto simp: ext_keep_def\<close>)
    then show ?thesis using 3 k rt_links_same [OF ext_keep_same [OF k]]
      by (auto simp: class_enqueue_task_def u_def ext_keep_def)
  qed
qed

lemma class_dequeue_ok:
  assumes K: "kenv_ok K" and s: "sched_but None s"
    and on: "class_of s p \<in> {rt_sched_class, wrr_sched_class} \<longrightarrow> on_rq (tasks s p)"
  shows "\<exists>t. class_dequeue_task K (class_of s p) p f s = Some t \<and> curr (rq t) = curr (rq s) \<and> rt_links s t \<and>
    (\<forall>x. core3 (tasks t x) = core3 (tasks s x)) \<and> sched_but (Some p) t"
proof -
  have parts: "rt_ok s" "wrr_wf s" "class_of s p = wrr_sched_class \<Longrightarrow> p \<in> set (wq s) \<and> p \<noteq> 0"
    "class_of s p = rt_sched_class \<Longrightarrow> rt_queued s p \<and> rt_valid s p"
    using s on by (auto simp: sched_but_def)
  have *: "sched_but (Some p) t" if "rt_ok t" "wrr_wf t"
    "\<And>q. q \<in> set (wq t) \<longleftrightarrow> q \<in> set (wq s) \<and> (q = p \<longrightarrow> class_of s p \<noteq> wrr_sched_class)"
    "\<And>q. rt_queued t q \<longleftrightarrow> rt_queued s q \<and> (q = p \<longrightarrow> class_of s p \<noteq> rt_sched_class)"
    "\<And>q. rt_valid t q = rt_valid s q" "\<And>x. core3 (tasks t x) = core3 (tasks s x)" for t
  proof -
    have "class_of t q = class_of s q" "on_rq (tasks t q) = on_rq (tasks s q)" for q
      using that(6) [of q] by (simp_all add: core3_def task_params_def)
    then show ?thesis using s that(1-5) unfolding sched_but_def by auto
  qed
  consider "class_of s p = rt_sched_class" | "class_of s p = wrr_sched_class"
    | "class_of s p \<in> {stop_sched_class, fair_sched_class, idle_sched_class}"
    by (cases "class_of s p") auto
  then show ?thesis
  proof cases
    case 1
    then have v: "p \<noteq> 0" "group_rt_rq s p = None" using parts(4) by (simp_all add: rt_valid_def)
    obtain t where t: "dequeue_task_rt K p f s = Some t" "rt_ok t"
      "\<forall>q. rt_queued t q \<longleftrightarrow> rt_queued s q \<and> q \<noteq> p" "\<forall>q. rt_valid t q = rt_valid s q"
      using rtc.deq_ok [of K s p f] parts kenv_okD(1) [OF K] 1 by blast
    have fr: "rq_wrr (rq t) = rq_wrr (rq s)" "curr (rq t) = curr (rq s)" "rt_links s t"
      "\<forall>x. task_core (tasks t x) = task_core (tasks s x)"
      using dequeue_task_rt_ok [OF kenv_okD(1) [OF K] parts(1) v, of f] t(1) by auto
    have c3: "core3 (tasks t x) = core3 (tasks s x)" for x using fr(4) by (simp add: core3_def task_core_def task_params_def)
    have "sched_but (Some p) t"
      by (rule *) (use t fr parts(2) 1 c3 wrr_wf_cong [of t s] in auto)
    then show ?thesis using 1 t(1) fr(2,3) c3 by (simp add: class_dequeue_task_def)
  next
    case 2
    let ?t = "dequeue_task_wrr K p f s"
    have t: "wrr_wf ?t" "q \<in> set (wq ?t) \<longleftrightarrow> q \<in> set (wq s) \<and> q \<noteq> p" for q
      using wrrc.deq_ok [of K s p f] parts kenv_okD(2) [OF K] 2 by auto
    note same = wrr_ops_rt_same(2) [of K p f s]
    have "rt_ok ?t" using rt_same_inv(4) [OF same] parts(1) by simp
    moreover have "rt_queued ?t q = rt_queued s q" "rt_valid ?t q = rt_valid s q" for q
      using rt_same_facts(1,2) [OF same] same by (simp_all add: rt_queued_def rt_valid_def rt_same_def)
    ultimately have "sched_but (Some p) ?t"
      by (intro *) (use t 2 wrr_ops_core3 in auto)
    then show ?thesis using 2 wrr_ops_core3 wrr_ops_curr rt_links_same [OF same]
      by (simp add: class_dequeue_task_def)
  next
    case 3
    let ?t = "ec_dequeue_task (ext_class_of K (class_of s p)) p f s"
    have k: "ext_keep s ?t"
      using ext_okD [OF kenv_okD(3) [OF K]] 3 by simp
    note e = ext_keepD [OF k]
    have "sched_but (Some p) ?t"
      by (rule *) (use e parts 3 k in \<open>auto simp: ext_keep_def\<close>)
    then show ?thesis using 3 k rt_links_same [OF ext_keep_same [OF k]]
      by (auto simp: class_dequeue_task_def ext_keep_def)
  qed
qed

section \<open>Operations on queued tasks\<close>

lemma sched_but_rt:
  assumes "rt_ok t" and k: "rt_step_kept s t" and s: "sched_but b s"
  shows "sched_but b t"
proof -
  have g: "group_rt_rq t = group_rt_rq s" using k by (intro rt_links_group) (simp add: rt_step_kept_def)
  have c: "prio (tasks t x) = prio (tasks s x)" "class_of t x = class_of s x" "on_rq (tasks t x) = on_rq (tasks s x)" for x
    using k by (simp_all add: rt_step_kept_def task_core_def task_params_def)
  have "rt_queued t x = rt_queued s x" for x using k by (auto simp: rt_queued_def g rt_step_kept_def)
  moreover have "rt_valid t x = rt_valid s x" for x by (simp add: rt_valid_def g c)
  moreover have "wq t = wq s" "wrr_wf t = wrr_wf s"
    using k wrr_wf_cong [of t s] by (simp_all add: rt_step_kept_def)
  ultimately show ?thesis using s assms(1) by (simp add: sched_but_def c)
qed

lemma rt_step_kept_core3: "rt_step_kept s t \<Longrightarrow> core3 (tasks t x) = core3 (tasks s x)"
  by (simp add: rt_step_kept_def core3_def task_core_def task_params_def)

text \<open>Changing the order of the weighted round-robin queue.\<close>

lemma sched_but_wrr:
  assumes "wrr_wf t" and "set (wq t) = set (wq s)" and "rt_same t s"
    and "\<And>x. core3 (tasks t x) = core3 (tasks s x)" and s: "sched_but b s"
  shows "sched_but b t"
proof -
  note f = rt_same_facts [OF assms(3)]
  have c: "prio (tasks t x) = prio (tasks s x)" "class_of t x = class_of s x" "on_rq (tasks t x) = on_rq (tasks s x)" for x
    using assms(4) [of x] by (simp_all add: core3_def task_params_def)
  show ?thesis
    using s assms(1,2) rt_same_inv(4) [OF assms(3)]
    by (simp add: sched_but_def rt_queued_def rt_valid_def f c)
qed

lemma update_curr_wrr_keep: "ext_keep s (update_curr_wrr K s)"
  by (simp add: ext_keep_def core3_def task_params_def update_curr_wrr_def Let_def upd_se_def)

lemma put_prev_task_wrr_keep: "ext_keep s (put_prev_task_wrr K p s)"
  using ext_keep_trans [OF update_curr_wrr_keep ext_keep_upds(9)] by (simp add: put_prev_task_wrr_def)

lemma requeue_task_wrr_kept:
  "rt_same (requeue_task_wrr K p head s) s" "core3 (tasks (requeue_task_wrr K p head s) x) = core3 (tasks s x)"
  by (simp_all add: rt_same_def requeue_task_wrr_def set_wrr_rq_def)

lemma wq_requeue_set:
  assumes "list_ops_ok (klists K)" and "wrr_wf s" and "p \<in> set (wq s)"
  shows "set (wq (requeue_task_wrr K p head s)) = set (wq s)"
  using wrrq.set_requeue [of K s p head] assms by simp

lemma watchdog_keep: "ext_keep s (watchdog K p s)"
  by (simp add: ext_keep_def core3_def task_params_def watchdog_def Let_def upd_wrr_def)

lemma refill_keep: "ext_keep s (refill_wrr K p s)"
  by (simp add: ext_keep_def core3_def task_params_def refill_wrr_def Let_def upd_wrr_def)

lemma task_tick_wrr_but:
  assumes l: "list_ops_ok (klists K)" and s: "sched_but b s" and p: "p \<in> set (wq s)"
  shows "sched_but b (task_tick_wrr K p s)" and "rt_links s (task_tick_wrr K p s)"
    and "core3 (tasks (task_tick_wrr K p s) x) = core3 (tasks s x)"
proof -
  define s1 where "s1 = watchdog K p (update_curr_wrr K s)"
  define s2 where "s2 = upd_wrr p (\<lambda>e. e\<lparr>wrr_time_slice := wrr_time_slice e - 1\<rparr>) s1"
  define s3 where "s3 = refill_wrr K p s2"
  define s4 where "s4 = resched_task p (requeue_task_wrr K p False s3)"
  have k1: "ext_keep s s1" unfolding s1_def by (rule ext_keep_trans [OF update_curr_wrr_keep watchdog_keep])
  have k2: "ext_keep s s2" unfolding s2_def by (rule ext_keep_trans [OF k1 ext_keep_upds(10)])
  have k3: "ext_keep s s3" unfolding s3_def by (rule ext_keep_trans [OF k2 refill_keep])
  have wf: "wrr_wf s3" "p \<in> set (wq s3)" using ext_keepD(2,3) [OF k3] s p by (simp_all add: sched_but_def)
  have same4: "rt_same (requeue_task_wrr K p False s3) s3" by (rule requeue_task_wrr_kept)
  have s4': "sched_but b (requeue_task_wrr K p False s3)"
    by (rule sched_but_wrr [OF wrr_wf_requeue [OF l wf] wq_requeue_set [OF l wf] same4 requeue_task_wrr_kept(2)
          sched_but_keep [OF k3 s]])
  have s4: "sched_but b s4" unfolding s4_def by (rule sched_but_keep [OF ext_keep_upds(4) s4'])
  have l4: "rt_links s s4"
    using rt_links_trans [OF rt_links_same [OF ext_keep_same [OF k3]] rt_links_same [OF same4]]
    by (simp add: s4_def rt_links_def)
  have c4: "core3 (tasks s4 x) = core3 (tasks s x)"
    using k3 by (auto simp: s4_def core3_def task_params_def ext_keep_def requeue_task_wrr_def set_wrr_rq_def)
  have eq: "task_tick_wrr K p s \<in> {s1, s2, s3, s4}"
    by (simp add: task_tick_wrr_def Let_def s1_def s2_def s3_def s4_def)
  note kk = k1 k2 k3
  show "sched_but b (task_tick_wrr K p s)"
    using eq s4 sched_but_keep [OF k1 s] sched_but_keep [OF k2 s] sched_but_keep [OF k3 s] by auto
  show "rt_links s (task_tick_wrr K p s)"
    using eq l4 rt_links_same [OF ext_keep_same [OF k1]] rt_links_same [OF ext_keep_same [OF k2]]
      rt_links_same [OF ext_keep_same [OF k3]] by auto
  show "core3 (tasks (task_tick_wrr K p s) x) = core3 (tasks s x)"
    using eq c4 k1 k2 k3 by (auto simp: ext_keep_def)
qed

text \<open>No task changes its class or its scheduling parameters.\<close>

definition same_params :: "kstate \<Rightarrow> kstate \<Rightarrow> bool" where
  "same_params s t \<longleftrightarrow> (\<forall>x. class_of t x = class_of s x \<and> task_params (tasks t x) = task_params (tasks s x))"

lemma same_params_trans: "same_params s t \<Longrightarrow> same_params t u \<Longrightarrow> same_params s u"
  by (simp add: same_params_def)

lemma same_params_core3: "(\<And>x. core3 (tasks t x) = core3 (tasks s x)) \<Longrightarrow> same_params s t"
  by (simp add: same_params_def core3_def)

lemma same_params_keep: "ext_keep s t \<Longrightarrow> same_params s t"
  by (rule same_params_core3) (simp add: ext_keep_def)

lemma same_params_rt: "rt_step_kept s t \<Longrightarrow> same_params s t"
  by (rule same_params_core3) (rule rt_step_kept_core3)

lemma same_paramsD: "same_params s t \<Longrightarrow> class_of t x = class_of s x"
  "same_params s t \<Longrightarrow> task_params (tasks t x) = task_params (tasks s x)"
  by (simp_all add: same_params_def)

text \<open>The tick, the yield and the put operation of any class.\<close>

lemma class_task_tick_ok:
  assumes K: "kenv_ok K" and s: "sched_ok s" and c: "c = curr (rq s)"
  shows "\<exists>t. class_task_tick K (class_of s c) c s = Some t \<and> sched_ok t \<and> rt_links s t \<and>
    same_params s t"
proof -
  have b: "sched_but None s" and on: "curr_ok s" using s by (simp_all add: sched_ok_def)
  consider "class_of s c = rt_sched_class" | "class_of s c = wrr_sched_class" | "class_of s c \<in> ext_classes"
    by (cases "class_of s c") auto
  then show ?thesis
  proof cases
    case 1
    have "rt_ok s" using b by (simp add: sched_but_def)
    then obtain t where t: "task_tick_rt K c s = Some t" "rt_ok t" "rt_step_kept s t"
      using task_tick_rt_ok [OF kenv_okD(1) [OF K]] by blast
    have "curr_ok t" using on t(3) by (auto simp: curr_ok_def rt_step_kept_def task_core_def task_params_def)
    then show ?thesis using 1 t sched_but_rt [OF t(2,3) b] same_params_rt [OF t(3)]
      by (simp add: class_task_tick_def sched_ok_def) (simp add: rt_step_kept_def)
  next
    case 2
    then have "on_rq (tasks s c)" using on by (simp add: curr_ok_def c)
    then have "c \<in> set (wq s)" using b 2 by (simp add: sched_but_def)
    note t = task_tick_wrr_but [OF kenv_okD(2) [OF K] b this]
    have "curr_ok (task_tick_wrr K c s)" using on t(3) by (simp add: curr_ok_def core3_def task_params_def)
    then show ?thesis using 2 t(1,2) same_params_core3 [OF t(3)] by (simp add: class_task_tick_def sched_ok_def)
  next
    case 3
    let ?t = "ec_task_tick (ext_class_of K (class_of s c)) c s"
    have k: "ext_keep s ?t" using ext_okD [OF kenv_okD(3) [OF K]] 3 by simp
    then show ?thesis using 3 sched_ok_keep [OF k s] rt_links_same [OF ext_keep_same [OF k]] same_params_keep [OF k]
      by (auto simp: class_task_tick_def)
  qed
qed

lemma class_put_prev_ok:
  assumes K: "kenv_ok K" and b: "sched_but b s"
  shows "\<exists>t. class_put_prev_task K (class_of s p) p s = Some t \<and> sched_but b t \<and> rt_links s t \<and>
    curr (rq t) = curr (rq s) \<and> (\<forall>x. core3 (tasks t x) = core3 (tasks s x))"
proof -
  consider "class_of s p = rt_sched_class" | "class_of s p = wrr_sched_class" | "class_of s p \<in> ext_classes"
    by (cases "class_of s p") auto
  then show ?thesis
  proof cases
    case 1
    have "rt_ok s" using b by (simp add: sched_but_def)
    then obtain t where t: "update_curr_rt K s = Some t" "rt_ok t" "rt_kept s t"
      using update_curr_rt_ok [OF kenv_okD(1) [OF K]] by blast
    note k = rt_kept_step [OF t(3)]
    show ?thesis using 1 t(1) sched_but_rt [OF t(2) k b] k rt_step_kept_core3 [OF k]
      by (simp add: class_put_prev_task_def put_prev_task_rt_def) (simp add: rt_step_kept_def)
  next
    case 2
    note k = put_prev_task_wrr_keep [of s K p]
    show ?thesis using 2 sched_but_keep [OF k b] k rt_links_same [OF ext_keep_same [OF k]]
      by (simp add: class_put_prev_task_def ext_keep_def)
  next
    case 3
    let ?t = "ec_put_prev_task (ext_class_of K (class_of s p)) p s"
    have k: "ext_keep s ?t" using ext_okD [OF kenv_okD(3) [OF K]] 3 by simp
    then show ?thesis using 3 sched_but_keep [OF k b] rt_links_same [OF ext_keep_same [OF k]]
      by (auto simp: class_put_prev_task_def ext_keep_def)
  qed
qed

lemma class_yield_ok:
  assumes K: "kenv_ok K" and s: "sched_ok s"
  shows "\<exists>t. class_yield_task K (class_of s (curr (rq s))) s = Some t \<and> sched_ok t \<and> rt_links s t \<and>
    same_params s t"
proof -
  let ?c = "curr (rq s)"
  have b: "sched_but None s" and on: "curr_ok s" using s by (simp_all add: sched_ok_def)
  consider "class_of s ?c = rt_sched_class" | "class_of s ?c = wrr_sched_class" | "class_of s ?c \<in> ext_classes"
    by (cases "class_of s ?c") auto
  then show ?thesis
  proof cases
    case 1
    have "rt_ok s" using b by (simp add: sched_but_def)
    then obtain t where t: "requeue_task_rt K ?c False s = Some t" "rt_ok t" "rt_kept s t"
      using requeue_task_rt_ok [OF kenv_okD(1) [OF K]] by blast
    note k = rt_kept_step [OF t(3)]
    have "curr_ok t" using on k by (auto simp: curr_ok_def rt_step_kept_def task_core_def task_params_def)
    then show ?thesis using 1 t(1) sched_but_rt [OF t(2) k b] same_params_rt [OF k] k
      by (simp add: class_yield_task_def yield_task_rt_def sched_ok_def) (simp add: rt_step_kept_def)
  next
    case 2
    then have "on_rq (tasks s ?c)" using on by (simp add: curr_ok_def)
    then have p: "?c \<in> set (wq s)" "wrr_wf s" using b 2 by (simp_all add: sched_but_def)
    let ?t = "requeue_task_wrr K ?c False s"
    note l = kenv_okD(2) [OF K]
    have "sched_but None ?t"
      by (rule sched_but_wrr [OF wrr_wf_requeue [OF l p(2,1)] wq_requeue_set [OF l p(2,1)] requeue_task_wrr_kept b])
    moreover have "curr_ok ?t" using on by (simp add: curr_ok_def)
    ultimately show ?thesis using 2 rt_links_same [OF requeue_task_wrr_kept(1)] same_params_core3 [OF requeue_task_wrr_kept(2)]
      by (simp add: class_yield_task_def yield_task_wrr_def sched_ok_def)
  next
    case 3
    let ?t = "ec_yield_task (ext_class_of K (class_of s ?c)) s"
    have k: "ext_keep s ?t" using ext_okD [OF kenv_okD(3) [OF K]] 3 by simp
    then show ?thesis using 3 sched_ok_keep [OF k s] rt_links_same [OF ext_keep_same [OF k]] same_params_keep [OF k]
      by (auto simp: class_yield_task_def)
  qed
qed

end
