(* ===== verification/Core_Steps.thy ===== *)
theory Core_Steps
  imports Core_Inv
begin

text \<open>
  The operations of the core keep the invariant \<open>sched_ok\<close> and always return: wakeups, the start of a new
  task, the tick, yielding and \<^verbatim>\<open>__schedule\<close>. The step relation \<open>sched_step\<close> collects them; which class is
  picked and when the current task is preempted follows the order of the classes.
\<close>

section \<open>The order of the classes\<close>

fun class_rank :: "sched_class \<Rightarrow> nat" where
  "class_rank stop_sched_class = 0"
| "class_rank rt_sched_class = 1"
| "class_rank wrr_sched_class = 2"
| "class_rank fair_sched_class = 3"
| "class_rank idle_sched_class = 4"

text \<open>A class is greater than those that come after it in the list.\<close>

instantiation sched_class :: linorder
begin

definition less_eq_sched_class :: "sched_class \<Rightarrow> sched_class \<Rightarrow> bool" where
  "c \<le> d \<longleftrightarrow> class_rank d \<le> class_rank c"

definition less_sched_class :: "sched_class \<Rightarrow> sched_class \<Rightarrow> bool" where
  "c < d \<longleftrightarrow> class_rank d < class_rank c"

instance
proof
  fix c d :: sched_class
  show "c = d" if "c \<le> d" and "d \<le> c"
    using that by (cases c; cases d) (simp_all add: less_eq_sched_class_def)
qed (auto simp: less_eq_sched_class_def less_sched_class_def)

end

lemma class_next_ok:
  assumes "ext_ok K"
  shows "class_next K stop_sched_class = Some rt_sched_class" "class_next K rt_sched_class = Some wrr_sched_class"
    "class_next K wrr_sched_class = Some fair_sched_class" "class_next K fair_sched_class = Some idle_sched_class"
    "class_next K idle_sched_class = None"
  using assms by (simp_all add: class_next_def ext_ok_def)

lemma preempt_loop_rank:
  assumes "ext_ok K" and "pc \<noteq> cc"
  shows "preempt_loop K cc pc stop_sched_class = Some (cc < pc)"
  using assms(2)
  by (cases cc; cases pc) (simp_all add: preempt_loop.simps class_next_ok [OF assms(1)] less_sched_class_def)

lemma class_check_preempt_keep:
  assumes "kenv_ok K"
  shows "ext_keep s (class_check_preempt_curr K c p f s)"
  using ext_okD(4) [OF kenv_okD(3) [OF assms]]
  by (cases c) (simp_all add: class_check_preempt_curr_def check_preempt_curr_rt_def check_preempt_curr_wrr_def)

lemma check_preempt_curr_ok:
  assumes K: "kenv_ok K"
  shows "\<exists>t. check_preempt_curr K p f s = Some t \<and> ext_keep s t"
proof -
  let ?c = "curr (rq s)"
  have "\<exists>s1. ext_keep s s1 \<and> (if class_of s p = class_of s ?c
      then Some (class_check_preempt_curr K (class_of s ?c) p f s)
      else do { b \<leftarrow> preempt_loop K (class_of s ?c) (class_of s p) stop_sched_class;
                Some (if b then resched_task ?c s else s) }) = Some s1"
    using class_check_preempt_keep [OF K] preempt_loop_rank [OF kenv_okD(3) [OF K]]
    by (cases "class_of s p = class_of s ?c") simp_all
  then obtain s1 where s1: "ext_keep s s1" "(if class_of s p = class_of s ?c
      then Some (class_check_preempt_curr K (class_of s ?c) p f s)
      else do { b \<leftarrow> preempt_loop K (class_of s ?c) (class_of s p) stop_sched_class;
                Some (if b then resched_task ?c s else s) }) = Some s1" by blast
  then show ?thesis
    using ext_keep_trans [OF s1(1) ext_keep_upds(6)] by (simp add: check_preempt_curr_def Let_def)
qed

section \<open>Waking tasks\<close>

definition wake_rel :: "kstate \<Rightarrow> kstate \<Rightarrow> bool" where
  "wake_rel s t \<longleftrightarrow> rt_links s t \<and> curr (rq t) = curr (rq s) \<and>
     (\<forall>x. prio (tasks t x) = prio (tasks s x) \<and> class_of t x = class_of s x \<and>
          task_params (tasks t x) = task_params (tasks s x) \<and> (on_rq (tasks s x) \<longrightarrow> on_rq (tasks t x)))"

lemma wake_rel_trans: "wake_rel s t \<Longrightarrow> wake_rel t u \<Longrightarrow> wake_rel s u"
  using rt_links_trans by (auto simp: wake_rel_def)

lemma wake_rel_keep: "ext_keep s t \<Longrightarrow> wake_rel s t"
  using rt_links_same [OF ext_keep_same] by (auto simp: wake_rel_def ext_keep_def core3_def task_params_def)

lemma wake_rel_params: "wake_rel s t \<Longrightarrow> same_params s t"
  by (simp add: wake_rel_def same_params_def)

lemma wake_rel_curr_ok: "wake_rel s t \<Longrightarrow> curr_ok s \<Longrightarrow> curr_ok t"
  by (auto simp: wake_rel_def curr_ok_def)

lemma activate_task_ok:
  assumes K: "kenv_ok K" and s: "sched_but None s" and off: "\<not> on_rq (tasks s p)"
  shows "\<exists>t. activate_task K p f s = Some t \<and> wake_rel s (upd_task p (\<lambda>t. t\<lparr>on_rq := True\<rparr>) t) \<and>
    sched_but None (upd_task p (\<lambda>t. t\<lparr>on_rq := True\<rparr>) t)"
proof -
  define s1 where "s1 = (if task_contributes_to_load (tasks s p)
      then s\<lparr>rq := (rq s)\<lparr>nr_uninterruptible := nr_uninterruptible (rq s) - 1\<rparr>\<rparr> else s)"
  define s2 where "s2 = emit (SchedInfoQueued p) (update_rq_clock K s1)"
  have k1: "ext_keep s s1" by (simp add: s1_def)
  have k2: "ext_keep s s2"
    unfolding s2_def by (rule ext_keep_trans [OF ext_keep_trans [OF k1 ext_keep_upds(1)] ext_keep_upds(2)])
  have "sched_but (Some p) s2"
    using sched_but_on [OF sched_but_keep [OF k2 s]] off ext_keepD(7) [OF k2] by simp
  then obtain t where t: "class_enqueue_task K (class_of s2 p) p f s2 = Some t" "curr (rq t) = curr (rq s2)"
    "rt_links s2 t" "\<forall>x. core3 (tasks t x) = core3 (tasks s2 x)"
    "sched_but None (upd_task p (\<lambda>t. t\<lparr>on_rq := True\<rparr>) t)"
    using class_enqueue_ok [OF K] by blast
  have "wake_rel s2 (upd_task p (\<lambda>t. t\<lparr>on_rq := True\<rparr>) t)"
    using t(2-4) by (auto simp: wake_rel_def core3_def task_params_def rt_links_def)
  then have "wake_rel s (upd_task p (\<lambda>t. t\<lparr>on_rq := True\<rparr>) t)" by (rule wake_rel_trans [OF wake_rel_keep [OF k2]])
  moreover have "activate_task K p f s = Some t"
    using t(1) by (simp add: activate_task_def enqueue_task_def s1_def s2_def Let_def)
  ultimately show ?thesis using t(5) by blast
qed

lemma ttwu_activate_ok:
  assumes "kenv_ok K" and "sched_but None s" and "\<not> on_rq (tasks s p)"
  shows "\<exists>t. ttwu_activate K p f s = Some t \<and> wake_rel s t \<and> sched_but None t \<and> on_rq (tasks t p)"
proof -
  obtain t where t: "activate_task K p f s = Some t" "wake_rel s (upd_task p (\<lambda>t. t\<lparr>on_rq := True\<rparr>) t)"
    "sched_but None (upd_task p (\<lambda>t. t\<lparr>on_rq := True\<rparr>) t)"
    using activate_task_ok [OF assms] by blast
  let ?u = "upd_task p (\<lambda>t. t\<lparr>on_rq := True\<rparr>) t"
  have k: "ext_keep ?u (emit (WqWorkerWakingUp p) ?u)" by (rule ext_keep_upds)
  show ?thesis
    using t sched_but_keep [OF k t(3)] wake_rel_trans [OF t(2) wake_rel_keep [OF k]]
    by (simp add: ttwu_activate_def Let_def)
qed

lemma ttwu_do_wakeup_ok:
  assumes "kenv_ok K" and "sched_but b s"
  shows "\<exists>t. ttwu_do_wakeup K p w s = Some t \<and> ext_keep s t \<and> sched_but b t \<and> tstate (tasks t p) = TASK_RUNNING"
proof -
  obtain s1 where s1: "check_preempt_curr K p w s = Some s1" "ext_keep s s1"
    using check_preempt_curr_ok [OF assms(1)] by blast
  let ?t = "upd_task p (\<lambda>t. t\<lparr>tstate := TASK_RUNNING\<rparr>) s1"
  have "ext_keep s1 ?t" by (rule ext_keep_upds) (simp add: core3_def task_params_def)
  then have "ext_keep s ?t" by (rule ext_keep_trans [OF s1(2)])
  then show ?thesis using s1(1) sched_but_keep [OF _ assms(2)] by (simp add: ttwu_do_wakeup_def)
qed

lemma ttwu_stat_fields [simp]:
  "on_rq (tasks (ttwu_stat p w s) q) = on_rq (tasks s q)" "tstate (tasks (ttwu_stat p w s) q) = tstate (tasks s q)"
  by (simp_all add: ttwu_stat_def Let_def)

lemma try_to_wake_up_ok:
  assumes K: "kenv_ok K" and s: "sched_but None s"
  shows "\<exists>b t. try_to_wake_up K p st w s = Some (b, t) \<and> sched_but None t \<and> wake_rel s t \<and>
    (b \<longleftrightarrow> tstate (tasks s p) AND st \<noteq> 0) \<and> (b \<longrightarrow> on_rq (tasks t p) \<and> tstate (tasks t p) = TASK_RUNNING) \<and>
    (\<not> b \<longrightarrow> t = s)"
proof (cases "tstate (tasks s p) AND st = 0")
  case True
  then show ?thesis using s wake_rel_keep [OF ext_keep_refl] by (auto simp: try_to_wake_up_def)
next
  case False
  have "\<exists>u. (if on_rq (tasks s p) then map_option snd (ttwu_remote K p w s) else ttwu_queue K p s) = Some u \<and>
    sched_but None u \<and> wake_rel s u \<and> on_rq (tasks u p) \<and> tstate (tasks u p) = TASK_RUNNING"
  proof (cases "on_rq (tasks s p)")
    case True
    obtain u where u: "ttwu_do_wakeup K p w s = Some u" "ext_keep s u" "sched_but None u"
      "tstate (tasks u p) = TASK_RUNNING" using ttwu_do_wakeup_ok [OF K s] by blast
    then show ?thesis using True wake_rel_keep [OF u(2)] ext_keepD(7) [OF u(2)] by (simp add: ttwu_remote_def)
  next
    case off: False
    obtain v where v: "ttwu_activate K p (ENQUEUE_WAKEUP OR ENQUEUE_WAKING) s = Some v" "wake_rel s v"
      "sched_but None v" "on_rq (tasks v p)" using ttwu_activate_ok [OF K s off] by blast
    obtain u where u: "ttwu_do_wakeup K p 0 v = Some u" "ext_keep v u" "sched_but None u"
      "tstate (tasks u p) = TASK_RUNNING" using ttwu_do_wakeup_ok [OF K v(3)] by blast
    then show ?thesis
      using off v wake_rel_trans [OF v(2) wake_rel_keep [OF u(2)]] ext_keepD(7) [OF u(2)]
      by (simp add: ttwu_queue_def ttwu_do_activate_def)
  qed
  then obtain u where u: "(if on_rq (tasks s p) then map_option snd (ttwu_remote K p w s) else ttwu_queue K p s) = Some u"
    "sched_but None u" "wake_rel s u" "on_rq (tasks u p)" "tstate (tasks u p) = TASK_RUNNING" by blast
  have "try_to_wake_up K p st w s = Some (True, ttwu_stat p w u)"
    using u(1) False by (auto simp: try_to_wake_up_def ttwu_remote_def split: if_splits option.splits bind_splits)
  moreover have "sched_but None (ttwu_stat p w u)" by (rule sched_but_keep [OF ext_keep_upds(3) u(2)])
  moreover have "wake_rel s (ttwu_stat p w u)" by (rule wake_rel_trans [OF u(3) wake_rel_keep [OF ext_keep_upds(3)]])
  ultimately show ?thesis using u(4,5) False by auto
qed

lemma try_to_wake_up_local_ok:
  assumes K: "kenv_ok K" and s: "sched_but None s"
  shows "\<exists>t. try_to_wake_up_local K p s = Some t \<and> sched_but None t \<and> wake_rel s t"
proof (cases "p = curr (rq s) \<or> tstate (tasks s p) AND TASK_NORMAL = 0")
  case True
  then show ?thesis using s wake_rel_keep [OF ext_keep_refl] by (auto simp: try_to_wake_up_local_def)
next
  case False
  have "\<exists>v. (if \<not> on_rq (tasks s p) then ttwu_activate K p ENQUEUE_WAKEUP s else Some s) = Some v \<and>
    wake_rel s v \<and> sched_but None v"
    using ttwu_activate_ok [OF K s, of p ENQUEUE_WAKEUP] s wake_rel_keep [OF ext_keep_refl]
    by (cases "on_rq (tasks s p)") auto
  then obtain v where v: "(if \<not> on_rq (tasks s p) then ttwu_activate K p ENQUEUE_WAKEUP s else Some s) = Some v"
    "wake_rel s v" "sched_but None v" by blast
  obtain u where u: "ttwu_do_wakeup K p 0 v = Some u" "ext_keep v u" "sched_but None u"
    using ttwu_do_wakeup_ok [OF K v(3)] by blast
  have "wake_rel s (ttwu_stat p 0 u)"
    by (rule wake_rel_trans [OF wake_rel_trans [OF v(2) wake_rel_keep [OF u(2)]] wake_rel_keep [OF ext_keep_upds(3)]])
  moreover have "sched_but None (ttwu_stat p 0 u)" by (rule sched_but_keep [OF ext_keep_upds(3) u(3)])
  ultimately show ?thesis using False v(1) u(1) by (simp add: try_to_wake_up_local_def)
qed

lemma wake_up_new_task_ok:
  assumes K: "kenv_ok K" and s: "sched_but None s" and off: "\<not> on_rq (tasks s p)"
  shows "\<exists>t. wake_up_new_task K p s = Some t \<and> sched_but None t \<and> wake_rel s t \<and> on_rq (tasks t p)"
proof -
  obtain t where t: "activate_task K p 0 s = Some t" "wake_rel s (upd_task p (\<lambda>t. t\<lparr>on_rq := True\<rparr>) t)"
    "sched_but None (upd_task p (\<lambda>t. t\<lparr>on_rq := True\<rparr>) t)"
    using activate_task_ok [OF assms] by blast
  let ?u = "upd_task p (\<lambda>t. t\<lparr>on_rq := True\<rparr>) t"
  obtain v where v: "check_preempt_curr K p WF_FORK ?u = Some v" "ext_keep ?u v"
    using check_preempt_curr_ok [OF K] by blast
  show ?thesis
    using t(1) v(1) sched_but_keep [OF v(2) t(3)] wake_rel_trans [OF t(2) wake_rel_keep [OF v(2)]] ext_keepD(7) [OF v(2), of p]
    by (simp add: wake_up_new_task_def)
qed

section \<open>Picking and switching\<close>

lemma pick_class_loop_rank:
  assumes "ext_ok K"
  shows "pick_class_loop K stop_sched_class s = Option.bind (class_pick_next_task K stop_sched_class s)
      (\<lambda>r. case fst r of Some p \<Rightarrow> Some (p, snd r) | None \<Rightarrow> pick_class_loop K rt_sched_class (snd r))"
    "pick_class_loop K rt_sched_class s = Option.bind (class_pick_next_task K rt_sched_class s)
      (\<lambda>r. case fst r of Some p \<Rightarrow> Some (p, snd r) | None \<Rightarrow> pick_class_loop K wrr_sched_class (snd r))"
    "pick_class_loop K wrr_sched_class s = Option.bind (class_pick_next_task K wrr_sched_class s)
      (\<lambda>r. case fst r of Some p \<Rightarrow> Some (p, snd r) | None \<Rightarrow> pick_class_loop K fair_sched_class (snd r))"
    "pick_class_loop K fair_sched_class s = Option.bind (class_pick_next_task K fair_sched_class s)
      (\<lambda>r. case fst r of Some p \<Rightarrow> Some (p, snd r) | None \<Rightarrow> pick_class_loop K idle_sched_class (snd r))"
    "pick_class_loop K idle_sched_class s = Option.bind (class_pick_next_task K idle_sched_class s)
      (\<lambda>r. case fst r of Some p \<Rightarrow> Some (p, snd r) | None \<Rightarrow> None)"
  by (subst pick_class_loop.simps, simp add: class_next_ok [OF assms] cong: option.case_cong)+

text \<open>What picking from one class does.\<close>

definition picked :: "kstate \<Rightarrow> ptr \<Rightarrow> bool" where
  "picked s p \<longleftrightarrow> (class_of s p = rt_sched_class \<longrightarrow> rt_queued s p) \<and>
     (class_of s p = wrr_sched_class \<longrightarrow> p \<in> set (wq s)) \<and>
     (class_of s p \<in> {stop_sched_class, fair_sched_class} \<longrightarrow> on_rq (tasks s p))"

lemma pick_next_task_rt_keep:
  assumes "pick_next_task_rt K s = Some (r, t)"
  shows "ext_keep s t"
  using assms by (auto simp: pick_next_task_rt_def Let_def bind_eq_Some_conv split: if_splits)

lemma class_pick_ok:
  assumes K: "kenv_ok K" and s: "sched_but b s" and root: "rt_root K s"
  shows "\<exists>r t. class_pick_next_task K c s = Some (r, t) \<and> ext_keep s t \<and>
    (\<forall>p. r = Some p \<longrightarrow> class_of s p = c \<and> picked s p)"
proof -
  have parts: "rt_ok s" "wrr_wf s" using s by (simp_all add: sched_but_def)
  consider "c = rt_sched_class" | "c = wrr_sched_class" | "c \<in> ext_classes" by (cases c) auto
  then show ?thesis
  proof cases
    case 1
    show ?thesis
    proof (cases "rt_nr_running (rt_rqs s (root_task_group K)) = 0 \<or> rt_rq_throttled (rt_rqs s (root_task_group K))")
      case True
      then show ?thesis using 1 by (auto simp: class_pick_next_task_def pick_next_task_rt_def Let_def)
    next
      case False
      then obtain p where p: "pick_rt_loop K s (root_task_group K) = Some p" "group_rt_rq s p = None" "rt_runnable s p"
        using pick_next_task_rt_total [OF kenv_okD(1) [OF K] parts(1) root] by blast
      have "on_rt_rq s p" using p(3) rt_chain_head [of s p]
        by (auto simp: rt_runnable_def list_all_iff split: option.splits)
      then have q: "rt_queued s p" using p(2) by (simp add: rt_queued_def)
      then have cl: "class_of s p = rt_sched_class" using s by (simp add: sched_but_def)
      have pk: "pick_next_task_rt K s = Some (Some p, upd_se p (\<lambda>e. e\<lparr>exec_start := clock_task (rq s)\<rparr>) s)"
        using False p(1) by (simp add: pick_next_task_rt_def)
      then show ?thesis using 1 q cl by (simp add: class_pick_next_task_def picked_def)
    qed
  next
    case 2
    have "\<exists>r t. pick_next_task_wrr s = Some (r, t) \<and> ext_keep s t \<and> (\<forall>p. r = Some p \<longrightarrow> p \<in> set (wq s))"
      using pick_next_task_wrr_wf [OF parts(2)] by (cases "wq s") auto
    then show ?thesis using 2 s by (auto simp: class_pick_next_task_def picked_def sched_but_def)
  next
    case 3
    note e = ext_okD [OF kenv_okD(3) [OF K] 3]
    obtain r t where rt: "ec_pick_next_task (ext_class_of K c) s = (r, t)" by fastforce
    have "ext_keep s t" using e(5) [of s] rt by simp
    moreover have "class_of s p = c \<and> (c \<noteq> idle_sched_class \<longrightarrow> on_rq (tasks s p))" if "r = Some p" for p
      using e(13) [of s p] rt that by simp
    ultimately show ?thesis using 3 rt by (auto simp: class_pick_next_task_def picked_def)
  qed
qed

lemma picked_keep: "ext_keep s t \<Longrightarrow> picked t p = picked s p"
  using ext_keepD by (simp add: picked_def)

lemma rt_root_keep: "ext_keep s t \<Longrightarrow> rt_root K t = rt_root K s"
  by (rule rt_root_links) (rule rt_links_same [OF ext_keep_same])

text \<open>The loop over the classes from a given one.\<close>

abbreviation idle_in :: "kenv \<Rightarrow> kstate \<Rightarrow> bool" where
  "idle_in K s \<equiv> class_of s (idle_task K) = idle_sched_class"

lemma pick_class_loop_ok:
  assumes K: "kenv_ok K" and s: "sched_but b s" and root: "rt_root K s" and idl: "idle_in K s"
  shows "\<exists>p t. pick_class_loop K c s = Some (p, t) \<and> ext_keep s t \<and> picked s p"
proof -
  note ok = kenv_okD(3) [OF K]
  define P where "P c \<longleftrightarrow> (\<forall>s. sched_but b s \<and> rt_root K s \<and> idle_in K s \<longrightarrow>
    (\<exists>p t. pick_class_loop K c s = Some (p, t) \<and> ext_keep s t \<and> picked s p))" for c
  have step: "P c" if nx: "class_next K c = Some d" and ih: "P d" for c d
    unfolding P_def
  proof (intro allI impI)
    fix s assume bs: "sched_but b s \<and> rt_root K s \<and> idle_in K s"
    then obtain r t where r: "class_pick_next_task K c s = Some (r, t)" "ext_keep s t" "\<And>p. r = Some p \<Longrightarrow> picked s p"
      using class_pick_ok [OF K, of b s c] by blast
    have "sched_but b t \<and> rt_root K t \<and> idle_in K t"
      using bs sched_but_keep [OF r(2)] rt_root_keep [OF r(2)] ext_keepD(6) [OF r(2), of "idle_task K"] by simp
    then obtain p u where u: "pick_class_loop K d t = Some (p, u)" "ext_keep t u" "picked t p"
      using ih unfolding P_def by blast
    have "ext_keep s u" by (rule ext_keep_trans [OF r(2) u(2)])
    with r u picked_keep [OF r(2), of p] nx
    show "\<exists>p t. pick_class_loop K c s = Some (p, t) \<and> ext_keep s t \<and> picked s p"
      by (subst pick_class_loop.simps) (cases r, auto)
  qed
  have idle: "P idle_sched_class"
    unfolding P_def
  proof (intro allI impI)
    fix s assume bs: "sched_but b s \<and> rt_root K s \<and> idle_in K s"
    then obtain r t where r: "class_pick_next_task K idle_sched_class s = Some (r, t)" "ext_keep s t"
      "\<And>p. r = Some p \<Longrightarrow> picked s p"
      using class_pick_ok [OF K, of b s idle_sched_class] by blast
    have "fst (ec_pick_next_task (ext_class_of K idle_sched_class) s) \<noteq> None"
      using ok bs by (simp add: ext_ok_def)
    then have "r \<noteq> None" using r(1) by (auto simp: class_pick_next_task_def)
    with r show "\<exists>p t. pick_class_loop K idle_sched_class s = Some (p, t) \<and> ext_keep s t \<and> picked s p"
      by (subst pick_class_loop.simps) auto
  qed
  note fair = step [OF class_next_ok(4) [OF ok] idle]
  note wrr = step [OF class_next_ok(3) [OF ok] fair]
  note rt = step [OF class_next_ok(2) [OF ok] wrr]
  note stop = step [OF class_next_ok(1) [OF ok] rt]
  have "P c" using stop rt wrr fair idle by (cases c) simp_all
  then show ?thesis using s root idl unfolding P_def by blast
qed

lemma pick_next_task_ok:
  assumes K: "kenv_ok K" and s: "sched_but b s" and root: "rt_root K s" and idl: "idle_in K s"
  shows "\<exists>p t. pick_next_task K s = Some (p, t) \<and> ext_keep s t \<and> picked s p"
proof (cases "nr_running (rq s) = cfs_h_nr_running (rq s)")
  case False
  then show ?thesis using pick_class_loop_ok [OF assms] by (simp add: pick_next_task_def)
next
  case True
  obtain r t where rt: "ec_pick_next_task (ext_class_of K fair_sched_class) s = (r, t)" by fastforce
  have k: "ext_keep s t" using ext_okD(5) [OF kenv_okD(3) [OF K], of fair_sched_class s] rt by simp
  have pk: "picked s p" if "r = Some p" for p
    using ext_okD(13) [OF kenv_okD(3) [OF K], of fair_sched_class s p] rt that by (simp add: picked_def)
  obtain p u where u: "pick_class_loop K stop_sched_class t = Some (p, u)" "ext_keep t u" "picked t p"
    using pick_class_loop_ok [OF K sched_but_keep [OF k s]] rt_root_keep [OF k] root idl
      ext_keepD(6) [OF k, of "idle_task K"] by metis
  have "ext_keep s u" by (rule ext_keep_trans [OF k u(2)])
  then show ?thesis using True rt k pk u picked_keep [OF k, of p] by (cases r) (auto simp: pick_next_task_def)
qed

lemma deactivate_task_ok:
  assumes K: "kenv_ok K" and s: "sched_but None s"
    and on: "class_of s p \<in> {rt_sched_class, wrr_sched_class} \<Longrightarrow> on_rq (tasks s p)"
  shows "\<exists>t. deactivate_task K p f s = Some t \<and> rt_links s t \<and> curr (rq t) = curr (rq s) \<and>
    (\<forall>x. core3 (tasks t x) = core3 (tasks s x)) \<and> sched_but (Some p) t"
proof -
  define s1 where "s1 = (if task_contributes_to_load (tasks s p)
      then s\<lparr>rq := (rq s)\<lparr>nr_uninterruptible := nr_uninterruptible (rq s) + 1\<rparr>\<rparr> else s)"
  define s2 where "s2 = emit (SchedInfoDequeued p) (update_rq_clock K s1)"
  have k1: "ext_keep s s1" by (simp add: s1_def)
  have k2: "ext_keep s s2"
    unfolding s2_def by (rule ext_keep_trans [OF ext_keep_trans [OF k1 ext_keep_upds(1)] ext_keep_upds(2)])
  have "class_of s2 p \<in> {rt_sched_class, wrr_sched_class} \<longrightarrow> on_rq (tasks s2 p)"
    using on ext_keepD(6,7) [OF k2] by simp
  then obtain t where t: "class_dequeue_task K (class_of s2 p) p f s2 = Some t" "curr (rq t) = curr (rq s2)"
    "rt_links s2 t" "\<forall>x. core3 (tasks t x) = core3 (tasks s2 x)" "sched_but (Some p) t"
    using class_dequeue_ok [OF K sched_but_keep [OF k2 s]] by blast
  have "deactivate_task K p f s = Some t"
    using t(1) by (simp add: deactivate_task_def dequeue_task_def s1_def s2_def Let_def)
  moreover have "rt_links s t" using rt_links_trans [OF rt_links_same [OF ext_keep_same [OF k2]] t(3)] .
  ultimately show ?thesis using t k2 by (simp add: ext_keep_def)
qed

lemma put_prev_task_ok:
  assumes K: "kenv_ok K" and b: "sched_but b s"
  shows "\<exists>t. put_prev_task K p s = Some t \<and> sched_but b t \<and> rt_links s t \<and> curr (rq t) = curr (rq s) \<and>
    (\<forall>x. core3 (tasks t x) = core3 (tasks s x))"
proof -
  define s1 where "s1 = (if on_rq (tasks s p) \<or> skip_clock_update (rq s) < 0 then update_rq_clock K s else s)"
  have k: "ext_keep s s1" by (simp add: s1_def)
  obtain t where t: "class_put_prev_task K (class_of s1 p) p s1 = Some t" "sched_but b t" "rt_links s1 t"
    "curr (rq t) = curr (rq s1)" "\<forall>x. core3 (tasks t x) = core3 (tasks s1 x)"
    using class_put_prev_ok [OF K sched_but_keep [OF k b]] by blast
  have "put_prev_task K p s = Some t" using t(1) by (simp add: put_prev_task_def s1_def Let_def)
  then show ?thesis
    using t k rt_links_trans [OF rt_links_same [OF ext_keep_same [OF k]] t(3)] by (simp add: ext_keep_def)
qed

lemma switch_to_curr: "curr (rq (switch_to prev vol next s)) = (if prev = next then curr (rq s) else next)"
  by (simp add: switch_to_def Let_def)

lemma switch_to_core3: "core3 (tasks (switch_to prev vol next s) x) = core3 (tasks s x)"
  by (simp add: switch_to_def Let_def core3_def task_params_def)

lemma sched_but_switch: "sched_but b s \<Longrightarrow> sched_but b (switch_to prev vol next s)"
proof (rule sched_but_wrr [OF _ _ _ switch_to_core3])
  have q: "rq_wrr (rq (switch_to prev vol next s)) = rq_wrr (rq s)" by (simp add: switch_to_def Let_def)
  then show "set (wq (switch_to prev vol next s)) = set (wq s)" by simp
  show "wrr_wf (switch_to prev vol next s)" if "sched_but b s"
    using wrr_wf_cong [OF q] that by (simp add: sched_but_def)
  show "rt_same (switch_to prev vol next s) s" by (simp add: rt_same_def switch_to_def Let_def)
qed

lemma switch_to_links: "rt_links s (switch_to prev vol next s)"
  by (simp add: rt_links_def switch_to_def Let_def)

lemma sched_out_ok:
  assumes K: "kenv_ok K" and s: "sched_but None s"
    and on: "curr_ok s"
  shows "\<exists>v t. sched_out K (curr (rq s)) s = Some (v, t) \<and> sched_but None t \<and> rt_links s t \<and> curr (rq t) = curr (rq s) \<and>
    same_params s t"
proof -
  let ?p = "curr (rq s)"
  have sig: "sched_but None (upd_task ?p (\<lambda>t. t\<lparr>tstate := TASK_RUNNING\<rparr>) s)"
    by (rule sched_but_keep [OF ext_keep_upds(8) s]) (simp add: core3_def task_params_def)
  obtain t where t: "deactivate_task K ?p DEQUEUE_SLEEP s = Some t" "rt_links s t" "curr (rq t) = curr (rq s)"
    "sched_but (Some ?p) t" "\<forall>x. core3 (tasks t x) = core3 (tasks s x)"
    using deactivate_task_ok [OF K s, of ?p DEQUEUE_SLEEP] on by (fastforce simp: curr_ok_def)
  have tc: "same_params s t" using t(5) by (intro same_params_core3) simp
  let ?u = "upd_task ?p (\<lambda>t. t\<lparr>on_rq := False\<rparr>) t"
  have u: "sched_but None ?u" by (rule sched_but_set_off [OF t(4)])
  have ul: "rt_links s ?u" "same_params s ?u"
    using t(2) tc by (simp_all add: rt_links_def same_params_def task_params_def)
  have loc: "\<exists>v. try_to_wake_up_local K w ?u = Some v \<and> sched_but None v \<and> rt_links s v \<and> curr (rq v) = ?p \<and>
      same_params s v" for w
    using try_to_wake_up_local_ok [OF K u, of w] rt_links_trans [OF ul(1)] same_params_trans [OF ul(2)] t(3) wake_rel_params
    by (auto simp: wake_rel_def)
  have "\<exists>v. (if tflags (tasks ?u ?p) AND PF_WQ_WORKER \<noteq> 0
       then (case wq_worker_sleeping K ?p ?u of Some w \<Rightarrow> try_to_wake_up_local K w ?u | None \<Rightarrow> Some ?u)
       else Some ?u) = Some v \<and> sched_but None v \<and> rt_links s v \<and> curr (rq v) = ?p \<and>
      same_params s v"
    using loc u ul t(3) by (cases "wq_worker_sleeping K ?p ?u") auto
  then obtain v where v: "(if tflags (tasks ?u ?p) AND PF_WQ_WORKER \<noteq> 0
       then (case wq_worker_sleeping K ?p ?u of Some w \<Rightarrow> try_to_wake_up_local K w ?u | None \<Rightarrow> Some ?u)
       else Some ?u) = Some v" "sched_but None v" "rt_links s v" "curr (rq v) = ?p"
    "same_params s v" by blast
  have out: "(if signal_pending_state K (tstate (tasks s ?p)) ?p s
      then Some (upd_task ?p (\<lambda>t. t\<lparr>tstate := TASK_RUNNING\<rparr>) s)
      else do { s11 \<leftarrow> deactivate_task K ?p DEQUEUE_SLEEP s;
                let s12 = upd_task ?p (\<lambda>t. t\<lparr>on_rq := False\<rparr>) s11;
                if tflags (tasks s12 ?p) AND PF_WQ_WORKER \<noteq> 0
                then (case wq_worker_sleeping K ?p s12 of Some w \<Rightarrow> try_to_wake_up_local K w s12 | None \<Rightarrow> Some s12)
                else Some s12 }) =
      (if signal_pending_state K (tstate (tasks s ?p)) ?p s
       then Some (upd_task ?p (\<lambda>t. t\<lparr>tstate := TASK_RUNNING\<rparr>) s) else Some v)"
    using v(1) t(1) by (simp add: Let_def)
  show ?thesis
    unfolding sched_out_def Let_def
    using out [unfolded Let_def] sig v(2-5) s by (auto simp: rt_links_def same_params_def task_params_def)
qed

text \<open>A pass of \<^verbatim>\<open>__schedule\<close> returns and keeps the invariant.\<close>

lemma schedule_pass_ok:
  assumes K: "kenv_ok K" and s: "sched_ok s" and root: "rt_root K s" and idl: "idle_in K s"
  shows "\<exists>t. schedule_pass K s = Some t \<and> sched_ok t \<and> rt_links s t \<and> same_params s t"
proof -
  let ?s1 = "schedule_debug s" and ?p = "curr (rq s)"
  have k: "ext_keep s ?s1" by (rule ext_keep_upds)
  have s1: "sched_but None ?s1" "curr_ok ?s1" using sched_ok_keep [OF k s] by (simp_all add: sched_ok_def)
  have c1: "curr (rq ?s1) = ?p" using k by (simp add: ext_keep_def)
  obtain v s2 where s2: "sched_out K ?p ?s1 = Some (v, s2)" "sched_but None s2" "rt_links ?s1 s2" "curr (rq s2) = ?p"
    "same_params ?s1 s2"
    using sched_out_ok [OF K s1] c1 by auto
  obtain s3 where s3: "put_prev_task K ?p s2 = Some s3" "sched_but None s3" "rt_links s2 s3" "curr (rq s3) = ?p"
    "\<forall>x. core3 (tasks s3 x) = core3 (tasks s2 x)"
    using put_prev_task_ok [OF K s2(2), of ?p] s2(4) by auto
  have links: "rt_links s s3"
    using rt_links_trans [OF rt_links_trans [OF rt_links_same [OF ext_keep_same [OF k]] s2(3)] s3(3)] .
  then have root3: "rt_root K s3" using rt_root_links root by blast
  have "same_params s2 s3" using s3(5) by (intro same_params_core3) simp
  then have pa: "same_params s s3" using same_params_trans same_params_keep [OF k] s2(5) by blast
  then have cl: "class_of s3 x = class_of s x" for x by (rule same_paramsD)
  obtain n s4 where s4: "pick_next_task K s3 = Some (n, s4)" "ext_keep s3 s4" "picked s3 n"
    using pick_next_task_ok [OF K s3(2) root3] cl idl by auto
  let ?t = "switch_to ?p v n s4"
  have b: "sched_but None ?t" by (rule sched_but_switch [OF sched_but_keep [OF s4(2) s3(2)]])
  have "curr (rq ?t) = n" using s4(2) s3(4) by (simp add: switch_to_curr ext_keep_def)
  moreover have "class_of ?t n = class_of s3 n" "on_rq (tasks ?t n) = on_rq (tasks s3 n)"
    using switch_to_core3 [of ?p v n s4 n] s4(2) by (simp_all add: core3_def task_params_def ext_keep_def)
  ultimately have "curr_ok ?t" using s4(3) s3(2)
    by (cases "class_of s3 n") (auto simp: curr_ok_def picked_def sched_but_def)
  moreover have "rt_links s ?t"
    using rt_links_trans [OF rt_links_trans [OF links rt_links_same [OF ext_keep_same [OF s4(2)]]] switch_to_links] .
  moreover have "same_params s ?t"
    using same_params_trans [OF same_params_trans [OF pa same_params_keep [OF s4(2)]] same_params_core3 [OF switch_to_core3]] .
  ultimately show ?thesis using s2(1) s3(1) s4(1) b by (simp add: schedule_pass_def sched_ok_def)
qed

lemma scheduler_tick_ok:
  assumes K: "kenv_ok K" and s: "sched_ok s"
  shows "\<exists>t. scheduler_tick K s = Some t \<and> sched_ok t \<and> rt_links s t \<and> same_params s t"
proof -
  let ?s1 = "emit UpdateCpuLoadActive (update_rq_clock K s)"
  have k: "ext_keep s ?s1" by (rule ext_keep_trans [OF ext_keep_upds(1,2)])
  have c: "curr (rq s) = curr (rq ?s1)" using k by (simp add: ext_keep_def)
  obtain t where t: "class_task_tick K (class_of ?s1 (curr (rq s))) (curr (rq s)) ?s1 = Some t" "sched_ok t" "rt_links ?s1 t"
    "same_params ?s1 t"
    using class_task_tick_ok [OF K sched_ok_keep [OF k s] c] by blast
  show ?thesis
    using t rt_links_trans [OF rt_links_same [OF ext_keep_same [OF k]] t(3)] same_params_trans [OF same_params_keep [OF k] t(4)]
    by (simp add: scheduler_tick_def Let_def)
qed

end
