(* ===== verification/Core_Props.thy ===== *)
theory Core_Props
  imports Core_Steps
begin

text \<open>
  The properties of the scheduler as a whole: every reachable state is consistent and every entry point
  returns, the classes are served in their order, a task of a higher class preempts, wakeups queue the
  task, and the weighted round-robin rotation as the tick and \<^verbatim>\<open>__schedule\<close> carry it out together.
\<close>

section \<open>Steps of the scheduler\<close>

inductive sched_step :: "kenv \<Rightarrow> kstate \<Rightarrow> kstate \<Rightarrow> bool" for K where
  wake: "try_to_wake_up K p st w s = Some (b, t) \<Longrightarrow> sched_step K s t"
| new: "\<not> on_rq (tasks s p) \<Longrightarrow> wake_up_new_task K p s = Some t \<Longrightarrow> sched_step K s t"
| tick: "scheduler_tick K s = Some t \<Longrightarrow> sched_step K s t"
| sched: "schedule_pass K s = Some t \<Longrightarrow> sched_step K s t"
| yield: "class_yield_task K (class_of s (curr (rq s))) s = Some t \<Longrightarrow> sched_step K s t"
| timer: "do_sched_rt_period_timer K tg overrun s = Some (b, t) \<Longrightarrow> sched_step K s t"
| task_state: "sched_step K s (upd_task p (\<lambda>t. t\<lparr>tstate := x\<rparr>) s)"

inductive sched_reachable :: "kenv \<Rightarrow> kstate \<Rightarrow> kstate \<Rightarrow> bool" for K s where
  start: "sched_reachable K s s"
| step: "sched_reachable K s t \<Longrightarrow> sched_step K t u \<Longrightarrow> sched_reachable K s u"

definition boot_ok :: "kenv \<Rightarrow> kstate \<Rightarrow> bool" where
  "boot_ok K s \<longleftrightarrow> rt_root K s \<and> idle_in K s"

lemma boot_ok_links:
  "boot_ok K s \<Longrightarrow> rt_links s t \<Longrightarrow> (\<And>x. class_of t x = class_of s x) \<Longrightarrow> boot_ok K t"
  using rt_root_links by (simp add: boot_ok_def)

lemma sched_step_kept:
  assumes K: "kenv_ok K" and step: "sched_step K s t" and ok: "sched_ok s" and boot: "boot_ok K s"
  shows "sched_ok t \<and> rt_links s t \<and> same_params s t"
proof -
  have s: "sched_but None s" "curr_ok s" using ok by (simp_all add: sched_ok_def)
  show ?thesis
    using step
  proof cases
    case (wake p st w b)
    then show ?thesis using try_to_wake_up_ok [OF K s(1), of p st w] wake_rel_curr_ok [OF _ s(2)]
      by (auto simp: sched_ok_def wake_rel_def same_params_def)
  next
    case (new p)
    then show ?thesis using wake_up_new_task_ok [OF K s(1) new(1)] wake_rel_curr_ok [OF _ s(2)]
      by (auto simp: sched_ok_def wake_rel_def same_params_def)
  next
    case tick
    then show ?thesis using scheduler_tick_ok [OF K ok] by auto
  next
    case sched
    then show ?thesis using schedule_pass_ok [OF K ok] boot by (auto simp: boot_ok_def)
  next
    case yield
    then show ?thesis using class_yield_ok [OF K ok] by auto
  next
    case (timer tg overrun b)
    have "rt_ok s" using s(1) by (simp add: sched_but_def)
    then have t: "rt_ok t" "rt_kept s t"
      using do_sched_rt_period_timer_ok [OF kenv_okD(1) [OF K], of s tg overrun] timer by auto
    note k = rt_kept_step [OF t(2)]
    have "curr_ok t" using s(2) k by (auto simp: curr_ok_def rt_step_kept_def task_core_def task_params_def)
    then show ?thesis using sched_but_rt [OF t(1) k s(1)] same_params_rt [OF k] k by (simp add: sched_ok_def rt_step_kept_def)
  next
    case (task_state p x)
    have k: "ext_keep s t" unfolding task_state by (rule ext_keep_upds) (simp add: core3_def task_params_def)
    then show ?thesis
      using sched_ok_keep [OF k ok] rt_links_same [OF ext_keep_same [OF k]] same_params_keep [OF k] by simp
  qed
qed

lemma sched_step_ok:
  assumes "kenv_ok K" and "sched_step K s t" and "sched_ok s" and "boot_ok K s"
  shows "sched_ok t \<and> boot_ok K t"
  using sched_step_kept [OF assms] boot_ok_links [OF assms(4)] by (simp add: same_params_def)

lemma sched_reachable_inv:
  assumes "sched_reachable K s t" and "kenv_ok K" and "sched_ok s" and "boot_ok K s"
  shows "sched_ok t \<and> boot_ok K t"
  using assms(1) by induction (use assms sched_step_ok in blast)+

section \<open>Switching between weighted round-robin tasks\<close>

text \<open>Nothing above the weighted round-robin class can run, and not all tasks are in the fair class.\<close>

definition wrr_turn :: "kenv \<Rightarrow> kstate \<Rightarrow> bool" where
  "wrr_turn K s \<longleftrightarrow> (\<forall>s. ec_pick_next_task (ext_class_of K stop_sched_class) s = (None, s)) \<and>
     (rt_nr_running (rt_rqs s (root_task_group K)) = 0 \<or> rt_rq_throttled (rt_rqs s (root_task_group K))) \<and>
     nr_running (rq s) \<noteq> cfs_h_nr_running (rq s)"

lemma wrr_turn_cong:
  "rt_rqs t = rt_rqs s \<Longrightarrow> nr_running (rq t) = nr_running (rq s) \<Longrightarrow>
   cfs_h_nr_running (rq t) = cfs_h_nr_running (rq s) \<Longrightarrow> wrr_turn K s \<Longrightarrow> wrr_turn K t"
  by (simp add: wrr_turn_def)

lemma pick_next_task_wrr_turn:
  assumes "ext_ok K" and "wrr_turn K s" and "wrr_wf s" and "wq s = n # ns"
  shows "pick_next_task K s = Some (n, upd_se n (\<lambda>e. e\<lparr>exec_start := clock_task (rq s)\<rparr>) s)"
proof -
  have "pick_next_task_rt K s = Some (None, s)"
    using assms(2) by (auto simp: wrr_turn_def pick_next_task_rt_def Let_def)
  then show ?thesis
    using assms(2,4) pick_next_task_wrr_wf [OF assms(3)]
    by (simp add: wrr_turn_def pick_next_task_def pick_class_loop_rank [OF assms(1)] class_pick_next_task_def)
qed

lemma update_rq_clock_simps [simp]:
  "tasks (update_rq_clock K s) = tasks s" "rt_rqs (update_rq_clock K s) = rt_rqs s"
  "rq_wrr (rq (update_rq_clock K s)) = rq_wrr (rq s)" "curr (rq (update_rq_clock K s)) = curr (rq s)"
  "nr_running (rq (update_rq_clock K s)) = nr_running (rq s)"
  "cfs_h_nr_running (rq (update_rq_clock K s)) = cfs_h_nr_running (rq s)"
  by (simp_all add: update_rq_clock_def update_rq_clock_task_def Let_def)

lemma wrr_parts_frame [simp]:
  "tstate (tasks (update_curr_wrr K s) q) = tstate (tasks s q)"
  "tstate (tasks (watchdog K p s) q) = tstate (tasks s q)"
  "tstate (tasks (refill_wrr K p s) q) = tstate (tasks s q)"
  "rt_rqs (watchdog K p s) = rt_rqs s" "rt_rqs (refill_wrr K p s) = rt_rqs s"
  "rt_rqs (requeue_task_wrr K p h s) = rt_rqs s"
  "cfs_h_nr_running (rq (requeue_task_wrr K p h s)) = cfs_h_nr_running (rq s)"
  by (simp_all add: update_curr_wrr_def watchdog_def refill_wrr_def requeue_task_wrr_def set_wrr_rq_def Let_def)

lemma task_tick_wrr_more [simp]:
  "tstate (tasks (task_tick_wrr K p s) q) = tstate (tasks s q)"
  "rt_rqs (task_tick_wrr K p s) = rt_rqs s"
  "cfs_h_nr_running (rq (task_tick_wrr K p s)) = cfs_h_nr_running (rq s)"
  by (simp_all add: task_tick_wrr_def Let_def)

lemma put_prev_task_wrr_simps [simp]:
  "rq (put_prev_task_wrr K p s) = rq s" "rt_rqs (put_prev_task_wrr K p s) = rt_rqs s"
  by (simp_all add: put_prev_task_wrr_def)

lemma put_prev_task_wrr_task [simp]:
  "on_rq (tasks (put_prev_task_wrr K p s) q) = on_rq (tasks s q)" "nvcsw (tasks (put_prev_task_wrr K p s) q) = nvcsw (tasks s q)"
  "need_resched (tasks (put_prev_task_wrr K p s) q) = need_resched (tasks s q)"
proof -
  have "nvcsw (tasks (update_curr_wrr K s) x) = nvcsw (tasks s x)" for x by (simp add: update_curr_wrr_def Let_def)
  then show "on_rq (tasks (put_prev_task_wrr K p s) q) = on_rq (tasks s q)" "nvcsw (tasks (put_prev_task_wrr K p s) q) = nvcsw (tasks s q)"
    "need_resched (tasks (put_prev_task_wrr K p s) q) = need_resched (tasks s q)"
    by (simp_all add: put_prev_task_wrr_def)
qed

lemma switch_to_simps:
  "wq (switch_to c v n s) = wq s" "c \<noteq> n \<Longrightarrow> curr (rq (switch_to c v n s)) = n"
  "nr_running (rq (switch_to c v n s)) = nr_running (rq s)"
  "on_rq (tasks (switch_to c v n s) q) = on_rq (tasks s q)"
  "need_resched (tasks (switch_to c v n s) q) = (q \<noteq> c \<and> need_resched (tasks s q))"
  "c \<noteq> n \<Longrightarrow> nvcsw (tasks (switch_to c v n s) c) = (if v then nvcsw (tasks s c) + 1 else nvcsw (tasks s c))"
  "c \<noteq> n \<Longrightarrow> trace (switch_to c v n s) = ContextSwitch c n # trace s"
  by (simp_all add: switch_to_def Let_def)

text \<open>The second half of a pass, from a state in which the next task is the head of the queue.\<close>

lemma wrr_switch:
  assumes "ext_ok K" and "wrr_turn K s2" and "wrr_wf s2" and "wq s2 = n # ns"
    and "class_of s2 c = wrr_sched_class" and "curr (rq s2) = c" and "c \<noteq> n"
  shows "\<exists>s4. do { s3 \<leftarrow> put_prev_task K c s2; (next, s4) \<leftarrow> pick_next_task K s3; Some (switch_to c v next s4) } =
      Some (switch_to c v n s4) \<and> wq s4 = wq s2 \<and> nr_running (rq s4) = nr_running (rq s2) \<and>
      (\<forall>q. on_rq (tasks s4 q) = on_rq (tasks s2 q)) \<and> (\<forall>q. nvcsw (tasks s4 q) = nvcsw (tasks s2 q)) \<and>
      (\<forall>q. need_resched (tasks s4 q) = need_resched (tasks s2 q))"
proof -
  define s2' where "s2' = (if on_rq (tasks s2 c) \<or> skip_clock_update (rq s2) < 0 then update_rq_clock K s2 else s2)"
  have e: "tasks s2' = tasks s2" "rt_rqs s2' = rt_rqs s2" "rq_wrr (rq s2') = rq_wrr (rq s2)" "curr (rq s2') = curr (rq s2)"
    "nr_running (rq s2') = nr_running (rq s2)" "cfs_h_nr_running (rq s2') = cfs_h_nr_running (rq s2)"
    by (simp_all add: s2'_def)
  let ?s3 = "put_prev_task_wrr K c s2'"
  have pp: "put_prev_task K c s2 = Some ?s3"
    using assms(5) e(1) by (simp add: put_prev_task_def s2'_def [symmetric] class_put_prev_task_def Let_def)
  have "wrr_turn K ?s3" by (rule wrr_turn_cong [OF _ _ _ assms(2)]) (simp_all add: e)
  moreover have "wrr_wf ?s3" using assms(3) wrr_wf_cong [of ?s3 s2] by (simp add: e)
  ultimately have pk: "pick_next_task K ?s3 = Some (n, upd_se n (\<lambda>e. e\<lparr>exec_start := clock_task (rq ?s3)\<rparr>) ?s3)"
    using assms(4) by (intro pick_next_task_wrr_turn [OF assms(1)]) (simp_all add: e)
  let ?s4 = "upd_se n (\<lambda>e. e\<lparr>exec_start := clock_task (rq ?s3)\<rparr>) ?s3"
  have "do { s3 \<leftarrow> put_prev_task K c s2; (next, s4) \<leftarrow> pick_next_task K s3; Some (switch_to c v next s4) } = Some (switch_to c v n ?s4)"
    by (simp only: pp pk bind.bind_lunit case_prod_conv)
  moreover have "wq ?s4 = wq s2" "nr_running (rq ?s4) = nr_running (rq s2)" "on_rq (tasks ?s4 q) = on_rq (tasks s2 q)"
    "nvcsw (tasks ?s4 q) = nvcsw (tasks s2 q)" "need_resched (tasks ?s4 q) = need_resched (tasks s2 q)" for q
    by (simp_all add: e)
  ultimately show ?thesis by blast
qed

section \<open>A sample state\<close>

definition sample_sched0 :: "bool \<Rightarrow> kstate" where
  "sample_sched0 thr = (sample_rt0 thr)\<lparr>tasks := (tasks (sample_rt0 thr))
       (30 := (tasks (sample_rt0 thr) 30)\<lparr>sched_class := fair_sched_class\<rparr>),
     rq := (rq (sample_rt0 thr))\<lparr>curr := (if thr then 10 else 31)\<rparr>\<rparr>"

abbreviation sample_sched :: kstate where
  "sample_sched \<equiv> sample_sched0 False"

lemma sample_ext_ok: "ext_ok sample_env"
proof -
  have keep: "ext_keep s (inc_nr_running s)" "ext_keep s (dec_nr_running s)"
    "ext_keep s (inc_nr_running (s\<lparr>rq := (rq s)\<lparr>cfs_h_nr_running := n\<rparr>\<rparr>))"
    "ext_keep s (dec_nr_running (s\<lparr>rq := (rq s)\<lparr>cfs_h_nr_running := n\<rparr>\<rparr>))" for s n
    by (simp_all add: ext_keep_def inc_nr_running_def dec_nr_running_def)
  have "ext_class_ok stop_sched_class (sample_ext stop_sched_class)"
    "ext_class_ok fair_sched_class (sample_ext fair_sched_class)"
    "ext_class_ok idle_sched_class (sample_ext idle_sched_class)"
    by (auto simp: ext_class_ok_def sample_class_def sample_fair_def sample_idle_def keep split: if_splits)
  then show ?thesis
    by (simp add: ext_ok_def sample_env_def) (simp add: sample_class_def sample_fair_def sample_idle_def)
qed

lemma sample_kenv_ok [simp]: "kenv_ok sample_env"
  by (simp add: kenv_ok_def sample_ext_ok)

lemma sample_sched_task:
  "tasks (sample_sched0 thr) p = (if p = 30 then (sample_task rt_sched_class 1 50 100 0)\<lparr>sched_class := fair_sched_class\<rparr>
     else if p = 31 \<or> p = 32 then sample_task rt_sched_class 2 50 101 0 else sample_tasks p)"
  "rq (sample_sched0 thr) = sample_rq\<lparr>curr := (if thr then 10 else 31)\<rparr>"
  by (simp_all add: sample_sched0_def sample_rt0_def sample_tasks_def)

lemma sample_sched_same: "rt_same (sample_sched0 thr) (sample_rt0 thr)"
  by (simp add: rt_same_def sample_sched0_def)

lemma sample_sched_ok [simp]: "sched_ok (sample_sched0 thr)" "boot_ok sample_env (sample_sched0 thr)"
proof -
  note f = rt_same_facts [OF sample_sched_same]
  have cl: "class_of (sample_sched0 thr) q = rt_sched_class \<longleftrightarrow> q = 31 \<or> q = 32"
    "class_of (sample_sched0 thr) q = wrr_sched_class \<longleftrightarrow> q \<in> {10, 11, 12}" for q
    by (auto simp: sample_sched_task sample_tasks_def sample_task_def)
  have on: "on_rq (tasks (sample_sched0 thr) q)" for q
    by (simp add: sample_sched_task sample_tasks_def sample_task_def)
  have q: "rt_queued (sample_sched0 thr) q \<longleftrightarrow> q = 31 \<or> q = 32" for q
    by (auto simp: rt_queued_def f sample_rt_on)
  have w: "wq (sample_sched0 thr) = [10, 11, 12]" "wrr_wf (sample_sched0 thr)"
    by (simp_all add: sample_sched_task sample_rq_def wrr_wf_def)
  have v: "rt_valid (sample_sched0 thr) 31" "rt_valid (sample_sched0 thr) 32"
    by (simp_all add: rt_valid_def f sample_sched_task sample_task_def sched_consts)
  have "rt_ok (sample_sched0 thr)" using rt_same_inv(4) [OF sample_sched_same] by simp
  then have "sched_but None (sample_sched0 thr)"
    unfolding sched_but_def cl q w(1) using on v w(2) by auto
  then show "sched_ok (sample_sched0 thr)" using on by (simp add: sched_ok_def curr_ok_def)
  have "rt_root sample_env (sample_sched0 thr)"
    using rt_root_links [OF rt_links_same [OF sample_sched_same], of sample_env] by simp
  then show "boot_ok sample_env (sample_sched0 thr)"
    by (simp add: boot_ok_def sample_sched_task sample_tasks_def sample_task_def) (simp add: sample_env_def)
qed

lemma sample_wrr_turn: "wrr_turn sample_env (sample_sched0 True)"
proof -
  have "rt_rqs (sample_sched0 True) 100 = sample_rtq [] 100"
    using sample_sched_same [of True] by (simp add: rt_same_def)
  then show ?thesis
    by (simp add: wrr_turn_def sample_env_def sample_sched_task)
      (simp add: sample_class_def sample_rq_def sample_rtq_def sample_rt_rq_def)
qed

section \<open>Properties\<close>

text \<open>In every state reached by wakeups, new tasks, ticks, yields, period timers and \<^verbatim>\<open>__schedule\<close>, the
  queues of both classes hold exactly the runnable tasks of the class, the current task of these
  classes is runnable, and \<^verbatim>\<open>__schedule\<close>, the tick and every wakeup return: no \<^verbatim>\<open>BUG\<close> is reached.\<close>

lemma sched_reachable_ok:
  assumes "kenv_ok K" and "sched_ok s" and "boot_ok K s" and "sched_reachable K s t"
  shows "sched_ok t \<and> (\<forall>p. p \<in> set (wq t) \<longleftrightarrow> on_rq (tasks t p) \<and> class_of t p = wrr_sched_class) \<and>
    (\<forall>p. group_rt_rq t p = None \<longrightarrow> (on_rt_rq t p \<longleftrightarrow> on_rq (tasks t p) \<and> class_of t p = rt_sched_class)) \<and>
    schedule_pass K t \<noteq> None \<and> scheduler_tick K t \<noteq> None \<and> try_to_wake_up K p st w t \<noteq> None"
proof -
  have ok: "sched_ok t" "boot_ok K t" using sched_reachable_inv [OF assms(4,1-3)] by blast+
  then have b: "sched_but None t" by (simp add: sched_ok_def)
  have "schedule_pass K t \<noteq> None" using schedule_pass_ok [OF assms(1) ok(1)] ok(2) by (auto simp: boot_ok_def)
  moreover have "scheduler_tick K t \<noteq> None" using scheduler_tick_ok [OF assms(1) ok(1)] by auto
  moreover have "try_to_wake_up K p st w t \<noteq> None" using try_to_wake_up_ok [OF assms(1) b] by fastforce
  ultimately show ?thesis using ok(1) b by (auto simp: sched_but_def rt_queued_def)
qed

lemma sched_reachable_ok_witness:
  "schedule_pass sample_env (upd_task 31 (\<lambda>t. t\<lparr>tstate := 1\<rparr>) sample_sched) \<noteq> None"
proof -
  have "sched_reachable sample_env sample_sched (upd_task 31 (\<lambda>t. t\<lparr>tstate := 1\<rparr>) sample_sched)"
    by (rule sched_reachable.step [OF sched_reachable.start sched_step.task_state])
  from sched_reachable_ok [OF sample_kenv_ok sample_sched_ok this] show ?thesis by blast
qed

text \<open>With the real-time and the weighted round-robin queue empty, the loop over the classes ends in one of the last two.\<close>

lemma pick_class_loop_last:
  assumes K: "kenv_ok K" and b: "sched_but None s" and root: "rt_root K s" and idl: "idle_in K s"
  shows "\<exists>p t. pick_class_loop K fair_sched_class s = Some (p, t) \<and> (class_of s p = fair_sched_class \<or> class_of s p = idle_sched_class)"
proof -
  note ext = kenv_okD(3) [OF K]
  obtain r t where r: "class_pick_next_task K fair_sched_class s = Some (r, t)" "ext_keep s t"
    "\<And>p. r = Some p \<Longrightarrow> class_of s p = fair_sched_class"
    using class_pick_ok [OF K b root, of fair_sched_class] by blast
  have it: "idle_in K t" "rt_root K t" using ext_keepD(6) [OF r(2)] idl root rt_root_keep [OF r(2)] by simp_all
  obtain r2 t2 where r2: "class_pick_next_task K idle_sched_class t = Some (r2, t2)"
    "\<And>p. r2 = Some p \<Longrightarrow> class_of t p = idle_sched_class"
    using class_pick_ok [OF K sched_but_keep [OF r(2) b] it(2), of idle_sched_class] by blast
  have "r2 \<noteq> None" using r2(1) ext it(1) by (auto simp: class_pick_next_task_def ext_ok_def)
  then show ?thesis
    using r r2 ext_keepD(6) [OF r(2)] by (cases r) (auto simp: pick_class_loop_rank(4,5) [OF ext])
qed

text \<open>C12: Without stop work, and when not all runnable tasks are in the fair class, \<^verbatim>\<open>pick_next_task\<close> takes the
  highest-priority real-time task if the class has one it may run, else the head of the weighted
  round-robin queue, else a task of the fair or the idle class.\<close>

theorem pick_next_order:
  assumes "kenv_ok K" and "sched_ok s" and "boot_ok K s"
    and "ec_pick_next_task (ext_class_of K stop_sched_class) s = (None, s)"
    and "nr_running (rq s) \<noteq> cfs_h_nr_running (rq s)"
  shows "\<exists>p t. pick_next_task K s = Some (p, t) \<and>
    (if rt_nr_running (rt_rqs s (root_task_group K)) \<noteq> 0 \<and> \<not> rt_rq_throttled (rt_rqs s (root_task_group K))
     then class_of s p = rt_sched_class \<and> rt_runnable s p \<and>
       (\<forall>q. group_rt_rq s q = None \<and> rt_runnable s q \<longrightarrow> prio (tasks s p) \<le> prio (tasks s q))
     else if wq s \<noteq> [] then p = hd (wq s)
     else class_of s p = fair_sched_class \<or> class_of s p = idle_sched_class)"
proof -
  note ext = kenv_okD(3) [OF assms(1)]
  have b: "sched_but None s" and root: "rt_root K s" and idl: "idle_in K s"
    using assms(2,3) by (simp_all add: sched_ok_def boot_ok_def)
  then have ok: "rt_ok s" "wrr_wf s" by (simp_all add: sched_but_def)
  have pk: "pick_next_task K s = pick_class_loop K rt_sched_class s"
    using assms(4,5) by (simp add: pick_next_task_def pick_class_loop_rank(1) [OF ext] class_pick_next_task_def)
  show ?thesis
  proof (cases "rt_nr_running (rt_rqs s (root_task_group K)) \<noteq> 0 \<and> \<not> rt_rq_throttled (rt_rqs s (root_task_group K))")
    case True
    then obtain p t where p: "pick_next_task_rt K s = Some (Some p, t)" "group_rt_rq s p = None" "rt_runnable s p"
      "\<forall>q. group_rt_rq s q = None \<and> rt_runnable s q \<longrightarrow> prio (tasks s p) \<le> prio (tasks s q)"
      using pick_next_task_rt_best [OF kenv_okD(1) [OF assms(1)] ok(1) root] by blast
    have "on_rt_rq s p" using p(3) rt_chain_head [of s p]
      by (auto simp: rt_runnable_def list_all_iff split: option.splits)
    then have "class_of s p = rt_sched_class" using b p(2) by (auto simp: sched_but_def rt_queued_def)
    then show ?thesis using True p pk by (simp add: pick_class_loop_rank(2) [OF ext] class_pick_next_task_def)
  next
    case False
    then have "pick_next_task_rt K s = Some (None, s)" by (auto simp: pick_next_task_rt_def Let_def)
    then have pk2: "pick_next_task K s = pick_class_loop K wrr_sched_class s"
      by (simp add: pk pick_class_loop_rank(2) [OF ext] class_pick_next_task_def)
    show ?thesis
    proof (cases "wq s")
      case (Cons q qs)
      then show ?thesis
        using False pk2 pick_next_task_wrr_wf [OF ok(2)]
        by (auto simp: pick_class_loop_rank(3) [OF ext] class_pick_next_task_def)
    next
      case Nil
      then have pk3: "pick_next_task K s = pick_class_loop K fair_sched_class s"
        using pk2 pick_next_task_wrr_wf [OF ok(2)]
        by (simp add: pick_class_loop_rank(3) [OF ext] class_pick_next_task_def)
      then show ?thesis using False Nil pick_class_loop_last [OF assms(1) b root idl] by auto
    qed
  qed
qed

theorem pick_next_order_witness:
  "\<exists>p t. pick_next_task sample_env sample_sched = Some (p, t) \<and> class_of sample_sched p = rt_sched_class"
proof -
  have st: "ec_pick_next_task (ext_class_of sample_env stop_sched_class) sample_sched = (None, sample_sched)"
    by (simp add: sample_env_def sample_class_def)
  have nr: "nr_running (rq sample_sched) \<noteq> cfs_h_nr_running (rq sample_sched)"
    by (simp add: sample_sched_task sample_rq_def)
  have "root_task_group sample_env = 100" by (simp add: sample_env_def)
  moreover have "rt_rqs sample_sched 100 = sample_rtq [201] 100"
    using sample_sched_same by (simp add: rt_same_def)
  ultimately have "rt_nr_running (rt_rqs sample_sched (root_task_group sample_env)) \<noteq> 0 \<and>
      \<not> rt_rq_throttled (rt_rqs sample_sched (root_task_group sample_env))"
    by (simp add: sample_rtq_def sample_rt_rq_def rt_rq_throttled_def)
  then show ?thesis using pick_next_order [OF sample_kenv_ok sample_sched_ok st nr] by auto
qed

text \<open>C13: A queue event for a task of another class asks the current task to reschedule exactly when the
  task's class comes before the current one in the order stop, real-time, weighted round-robin, fair,
  idle; and then, if the current task is runnable, the next clock update is skipped.\<close>

theorem preempt_by_class_order:
  assumes "kenv_ok K" and "class_of s p \<noteq> class_of s (curr (rq s))" and "\<not> need_resched (tasks s (curr (rq s)))"
  shows "\<exists>t. check_preempt_curr K p flags s = Some t \<and>
    (need_resched (tasks t (curr (rq s))) \<longleftrightarrow> class_of s (curr (rq s)) < class_of s p) \<and>
    skip_clock_update (rq t) =
      (if class_of s (curr (rq s)) < class_of s p \<and> on_rq (tasks s (curr (rq s)))
       then 1 else skip_clock_update (rq s)) \<and>
    (\<forall>q. q \<noteq> curr (rq s) \<longrightarrow> tasks t q = tasks s q)"
  using assms(2,3) preempt_loop_rank [OF kenv_okD(3) [OF assms(1)] assms(2)]
  by (simp add: check_preempt_curr_def Let_def)

theorem preempt_by_class_order_witness:
  "\<exists>t. check_preempt_curr sample_env 31 0 (sample_sched\<lparr>rq := (rq sample_sched)\<lparr>curr := 10\<rparr>\<rparr>) = Some t \<and>
    need_resched (tasks t 10)"
  using preempt_by_class_order [OF sample_kenv_ok, of "sample_sched\<lparr>rq := (rq sample_sched)\<lparr>curr := 10\<rparr>\<rparr>" 31 0]
  by (auto simp: sample_sched_task sample_tasks_def sample_task_def less_sched_class_def)

text \<open>C14: A wakeup succeeds exactly when the task's state matches the mask; then the task is marked runnable
  and running, and a weighted round-robin task that was asleep is queued. Otherwise nothing changes.\<close>

theorem wakeup_queues_task:
  assumes "kenv_ok K" and "sched_ok s"
  shows "\<exists>b t. try_to_wake_up K p st w s = Some (b, t) \<and> sched_ok t \<and>
    (b \<longleftrightarrow> tstate (tasks s p) AND st \<noteq> 0) \<and> (\<not> b \<longrightarrow> t = s) \<and>
    (b \<longrightarrow> on_rq (tasks t p) \<and> tstate (tasks t p) = TASK_RUNNING \<and>
      (class_of s p = wrr_sched_class \<longrightarrow> p \<in> set (wq t)) \<and>
      (class_of s p = rt_sched_class \<longrightarrow> on_rt_rq t p)) \<and>
    (\<forall>q. on_rq (tasks s q) \<longrightarrow> on_rq (tasks t q))"
proof -
  have s: "sched_but None s" "curr_ok s" using assms(2) by (simp_all add: sched_ok_def)
  obtain b t where t: "try_to_wake_up K p st w s = Some (b, t)" "sched_but None t" "wake_rel s t"
    "b \<longleftrightarrow> tstate (tasks s p) AND st \<noteq> 0" "b \<longrightarrow> on_rq (tasks t p) \<and> tstate (tasks t p) = TASK_RUNNING"
    "\<not> b \<longrightarrow> t = s"
    using try_to_wake_up_ok [OF assms(1) s(1), of p st w] by blast
  have cl: "class_of t p = class_of s p" using t(3) by (simp add: wake_rel_def)
  have "p \<in> set (wq t)" if b "class_of s p = wrr_sched_class"
    using that t(2,5) cl by (simp add: sched_but_def)
  moreover have "on_rt_rq t p" if b "class_of s p = rt_sched_class"
    using that t(2,5) cl by (auto simp: sched_but_def rt_queued_def)
  moreover have "sched_ok t" using t(2) wake_rel_curr_ok [OF t(3) s(2)] by (simp add: sched_ok_def)
  ultimately show ?thesis using t by (auto simp: wake_rel_def)
qed

theorem wakeup_queues_task_witness:
  "\<exists>t. try_to_wake_up sample_env 10 1 0 (upd_task 10 (\<lambda>t. t\<lparr>tstate := 1\<rparr>) sample_sched) = Some (True, t) \<and> 10 \<in> set (wq t)"
proof -
  let ?s = "upd_task 10 (\<lambda>t. t\<lparr>tstate := 1\<rparr>) sample_sched"
  have "ext_keep sample_sched ?s" by (rule ext_keep_upds) (simp add: core3_def task_params_def)
  from sched_ok_keep [OF this] have ok: "sched_ok ?s" by simp
  have "tstate (tasks ?s 10) AND 1 \<noteq> 0" "class_of ?s 10 = wrr_sched_class"
    by (simp_all add: sample_sched_task sample_tasks_def sample_task_def)
  then show ?thesis using wakeup_queues_task [OF sample_kenv_ok ok, of 10 1 0] by auto
qed

text \<open>C15: The rotation of the weighted round-robin class end to end: when the tick takes the last unit of the
  current task's slice and another task waits, the task is asked to reschedule and goes to the tail, and
  the next pass of \<^verbatim>\<open>__schedule\<close> switches to the task behind it, if no class above can run a task and not all runnable
  tasks are fair ones (\<open>wrr_turn\<close>).\<close>

theorem wrr_rotation:
  assumes "kenv_ok K" and "sched_ok s" and "wrr_turn K s"
    and "class_of s (curr (rq s)) = wrr_sched_class" and "policy (tasks s (curr (rq s))) = SCHED_WRR"
    and "tstate (tasks s (curr (rq s))) = TASK_RUNNING" and "slice s (curr (rq s)) = 1"
    and "wq s = curr (rq s) # q # qs"
  shows "\<exists>t u. scheduler_tick K s = Some t \<and> need_resched (tasks t (curr (rq s))) \<and>
    schedule_pass K t = Some u \<and> curr (rq u) = q \<and> wq u = q # qs @ [curr (rq s)] \<and>
    \<not> need_resched (tasks u (curr (rq s))) \<and> nr_running (rq u) = nr_running (rq s)"
proof -
  let ?c = "curr (rq s)"
  define s1 where "s1 = emit UpdateCpuLoadActive (update_rq_clock K s)"
  define t where "t = task_tick_wrr K ?c s1"
  have wf: "wrr_wf s" using assms(2) by (simp add: sched_ok_def sched_but_def)
  have s1: "tasks s1 = tasks s" "rq_wrr (rq s1) = rq_wrr (rq s)" "curr (rq s1) = ?c" "rt_rqs s1 = rt_rqs s"
    "nr_running (rq s1) = nr_running (rq s)" "cfs_h_nr_running (rq s1) = cfs_h_nr_running (rq s)"
    by (simp_all add: s1_def)
  have wf1: "wrr_wf s1" using wf wrr_wf_cong [of s1 s] s1(2) by simp
  have tick: "scheduler_tick K s = Some t"
    using assms(4) by (simp add: scheduler_tick_def Let_def class_task_tick_def t_def s1_def)
  have q: "wq t = q # qs @ [?c]"
    using wq_task_tick_wrr_expired [OF kenv_okD(2) [OF assms(1)] wf1, of ?c] assms(5,7,8) s1
    by (simp add: t_def)
  have nr: "need_resched (tasks t ?c)"
    using need_resched_task_tick_wrr [OF wf1, of ?c K] assms(5,7,8) s1 by (simp add: t_def)
  have wft: "wrr_wf t" unfolding t_def
    by (rule wrr_wf_tick [OF kenv_okD(2) [OF assms(1)] wf1]) (simp add: s1 assms(8))
  let ?s2 = "schedule_debug t"
  have s2: "tasks ?s2 = tasks t" "rq_wrr (rq ?s2) = rq_wrr (rq t)" "curr (rq ?s2) = ?c"
    "rt_rqs ?s2 = rt_rqs s" "nr_running (rq ?s2) = nr_running (rq s)" "cfs_h_nr_running (rq ?s2) = cfs_h_nr_running (rq s)"
    by (simp_all add: schedule_debug_def t_def s1)
  have st: "tstate (tasks ?s2 ?c) = 0" unfolding s2(1) using assms(6) by (simp add: t_def s1 TASK_RUNNING_def)
  have out: "sched_out K ?c ?s2 = Some (False, ?s2)"
    unfolding sched_out_def st by simp
  have ne: "?c \<noteq> q" using wf assms(8) by (auto simp: wrr_wf_def)
  have turn2: "wrr_turn K ?s2" by (rule wrr_turn_cong [OF s2(4-6) assms(3)])
  have wf2: "wrr_wf ?s2" using wft wrr_wf_cong [OF s2(2)] by simp
  have cl2: "class_of ?s2 ?c = wrr_sched_class" unfolding s2(1) using assms(4) by (simp add: t_def s1)
  have q2: "wq ?s2 = q # (qs @ [?c])" using q by (simp add: s2)
  obtain s4 where s4: "do { s3 \<leftarrow> put_prev_task K ?c ?s2; (next, s4) \<leftarrow> pick_next_task K s3; Some (switch_to ?c False next s4) } =
      Some (switch_to ?c False q s4)" "wq s4 = wq ?s2" "nr_running (rq s4) = nr_running (rq ?s2)"
    using wrr_switch [OF kenv_okD(3) [OF assms(1)] turn2 wf2 q2 cl2 s2(3) ne] by blast
  have "curr (rq t) = ?c" by (simp add: t_def s1)
  then have "schedule_pass K t = Some (switch_to ?c False q s4)" using s4(1) out by (simp add: schedule_pass_def)
  then show ?thesis using tick nr ne s4 s2 q by (simp add: switch_to_simps)
qed

theorem wrr_rotation_witness:
  "\<exists>t u. scheduler_tick sample_env (upd_wrr 10 (\<lambda>e. e\<lparr>wrr_time_slice := 1\<rparr>) (sample_sched0 True)) = Some t \<and>
     schedule_pass sample_env t = Some u \<and> curr (rq u) = 11 \<and> wq u = [11, 12, 10]"
proof -
  let ?s = "upd_wrr 10 (\<lambda>e. e\<lparr>wrr_time_slice := 1\<rparr>) (sample_sched0 True)"
  have k: "ext_keep (sample_sched0 True) ?s" unfolding upd_wrr_def by (rule ext_keep_upds) (simp add: core3_def task_params_def)
  have ok: "sched_ok ?s" using sched_ok_keep [OF k] by simp
  have tr: "wrr_turn sample_env ?s" using sample_wrr_turn by (rule wrr_turn_cong [rotated 3]) simp_all
  have st: "class_of ?s (curr (rq ?s)) = wrr_sched_class" "policy (tasks ?s (curr (rq ?s))) = SCHED_WRR"
    "tstate (tasks ?s (curr (rq ?s))) = TASK_RUNNING" "slice ?s (curr (rq ?s)) = 1" "wq ?s = curr (rq ?s) # 11 # [12]"
    by (simp_all add: sample_sched_task sample_tasks_def sample_task_def sched_consts sample_rq_def TASK_RUNNING_def)
  show ?thesis using wrr_rotation [OF sample_kenv_ok ok tr st] by (auto simp: sample_sched_task)
qed

text \<open>The first half of such a pass: the current task leaves the queue.\<close>

lemma wrr_sched_out:
  assumes K: "kenv_ok K" and s: "sched_ok s" and c: "class_of s (curr (rq s)) = wrr_sched_class"
    and st: "tstate (tasks s (curr (rq s))) \<noteq> TASK_RUNNING" and sig: "\<And>st p s. \<not> signal_pending_state K st p s"
    and pa: "\<And>s. \<not> preempt_active K s" and wq: "tflags (tasks s (curr (rq s))) AND PF_WQ_WORKER = 0"
  shows "\<exists>t. sched_out K (curr (rq s)) (schedule_debug s) = Some (True, t) \<and> wrr_wf t \<and> wq t = remove1 (curr (rq s)) (wq s) \<and>
    curr (rq t) = curr (rq s) \<and> rt_rqs t = rt_rqs s \<and> nr_running (rq t) = nr_running (rq s) - 1 \<and>
    cfs_h_nr_running (rq t) = cfs_h_nr_running (rq s) \<and> class_of t (curr (rq s)) = wrr_sched_class \<and>
    nvcsw (tasks t (curr (rq s))) = nvcsw (tasks s (curr (rq s))) \<and> \<not> on_rq (tasks t (curr (rq s)))"
proof -
  let ?c = "curr (rq s)"
  define s1 where "s1 = schedule_debug s"
  define a where "a = (if task_contributes_to_load (tasks s1 ?c)
      then s1\<lparr>rq := (rq s1)\<lparr>nr_uninterruptible := nr_uninterruptible (rq s1) + 1\<rparr>\<rparr> else s1)"
  define b where "b = emit (SchedInfoDequeued ?c) (update_rq_clock K a)"
  define d where "d = dequeue_task_wrr K ?c DEQUEUE_SLEEP b"
  have wf: "wrr_wf s" and mem: "?c \<in> set (wq s)" using s c by (auto simp: sched_ok_def sched_but_def curr_ok_def)
  have bf: "tasks b = tasks s" "rq_wrr (rq b) = rq_wrr (rq s)" "curr (rq b) = ?c" "rt_rqs b = rt_rqs s"
    "nr_running (rq b) = nr_running (rq s)" "cfs_h_nr_running (rq b) = cfs_h_nr_running (rq s)"
    by (simp_all add: b_def a_def s1_def schedule_debug_def)
  have wfb: "wrr_wf b" "?c \<in> set (wq b)" using wf mem wrr_wf_cong [OF bf(2)] bf(2) by simp_all
  note l = kenv_okD(2) [OF K]
  have dq: "wq d = remove1 ?c (wq s)" using wq_dequeue_task_wrr [OF l wfb] bf(2) by (simp add: d_def)
  have wfd: "wrr_wf d" unfolding d_def by (rule wrr_wf_dequeue [OF l wfb])
  have df: "curr (rq d) = ?c" "rt_rqs d = rt_rqs s" "nr_running (rq d) = nr_running (rq s) - 1"
    "cfs_h_nr_running (rq d) = cfs_h_nr_running (rq s)" "class_of d ?c = wrr_sched_class"
    "nvcsw (tasks d ?c) = nvcsw (tasks s ?c)" "tflags (tasks d ?c) = tflags (tasks s ?c)"
    by (simp_all add: d_def dequeue_task_wrr_def dequeue_wrr_entity_def set_wrr_rq_def dec_nr_running_def bf c
        update_curr_wrr_def Let_def)
  have deact: "deactivate_task K ?c DEQUEUE_SLEEP s1 = Some d"
    using c bf(1)
    by (simp add: deactivate_task_def dequeue_task_def a_def [symmetric] b_def [symmetric] class_dequeue_task_def
        d_def Let_def)
  have "tstate (tasks s1 ?c) \<noteq> 0" using st by (simp add: s1_def schedule_debug_def TASK_RUNNING_def)
  then have "sched_out K ?c s1 = Some (True, upd_task ?c (\<lambda>t. t\<lparr>on_rq := False\<rparr>) d)"
    using deact sig pa wq df(7) by (simp add: sched_out_def Let_def)
  moreover have "wrr_wf (upd_task ?c (\<lambda>t. t\<lparr>on_rq := False\<rparr>) d)"
    using wfd wrr_wf_cong [of "upd_task ?c (\<lambda>t. t\<lparr>on_rq := False\<rparr>) d" d] by simp
  moreover have "on_rq (tasks (upd_task ?c (\<lambda>t. t\<lparr>on_rq := False\<rparr>) d) ?c) = False" by simp
  ultimately show ?thesis using dq df by (intro exI [of _ "upd_task ?c (\<lambda>t. t\<lparr>on_rq := False\<rparr>) d"]) (simp add: s1_def)
qed

text \<open>C16: When the current weighted round-robin task goes to sleep, not preempted and with no signal pending, the pass of
  \<^verbatim>\<open>__schedule\<close> takes it off the queue, switches to the new head and counts a voluntary switch, if no class above can run a
  task (\<open>wrr_turn\<close>), not all tasks that stay runnable are fair ones, and the sleeper is no workqueue worker.\<close>

theorem wrr_sleep_switches:
  assumes "kenv_ok K" and "sched_ok s" and "wrr_turn K s"
    and "nr_running (rq s) - 1 \<noteq> cfs_h_nr_running (rq s)"
    and "class_of s (curr (rq s)) = wrr_sched_class" and "tstate (tasks s (curr (rq s))) \<noteq> TASK_RUNNING"
    and "\<And>st p s. \<not> signal_pending_state K st p s" and "\<And>s. \<not> preempt_active K s"
    and "tflags (tasks s (curr (rq s))) AND PF_WQ_WORKER = 0"
    and "remove1 (curr (rq s)) (wq s) = n # ns"
  shows "\<exists>u. schedule_pass K s = Some u \<and> curr (rq u) = n \<and> wq u = n # ns \<and>
    \<not> on_rq (tasks u (curr (rq s))) \<and> nr_running (rq u) = nr_running (rq s) - 1 \<and>
    nvcsw (tasks u (curr (rq s))) = nvcsw (tasks s (curr (rq s))) + 1"
proof -
  let ?c = "curr (rq s)"
  obtain s2 where s2: "sched_out K ?c (schedule_debug s) = Some (True, s2)" "wrr_wf s2" "wq s2 = n # ns" "curr (rq s2) = ?c"
    "rt_rqs s2 = rt_rqs s" "nr_running (rq s2) = nr_running (rq s) - 1" "cfs_h_nr_running (rq s2) = cfs_h_nr_running (rq s)"
    "class_of s2 ?c = wrr_sched_class" "nvcsw (tasks s2 ?c) = nvcsw (tasks s ?c)" "\<not> on_rq (tasks s2 ?c)"
    using wrr_sched_out [OF assms(1,2,5,6,7,8,9)] assms(10) by auto
  have wf: "wrr_wf s" using assms(2) by (simp add: sched_ok_def sched_but_def)
  have "wrr_turn K s2" using assms(3,4) s2 by (simp add: wrr_turn_def)
  moreover have ne: "?c \<noteq> n" using assms(10) wf by (metis wrr_wf_def list.set_intros(1) set_remove1_distinct Diff_iff singletonI)
  ultimately obtain s4 where s4: "do { s3 \<leftarrow> put_prev_task K ?c s2; (next, s4) \<leftarrow> pick_next_task K s3; Some (switch_to ?c True next s4) } =
      Some (switch_to ?c True n s4)" "wq s4 = wq s2" "nr_running (rq s4) = nr_running (rq s2)"
      "\<forall>q. on_rq (tasks s4 q) = on_rq (tasks s2 q)" "\<forall>q. nvcsw (tasks s4 q) = nvcsw (tasks s2 q)"
    using wrr_switch [OF kenv_okD(3) [OF assms(1)], of s2 n ns ?c True] s2(2-4,8) by blast
  have "schedule_pass K s = Some (switch_to ?c True n s4)"
    using s4(1) s2(1) by (simp add: schedule_pass_def)
  then show ?thesis using ne s4 s2 by (simp add: switch_to_simps)
qed

theorem wrr_sleep_switches_witness:
  "\<exists>u. schedule_pass sample_env (upd_task 10 (\<lambda>t. t\<lparr>tstate := 1\<rparr>) (sample_sched0 True)) = Some u \<and>
     curr (rq u) = 11 \<and> wq u = [11, 12] \<and> \<not> on_rq (tasks u 10)"
proof -
  let ?s = "upd_task 10 (\<lambda>t. t\<lparr>tstate := 1\<rparr>) (sample_sched0 True)"
  have k: "ext_keep (sample_sched0 True) ?s" by (rule ext_keep_upds) (simp add: core3_def task_params_def)
  have ok: "sched_ok ?s" using sched_ok_keep [OF k] by simp
  have tr: "wrr_turn sample_env ?s" using sample_wrr_turn by (rule wrr_turn_cong [rotated 3]) simp_all
  have st: "nr_running (rq ?s) - 1 \<noteq> cfs_h_nr_running (rq ?s)" "class_of ?s (curr (rq ?s)) = wrr_sched_class"
    "tstate (tasks ?s (curr (rq ?s))) \<noteq> TASK_RUNNING"
    by (simp_all add: sample_sched_task sample_tasks_def sample_task_def sample_rq_def TASK_RUNNING_def)
  have en: "\<not> signal_pending_state sample_env x p y" "\<not> preempt_active sample_env y" for x p y
    by (simp_all add: sample_env_def signal_pending_state_def)
  have q: "tflags (tasks ?s (curr (rq ?s))) AND PF_WQ_WORKER = 0" "remove1 (curr (rq ?s)) (wq ?s) = 11 # [12]"
    by (simp_all add: sample_sched_task sample_tasks_def sample_task_def sample_rq_def)
  show ?thesis using wrr_sleep_switches [OF sample_kenv_ok ok tr st en q] by (auto simp: sample_sched_task)
qed

end
