(* ===== verification/Params.thy ===== *)
theory Params
  imports Core_Props
begin

text \<open>
  Priorities and policies, \<^verbatim>\<open>core.c\<close> from \<^verbatim>\<open>rt_mutex_setprio\<close> to \<^verbatim>\<open>sys_sched_rr_get_interval\<close>: priority
  inheritance, nice values, \<^verbatim>\<open>sched_setscheduler\<close> with its permission checks, the calls that read the
  parameters back, \<^verbatim>\<open>sched_yield\<close> and the reset of real-time tasks by the magic key. System calls return the
  kernel's int, negative for an error.
\<close>

section \<open>Return values and user memory\<close>

definition EPERM :: int where [sched_consts]: "EPERM = 1"
definition ESRCH :: int where [sched_consts]: "ESRCH = 3"
definition EFAULT :: int where [sched_consts]: "EFAULT = 14"
definition EINVAL :: int where [sched_consts]: "EINVAL = 22"

text \<open>A pointer into user memory: NULL, an address where the copy fails, or one that holds a value.\<close>

datatype 'a user_ptr = UNull | UFault | UMem 'a

section \<open>Priorities\<close>

text \<open>
  The two halves of every change of a task's parameters: take the task off its queue and out of the
  CPU's accounting, and put it back as it was.
\<close>

definition task_off :: "kenv \<Rightarrow> ptr \<Rightarrow> bool \<Rightarrow> bool \<Rightarrow> kstate \<Rightarrow> kstate option" where
  "task_off K p on running s =
     do { s1 \<leftarrow> (if on then dequeue_task K p 0 s else Some s);
          if running then class_put_prev_task K (class_of s1 p) p s1 else Some s1 }"

definition task_back_on :: "kenv \<Rightarrow> ptr \<Rightarrow> bool \<Rightarrow> bool \<Rightarrow> int \<Rightarrow> kstate \<Rightarrow> kstate option" where
  "task_back_on K p on running flags s =
     (let s1 = (if running then class_set_curr_task K (class_of s p) s else s)
      in if on then enqueue_task K p flags s1 else Some s1)"

definition rt_mutex_setprio :: "kenv \<Rightarrow> ptr \<Rightarrow> int \<Rightarrow> kstate \<Rightarrow> kstate option" where
  "rt_mutex_setprio K p pr s =
     (if pr < 0 \<or> pr > MAX_PRIO then None
      else if p = idle (rq s) then Some s
      else do {
        let oldprio = prio (tasks s p);
        let prev_class = class_of s p;
        let on = on_rq (tasks s p);
        let running = task_current p s;
        s1 \<leftarrow> task_off K p on running s;
        let s2 = upd_task p (\<lambda>t. t\<lparr>sched_class := (if rt_prio pr then rt_sched_class else fair_sched_class)\<rparr>) s1;
        let s3 = upd_task p (\<lambda>t. t\<lparr>prio := pr\<rparr>) s2;
        s4 \<leftarrow> task_back_on K p on running (if oldprio < pr then ENQUEUE_HEAD else 0) s3;
        Some (check_class_changed K p prev_class oldprio s4) })"

definition TASK_NICE :: "task_struct \<Rightarrow> int" where
  "TASK_NICE t = PRIO_TO_NICE (static_prio t)"

definition set_user_nice :: "kenv \<Rightarrow> ptr \<Rightarrow> int \<Rightarrow> kstate \<Rightarrow> kstate option" where
  "set_user_nice K p nice s =
     (if TASK_NICE (tasks s p) = nice \<or> nice < -20 \<or> nice > 19 then Some s
      else if task_has_rt_policy (tasks s p)
      then Some (upd_task p (\<lambda>t. t\<lparr>static_prio := NICE_TO_PRIO nice\<rparr>) s)
      else do {
        let on = on_rq (tasks s p);
        s1 \<leftarrow> (if on then dequeue_task K p 0 s else Some s);
        s2 \<leftarrow> set_load_weight p (upd_task p (\<lambda>t. t\<lparr>static_prio := NICE_TO_PRIO nice\<rparr>) s1);
        let old_prio = prio (tasks s2 p);
        let (pr, s3) = effective_prio p s2;
        let s4 = upd_task p (\<lambda>t. t\<lparr>prio := pr\<rparr>) s3;
        let delta = prio (tasks s4 p) - old_prio;
        if on then do {
          s5 \<leftarrow> enqueue_task K p 0 s4;
          Some (if delta < 0 \<or> delta > 0 \<and> task_current p s5 then resched_task (curr (rq s5)) s5 else s5) }
        else Some s4 })"

definition can_nice :: "kenv \<Rightarrow> ptr \<Rightarrow> int \<Rightarrow> kstate \<Rightarrow> bool" where
  "can_nice K p nice s =
     (let nice_rlim = 20 - nice
      in word_of_int nice_rlim \<le> task_rlimit K p RLIMIT_NICE \<or> capable_sys_nice K s)"

definition sys_nice :: "kenv \<Rightarrow> int \<Rightarrow> kstate \<Rightarrow> (int \<times> kstate) option" where
  "sys_nice K increment s =
     (let current = curr (rq s);
          inc1 = (if increment < -40 then -40 else increment);
          inc2 = (if inc1 > 40 then 40 else inc1);
          nice1 = TASK_NICE (tasks s current) + inc2;
          nice2 = (if nice1 < -20 then -20 else nice1);
          nice3 = (if nice2 > 19 then 19 else nice2) in
      if inc2 < 0 \<and> \<not> can_nice K current nice3 s then Some (- EPERM, s)
      else
        let retval = security_task_setnice K current nice3 s in
        if retval \<noteq> 0 then Some (retval, s)
        else do { s1 \<leftarrow> set_user_nice K current nice3 s; Some (0, s1) })"

definition task_prio :: "task_struct \<Rightarrow> int" where
  "task_prio t = prio t - MAX_RT_PRIO"

definition task_nice :: "task_struct \<Rightarrow> int" where
  "task_nice t = TASK_NICE t"

definition idle_cpu :: "kstate \<Rightarrow> int" where
  "idle_cpu s = (if curr (rq s) \<noteq> idle (rq s) then 0 else if nr_running (rq s) \<noteq> 0 then 0 else 1)"

definition find_process_by_pid :: "kenv \<Rightarrow> int \<Rightarrow> kstate \<Rightarrow> ptr option" where
  "find_process_by_pid K pid s = (if pid \<noteq> 0 then find_task_by_vpid K pid s else Some (curr (rq s)))"

section \<open>Policies\<close>

definition setscheduler1 :: "kenv \<Rightarrow> ptr \<Rightarrow> int \<Rightarrow> int \<Rightarrow> kstate \<Rightarrow> kstate option" where
  "setscheduler1 K p pol pr s =
     (let s1 = upd_task p (\<lambda>t. t\<lparr>policy := pol\<rparr>) s;
          s2 = upd_task p (\<lambda>t. t\<lparr>rt_priority := word_of_int pr\<rparr>) s1;
          s3 = upd_task p (\<lambda>t. t\<lparr>normal_prio_of := normal_prio t\<rparr>) s2;
          s4 = upd_task p (\<lambda>t. t\<lparr>prio := rt_mutex_getprio K p s3\<rparr>) s3;
          s5 = upd_task p (\<lambda>t. t\<lparr>sched_class :=
                 (if policy t = SCHED_WRR then wrr_sched_class
                  else if rt_prio (prio t) then rt_sched_class else fair_sched_class)\<rparr>) s4
      in set_load_weight p s5)"

definition check_same_owner :: "ptr \<Rightarrow> kstate \<Rightarrow> bool" where
  "check_same_owner p s =
     (let cred = tasks s (curr (rq s)); pcred = tasks s p in
      if cred_ns cred = cred_ns pcred
      then cred_euid cred = cred_euid pcred \<or> cred_euid cred = cred_uid pcred
      else False)"

text \<open>
  \<^verbatim>\<open>__sched_setscheduler\<close> in two phases, since the run queue lock is taken between them. The first, from
  the label \<^verbatim>\<open>recheck\<close>, computes the policy to set, the new \<^verbatim>\<open>reset_on_fork\<close> and \<^verbatim>\<open>oldpolicy\<close>, or fails. The second
  runs under the lock and may ask to check again, because the policy changed in between.
\<close>

definition setsched_policy :: "ptr \<Rightarrow> int \<Rightarrow> kstate \<Rightarrow> int + int \<times> bool \<times> int" where
  "setsched_policy p pol s =
     (if pol < 0 then Inr (policy (tasks s p), sched_reset_on_fork (tasks s p), policy (tasks s p))
      else
        let rof = (pol AND SCHED_RESET_ON_FORK \<noteq> 0); pol1 = pol AND NOT SCHED_RESET_ON_FORK in
        if pol1 \<noteq> SCHED_FIFO \<and> pol1 \<noteq> SCHED_RR \<and> pol1 \<noteq> SCHED_NORMAL \<and> pol1 \<noteq> SCHED_BATCH \<and>
           pol1 \<noteq> SCHED_WRR \<and> pol1 \<noteq> SCHED_IDLE
        then Inl (- EINVAL) else Inr (pol1, rof, -1))"

definition setsched_user_perm :: "kenv \<Rightarrow> ptr \<Rightarrow> int \<Rightarrow> int \<Rightarrow> bool \<Rightarrow> kstate \<Rightarrow> bool" where
  "setsched_user_perm K p pol pr rof s =
     (let t = tasks s p; rlim_rtprio = task_rlimit K p RLIMIT_RTPRIO in
      if rt_policy pol \<and> pol \<noteq> policy t \<and> rlim_rtprio = 0 then False
      else if rt_policy pol \<and> pr > uint (rt_priority t) \<and> pr > uint rlim_rtprio then False
      else if policy t = SCHED_IDLE \<and> pol \<noteq> SCHED_IDLE \<and> \<not> can_nice K p (TASK_NICE t) s then False
      else if \<not> check_same_owner p s then False
      else if sched_reset_on_fork t \<and> \<not> rof then False
      else True)"

definition setsched_check :: "kenv \<Rightarrow> ptr \<Rightarrow> int \<Rightarrow> int \<Rightarrow> bool \<Rightarrow> kstate \<Rightarrow> int + int \<times> bool \<times> int" where
  "setsched_check K p pol pr user s =
     (case setsched_policy p pol s of
        Inl e \<Rightarrow> Inl e
      | Inr (pol1, rof, oldpol) \<Rightarrow>
          if pr < 0 \<or> has_mm (tasks s p) \<and> pr > MAX_USER_RT_PRIO - 1 \<or> \<not> has_mm (tasks s p) \<and> pr > MAX_RT_PRIO - 1
          then Inl (- EINVAL)
          else if rt_policy pol1 \<noteq> (pr \<noteq> 0) \<and> wrr_policy pol1 \<noteq> (pr \<noteq> 0) then Inl (- EINVAL)
          else if user \<and> \<not> capable_sys_nice K s \<and> \<not> setsched_user_perm K p pol1 pr rof s then Inl (- EPERM)
          else if user \<and> security_task_setscheduler K p s \<noteq> 0 then Inl (security_task_setscheduler K p s)
          else Inr (pol1, rof, oldpol))"

datatype locked_result = Return int | Recheck

definition setsched_change :: "kenv \<Rightarrow> ptr \<Rightarrow> int \<Rightarrow> int \<Rightarrow> bool \<Rightarrow> kstate \<Rightarrow> kstate option" where
  "setsched_change K p pol pr rof s =
     do { let on = on_rq (tasks s p);
          let running = task_current p s;
          s1 \<leftarrow> task_off K p on running s;
          let s2 = upd_task p (\<lambda>t. t\<lparr>sched_reset_on_fork := rof\<rparr>) s1;
          let oldprio = prio (tasks s2 p);
          let prev_class = class_of s2 p;
          s3 \<leftarrow> setscheduler1 K p pol pr s2;
          s4 \<leftarrow> task_back_on K p on running 0 s3;
          Some (emit (RtMutexAdjustPi p) (check_class_changed K p prev_class oldprio s4)) }"

definition setsched_locked :: "kenv \<Rightarrow> ptr \<Rightarrow> int \<Rightarrow> int \<Rightarrow> bool \<Rightarrow> bool \<Rightarrow> int \<Rightarrow> kstate \<Rightarrow>
    (locked_result \<times> kstate) option" where
  "setsched_locked K p pol pr user rof oldpol s =
     (if p = stop (rq s) then Some (Return (- EINVAL), s)
      else if pol = policy (tasks s p) \<and> (\<not> rt_policy pol \<or> pr = uint (rt_priority (tasks s p)))
      then Some (Return 0, s)
      else if user \<and> rt_bandwidth_enabled s \<and> rt_policy pol \<and>
        bw_rt_runtime (tg_rt_bandwidth (tgs s (sched_task_group (tasks s p)))) = 0 \<and>
        \<not> task_group_is_autogroup K (sched_task_group (tasks s p))
      then Some (Return (- EPERM), s)
      else if oldpol \<noteq> -1 \<and> oldpol \<noteq> policy (tasks s p) then Some (Recheck, s)
      else do { s1 \<leftarrow> setsched_change K p pol pr rof s; Some (Return 0, s1) })"

text \<open>Nothing runs between the two phases here; \<open>setsched_locked\<close> alone is the step that other steps may precede.\<close>

partial_function (option) sched_setscheduler1 :: "kenv \<Rightarrow> ptr \<Rightarrow> int \<Rightarrow> int \<Rightarrow> bool \<Rightarrow> kstate \<Rightarrow> (int \<times> kstate) option" where
  "sched_setscheduler1 K p pol pr user s =
     (if in_interrupt K s then None
      else (case setsched_check K p pol pr user s of
        Inl e \<Rightarrow> Some (e, s)
      | Inr r \<Rightarrow> Option.bind (setsched_locked K p (fst r) pr user (fst (snd r)) (snd (snd r)) s)
          (\<lambda>q. case fst q of
             Return x \<Rightarrow> Some (x, snd q)
           | Recheck \<Rightarrow> sched_setscheduler1 K p (-1) pr user (snd q))))"

definition sched_setscheduler :: "kenv \<Rightarrow> ptr \<Rightarrow> int \<Rightarrow> int \<Rightarrow> kstate \<Rightarrow> (int \<times> kstate) option" where
  "sched_setscheduler K p pol pr s = sched_setscheduler1 K p pol pr True s"

definition sched_setscheduler_nocheck :: "kenv \<Rightarrow> ptr \<Rightarrow> int \<Rightarrow> int \<Rightarrow> kstate \<Rightarrow> (int \<times> kstate) option" where
  "sched_setscheduler_nocheck K p pol pr s = sched_setscheduler1 K p pol pr False s"

definition do_sched_setscheduler :: "kenv \<Rightarrow> int \<Rightarrow> int \<Rightarrow> int user_ptr \<Rightarrow> kstate \<Rightarrow> (int \<times> kstate) option" where
  "do_sched_setscheduler K pid pol param s =
     (if param = UNull \<or> pid < 0 then Some (- EINVAL, s)
      else case param of
        UMem pr \<Rightarrow> (case find_process_by_pid K pid s of
            None \<Rightarrow> Some (- ESRCH, s)
          | Some p \<Rightarrow> sched_setscheduler K p pol pr s)
      | _ \<Rightarrow> Some (- EFAULT, s))"

definition sys_sched_setscheduler :: "kenv \<Rightarrow> int \<Rightarrow> int \<Rightarrow> int user_ptr \<Rightarrow> kstate \<Rightarrow> (int \<times> kstate) option" where
  "sys_sched_setscheduler K pid pol param s =
     (if pol < 0 then Some (- EINVAL, s) else do_sched_setscheduler K pid pol param s)"

definition sys_sched_setparam :: "kenv \<Rightarrow> int \<Rightarrow> int user_ptr \<Rightarrow> kstate \<Rightarrow> (int \<times> kstate) option" where
  "sys_sched_setparam K pid param s = do_sched_setscheduler K pid (-1) param s"

definition sys_sched_getscheduler :: "kenv \<Rightarrow> int \<Rightarrow> kstate \<Rightarrow> int" where
  "sys_sched_getscheduler K pid s =
     (if pid < 0 then - EINVAL
      else case find_process_by_pid K pid s of
        None \<Rightarrow> - ESRCH
      | Some p \<Rightarrow>
          let retval = security_task_getscheduler K p s in
          if retval = 0
          then policy (tasks s p) OR (if sched_reset_on_fork (tasks s p) then SCHED_RESET_ON_FORK else 0)
          else retval)"

text \<open>The calls that write to user memory return what they wrote, if anything.\<close>

definition copy_to_user :: "'b user_ptr \<Rightarrow> 'a \<Rightarrow> int \<times> 'a option" where
  "copy_to_user ptr v = (case ptr of UMem _ \<Rightarrow> (0, Some v) | _ \<Rightarrow> (- EFAULT, None))"

definition sys_sched_getparam :: "kenv \<Rightarrow> int \<Rightarrow> int user_ptr \<Rightarrow> kstate \<Rightarrow> int \<times> int option" where
  "sys_sched_getparam K pid param s =
     (if param = UNull \<or> pid < 0 then (- EINVAL, None)
      else case find_process_by_pid K pid s of
        None \<Rightarrow> (- ESRCH, None)
      | Some p \<Rightarrow>
          let retval = security_task_getscheduler K p s in
          if retval \<noteq> 0 then (retval, None)
          else copy_to_user param (sint (rt_priority (tasks s p))))"

section \<open>Yield, limits and intervals\<close>

text \<open>The plugged block requests that \<^verbatim>\<open>schedule\<close> submits first are left out.\<close>

definition schedule :: "kenv \<Rightarrow> kstate \<Rightarrow> kstate option" where
  "schedule K s = schedule_loop K s"

definition sys_sched_yield :: "kenv \<Rightarrow> kstate \<Rightarrow> (int \<times> kstate) option" where
  "sys_sched_yield K s =
     do { let s1 = s\<lparr>rq := (rq s)\<lparr>yld_count := yld_count (rq s) + 1\<rparr>\<rparr>;
          s2 \<leftarrow> class_yield_task K (class_of s1 (curr (rq s1))) s1;
          s3 \<leftarrow> schedule K s2;
          Some (0, s3) }"

definition yield_cpu :: "kenv \<Rightarrow> kstate \<Rightarrow> kstate option" where
  "yield_cpu K s =
     do { (r, s1) \<leftarrow> sys_sched_yield K (upd_task (curr (rq s)) (\<lambda>t. t\<lparr>tstate := TASK_RUNNING\<rparr>) s); Some s1 }"

definition sys_sched_get_priority_max :: "int \<Rightarrow> int" where
  "sys_sched_get_priority_max pol =
     (if pol = SCHED_FIFO \<or> pol = SCHED_RR then MAX_USER_RT_PRIO - 1
      else if pol = SCHED_WRR then MAX_USER_WRR_PRIO - 1
      else if pol = SCHED_NORMAL \<or> pol = SCHED_BATCH \<or> pol = SCHED_IDLE then 0
      else - EINVAL)"

definition sys_sched_get_priority_min :: "int \<Rightarrow> int" where
  "sys_sched_get_priority_min pol =
     (if pol = SCHED_FIFO \<or> pol = SCHED_RR \<or> pol = SCHED_WRR then 1
      else if pol = SCHED_NORMAL \<or> pol = SCHED_BATCH \<or> pol = SCHED_IDLE then 0
      else - EINVAL)"

definition sys_sched_rr_get_interval :: "kenv \<Rightarrow> int \<Rightarrow> (int \<times> int) user_ptr \<Rightarrow> kstate \<Rightarrow> int \<times> (int \<times> int) option" where
  "sys_sched_rr_get_interval K pid interval s =
     (if pid < 0 then (- EINVAL, None)
      else case find_process_by_pid K pid s of
        None \<Rightarrow> (- ESRCH, None)
      | Some p \<Rightarrow>
          let retval = security_task_getscheduler K p s in
          if retval \<noteq> 0 then (retval, None)
          else copy_to_user interval (jiffies_to_timespec K (class_get_rr_interval K (class_of s p) p s)))"

section \<open>Stop tasks and normalisation\<close>

text \<open>The return value of \<^verbatim>\<open>sched_setscheduler_nocheck\<close> is ignored. \<open>None\<close> for a stop task is NULL.\<close>

definition sched_set_stop_task :: "kenv \<Rightarrow> ptr option \<Rightarrow> kstate \<Rightarrow> kstate option" where
  "sched_set_stop_task K st s =
     do { let old_stop = stop (rq s);
          s1 \<leftarrow> (case st of
                   None \<Rightarrow> Some s
                 | Some q \<Rightarrow> do { (r, t) \<leftarrow> sched_setscheduler_nocheck K q SCHED_FIFO (MAX_RT_PRIO - 1) s;
                                 Some (upd_task q (\<lambda>x. x\<lparr>sched_class := stop_sched_class\<rparr>) t) });
          let s2 = s1\<lparr>rq := (rq s1)\<lparr>stop := (case st of None \<Rightarrow> 0 | Some q \<Rightarrow> q)\<rparr>\<rparr>;
          Some (if old_stop \<noteq> 0 then upd_task old_stop (\<lambda>x. x\<lparr>sched_class := rt_sched_class\<rparr>) s2 else s2) }"

definition normalize_task :: "kenv \<Rightarrow> ptr \<Rightarrow> kstate \<Rightarrow> kstate option" where
  "normalize_task K p s =
     do { let prev_class = class_of s p;
          let old_prio = prio (tasks s p);
          let on = on_rq (tasks s p);
          s1 \<leftarrow> (if on then dequeue_task K p 0 s else Some s);
          s2 \<leftarrow> setscheduler1 K p SCHED_NORMAL 0 s1;
          s3 \<leftarrow> (if on then do { s21 \<leftarrow> enqueue_task K p 0 s2; Some (resched_task (curr (rq s21)) s21) } else Some s2);
          Some (check_class_changed K p prev_class old_prio s3) }"

definition normalize_one :: "kenv \<Rightarrow> ptr \<Rightarrow> kstate \<Rightarrow> kstate option" where
  "normalize_one K p s =
     (if \<not> has_mm (tasks s p) then Some s
      else
        let s1 = upd_se p (\<lambda>e. e\<lparr>exec_start := 0, wait_start := 0, sleep_start := 0, block_start := 0\<rparr>) s in
        if \<not> rt_task (tasks s1 p) then
          if TASK_NICE (tasks s1 p) < 0 \<and> has_mm (tasks s1 p) then set_user_nice K p 0 s1 else Some s1
        else normalize_task K p s1)"

text \<open>The list is the threads in the order of \<^verbatim>\<open>do_each_thread\<close>.\<close>

fun normalize_rt_tasks :: "kenv \<Rightarrow> ptr list \<Rightarrow> kstate \<Rightarrow> kstate option" where
  "normalize_rt_tasks K [] s = Some s"
| "normalize_rt_tasks K (p # ps) s = do { s1 \<leftarrow> normalize_one K p s; normalize_rt_tasks K ps s1 }"

end
