(* ===== verification/Task_Groups.thy ===== *)
theory Task_Groups
  imports Params
begin

text \<open>
  Task groups, \<^verbatim>\<open>core.c\<close> from \<^verbatim>\<open>sched_create_group\<close> to the files of the cpu control group, with the group part of
  \<^verbatim>\<open>rt.c\<close>: the tree of groups and its iterative walk, creation and destruction, moving a task, and the
  real-time bandwidth that may be given to the groups. A group's own real-time queue has the address of the
  group. Lists of threads are the threads in the order of \<^verbatim>\<open>do_each_thread\<close>; locks and RCU read sections disappear.
\<close>

section \<open>Walking the tree\<close>

text \<open>
  \<^verbatim>\<open>walk_tg_tree_from\<close> jumps between two labels and a list iterator: \<open>Down\<close> is the label \<^verbatim>\<open>down\<close>, \<open>Loop parent child\<close> the
  head of the loop over the children of \<open>parent\<close>, where \<open>None\<close> is the end of the list. A visitor may oops, may change
  its data, and stops the walk by returning a value other than 0.
\<close>

type_synonym 'd tg_visitor = "ptr \<Rightarrow> 'd \<Rightarrow> (int \<times> 'd) option"

datatype walk_at = Down ptr | Loop ptr "ptr option"

definition list_first :: "'a list \<Rightarrow> 'a option" where
  "list_first xs = (case xs of [] \<Rightarrow> None | x # _ \<Rightarrow> Some x)"

definition list_next :: "'a \<Rightarrow> 'a list \<Rightarrow> 'a option" where
  "list_next x xs = list_first (tl (dropWhile (\<lambda>y. y \<noteq> x) xs))"

partial_function (option) walk_loop ::
  "(ptr \<Rightarrow> task_group) \<Rightarrow> 'd tg_visitor \<Rightarrow> 'd tg_visitor \<Rightarrow> ptr \<Rightarrow> walk_at \<Rightarrow> 'd \<Rightarrow> (int \<times> 'd) option" where
  "walk_loop G down up from w d =
     (case w of
        Down parent \<Rightarrow> Option.bind (down parent d) (\<lambda>r.
          if fst r \<noteq> 0 then Some r
          else walk_loop G down up from (Loop parent (list_first (tg_children (G parent)))) (snd r))
      | Loop parent pos \<Rightarrow> (case pos of
          Some child \<Rightarrow> walk_loop G down up from (Down child) d
        | None \<Rightarrow> Option.bind (up parent d) (\<lambda>r.
            if fst r \<noteq> 0 \<or> parent = from then Some r
            else case tg_parent (G parent) of
              None \<Rightarrow> Some r
            | Some q \<Rightarrow> walk_loop G down up from (Loop q (list_next parent (tg_children (G q)))) (snd r))))"

definition walk_tg_tree_from :: "(ptr \<Rightarrow> task_group) \<Rightarrow> ptr \<Rightarrow> 'd tg_visitor \<Rightarrow> 'd tg_visitor \<Rightarrow> 'd \<Rightarrow> (int \<times> 'd) option" where
  "walk_tg_tree_from G from down up d = walk_loop G down up from (Down from) d"

definition walk_tg_tree :: "kenv \<Rightarrow> (ptr \<Rightarrow> task_group) \<Rightarrow> 'd tg_visitor \<Rightarrow> 'd tg_visitor \<Rightarrow> 'd \<Rightarrow> (int \<times> 'd) option" where
  "walk_tg_tree K G down up d = walk_tg_tree_from G (root_task_group K) down up d"

definition tg_nop :: "'d tg_visitor" where
  "tg_nop tg d = Some (0, d)"

section \<open>Creating and destroying groups\<close>

definition ENOMEM :: int where [sched_consts]: "ENOMEM = 12"
definition EACCES :: int where [sched_consts]: "EACCES = 13"
definition EBUSY :: int where [sched_consts]: "EBUSY = 16"
definition PF_EXITING :: int where [sched_consts]: "PF_EXITING = 4"

definition upd_tg :: "ptr \<Rightarrow> (task_group \<Rightarrow> task_group) \<Rightarrow> kstate \<Rightarrow> kstate" where
  "upd_tg tg f s = s\<lparr>tgs := (tgs s)(tg := f (tgs s tg))\<rparr>"

text \<open>The period timer that \<^verbatim>\<open>init_rt_bandwidth\<close> sets up is outside the model; its callback is \<open>sched_rt_period_timer\<close>.\<close>

definition init_rt_bandwidth :: "u64 \<Rightarrow> u64 \<Rightarrow> rt_bandwidth \<Rightarrow> rt_bandwidth" where
  "init_rt_bandwidth period runtime b = b\<lparr>rt_period := period, bw_rt_runtime := runtime\<rparr>"

text \<open>
  The argument \<open>overruns\<close> is what the successive calls of \<^verbatim>\<open>hrtimer_forward\<close> return before the call that returns 0.
  The result says whether the timer is restarted.
\<close>

fun sched_rt_period_timer :: "kenv \<Rightarrow> ptr \<Rightarrow> int list \<Rightarrow> bool \<Rightarrow> kstate \<Rightarrow> (bool \<times> kstate) option" where
  "sched_rt_period_timer K tg [] idl s = Some (\<not> idl, s)"
| "sched_rt_period_timer K tg (overrun # rest) idl s =
     (if overrun = 0 then Some (\<not> idl, s)
      else do { (idl1, s1) \<leftarrow> do_sched_rt_period_timer K tg overrun s; sched_rt_period_timer K tg rest idl1 s1 })"

definition destroy_rt_bandwidth :: "ptr \<Rightarrow> kstate \<Rightarrow> kstate" where
  "destroy_rt_bandwidth tg s = emit (HrtimerCancel tg) s"

text \<open>\<open>ses\<close> says that the array \<^verbatim>\<open>tg->rt_se\<close> was allocated.\<close>

definition free_rt_sched_group :: "ptr \<Rightarrow> bool \<Rightarrow> kstate \<Rightarrow> kstate" where
  "free_rt_sched_group tg ses s =
     (let s1 = (if ses then destroy_rt_bandwidth tg s else s)
      in case tg_rt_se (tgs s1 tg) of Some e \<Rightarrow> emit (Kfree e) s1 | None \<Rightarrow> s1)"

definition init_tg_rt_entry :: "kenv \<Rightarrow> ptr \<Rightarrow> ptr \<Rightarrow> ptr option \<Rightarrow> ptr option \<Rightarrow> kstate \<Rightarrow> kstate option" where
  "init_tg_rt_entry K tg g rt_se parent s =
     (let s1 = upd_rt_rq g (\<lambda>r. r\<lparr>highest_prio_curr := MAX_RT_PRIO, rt_nr_boosted := 0, rt_tg := Some tg\<rparr>) s;
          s2 = upd_tg tg (\<lambda>t. t\<lparr>tg_rt_se := rt_se\<rparr>) s1
      in case rt_se of
           None \<Rightarrow> Some s2
         | Some e \<Rightarrow>
             do { q \<leftarrow> (case parent of None \<Rightarrow> Some (root_task_group K) | Some pe \<Rightarrow> rt_my_q (rt_ents s2 pe));
                  Some (upd_rt e (\<lambda>x. x\<lparr>rt_rq_of := q, rt_my_q := Some g, rt_parent := parent\<rparr>) s2) })"

text \<open>What an allocation returns: the addresses of the group and of its entity, and whether the other allocations succeed.\<close>

record group_memory =
  mem_tg :: "ptr option"
  mem_rt_rqs :: bool
  mem_rt_ses :: bool
  mem_rt_rq :: bool
  mem_rt_se :: "ptr option"

definition zero_rt_rq :: rt_rq where
  "zero_rt_rq = \<lparr>active = \<lparr>bitmap = (\<lambda>_. False), rt_queue = (\<lambda>_. [])\<rparr>, rt_nr_running = 0, highest_prio_curr = 0,
     rt_throttled = False, rt_time = 0, rt_runtime = 0, rt_nr_boosted = 0, rt_tg = None\<rparr>"

definition zero_rt_se :: sched_rt_entity where
  "zero_rt_se = \<lparr>rt_timeout = 0, rt_time_slice = 0, nr_cpus_allowed = 0, rt_parent = None, rt_rq_of = 0, rt_my_q = None\<rparr>"

definition zero_tg :: task_group where
  "zero_tg = \<lparr>tg_rt_bandwidth = \<lparr>rt_period = 0, bw_rt_runtime = 0\<rparr>, tg_rt_se = None, tg_parent = None, tg_children = []\<rparr>"

definition alloc_rt_sched_group :: "kenv \<Rightarrow> group_memory \<Rightarrow> ptr \<Rightarrow> ptr \<Rightarrow> kstate \<Rightarrow> (int \<times> kstate) option" where
  "alloc_rt_sched_group K M tg parent s =
     (if \<not> mem_rt_rqs M then Some (0, s)
      else if \<not> mem_rt_ses M then Some (0, s)
      else
        let s1 = upd_tg tg (\<lambda>t. t\<lparr>tg_rt_bandwidth :=
                   init_rt_bandwidth (rt_period (def_rt_bandwidth s)) 0 (tg_rt_bandwidth t)\<rparr>) s in
        if \<not> mem_rt_rq M then Some (0, s1)
        else case mem_rt_se M of
          None \<Rightarrow> Some (0, s1)
        | Some e \<Rightarrow>
            do { let s2 = upd_rt e (\<lambda>_. zero_rt_se) (upd_rt_rq tg (\<lambda>_. init_rt_rq K zero_rt_rq) s1);
                 let s3 = upd_rt_rq tg (\<lambda>r. r\<lparr>rt_runtime := bw_rt_runtime (tg_rt_bandwidth (tgs s2 tg))\<rparr>) s2;
                 s4 \<leftarrow> init_tg_rt_entry K tg tg (Some e) (tg_rt_se (tgs s3 parent)) s3;
                 Some (1, s4) })"

definition free_sched_group :: "kenv \<Rightarrow> ptr \<Rightarrow> bool \<Rightarrow> kstate \<Rightarrow> kstate" where
  "free_sched_group K tg ses s =
     emit (Kfree tg) (autogroup_free K tg (free_wrr_sched_group tg (free_rt_sched_group tg ses (free_fair_sched_group K tg s))))"

text \<open>\<open>Inl\<close> is \<^verbatim>\<open>ERR_PTR\<close>.\<close>

definition sched_create_group :: "kenv \<Rightarrow> group_memory \<Rightarrow> ptr \<Rightarrow> kstate \<Rightarrow> ((int + ptr) \<times> kstate) option" where
  "sched_create_group K M parent s =
     (case mem_tg M of
        None \<Rightarrow> Some (Inl (- ENOMEM), s)
      | Some tg \<Rightarrow>
          do { let s0 = upd_tg tg (\<lambda>_. zero_tg) s;
               let (fair, s1) = alloc_fair_sched_group K tg parent s0;
               if fair = 0 then Some (Inl (- ENOMEM), free_sched_group K tg False s1)
               else do {
                 (rt, s2) \<leftarrow> alloc_rt_sched_group K M tg parent s1;
                 if rt = 0 then Some (Inl (- ENOMEM), free_sched_group K tg (mem_rt_rqs M \<and> mem_rt_ses M) s2)
                 else do {
                   let (wr, s3) = alloc_wrr_sched_group tg parent s2;
                   if wr = 0 then Some (Inl (- ENOMEM), free_sched_group K tg True s3)
                   else do {
                     let s4 = s3\<lparr>task_groups := list_add_rcu K tg (task_groups s3)\<rparr>;
                     let s5 = upd_tg tg (\<lambda>t. t\<lparr>tg_parent := Some parent, tg_children := []\<rparr>) s4;
                     Some (Inr tg, upd_tg parent (\<lambda>t. t\<lparr>tg_children := list_add_rcu K tg (tg_children t)\<rparr>) s5) } } } })"

definition free_sched_group_rcu :: "kenv \<Rightarrow> ptr \<Rightarrow> kstate \<Rightarrow> kstate" where
  "free_sched_group_rcu K tg s = free_sched_group K tg True s"

text \<open>
  \<^verbatim>\<open>list_del_rcu(&tg->siblings)\<close> unlinks the group from the list it is on, that of its parent. The root group is on
  none: there is nothing to unlink.
\<close>

definition sched_destroy_group :: "kenv \<Rightarrow> ptr \<Rightarrow> kstate \<Rightarrow> kstate" where
  "sched_destroy_group K tg s =
     (let s1 = unregister_fair_sched_group K tg s;
          s2 = s1\<lparr>task_groups := list_del_rcu K tg (task_groups s1)\<rparr>;
          s3 = (case tg_parent (tgs s2 tg) of
                  None \<Rightarrow> s2
                | Some q \<Rightarrow> upd_tg q (\<lambda>t. t\<lparr>tg_children := list_del_rcu K tg (tg_children t)\<rparr>) s2)
      in emit (CallRcuFreeSchedGroup tg) s3)"

section \<open>Moving a task\<close>

definition class_task_move_group :: "kenv \<Rightarrow> sched_class \<Rightarrow> (ptr \<Rightarrow> bool \<Rightarrow> kstate \<Rightarrow> kstate) option" where
  "class_task_move_group K c =
     (case c of rt_sched_class \<Rightarrow> None | wrr_sched_class \<Rightarrow> None | _ \<Rightarrow> ec_task_move_group (ext_class_of K c))"

definition sched_move_task :: "kenv \<Rightarrow> ptr \<Rightarrow> kstate \<Rightarrow> kstate option" where
  "sched_move_task K p s =
     do { let running = task_current p s;
          let on = on_rq (tasks s p);
          s1 \<leftarrow> task_off K p on running s;
          let tg = autogroup_task_group K p (task_css_tg K p s1) s1;
          let s2 = upd_task p (\<lambda>t. t\<lparr>sched_task_group := tg\<rparr>) s1;
          let s3 = (case class_task_move_group K (class_of s2 p) of
                      Some move \<Rightarrow> move p on s2
                    | None \<Rightarrow> set_task_rq p s2);
          task_back_on K p on running 0 s3 }"

section \<open>Real-time bandwidth of groups\<close>

definition NSEC_PER_USEC :: u64 where "NSEC_PER_USEC = 1000"

definition global_rt_period :: "kstate \<Rightarrow> u64" where
  "global_rt_period s = ucast (sysctl_sched_rt_period s) * NSEC_PER_USEC"

definition global_rt_runtime :: "kstate \<Rightarrow> u64" where
  "global_rt_runtime s =
     (if sysctl_sched_rt_runtime s < 0 then RUNTIME_INF else word_of_int (sysctl_sched_rt_runtime s) * NSEC_PER_USEC)"

text \<open>Division by zero is an oops.\<close>

definition to_ratio :: "u64 \<Rightarrow> u64 \<Rightarrow> ulong option" where
  "to_ratio period runtime =
     (if runtime = RUNTIME_INF then Some (push_bit 20 1)
      else if period = 0 then None
      else Some (ucast (push_bit 20 runtime div period)))"

definition tg_has_rt_tasks :: "kenv \<Rightarrow> ptr list \<Rightarrow> ptr \<Rightarrow> kstate \<Rightarrow> bool" where
  "tg_has_rt_tasks K threads tg s =
     (\<exists>p \<in> set threads. rt_task (tasks s p) \<and> rt_tg (rt_rqs s (root_task_group K)) = Some tg)"

record rt_schedulable_data =
  rsd_tg :: "ptr option"
  rsd_period :: u64
  rsd_runtime :: u64

text \<open>Period and run time of a group, with the proposed values for the group that is being changed.\<close>

definition rsd_bandwidth :: "rt_schedulable_data \<Rightarrow> kstate \<Rightarrow> ptr \<Rightarrow> u64 \<times> u64" where
  "rsd_bandwidth d s tg =
     (if Some tg = rsd_tg d then (rsd_period d, rsd_runtime d)
      else (rt_period (tg_rt_bandwidth (tgs s tg)), bw_rt_runtime (tg_rt_bandwidth (tgs s tg))))"

fun children_ratio :: "rt_schedulable_data \<Rightarrow> kstate \<Rightarrow> ptr list \<Rightarrow> ulong \<Rightarrow> ulong option" where
  "children_ratio d s [] acc = Some acc"
| "children_ratio d s (c # cs) acc =
     do { r \<leftarrow> to_ratio (fst (rsd_bandwidth d s c)) (snd (rsd_bandwidth d s c)); children_ratio d s cs (acc + r) }"

definition tg_rt_schedulable :: "kenv \<Rightarrow> ptr list \<Rightarrow> kstate \<Rightarrow> rt_schedulable_data tg_visitor" where
  "tg_rt_schedulable K threads s tg d =
     (let (period, runtime) = rsd_bandwidth d s tg in
      if runtime > period \<and> runtime \<noteq> RUNTIME_INF then Some (- EINVAL, d)
      else if rt_bandwidth_enabled s \<and> runtime = 0 \<and> tg_has_rt_tasks K threads tg s then Some (- EBUSY, d)
      else do {
        total \<leftarrow> to_ratio period runtime;
        glob \<leftarrow> to_ratio (global_rt_period s) (global_rt_runtime s);
        if total > glob then Some (- EINVAL, d)
        else do {
          sm \<leftarrow> children_ratio d s (tg_children (tgs s tg)) 0;
          if sm > total then Some (- EINVAL, d) else Some (0, d) } })"

definition rt_schedulable :: "kenv \<Rightarrow> ptr list \<Rightarrow> ptr option \<Rightarrow> u64 \<Rightarrow> u64 \<Rightarrow> kstate \<Rightarrow> int option" where
  "rt_schedulable K threads tg period runtime s =
     map_option fst (walk_tg_tree K (tgs s) (tg_rt_schedulable K threads s) tg_nop
       \<lparr>rsd_tg = tg, rsd_period = period, rsd_runtime = runtime\<rparr>)"

definition tg_set_rt_bandwidth :: "kenv \<Rightarrow> ptr list \<Rightarrow> ptr \<Rightarrow> u64 \<Rightarrow> u64 \<Rightarrow> kstate \<Rightarrow> (int \<times> kstate) option" where
  "tg_set_rt_bandwidth K threads tg period runtime s =
     do { err \<leftarrow> rt_schedulable K threads (Some tg) period runtime s;
          if err \<noteq> 0 then Some (err, s)
          else
            let s1 = upd_tg tg (\<lambda>t. t\<lparr>tg_rt_bandwidth := \<lparr>rt_period = period, bw_rt_runtime = runtime\<rparr>\<rparr>) s
            in Some (0, upd_rt_rq tg (\<lambda>r. r\<lparr>rt_runtime := runtime\<rparr>) s1) }"

definition sched_group_set_rt_runtime :: "kenv \<Rightarrow> ptr list \<Rightarrow> ptr \<Rightarrow> int \<Rightarrow> kstate \<Rightarrow> (int \<times> kstate) option" where
  "sched_group_set_rt_runtime K threads tg rt_runtime_us s =
     (let period = rt_period (tg_rt_bandwidth (tgs s tg));
          runtime = (if rt_runtime_us < 0 then RUNTIME_INF else word_of_int rt_runtime_us * NSEC_PER_USEC)
      in tg_set_rt_bandwidth K threads tg period runtime s)"

text \<open>The results are \<^verbatim>\<open>long\<close>: the low 32 bits of the quotient.\<close>

definition sched_group_rt_runtime :: "ptr \<Rightarrow> kstate \<Rightarrow> int" where
  "sched_group_rt_runtime tg s =
     (let runtime = bw_rt_runtime (tg_rt_bandwidth (tgs s tg))
      in if runtime = RUNTIME_INF then -1 else sint (ucast (runtime div NSEC_PER_USEC) :: ulong))"

definition sched_group_set_rt_period :: "kenv \<Rightarrow> ptr list \<Rightarrow> ptr \<Rightarrow> int \<Rightarrow> kstate \<Rightarrow> (int \<times> kstate) option" where
  "sched_group_set_rt_period K threads tg rt_period_us s =
     (let period = word_of_int rt_period_us * NSEC_PER_USEC;
          runtime = bw_rt_runtime (tg_rt_bandwidth (tgs s tg))
      in if period = 0 then Some (- EINVAL, s) else tg_set_rt_bandwidth K threads tg period runtime s)"

definition sched_group_rt_period :: "ptr \<Rightarrow> kstate \<Rightarrow> int" where
  "sched_group_rt_period tg s = sint (ucast (rt_period (tg_rt_bandwidth (tgs s tg)) div NSEC_PER_USEC) :: ulong)"

definition sched_rt_global_constraints :: "kenv \<Rightarrow> ptr list \<Rightarrow> kstate \<Rightarrow> int option" where
  "sched_rt_global_constraints K threads s =
     (if sysctl_sched_rt_period s \<le> 0 then Some (- EINVAL)
      else
        let runtime = global_rt_runtime s; period = global_rt_period s in
        if runtime > period \<and> runtime \<noteq> RUNTIME_INF then Some (- EINVAL)
        else rt_schedulable K threads None 0 0 s)"

definition sched_rt_can_attach :: "ptr \<Rightarrow> ptr \<Rightarrow> kstate \<Rightarrow> bool" where
  "sched_rt_can_attach tg p s = (\<not> (rt_task (tasks s p) \<and> bw_rt_runtime (tg_rt_bandwidth (tgs s tg)) = 0))"

text \<open>
  The argument \<open>dointvec\<close> is \<^verbatim>\<open>proc_dointvec\<close>: its result and the values it leaves in the two variables.
\<close>

definition sched_rt_handler :: "kenv \<Rightarrow> ptr list \<Rightarrow> (int \<Rightarrow> uint32 \<Rightarrow> int \<times> int \<times> uint32) \<Rightarrow> bool \<Rightarrow> kstate \<Rightarrow>
    (int \<times> kstate) option" where
  "sched_rt_handler K threads dointvec wr s =
     (let old_period = sysctl_sched_rt_period s;
          old_runtime = sysctl_sched_rt_runtime s;
          (ret, runtime, period) = dointvec old_runtime old_period;
          s1 = s\<lparr>sysctl_sched_rt_runtime := runtime, sysctl_sched_rt_period := period\<rparr>
      in if ret = 0 \<and> wr then
           do { ret1 \<leftarrow> sched_rt_global_constraints K threads s1;
                Some (ret1, if ret1 \<noteq> 0
                  then s1\<lparr>sysctl_sched_rt_period := old_period, sysctl_sched_rt_runtime := old_runtime\<rparr>
                  else s1\<lparr>def_rt_bandwidth := (def_rt_bandwidth s1)\<lparr>bw_rt_runtime := global_rt_runtime s1,
                         rt_period := global_rt_period s1\<rparr>\<rparr>) }
         else Some (ret, s1))"

section \<open>The cpu control group\<close>

text \<open>\<open>None\<close> stands for the top control group, which has no parent; \<open>cgroup_tg\<close> of the parent is the argument.\<close>

definition cpu_cgroup_create :: "kenv \<Rightarrow> group_memory \<Rightarrow> ptr option \<Rightarrow> kstate \<Rightarrow> ((int + ptr) \<times> kstate) option" where
  "cpu_cgroup_create K M parent s =
     (case parent of
        None \<Rightarrow> Some (Inr (root_task_group K), s)
      | Some tg \<Rightarrow> do { (r, s1) \<leftarrow> sched_create_group K M tg s;
                        Some (case r of Inl _ \<Rightarrow> Inl (- ENOMEM) | Inr g \<Rightarrow> Inr g, s1) })"

definition cpu_cgroup_destroy :: "kenv \<Rightarrow> ptr \<Rightarrow> kstate \<Rightarrow> kstate" where
  "cpu_cgroup_destroy K tg s = sched_destroy_group K tg s"

definition cpu_cgroup_allow_attach :: "kenv \<Rightarrow> ptr list \<Rightarrow> kstate \<Rightarrow> int" where
  "cpu_cgroup_allow_attach K tset s =
     (let current = curr (rq s); cred = tasks s current
      in if \<exists>p \<in> set tset. current \<noteq> p \<and> \<not> capable_sys_nice K s \<and> cred_euid cred \<noteq> cred_uid (tasks s p) \<and>
              cred_euid cred \<noteq> cred_suid (tasks s p)
         then - EACCES else 0)"

definition cpu_cgroup_can_attach :: "ptr \<Rightarrow> ptr list \<Rightarrow> kstate \<Rightarrow> int" where
  "cpu_cgroup_can_attach tg tset s = (if \<exists>p \<in> set tset. \<not> sched_rt_can_attach tg p s then - EINVAL else 0)"

fun cpu_cgroup_attach :: "kenv \<Rightarrow> ptr list \<Rightarrow> kstate \<Rightarrow> kstate option" where
  "cpu_cgroup_attach K [] s = Some s"
| "cpu_cgroup_attach K (p # ps) s = do { s1 \<leftarrow> sched_move_task K p s; cpu_cgroup_attach K ps s1 }"

definition cpu_cgroup_exit :: "kenv \<Rightarrow> ptr \<Rightarrow> kstate \<Rightarrow> kstate option" where
  "cpu_cgroup_exit K p s = (if tflags (tasks s p) AND PF_EXITING = 0 then Some s else sched_move_task K p s)"

text \<open>The files \<^verbatim>\<open>rt_runtime_us\<close> and \<^verbatim>\<open>rt_period_us\<close>: the 64-bit value written is passed on as \<^verbatim>\<open>long\<close>.\<close>

definition cpu_rt_runtime_write :: "kenv \<Rightarrow> ptr list \<Rightarrow> ptr \<Rightarrow> u64 \<Rightarrow> kstate \<Rightarrow> (int \<times> kstate) option" where
  "cpu_rt_runtime_write K threads tg val s = sched_group_set_rt_runtime K threads tg (sint (ucast val :: ulong)) s"

definition cpu_rt_runtime_read :: "ptr \<Rightarrow> kstate \<Rightarrow> int" where
  "cpu_rt_runtime_read tg s = sched_group_rt_runtime tg s"

definition cpu_rt_period_write_uint :: "kenv \<Rightarrow> ptr list \<Rightarrow> ptr \<Rightarrow> u64 \<Rightarrow> kstate \<Rightarrow> (int \<times> kstate) option" where
  "cpu_rt_period_write_uint K threads tg val s = sched_group_set_rt_period K threads tg (sint (ucast val :: ulong)) s"

definition cpu_rt_period_read_uint :: "ptr \<Rightarrow> kstate \<Rightarrow> u64" where
  "cpu_rt_period_read_uint tg s = word_of_int (sched_group_rt_period tg s)"

end
