(* ===== verification/Group_Walk.thy ===== *)
theory Group_Walk
  imports Task_Groups "HOL-Library.Multiset"
begin

text \<open>
  The tree of task groups: a specification of the walk by recursion over a tree, the proof that the iterative
  \<^verbatim>\<open>walk_tg_tree_from\<close> implements it on the linked structure, and what linking a new group and unlinking a leaf do to the tree.
\<close>

section \<open>Trees of groups\<close>

datatype tg_tree = TG (tg_root: ptr) "tg_tree list"

fun tg_nodes :: "tg_tree \<Rightarrow> ptr list" where
  "tg_nodes (TG p ts) = p # concat (map tg_nodes ts)"

text \<open>The linked structure \<open>G\<close> holds the tree; the parent of its root may be anything.\<close>

fun tg_rep :: "(ptr \<Rightarrow> task_group) \<Rightarrow> tg_tree \<Rightarrow> bool" where
  "tg_rep G (TG p ts) \<longleftrightarrow>
     tg_children (G p) = map tg_root ts \<and> (\<forall>t \<in> set ts. tg_parent (G (tg_root t)) = Some p \<and> tg_rep G t)"

lemma tg_root_in_nodes [simp]: "tg_root t \<in> set (tg_nodes t)"
  by (cases t) simp

lemma distinct_roots:
  "distinct (concat (map tg_nodes ts)) \<Longrightarrow> distinct (map tg_root ts)"
proof (induction ts)
  case (Cons t ts)
  have "tg_root t \<noteq> tg_root u" if "u \<in> set ts" for u
    using Cons.prems that tg_root_in_nodes [of t] tg_root_in_nodes [of u] by (auto simp del: tg_root_in_nodes)
  then have "tg_root t \<notin> tg_root ` set ts" by blast
  with Cons show ?case by simp
qed simp

lemma tg_rep_cong:
  "(\<And>p. p \<in> set (tg_nodes t) \<Longrightarrow> tg_children (G p) = tg_children (H p) \<and> tg_parent (G p) = tg_parent (H p)) \<Longrightarrow>
   tg_rep G t = tg_rep H t"
proof (induction t)
  case (TG p ts)
  have "tg_rep G t = tg_rep H t" if "t \<in> set ts" for t using TG.IH [OF that] TG.prems that by auto
  moreover have "tg_parent (G (tg_root t)) = tg_parent (H (tg_root t))" if "t \<in> set ts" for t
    using TG.prems [of "tg_root t"] that tg_root_in_nodes [of t] by (auto simp del: tg_root_in_nodes)
  ultimately show ?case using TG.prems [of p] by auto
qed

section \<open>The specification of the walk\<close>

fun walk_spec :: "'d tg_visitor \<Rightarrow> 'd tg_visitor \<Rightarrow> tg_tree \<Rightarrow> 'd \<Rightarrow> (int \<times> 'd) option"
  and walk_specs :: "'d tg_visitor \<Rightarrow> 'd tg_visitor \<Rightarrow> tg_tree list \<Rightarrow> 'd \<Rightarrow> (int \<times> 'd) option" where
  "walk_spec down up (TG p ts) d =
     Option.bind (down p d) (\<lambda>r. if fst r \<noteq> 0 then Some r else
       Option.bind (walk_specs down up ts (snd r)) (\<lambda>r. if fst r \<noteq> 0 then Some r else up p (snd r)))"
| "walk_specs down up [] d = Some (0, d)"
| "walk_specs down up (t # ts) d =
     Option.bind (walk_spec down up t d) (\<lambda>r. if fst r \<noteq> 0 then Some r else walk_specs down up ts (snd r))"

lemma list_next_mid: "x \<notin> set xs \<Longrightarrow> list_next x (xs @ x # ys) = list_first ys"
  by (induction xs) (auto simp: list_next_def)

lemma list_first_simps [simp]: "list_first [] = None" "list_first (x # xs) = Some x"
  by (simp_all add: list_first_def)

lemma walk_loop_Down:
  "walk_loop G down up from (Down p) d = Option.bind (down p d) (\<lambda>r. if fst r \<noteq> 0 then Some r
     else walk_loop G down up from (Loop p (list_first (tg_children (G p)))) (snd r))"
  by (subst walk_loop.simps) simp

lemma walk_loop_child: "walk_loop G down up from (Loop p (Some c)) d = walk_loop G down up from (Down c) d"
  by (subst walk_loop.simps) simp

lemma walk_loop_end:
  "walk_loop G down up from (Loop p None) d = Option.bind (up p d) (\<lambda>r. if fst r \<noteq> 0 \<or> p = from then Some r
     else case tg_parent (G p) of None \<Rightarrow> Some r
       | Some q \<Rightarrow> walk_loop G down up from (Loop q (list_next p (tg_children (G q)))) (snd r))"
  by (subst walk_loop.simps) simp

lemma walk_subtree:
  fixes down up :: "'d tg_visitor"
  shows "tg_rep G t \<Longrightarrow> distinct (tg_nodes t) \<Longrightarrow> from \<notin> set (tg_nodes t) \<Longrightarrow> tg_parent (G (tg_root t)) = Some q \<Longrightarrow>
    walk_loop G down up from (Down (tg_root t)) d = Option.bind (walk_spec down up t d) (\<lambda>r. if fst r \<noteq> 0 then Some r
      else walk_loop G down up from (Loop q (list_next (tg_root t) (tg_children (G q)))) (snd r))"
  and "\<forall>t \<in> set ts. tg_rep G t \<and> tg_parent (G (tg_root t)) = Some p \<Longrightarrow> distinct (concat (map tg_nodes ts)) \<Longrightarrow>
    from \<notin> set (concat (map tg_nodes ts)) \<Longrightarrow> tg_children (G p) = ps @ map tg_root ts \<Longrightarrow> distinct (tg_children (G p)) \<Longrightarrow>
    walk_loop G down up from (Loop p (list_first (map tg_root ts))) d =
      Option.bind (walk_specs down up ts d) (\<lambda>r. if fst r \<noteq> 0 then Some r
        else walk_loop G down up from (Loop p None) (snd r))"
proof (induction down up t d and down up ts d arbitrary: q and p ps rule: walk_spec_walk_specs.induct)
  case (1 down up p ts d)
  have ch: "tg_children (G p) = [] @ map tg_root ts" using "1.prems"(1) by simp
  have ne: "p \<noteq> from" using "1.prems"(3) by auto
  have dist: "distinct (tg_children (G p))" using ch "1.prems"(2) distinct_roots by fastforce
  show ?case
  proof (cases "down p d")
    case (Some r)
    show ?thesis
    proof (cases "fst r = 0")
      case True
      have "walk_loop G down up from (Loop p (list_first (map tg_root ts))) (snd r) =
          Option.bind (walk_specs down up ts (snd r)) (\<lambda>r. if fst r \<noteq> 0 then Some r
            else walk_loop G down up from (Loop p None) (snd r))"
        by (rule "1.IH" [OF Some _ _ _ _ ch dist]) (use "1.prems" True in auto)
      then show ?thesis using ch ne "1.prems"(4) Some True
        by (auto simp: walk_loop_Down [of _ _ _ _ p] walk_loop_end bind_assoc intro!: bind_option_cong)
    qed (simp add: Some walk_loop_Down)
  qed (simp add: walk_loop_Down)
next
  case (2 down up d)
  show ?case by simp
next
  case (3 down up t ts d)
  have "tg_root t \<notin> set ps" using "3.prems"(4,5) by auto
  then have next_t: "list_next (tg_root t) (tg_children (G p)) = list_first (map tg_root ts)"
    using list_next_mid "3.prems"(4) by simp
  have tree: "walk_loop G down up from (Down (tg_root t)) d = Option.bind (walk_spec down up t d) (\<lambda>r. if fst r \<noteq> 0 then Some r
      else walk_loop G down up from (Loop p (list_first (map tg_root ts))) (snd r))"
    unfolding next_t [symmetric] by (rule "3.IH"(1)) (use "3.prems" in auto)
  have "walk_loop G down up from (Loop p (list_first (map tg_root ts))) (snd r) =
      Option.bind (walk_specs down up ts (snd r)) (\<lambda>r. if fst r \<noteq> 0 then Some r
        else walk_loop G down up from (Loop p None) (snd r))" if "walk_spec down up t d = Some r" "fst r = 0" for r
    by (rule "3.IH"(2) [OF that(1), of p "ps @ [tg_root t]"]) (use "3.prems" that in auto)
  then show ?case by (auto simp: walk_loop_child tree bind_assoc intro!: bind_option_cong)
qed

lemma walk_tree:
  assumes rep: "tg_rep G t" and dist: "distinct (tg_nodes t)"
  shows "walk_tg_tree_from G (tg_root t) down up d = walk_spec down up t d"
proof (cases t)
  case (TG p ts)
  have ch: "tg_children (G p) = [] @ map tg_root ts" and dc: "distinct (tg_children (G p))"
    using rep dist TG distinct_roots by auto
  have "walk_loop G down up p (Loop p (list_first (map tg_root ts))) e =
      Option.bind (walk_specs down up ts e) (\<lambda>r. if fst r \<noteq> 0 then Some r else walk_loop G down up p (Loop p None) (snd r))" for e
    by (rule walk_subtree(2) [where ps = "[]"]) (use rep dist TG ch dc in auto)
  then show ?thesis using ch
    by (auto simp: TG walk_tg_tree_from_def walk_loop_Down walk_loop_end intro!: bind_option_cong)
qed

text \<open>A walk whose visitor only reads: the first error in the order of the nodes.\<close>

fun first_error :: "(ptr \<Rightarrow> int option) \<Rightarrow> ptr list \<Rightarrow> int option" where
  "first_error f [] = Some 0"
| "first_error f (p # ps) = Option.bind (f p) (\<lambda>r. if r \<noteq> 0 then Some r else first_error f ps)"

lemma first_error_append:
  "first_error f (ps @ qs) = Option.bind (first_error f ps) (\<lambda>r. if r \<noteq> 0 then Some r else first_error f qs)"
  by (induction ps) (auto simp: bind_assoc intro!: bind_option_cong)

lemma first_error_0: "first_error f ps = Some 0 \<longleftrightarrow> (\<forall>p \<in> set ps. f p = Some 0)"
  by (induction ps) (auto simp: bind_eq_Some_conv)

lemma first_error_total: "(\<And>p. p \<in> set ps \<Longrightarrow> f p \<noteq> None) \<Longrightarrow> first_error f ps \<noteq> None"
proof (induction ps)
  case (Cons p ps)
  from Cons.prems [of p] obtain r where "f p = Some r" by auto
  with Cons show ?case by auto
qed simp

lemma walk_reader:
  assumes "\<And>p. down p d = map_option (\<lambda>r. (r, d)) (f p)"
  shows "walk_spec down tg_nop t d = map_option (\<lambda>r. (r, d)) (first_error f (tg_nodes t))"
    and "walk_specs down tg_nop ts d = map_option (\<lambda>r. (r, d)) (first_error f (concat (map tg_nodes ts)))"
  using assms
proof (induction down "tg_nop :: 'a tg_visitor" t d and down "tg_nop :: 'a tg_visitor" ts d rule: walk_spec_walk_specs.induct)
  case (1 down p ts d)
  show ?case
  proof (cases "f p")
    case (Some r)
    with 1 show ?thesis by (cases "first_error f (concat (map tg_nodes ts))") (auto simp: tg_nop_def)
  qed (simp add: 1)
next
  case (3 down t ts d)
  show ?case
  proof (cases "first_error f (tg_nodes t)")
    case (Some r)
    with 3 show ?thesis by (cases "r = 0") (auto simp: first_error_append)
  qed (use 3 in \<open>auto simp: first_error_append\<close>)
qed simp

lemma walk_visits:
  "walk_spec (\<lambda>p vs. Some (0, p # vs)) tg_nop t vs = Some (0, rev (tg_nodes t) @ vs)"
  "walk_specs (\<lambda>p vs. Some (0, p # vs)) tg_nop ts vs = Some (0, rev (concat (map tg_nodes ts)) @ vs)"
proof (induction "\<lambda>p vs. Some (0 :: int, p # vs :: ptr list)" "tg_nop :: ptr list tg_visitor" t vs
    and "\<lambda>p vs. Some (0 :: int, p # vs :: ptr list)" "tg_nop :: ptr list tg_visitor" ts vs rule: walk_spec_walk_specs.induct)
qed (simp_all add: tg_nop_def)

section \<open>Linking and unlinking\<close>

fun tg_insert :: "ptr \<Rightarrow> ptr \<Rightarrow> tg_tree \<Rightarrow> tg_tree" where
  "tg_insert q n (TG p ts) = TG p ((if p = q then [TG n []] else []) @ map (tg_insert q n) ts)"

fun tg_remove :: "ptr \<Rightarrow> tg_tree \<Rightarrow> tg_tree" where
  "tg_remove n (TG p ts) = TG p (map (tg_remove n) (filter (\<lambda>t. tg_root t \<noteq> n) ts))"

lemma tg_root_ins_rem [simp]: "tg_root (tg_insert q n t) = tg_root t" "tg_root (tg_remove n t) = tg_root t"
  by (cases t; simp)+

lemma tg_insert_same: "q \<notin> set (tg_nodes t) \<Longrightarrow> tg_insert q n t = t"
  by (induction t) (auto intro: map_idI)

lemma tg_remove_same: "n \<notin> set (tg_nodes t) \<Longrightarrow> tg_remove n t = t"
proof (induction t)
  case (TG p ts)
  have "tg_root t \<noteq> n" if "t \<in> set ts" for t using TG.prems that tg_root_in_nodes [of t] by (auto simp del: tg_root_in_nodes)
  then have "filter (\<lambda>t. tg_root t \<noteq> n) ts = ts" by (simp add: filter_id_conv)
  with TG show ?case by (auto intro: map_idI)
qed

lemma replicate_mset_add: "replicate_mset (a + b) x = replicate_mset a x + replicate_mset b x"
  by (induction a) simp_all

lemma map_filter_ne: "map f (filter (\<lambda>t. f t \<noteq> n) ts) = filter ((\<noteq>) n) (map f ts)"
  by (induction ts) auto

lemma nodes_insert_mset:
  "mset (tg_nodes (tg_insert q n t)) = mset (tg_nodes t) + replicate_mset (count (mset (tg_nodes t)) q) n"
proof (induction t)
  case (TG p ts)
  then have "mset (concat (map (tg_nodes \<circ> tg_insert q n) ts)) =
      mset (concat (map tg_nodes ts)) + replicate_mset (count (mset (concat (map tg_nodes ts))) q) n"
    by (induction ts) (auto simp: replicate_mset_add ac_simps)
  then show ?case by simp
qed

lemma nodes_insert:
  assumes "distinct (tg_nodes t)" and "q \<in> set (tg_nodes t)" and "n \<notin> set (tg_nodes t)"
  shows "distinct (tg_nodes (tg_insert q n t))" and "set (tg_nodes (tg_insert q n t)) = insert n (set (tg_nodes t))"
proof -
  have "count (mset (tg_nodes t)) q = 1" using assms(1,2) by (simp add: distinct_count_atmost_1)
  then have m: "mset (tg_nodes (tg_insert q n t)) = mset (n # tg_nodes t)" by (simp add: nodes_insert_mset)
  show "distinct (tg_nodes (tg_insert q n t))" using mset_eq_imp_distinct_iff [OF m] assms(1,3) by simp
  show "set (tg_nodes (tg_insert q n t)) = insert n (set (tg_nodes t))" using mset_eq_setD [OF m] by simp
qed

lemma tg_rep_insert:
  assumes "tg_rep G t" and "n \<notin> set (tg_nodes t)"
    and "\<And>p. p \<noteq> n \<Longrightarrow> tg_parent (H p) = tg_parent (G p) \<and> tg_children (H p) = (if p = q then n # tg_children (G p) else tg_children (G p))"
    and "tg_parent (H n) = Some q" and "tg_children (H n) = []"
  shows "tg_rep H (tg_insert q n t)"
  using assms(1,2)
proof (induction t)
  case (TG p ts)
  have "tg_parent (H (tg_root t)) = Some p \<and> tg_rep H (tg_insert q n t)" if "t \<in> set ts" for t
  proof -
    have "tg_root t \<noteq> n" using TG.prems(2) that tg_root_in_nodes [of t] by (auto simp del: tg_root_in_nodes)
    then show ?thesis using TG that assms(3) [of "tg_root t"] by auto
  qed
  then show ?case using TG.prems assms(3) [of p] assms(4,5) by auto
qed

lemma nodes_remove_mset:
  assumes "tg_rep G t" and "tg_children (G n) = []" and "tg_root t \<noteq> n"
  shows "mset (tg_nodes t) = mset (tg_nodes (tg_remove n t)) + replicate_mset (count (mset (tg_nodes t)) n) n"
  using assms(1,3)
proof (induction t)
  case (TG p ts)
  have leaf: "t = TG n []" if "t \<in> set ts" "tg_root t = n" for t
    using TG.prems(1) that assms(2) by (cases t) auto
  have "mset (concat (map tg_nodes us)) = mset (concat (map (tg_nodes \<circ> tg_remove n) (filter (\<lambda>t. tg_root t \<noteq> n) us))) +
      replicate_mset (count (mset (concat (map tg_nodes us))) n) n" if "set us \<subseteq> set ts" for us
    using that
  proof (induction us)
    case (Cons u us)
    show ?case
    proof (cases "tg_root u = n")
      case True
      then have "tg_nodes u = [n]" using leaf [of u] Cons.prems by simp
      with Cons True show ?thesis by simp
    next
      case False
      have "mset (tg_nodes u) = mset (tg_nodes (tg_remove n u)) + replicate_mset (count (mset (tg_nodes u)) n) n"
        using TG.IH [of u] TG.prems(1) Cons.prems False by auto
      with Cons False show ?thesis
        by (simp add: replicate_mset_add ac_simps)
    qed
  qed simp
  from this [of ts] show ?case using TG.prems(2) by simp
qed

lemma nodes_remove:
  assumes "tg_rep G t" and "tg_children (G n) = []" and "tg_root t \<noteq> n" and "distinct (tg_nodes t)" and "n \<in> set (tg_nodes t)"
  shows "distinct (tg_nodes (tg_remove n t))" and "set (tg_nodes (tg_remove n t)) = set (tg_nodes t) - {n}"
proof -
  have "count (mset (tg_nodes t)) n = 1" using assms(4,5) by (simp add: distinct_count_atmost_1)
  then have m: "mset (tg_nodes t) = mset (n # tg_nodes (tg_remove n t))" using nodes_remove_mset [OF assms(1-3)] by simp
  have "distinct (n # tg_nodes (tg_remove n t))" using mset_eq_imp_distinct_iff [OF m] assms(4) by simp
  moreover have "set (tg_nodes t) = insert n (set (tg_nodes (tg_remove n t)))" using mset_eq_setD [OF m] by simp
  ultimately show "distinct (tg_nodes (tg_remove n t))" "set (tg_nodes (tg_remove n t)) = set (tg_nodes t) - {n}" by auto
qed

lemma tg_rep_remove:
  assumes "tg_rep G t" and "distinct (tg_nodes t)" and "tg_parent (G n) = Some q"
    and "\<And>p. tg_parent (H p) = tg_parent (G p) \<and> tg_children (H p) = (if p = q then remove1 n (tg_children (G p)) else tg_children (G p))"
  shows "tg_rep H (tg_remove n t)"
  using assms(1,2)
proof (induction t)
  case (TG p ts)
  have sub: "tg_parent (H (tg_root t)) = Some p \<and> tg_rep H (tg_remove n t)" if "t \<in> set ts" for t
    using TG that assms(4) by (auto simp: distinct_concat_iff)
  have dr: "distinct (map tg_root ts)" using TG.prems(2) distinct_roots by auto
  have "map tg_root (filter (\<lambda>t. tg_root t \<noteq> n) ts) = (if p = q then remove1 n (map tg_root ts) else map tg_root ts)"
  proof (cases "p = q")
    case True
    show ?thesis using dr by (simp add: True map_filter_ne distinct_remove1_removeAll removeAll_filter_not_eq)
  next
    case False
    then have "\<forall>t \<in> set ts. tg_root t \<noteq> n" using TG.prems(1) assms(3) by auto
    with False show ?thesis by (simp add: filter_id_conv)
  qed
  then have "tg_children (H p) = map tg_root (map (tg_remove n) (filter (\<lambda>t. tg_root t \<noteq> n) ts))"
    using TG.prems(1) assms(4) [of p] by (auto simp: o_def)
  with sub show ?case by simp
qed

end
