(* ===== verification/Group_Props.thy ===== *)
theory Group_Props
  imports Group_Walk Sample
begin

text \<open>
  Admission control for real-time bandwidth: whatever groups are created, destroyed and given bandwidth, and however the
  global limit is set, the groups form a tree in which no group grants its children more than it has itself.
\<close>

section \<open>Ratios\<close>

text \<open>
  The share of the CPU in whole units of \<open>2 ^ -20\<close>, rounded down as \<^verbatim>\<open>to_ratio\<close> does but with numbers that do not wrap, and the
  arguments for which the machine computes it.
\<close>

definition bw_ratio :: "u64 \<times> u64 \<Rightarrow> nat" where
  "bw_ratio b = (if snd b = RUNTIME_INF then 2 ^ 20 else unat (snd b) * 2 ^ 20 div unat (fst b))"

definition bw_ok :: "u64 \<times> u64 \<Rightarrow> bool" where
  "bw_ok b \<longleftrightarrow> fst b \<noteq> 0 \<and> (snd b = RUNTIME_INF \<or> snd b \<le> fst b \<and> unat (snd b) < 2 ^ 44)"

lemma bw_ratio_le: "bw_ok b \<Longrightarrow> bw_ratio b \<le> 2 ^ 20"
proof -
  assume ok: "bw_ok b"
  show ?thesis
  proof (cases "snd b = RUNTIME_INF")
    case False
    with ok have "unat (snd b) \<le> unat (fst b)" by (simp add: bw_ok_def word_le_nat_alt)
    then have "unat (snd b) * 2 ^ 20 div unat (fst b) \<le> unat (fst b) * 2 ^ 20 div unat (fst b)"
      by (intro div_le_mono mult_le_mono1)
    also have "\<dots> \<le> 2 ^ 20" by simp
    finally show ?thesis using False by (simp add: bw_ratio_def)
  qed (simp add: bw_ratio_def)
qed

lemma to_ratio_total: "fst b \<noteq> 0 \<Longrightarrow> to_ratio (fst b) (snd b) \<noteq> None"
  by (simp add: to_ratio_def)

lemma unat_ucast_small: "unat (x :: u64) < 2 ^ 32 \<Longrightarrow> unat (ucast x :: ulong) = unat x"
  by (simp add: unsigned_ucast_eq unsigned_take_bit_eq take_bit_nat_eq_self)

lemma to_ratio_exact:
  assumes "bw_ok b"
  shows "to_ratio (fst b) (snd b) = Some (of_nat (bw_ratio b))"
proof (cases "snd b = RUNTIME_INF")
  case False
  have nz: "fst b \<noteq> 0" and small: "unat (snd b) < 2 ^ 44" using assms False by (auto simp: bw_ok_def)
  have "unat (push_bit 20 (snd b)) = unat (snd b) * 2 ^ 20"
    using small by (simp add: push_bit_eq_mult unat_mult_lem [THEN iffD1])
  then have "unat (push_bit 20 (snd b) div fst b) = bw_ratio b" using False by (simp add: unat_div bw_ratio_def)
  moreover have "bw_ratio b < 2 ^ 32" using bw_ratio_le [OF assms] by (rule le_less_trans) simp
  ultimately have "unat (ucast (push_bit 20 (snd b) div fst b) :: ulong) = bw_ratio b"
    by (metis unat_ucast_small)
  then have "(ucast (push_bit 20 (snd b) div fst b) :: ulong) = of_nat (bw_ratio b)"
    by (metis of_nat_unat ucast_id)
  then show ?thesis using False nz by (simp add: to_ratio_def)
qed (simp add: to_ratio_def bw_ratio_def)

lemma sum_one_changed:
  fixes f g :: "'a \<Rightarrow> nat"
  assumes "distinct xs" and "\<And>x. x \<in> set xs \<Longrightarrow> x \<noteq> a \<Longrightarrow> g x = f x" and "g a \<le> k"
  shows "sum_list (map g xs) \<le> sum_list (map f xs) + k"
  using assms(1,2)
proof (induction xs)
  case (Cons x xs)
  show ?case
  proof (cases "x = a")
    case True
    then have "map g xs = map f xs" using Cons.prems by auto
    then have "sum_list (map g xs) = sum_list (map f xs)" by (rule arg_cong)
    then show ?thesis using True assms(3) by simp
  next
    case False
    then show ?thesis using Cons by fastforce
  qed
qed simp

lemma children_ratio_exact:
  assumes "\<And>c. c \<in> set cs \<Longrightarrow> bw_ok (rsd_bandwidth d s c)"
  shows "children_ratio d s cs acc = Some (acc + of_nat (sum_list (map (\<lambda>c. bw_ratio (rsd_bandwidth d s c)) cs)))"
  using assms by (induction cs arbitrary: acc) (simp_all add: to_ratio_exact ac_simps)

lemma children_ratio_total:
  assumes "\<And>c. c \<in> set cs \<Longrightarrow> fst (rsd_bandwidth d s c) \<noteq> 0"
  shows "children_ratio d s cs acc \<noteq> None"
  using assms
proof (induction cs arbitrary: acc)
  case (Cons c cs)
  obtain r where "to_ratio (fst (rsd_bandwidth d s c)) (snd (rsd_bandwidth d s c)) = Some r"
    using to_ratio_total [of "rsd_bandwidth d s c"] Cons.prems by auto
  with Cons show ?case by simp
qed simp

section \<open>The invariant\<close>

definition tg_bw :: "kstate \<Rightarrow> ptr \<Rightarrow> u64 \<times> u64" where
  "tg_bw s g = (rt_period (tg_rt_bandwidth (tgs s g)), bw_rt_runtime (tg_rt_bandwidth (tgs s g)))"

definition global_bw :: "kstate \<Rightarrow> u64 \<times> u64" where
  "global_bw s = (global_rt_period s, global_rt_runtime s)"

text \<open>One group: its bandwidth makes sense, covers its children, and is what its queue enforces.\<close>

definition tg_feasible :: "kstate \<Rightarrow> ptr \<Rightarrow> bool" where
  "tg_feasible s g \<longleftrightarrow> bw_ok (tg_bw s g) \<and>
     sum_list (map (\<lambda>c. bw_ratio (tg_bw s c)) (tg_children (tgs s g))) \<le> bw_ratio (tg_bw s g) \<and>
     rt_runtime (rt_rqs s g) = snd (tg_bw s g)"

definition tg_linked :: "kstate \<Rightarrow> ptr \<Rightarrow> bool" where
  "tg_linked s g \<longleftrightarrow> (\<forall>e. tg_rt_se (tgs s g) = Some e \<longrightarrow> rt_my_q (rt_ents s e) \<noteq> None)"

definition groups_shape :: "kenv \<Rightarrow> tg_tree \<Rightarrow> kstate \<Rightarrow> bool" where
  "groups_shape K t s \<longleftrightarrow>
     tg_root t = root_task_group K \<and> tg_rep (tgs s) t \<and> distinct (tg_nodes t) \<and>
     distinct (task_groups s) \<and> set (task_groups s) = set (tg_nodes t) \<and>
     (\<forall>g \<in> set (tg_nodes t). tg_feasible s g \<and> tg_linked s g) \<and> rt_period (def_rt_bandwidth s) \<noteq> 0"

definition groups_ok :: "kenv \<Rightarrow> tg_tree \<Rightarrow> kstate \<Rightarrow> bool" where
  "groups_ok K t s \<longleftrightarrow> groups_shape K t s \<and> bw_ok (global_bw s) \<and>
     (\<forall>g \<in> set (tg_nodes t). bw_ratio (tg_bw s g) \<le> bw_ratio (global_bw s))"

lemma groups_shapeD:
  assumes "groups_shape K t s"
  shows "tg_root t = root_task_group K" "tg_rep (tgs s) t" "distinct (tg_nodes t)"
    "distinct (task_groups s)" "set (task_groups s) = set (tg_nodes t)" "rt_period (def_rt_bandwidth s) \<noteq> 0"
    and "\<And>g. g \<in> set (tg_nodes t) \<Longrightarrow> tg_feasible s g" "\<And>g. g \<in> set (tg_nodes t) \<Longrightarrow> tg_linked s g"
  using assms by (auto simp: groups_shape_def)

lemma tg_rep_child:
  "tg_rep G t \<Longrightarrow> g \<in> set (tg_nodes t) \<Longrightarrow> distinct (tg_nodes t) \<Longrightarrow>
   set (tg_children (G g)) \<subseteq> set (tg_nodes t) \<and> distinct (tg_children (G g))"
proof (induction t)
  case (TG p ts)
  show ?case
  proof (cases "g = p")
    case True
    have "tg_root t \<in> set (concat (map tg_nodes ts))" if "t \<in> set ts" for t
      using that tg_root_in_nodes [of t] by (auto simp del: tg_root_in_nodes)
    then show ?thesis using TG.prems True distinct_roots [of ts] by auto
  next
    case False
    then obtain t where t: "t \<in> set ts" "g \<in> set (tg_nodes t)" using TG.prems by auto
    then have "distinct (tg_nodes t)" using TG.prems(3) by (auto simp: distinct_concat_iff)
    then show ?thesis using TG.IH [OF t(1)] TG.prems(1) t by auto
  qed
qed

lemma tg_parent_node:
  "tg_rep G t \<Longrightarrow> g \<in> set (tg_nodes t) \<Longrightarrow> g \<noteq> tg_root t \<Longrightarrow>
   \<exists>q. tg_parent (G g) = Some q \<and> q \<in> set (tg_nodes t) \<and> g \<in> set (tg_children (G q))"
proof (induction t)
  case (TG p ts)
  then obtain t where t: "t \<in> set ts" "g \<in> set (tg_nodes t)" by auto
  show ?case
  proof (cases "g = tg_root t")
    case True
    then show ?thesis using TG.prems(1) t(1) by auto
  next
    case False
    then show ?thesis using TG.IH [OF t(1)] TG.prems(1) t by auto
  qed
qed

text \<open>Everything the invariant reads.\<close>

lemma groups_shape_cong:
  assumes ok: "groups_shape K t s"
    and same: "\<And>g. g \<in> set (tg_nodes t) \<Longrightarrow> tgs s' g = tgs s g \<and> rt_runtime (rt_rqs s' g) = rt_runtime (rt_rqs s g) \<and> tg_linked s' g"
    and "task_groups s' = task_groups s" "rt_period (def_rt_bandwidth s') \<noteq> 0"
  shows "groups_shape K t s'"
proof -
  note ok' = groups_shapeD [OF ok]
  have "tg_rep (tgs s') t = tg_rep (tgs s) t" by (rule tg_rep_cong) (use same in auto)
  moreover have "tg_feasible s' g" if g: "g \<in> set (tg_nodes t)" for g
  proof -
    have "set (tg_children (tgs s g)) \<subseteq> set (tg_nodes t)" using tg_rep_child [of "tgs s" t g] ok' g by auto
    then have "map (\<lambda>c. bw_ratio (tg_bw s' c)) (tg_children (tgs s g)) = map (\<lambda>c. bw_ratio (tg_bw s c)) (tg_children (tgs s g))"
      using same by (auto simp: tg_bw_def)
    then have "sum_list (map (\<lambda>c. bw_ratio (tg_bw s' c)) (tg_children (tgs s g))) =
        sum_list (map (\<lambda>c. bw_ratio (tg_bw s c)) (tg_children (tgs s g)))" by (rule arg_cong)
    moreover have "tg_bw s' g = tg_bw s g" "tgs s' g = tgs s g" using same [OF g] by (simp_all add: tg_bw_def)
    ultimately show ?thesis using ok'(7) [OF g] same [OF g] by (simp add: tg_feasible_def)
  qed
  ultimately show ?thesis using ok' same assms(3,4) by (auto simp: groups_shape_def)
qed

lemma groups_ok_cong:
  assumes "groups_ok K t s"
    and "\<And>g. g \<in> set (tg_nodes t) \<Longrightarrow> tgs s' g = tgs s g \<and> rt_runtime (rt_rqs s' g) = rt_runtime (rt_rqs s g) \<and> tg_linked s' g"
    and "task_groups s' = task_groups s" "def_rt_bandwidth s' = def_rt_bandwidth s" "global_bw s' = global_bw s"
  shows "groups_ok K t s'"
proof -
  have sh: "groups_shape K t s" using assms(1) by (simp add: groups_ok_def)
  have "groups_shape K t s'" by (rule groups_shape_cong [OF sh]) (use assms(2-4) groups_shapeD(6) [OF sh] in auto)
  moreover have "tg_bw s' g = tg_bw s g" if "g \<in> set (tg_nodes t)" for g using assms(2) [OF that] by (simp add: tg_bw_def)
  ultimately show ?thesis using assms(1,5) by (simp add: groups_ok_def)
qed

section \<open>The check\<close>

lemma rsd_bandwidth_eq:
  "rsd_bandwidth d s g = (if Some g = rsd_tg d then (rsd_period d, rsd_runtime d) else tg_bw s g)"
  by (simp add: rsd_bandwidth_def tg_bw_def)

definition visit_code :: "kenv \<Rightarrow> ptr list \<Rightarrow> kstate \<Rightarrow> rt_schedulable_data \<Rightarrow> ptr \<Rightarrow> int option" where
  "visit_code K th s d g = map_option fst (tg_rt_schedulable K th s g d)"

lemma tg_rt_schedulable_reads:
  "tg_rt_schedulable K th s g d = map_option (\<lambda>r. (r, d)) (visit_code K th s d g)"
proof -
  have "snd r = d" if "tg_rt_schedulable K th s g d = Some r" for r
    using that by (auto simp: tg_rt_schedulable_def Let_def split_def bind_eq_Some_conv split: if_splits)
  then show ?thesis by (cases "tg_rt_schedulable K th s g d") (auto simp: visit_code_def prod_eq_iff)
qed

lemma rt_schedulable_eq:
  assumes "groups_shape K t s"
  shows "rt_schedulable K th tg period runtime s =
    first_error (visit_code K th s \<lparr>rsd_tg = tg, rsd_period = period, rsd_runtime = runtime\<rparr>) (tg_nodes t)"
proof -
  have "walk_tg_tree K (tgs s) down up d = walk_spec down up t d" for down up :: "rt_schedulable_data tg_visitor" and d
    using walk_tree [of "tgs s" t down up d] groups_shapeD [OF assms] by (simp add: walk_tg_tree_def)
  then show ?thesis
    by (simp add: rt_schedulable_def walk_reader(1) [OF tg_rt_schedulable_reads] option.map_comp o_def option.map_ident)
qed

lemma visit_total:
  assumes "\<And>c. c \<in> insert g (set (tg_children (tgs s g))) \<Longrightarrow> fst (rsd_bandwidth d s c) \<noteq> 0" and "fst (global_bw s) \<noteq> 0"
  shows "visit_code K th s d g \<noteq> None"
proof -
  obtain a where "to_ratio (fst (rsd_bandwidth d s g)) (snd (rsd_bandwidth d s g)) = Some a"
    using to_ratio_total [of "rsd_bandwidth d s g"] assms(1) by auto
  moreover obtain b where "to_ratio (global_rt_period s) (global_rt_runtime s) = Some b"
    using to_ratio_total [OF assms(2)] by (auto simp: global_bw_def)
  moreover obtain c where "children_ratio d s (tg_children (tgs s g)) 0 = Some c"
    using children_ratio_total [of "tg_children (tgs s g)" d s 0] assms(1) by auto
  ultimately show ?thesis by (simp add: visit_code_def tg_rt_schedulable_def split_def Let_def)
qed

lemma visit_zeroD:
  assumes "visit_code K th s d g = Some 0"
  shows "snd (rsd_bandwidth d s g) \<le> fst (rsd_bandwidth d s g) \<or> snd (rsd_bandwidth d s g) = RUNTIME_INF"
    and "\<exists>a b c. to_ratio (fst (rsd_bandwidth d s g)) (snd (rsd_bandwidth d s g)) = Some a \<and>
      to_ratio (fst (global_bw s)) (snd (global_bw s)) = Some b \<and>
      children_ratio d s (tg_children (tgs s g)) 0 = Some c \<and> a \<le> b \<and> c \<le> a"
  using assms
  by (auto simp: visit_code_def tg_rt_schedulable_def split_def Let_def bind_eq_Some_conv global_bw_def sched_consts EBUSY_def
      split: if_splits)

lemma of_nat_le_ulong: "m < 2 ^ 32 \<Longrightarrow> n < 2 ^ 32 \<Longrightarrow> (of_nat m :: ulong) \<le> of_nat n \<longleftrightarrow> m \<le> n"
  by (simp add: word_le_nat_alt unat_of_nat take_bit_nat_eq_self)

text \<open>
  What a passed check says, in exact arithmetic: the proposed bandwidth of one group leaves no sum above \<open>2 ^ 21\<close>, so the
  32-bit sums do not wrap.
\<close>

lemma check_passed:
  assumes shape: "groups_shape K t s" and glob: "bw_ok (global_bw s)"
    and pass: "rt_schedulable K th tgo period runtime s = Some 0"
    and new: "tgo \<noteq> None \<Longrightarrow> period \<noteq> 0 \<and> (runtime = RUNTIME_INF \<or> unat runtime < 2 ^ 44)"
    and g: "g \<in> set (tg_nodes t)"
    and B: "B = rsd_bandwidth \<lparr>rsd_tg = tgo, rsd_period = period, rsd_runtime = runtime\<rparr> s"
  shows "bw_ok (B g)" and "bw_ratio (B g) \<le> bw_ratio (global_bw s)"
    and "sum_list (map (\<lambda>c. bw_ratio (B c)) (tg_children (tgs s g))) \<le> bw_ratio (B g)"
proof -
  note sh = groups_shapeD [OF shape]
  have z: "visit_code K th s \<lparr>rsd_tg = tgo, rsd_period = period, rsd_runtime = runtime\<rparr> h = Some 0" if "h \<in> set (tg_nodes t)" for h
    using pass that by (simp add: rt_schedulable_eq [OF shape] first_error_0)
  have ok: "bw_ok (B h)" if h: "h \<in> set (tg_nodes t)" for h
    using visit_zeroD(1) [OF z [OF h]] sh(7) [OF h] new
    by (auto simp: B rsd_bandwidth_eq bw_ok_def tg_feasible_def)
  show "bw_ok (B g)" by (rule ok [OF g])
  have ch: "set (tg_children (tgs s g)) \<subseteq> set (tg_nodes t)" "distinct (tg_children (tgs s g))"
    using tg_rep_child [OF sh(2) g sh(3)] by auto
  let ?S = "sum_list (map (\<lambda>c. bw_ratio (B c)) (tg_children (tgs s g)))"
  have old: "sum_list (map (\<lambda>c. bw_ratio (tg_bw s c)) (tg_children (tgs s g))) \<le> 2 ^ 20"
    using sh(7) [OF g] bw_ratio_le [of "tg_bw s g"] by (simp add: tg_feasible_def)
  have "?S \<le> 2 ^ 20 + 2 ^ 20"
  proof (cases "\<exists>a. tgo = Some a \<and> a \<in> set (tg_children (tgs s g))")
    case True
    then obtain a where a: "tgo = Some a" "a \<in> set (tg_children (tgs s g))" by blast
    have "?S \<le> sum_list (map (\<lambda>c. bw_ratio (tg_bw s c)) (tg_children (tgs s g))) + 2 ^ 20"
    proof (rule sum_one_changed [OF ch(2)])
      show "bw_ratio (B a) \<le> 2 ^ 20" using a ch(1) ok bw_ratio_le by blast
      show "bw_ratio (B x) = bw_ratio (tg_bw s x)" if "x \<noteq> a" for x using that a by (simp add: B rsd_bandwidth_eq)
    qed
    then show ?thesis using old by simp
  next
    case False
    then have "map (\<lambda>c. bw_ratio (B c)) (tg_children (tgs s g)) = map (\<lambda>c. bw_ratio (tg_bw s c)) (tg_children (tgs s g))"
      by (auto simp: B rsd_bandwidth_eq)
    then have "?S = sum_list (map (\<lambda>c. bw_ratio (tg_bw s c)) (tg_children (tgs s g)))" by (rule arg_cong)
    then show ?thesis using old by simp
  qed
  then have S: "?S < 2 ^ 32" by simp
  have G: "bw_ratio (B g) < 2 ^ 32" "bw_ratio (global_bw s) < 2 ^ 32"
    using bw_ratio_le [OF ok [OF g]] bw_ratio_le [OF glob] by simp_all
  have "bw_ok (B c)" if "c \<in> set (tg_children (tgs s g))" for c using ok ch(1) that by blast
  then have "children_ratio \<lparr>rsd_tg = tgo, rsd_period = period, rsd_runtime = runtime\<rparr> s (tg_children (tgs s g)) 0 = Some (of_nat ?S)"
    using children_ratio_exact [of "tg_children (tgs s g)" "\<lparr>rsd_tg = tgo, rsd_period = period, rsd_runtime = runtime\<rparr>" s 0]
    by (simp add: B)
  moreover note to_ratio_exact [OF ok [OF g]] to_ratio_exact [OF glob]
  ultimately have "(of_nat (bw_ratio (B g)) :: ulong) \<le> of_nat (bw_ratio (global_bw s))" "(of_nat ?S :: ulong) \<le> of_nat (bw_ratio (B g))"
    using visit_zeroD(2) [OF z [OF g]] by (auto simp: B)
  then show "bw_ratio (B g) \<le> bw_ratio (global_bw s)" "?S \<le> bw_ratio (B g)"
    using of_nat_le_ulong G S by blast+
qed

lemma rt_schedulable_total:
  assumes "groups_shape K t s" and "fst (global_bw s) \<noteq> 0" and "tgo \<noteq> None \<Longrightarrow> period \<noteq> 0"
  shows "rt_schedulable K th tgo period runtime s \<noteq> None"
proof -
  note sh = groups_shapeD [OF assms(1)]
  have "fst (rsd_bandwidth \<lparr>rsd_tg = tgo, rsd_period = period, rsd_runtime = runtime\<rparr> s h) \<noteq> 0" if "h \<in> set (tg_nodes t)" for h
    using sh(7) [OF that] assms(3) by (auto simp: rsd_bandwidth_eq tg_feasible_def bw_ok_def)
  moreover have "set (tg_children (tgs s h)) \<subseteq> set (tg_nodes t)" if "h \<in> set (tg_nodes t)" for h
    using tg_rep_child [OF sh(2) that sh(3)] by simp
  ultimately have "visit_code K th s \<lparr>rsd_tg = tgo, rsd_period = period, rsd_runtime = runtime\<rparr> h \<noteq> None" if "h \<in> set (tg_nodes t)" for h
    using that assms(2) by (intro visit_total) auto
  then show ?thesis unfolding rt_schedulable_eq [OF assms(1)] by (rule first_error_total)
qed

section \<open>Setting bandwidth\<close>

definition set_bw :: "ptr \<Rightarrow> u64 \<Rightarrow> u64 \<Rightarrow> kstate \<Rightarrow> kstate" where
  "set_bw g period runtime s = upd_rt_rq g (\<lambda>r. r\<lparr>rt_runtime := runtime\<rparr>)
     (upd_tg g (\<lambda>t. t\<lparr>tg_rt_bandwidth := \<lparr>rt_period = period, bw_rt_runtime = runtime\<rparr>\<rparr>) s)"

lemma upd_tg_simps [simp]:
  "tgs (upd_tg g f s) = (tgs s)(g := f (tgs s g))" "rt_rqs (upd_tg g f s) = rt_rqs s" "rt_ents (upd_tg g f s) = rt_ents s"
  "tasks (upd_tg g f s) = tasks s" "rq (upd_tg g f s) = rq s" "task_groups (upd_tg g f s) = task_groups s"
  "def_rt_bandwidth (upd_tg g f s) = def_rt_bandwidth s"
  "sysctl_sched_rt_runtime (upd_tg g f s) = sysctl_sched_rt_runtime s"
  "sysctl_sched_rt_period (upd_tg g f s) = sysctl_sched_rt_period s"
  by (simp_all add: upd_tg_def)

lemma global_bw_cong:
  "sysctl_sched_rt_runtime s' = sysctl_sched_rt_runtime s \<Longrightarrow> sysctl_sched_rt_period s' = sysctl_sched_rt_period s \<Longrightarrow>
   global_bw s' = global_bw s"
  by (simp add: global_bw_def global_rt_period_def global_rt_runtime_def)

lemma set_bw_simps [simp]:
  "tg_children (tgs (set_bw g period runtime s) h) = tg_children (tgs s h)"
  "tg_parent (tgs (set_bw g period runtime s) h) = tg_parent (tgs s h)"
  "tg_bw (set_bw g period runtime s) h = (if h = g then (period, runtime) else tg_bw s h)"
  "rt_runtime (rt_rqs (set_bw g period runtime s) h) = (if h = g then runtime else rt_runtime (rt_rqs s h))"
  "tg_linked (set_bw g period runtime s) h = tg_linked s h"
  "task_groups (set_bw g period runtime s) = task_groups s"
  "def_rt_bandwidth (set_bw g period runtime s) = def_rt_bandwidth s"
  "global_bw (set_bw g period runtime s) = global_bw s"
  by (simp_all add: set_bw_def tg_bw_def tg_linked_def global_bw_def global_rt_period_def global_rt_runtime_def)

lemma tg_set_rt_bandwidth_ok:
  assumes ok: "groups_ok K t s" and g: "g \<in> set (tg_nodes t)"
    and new: "period \<noteq> 0" "runtime = RUNTIME_INF \<or> unat runtime < 2 ^ 44"
  shows "\<exists>r s'. tg_set_rt_bandwidth K th g period runtime s = Some (r, s') \<and> groups_ok K t s' \<and>
    s' = (if r = 0 then set_bw g period runtime s else s)"
proof -
  have sh: "groups_shape K t s" and gl: "bw_ok (global_bw s)" using ok by (auto simp: groups_ok_def)
  obtain r where r: "rt_schedulable K th (Some g) period runtime s = Some r"
    using rt_schedulable_total [OF sh, of "Some g" period th runtime] gl new(1) by (auto simp: bw_ok_def)
  have "groups_ok K t (set_bw g period runtime s)" if "r = 0"
  proof -
    let ?s = "set_bw g period runtime s"
    have pass: "rt_schedulable K th (Some g) period runtime s = Some 0" using r that by simp
    have B: "tg_bw ?s = rsd_bandwidth \<lparr>rsd_tg = Some g, rsd_period = period, rsd_runtime = runtime\<rparr> s"
      by (rule ext) (simp add: rsd_bandwidth_eq)
    have nw: "Some g \<noteq> None \<Longrightarrow> period \<noteq> 0 \<and> (runtime = RUNTIME_INF \<or> unat runtime < 2 ^ 44)" using new by simp
    note passed = check_passed [OF sh gl pass nw _ B]
    have c: "bw_ok (tg_bw ?s h)" "bw_ratio (tg_bw ?s h) \<le> bw_ratio (global_bw s)"
      "sum_list (map (\<lambda>c. bw_ratio (tg_bw ?s c)) (tg_children (tgs s h))) \<le> bw_ratio (tg_bw ?s h)"
      if "h \<in> set (tg_nodes t)" for h
      using passed(1) [OF _ that] passed(2) [OF _ that] passed(3) [OF _ that] by blast+
    have rep: "tg_rep (tgs ?s) t" using groups_shapeD(2) [OF sh] by (subst tg_rep_cong [of t _ "tgs s"]) simp_all
    have "tg_feasible ?s h" if "h \<in> set (tg_nodes t)" for h
      unfolding tg_feasible_def
    proof (intro conjI)
      show "sum_list (map (\<lambda>c. bw_ratio (tg_bw ?s c)) (tg_children (tgs ?s h))) \<le> bw_ratio (tg_bw ?s h)"
        unfolding set_bw_simps(1) by (rule c(3) [OF that])
      show "rt_runtime (rt_rqs ?s h) = snd (tg_bw ?s h)"
        using groups_shapeD(7) [OF sh that] by (simp add: tg_feasible_def)
    qed (rule c(1) [OF that])
    then have "groups_shape K t ?s" using rep groups_shapeD [OF sh]
      by (simp add: groups_shape_def del: set_bw_simps(3))
    then show ?thesis using gl c(2) by (simp add: groups_ok_def del: set_bw_simps(3))
  qed
  moreover have "tg_set_rt_bandwidth K th g period runtime s = Some (r, if r = 0 then set_bw g period runtime s else s)"
    using r by (simp add: tg_set_rt_bandwidth_def set_bw_def Let_def)
  ultimately show ?thesis using ok by simp
qed

lemma unat_word_of_int_long: "0 \<le> us \<Longrightarrow> us < 2 ^ 31 \<Longrightarrow> unat (word_of_int us :: u64) = nat us"
  by (simp add: unsigned_of_int take_bit_int_eq_self)

lemma long_usec:
  assumes "0 \<le> us" and "us < 2 ^ 31"
  shows "unat (word_of_int us * NSEC_PER_USEC :: u64) = nat us * 1000"
proof -
  have "nat us < 2 ^ 31" using assms by simp
  then have "unat (word_of_int us :: u64) = nat us"
    using assms by (simp add: unat_word_of_int_long)
  then show ?thesis using \<open>nat us < 2 ^ 31\<close> by (simp add: NSEC_PER_USEC_def unat_mult_lem [THEN iffD1])
qed

lemma set_rt_runtime_ok:
  assumes ok: "groups_ok K t s" and g: "g \<in> set (tg_nodes t)" and us: "us < 2 ^ 31"
  shows "\<exists>r s'. sched_group_set_rt_runtime K th g us s = Some (r, s') \<and> groups_ok K t s' \<and>
    s' = (if r = 0 then set_bw g (fst (tg_bw s g)) (if us < 0 then RUNTIME_INF else word_of_int us * NSEC_PER_USEC) s else s)"
proof -
  have "fst (tg_bw s g) \<noteq> 0" using ok g by (auto simp: groups_ok_def groups_shape_def tg_feasible_def bw_ok_def)
  moreover have "\<not> us < 0 \<Longrightarrow> unat (word_of_int us * NSEC_PER_USEC :: u64) < 2 ^ 44" using long_usec [of us] us by simp
  ultimately show ?thesis
    using tg_set_rt_bandwidth_ok [OF ok g, of "fst (tg_bw s g)" "if us < 0 then RUNTIME_INF else word_of_int us * NSEC_PER_USEC" th]
    by (auto simp: sched_group_set_rt_runtime_def Let_def tg_bw_def)
qed

lemma set_rt_period_ok:
  assumes ok: "groups_ok K t s" and g: "g \<in> set (tg_nodes t)"
  shows "\<exists>r s'. sched_group_set_rt_period K th g us s = Some (r, s') \<and> groups_ok K t s' \<and>
    s' = (if r = 0 then set_bw g (word_of_int us * NSEC_PER_USEC) (snd (tg_bw s g)) s else s)"
proof (cases "word_of_int us * NSEC_PER_USEC = (0 :: u64)")
  case True
  then show ?thesis using ok by (auto simp: sched_group_set_rt_period_def sched_consts)
next
  case False
  have "snd (tg_bw s g) = RUNTIME_INF \<or> unat (snd (tg_bw s g)) < 2 ^ 44"
    using ok g by (auto simp: groups_ok_def groups_shape_def tg_feasible_def bw_ok_def)
  from tg_set_rt_bandwidth_ok [OF ok g False this, of th] show ?thesis
    using False by (auto simp: sched_group_set_rt_period_def Let_def tg_bw_def)
qed

section \<open>The global limit\<close>

text \<open>
  \<^verbatim>\<open>proc_dointvec\<close> on one variable: without a write, or on an error, the values stay; a value written is an \<^verbatim>\<open>int\<close>.
\<close>

definition dointvec_ok :: "(int \<Rightarrow> uint32 \<Rightarrow> int \<times> int \<times> uint32) \<Rightarrow> bool \<Rightarrow> bool" where
  "dointvec_ok D wr \<longleftrightarrow> (\<forall>r p. r < 2 ^ 31 \<longrightarrow> (case D r p of (ret, r', p') \<Rightarrow>
     (ret \<noteq> 0 \<or> \<not> wr \<longrightarrow> r' = r \<and> p' = p) \<and> r' < 2 ^ 31))"

lemma global_bw_ok:
  assumes "\<not> sysctl_sched_rt_period s \<le> 0" and "\<not> (global_rt_runtime s > global_rt_period s \<and> global_rt_runtime s \<noteq> RUNTIME_INF)"
    and "sysctl_sched_rt_runtime s < 2 ^ 31"
  shows "bw_ok (global_bw s)"
proof -
  have lt: "unat (sysctl_sched_rt_period s) < 2 ^ 32" using unsigned_less [of "sysctl_sched_rt_period s"] by simp
  then have "take_bit 64 (unat (sysctl_sched_rt_period s)) = unat (sysctl_sched_rt_period s)"
    by (intro take_bit_nat_eq_self) simp
  then have "unat (ucast (sysctl_sched_rt_period s) :: u64) = unat (sysctl_sched_rt_period s)"
    by (simp add: unsigned_ucast_eq)
  with lt have "unat (global_rt_period s) = unat (sysctl_sched_rt_period s) * 1000"
    by (simp add: global_rt_period_def NSEC_PER_USEC_def unat_mult_lem [THEN iffD1])
  moreover have "unat (sysctl_sched_rt_period s) \<noteq> 0" using assms(1) by (simp add: unat_eq_zero)
  ultimately have "global_rt_period s \<noteq> 0" by (metis mult_is_0 numeral_eq_iff unsigned_0 zero_neq_numeral)
  moreover have "\<not> sysctl_sched_rt_runtime s < 0 \<Longrightarrow> unat (global_rt_runtime s) < 2 ^ 44"
    using long_usec [of "sysctl_sched_rt_runtime s"] assms(3) by (simp add: global_rt_runtime_def)
  ultimately show ?thesis using assms(2) by (auto simp: bw_ok_def global_bw_def global_rt_runtime_def)
qed

lemma sched_rt_handler_ok:
  assumes ok: "groups_ok K t s" and D: "dointvec_ok D wr" and r: "sysctl_sched_rt_runtime s < 2 ^ 31"
  shows "\<exists>ret s'. sched_rt_handler K th D wr s = Some (ret, s') \<and> groups_ok K t s' \<and> sysctl_sched_rt_runtime s' < 2 ^ 31 \<and>
    (ret \<noteq> 0 \<longrightarrow> s' = s) \<and> tgs s' = tgs s"
proof -
  have sh: "groups_shape K t s" using ok by (simp add: groups_ok_def)
  obtain ret ru pe where d: "D (sysctl_sched_rt_runtime s) (sysctl_sched_rt_period s) = (ret, ru, pe)" by (metis surj_pair)
  have dd: "ret \<noteq> 0 \<or> \<not> wr \<Longrightarrow> ru = sysctl_sched_rt_runtime s \<and> pe = sysctl_sched_rt_period s" "ru < 2 ^ 31"
    using D r d unfolding dointvec_ok_def by (fastforce split: prod.splits)+
  define s1 where "s1 = s\<lparr>sysctl_sched_rt_runtime := ru, sysctl_sched_rt_period := pe\<rparr>"
  have s1: "tgs s1 = tgs s" "rt_rqs s1 = rt_rqs s" "rt_ents s1 = rt_ents s" "task_groups s1 = task_groups s"
    "def_rt_bandwidth s1 = def_rt_bandwidth s" "sysctl_sched_rt_runtime s1 = ru" by (simp_all add: s1_def)
  show ?thesis
  proof (cases "ret = 0 \<and> wr")
    case False
    then have "s1 = s" using dd(1) by (simp add: s1_def)
    then show ?thesis using False ok r d by (auto simp: sched_rt_handler_def s1_def)
  next
    case True
    have restored: "s1\<lparr>sysctl_sched_rt_period := sysctl_sched_rt_period s, sysctl_sched_rt_runtime := sysctl_sched_rt_runtime s\<rparr> = s"
      by (simp add: s1_def)
    have sh1: "groups_shape K t s1"
      by (rule groups_shape_cong [OF sh]) (use groups_shapeD [OF sh] s1 in \<open>auto simp: tg_linked_def\<close>)
    define gl where "gl = (\<not> sysctl_sched_rt_period s1 \<le> 0 \<and>
      \<not> (global_rt_runtime s1 > global_rt_period s1 \<and> global_rt_runtime s1 \<noteq> RUNTIME_INF))"
    have gb: "gl \<Longrightarrow> bw_ok (global_bw s1)" using global_bw_ok [of s1] dd(2) s1(6) by (simp add: gl_def)
    have c: "sched_rt_global_constraints K th s1 = (if gl then rt_schedulable K th None 0 0 s1 else Some (- EINVAL))"
      by (simp add: sched_rt_global_constraints_def Let_def gl_def)
    obtain ret1 where ret1: "sched_rt_global_constraints K th s1 = Some ret1"
    proof (cases "gl")
      case True
      then show ?thesis using that c rt_schedulable_total [OF sh1, of None 0 th 0] gb by (auto simp: bw_ok_def)
    qed (use that c in simp)
    show ?thesis
    proof (cases "ret1 = 0")
      case False
      then show ?thesis using True ret1 d restored ok r by (auto simp: sched_rt_handler_def Let_def s1_def [symmetric])
    next
      case z: True
      have gl using z c ret1 by (auto simp: sched_consts split: if_splits)
      note pass = gb [OF this] and sched = c [unfolded ret1 z]
      have pass0: "rt_schedulable K th None 0 0 s1 = Some 0" using sched \<open>gl\<close> by simp
      have B: "tg_bw s1 = rsd_bandwidth \<lparr>rsd_tg = None, rsd_period = 0, rsd_runtime = 0\<rparr> s1"
        by (rule ext) (simp add: rsd_bandwidth_eq)
      have le: "bw_ratio (tg_bw s1 g) \<le> bw_ratio (global_bw s1)" if "g \<in> set (tg_nodes t)" for g
        using check_passed(2) [OF sh1 pass pass0 _ that B] by blast
      define s2 where "s2 = s1\<lparr>def_rt_bandwidth := (def_rt_bandwidth s1)\<lparr>bw_rt_runtime := global_rt_runtime s1, rt_period := global_rt_period s1\<rparr>\<rparr>"
      have "groups_shape K t s2"
        by (rule groups_shape_cong [OF sh1])
          (use groups_shapeD [OF sh1] pass in \<open>auto simp: tg_linked_def s2_def bw_ok_def global_bw_def\<close>)
      moreover have "global_bw s2 = global_bw s1" "tg_bw s2 = tg_bw s1"
        by (auto simp: s2_def global_bw_def global_rt_period_def global_rt_runtime_def tg_bw_def)
      ultimately have "groups_ok K t s2" using pass le by (simp add: groups_ok_def)
      moreover have "tgs s2 = tgs s" "sysctl_sched_rt_runtime s2 < 2 ^ 31" using s1 dd(2) by (simp_all add: s2_def)
      moreover have "sched_rt_handler K th D wr s = Some (0, s2)"
        using True ret1 z d by (simp add: sched_rt_handler_def Let_def s1_def [symmetric] s2_def)
      ultimately show ?thesis by simp
    qed
  qed
qed

section \<open>Creating and destroying groups\<close>

text \<open>The code outside the repository keeps the part of the state that belongs to this component; the lists behave as lists.\<close>

definition group_part :: "kstate \<Rightarrow> _" where
  "group_part s = (tgs s, rt_rqs s, rt_ents s, task_groups s, def_rt_bandwidth s, sysctl_sched_rt_runtime s, sysctl_sched_rt_period s)"

definition group_env_ok :: "kenv \<Rightarrow> bool" where
  "group_env_ok K \<longleftrightarrow>
     (\<forall>tg p s. group_part (snd (alloc_fair_sched_group K tg p s)) = group_part s) \<and>
     (\<forall>tg s. group_part (free_fair_sched_group K tg s) = group_part s) \<and>
     (\<forall>tg s. group_part (unregister_fair_sched_group K tg s) = group_part s) \<and>
     (\<forall>tg s. group_part (autogroup_free K tg s) = group_part s) \<and>
     (\<forall>x q. distinct q \<and> x \<notin> set q \<longrightarrow> list_add_rcu K x q = x # q) \<and>
     (\<forall>x q. distinct q \<and> x \<in> set q \<longrightarrow> list_del_rcu K x q = remove1 x q)"

lemma rcu_list_laws:
  "group_env_ok K \<Longrightarrow> distinct q \<Longrightarrow> x \<notin> set q \<Longrightarrow> list_add_rcu K x q = x # q"
  "group_env_ok K \<Longrightarrow> distinct q \<Longrightarrow> x \<in> set q \<Longrightarrow> list_del_rcu K x q = remove1 x q"
  by (simp_all add: group_env_ok_def)

text \<open>Memory that the allocator hands out is not in use: it is no group and no entity of a group.\<close>

definition fresh_memory :: "group_memory \<Rightarrow> kstate \<Rightarrow> bool" where
  "fresh_memory M s \<longleftrightarrow> (\<forall>tg. mem_tg M = Some tg \<longrightarrow> tg \<notin> set (task_groups s)) \<and>
     (\<forall>e g. mem_rt_se M = Some e \<and> g \<in> set (task_groups s) \<longrightarrow> tg_rt_se (tgs s g) \<noteq> Some e)"

lemma group_part_emit [simp]: "group_part (emit e s) = group_part s"
  by (simp add: group_part_def)

lemma free_sched_group_part: "group_env_ok K \<Longrightarrow> group_part (free_sched_group K tg ses s) = group_part s"
  by (simp add: free_sched_group_def free_wrr_sched_group_def free_rt_sched_group_def destroy_rt_bandwidth_def group_env_ok_def Let_def
      split: option.splits)

text \<open>States that agree on the old groups and their entities.\<close>

definition old_groups_same :: "ptr \<Rightarrow> ptr option \<Rightarrow> kstate \<Rightarrow> kstate \<Rightarrow> bool" where
  "old_groups_same tg ent s s' \<longleftrightarrow>
     (\<forall>g. g \<noteq> tg \<longrightarrow> tgs s' g = tgs s g \<and> rt_rqs s' g = rt_rqs s g) \<and> (\<forall>e. ent \<noteq> Some e \<longrightarrow> rt_ents s' e = rt_ents s e) \<and>
     task_groups s' = task_groups s \<and> def_rt_bandwidth s' = def_rt_bandwidth s \<and>
     sysctl_sched_rt_runtime s' = sysctl_sched_rt_runtime s \<and> sysctl_sched_rt_period s' = sysctl_sched_rt_period s"

lemma old_groups_same_part:
  "group_part s'' = group_part s' \<Longrightarrow> old_groups_same tg ent s s' \<Longrightarrow> old_groups_same tg ent s s''"
  by (simp add: old_groups_same_def group_part_def)

lemma groups_ok_fresh:
  assumes ok: "groups_ok K t s" and same: "old_groups_same tg ent s s'" and tg: "tg \<notin> set (tg_nodes t)"
    and e: "\<And>g. g \<in> set (tg_nodes t) \<Longrightarrow> tg_rt_se (tgs s g) \<noteq> ent \<or> ent = None"
  shows "groups_ok K t s'"
proof (rule groups_ok_cong [OF ok])
  show "tgs s' g = tgs s g \<and> rt_runtime (rt_rqs s' g) = rt_runtime (rt_rqs s g) \<and> tg_linked s' g" if g: "g \<in> set (tg_nodes t)" for g
  proof -
    have "g \<noteq> tg" using tg g by auto
    moreover have "tg_linked s g" using ok g by (simp add: groups_ok_def groups_shape_def)
    moreover have "rt_ents s' x = rt_ents s x" if "tg_rt_se (tgs s g) = Some x" for x
      using same e [OF g] that by (auto simp: old_groups_same_def)
    ultimately show ?thesis using same by (simp add: old_groups_same_def tg_linked_def)
  qed
  show "global_bw s' = global_bw s" by (rule global_bw_cong) (use same in \<open>auto simp: old_groups_same_def\<close>)
qed (use same in \<open>auto simp: old_groups_same_def\<close>)

lemma alloc_rt_sched_group_ok:
  assumes link: "tg_linked s parent" and ne: "parent \<noteq> tg"
    and e: "\<And>e. mem_rt_se M = Some e \<Longrightarrow> tg_rt_se (tgs s parent) \<noteq> Some e"
  shows "\<exists>r s'. alloc_rt_sched_group K M tg parent s = Some (r, s') \<and> old_groups_same tg (mem_rt_se M) s s' \<and>
    (r \<noteq> 0 \<longrightarrow> tg_bw s' tg = (rt_period (def_rt_bandwidth s), 0) \<and> rt_runtime (rt_rqs s' tg) = 0 \<and> tg_linked s' tg)"
proof (cases "mem_rt_rqs M \<and> mem_rt_ses M \<and> mem_rt_rq M \<and> mem_rt_se M \<noteq> None")
  case False
  then show ?thesis by (auto simp: alloc_rt_sched_group_def old_groups_same_def Let_def)
next
  case True
  then obtain x where x: "mem_rt_se M = Some x" by blast
  have "\<exists>q. (case tg_rt_se (tgs s parent) of None \<Rightarrow> Some (root_task_group K) | Some pe \<Rightarrow> rt_my_q (rt_ents s pe)) = Some q"
    using link by (auto simp: tg_linked_def split: option.splits)
  then obtain q where q: "(case tg_rt_se (tgs s parent) of None \<Rightarrow> Some (root_task_group K) | Some pe \<Rightarrow> rt_my_q (rt_ents s pe)) = Some q" ..
  show ?thesis using True x q ne e [OF x]
    by (auto simp: alloc_rt_sched_group_def init_tg_rt_entry_def Let_def old_groups_same_def tg_bw_def tg_linked_def init_rt_bandwidth_def
        split: option.splits)
qed

text \<open>Linking the new group: an empty group with no run time takes nothing from its parent.\<close>

lemma groups_ok_link:
  assumes ok: "groups_ok K t s" and tg: "tg \<notin> set (tg_nodes t)" and par: "parent \<in> set (tg_nodes t)"
    and new: "fst (tg_bw s tg) \<noteq> 0" "snd (tg_bw s tg) = 0" "rt_runtime (rt_rqs s tg) = 0" "tg_linked s tg"
    and s': "s' = upd_tg parent (\<lambda>x. x\<lparr>tg_children := tg # tg_children x\<rparr>)
      (upd_tg tg (\<lambda>x. x\<lparr>tg_parent := Some parent, tg_children := []\<rparr>) (s\<lparr>task_groups := tg # task_groups s\<rparr>))"
  shows "groups_ok K (tg_insert parent tg t) s'"
proof -
  have sh: "groups_shape K t s" and gl: "bw_ok (global_bw s)"
    and le: "\<And>g. g \<in> set (tg_nodes t) \<Longrightarrow> bw_ratio (tg_bw s g) \<le> bw_ratio (global_bw s)"
    using ok by (auto simp: groups_ok_def)
  note sh' = groups_shapeD [OF sh]
  note nodes = nodes_insert [OF sh'(3) par tg]
  have ne: "parent \<noteq> tg" using par tg by auto
  have ch: "tg_children (tgs s' g) = (if g = tg then [] else if g = parent then tg # tg_children (tgs s g) else tg_children (tgs s g))"
    "tg_parent (tgs s' g) = (if g = tg then Some parent else tg_parent (tgs s g))" for g
    using ne by (simp_all add: s')
  have bw: "tg_bw s' = tg_bw s" by (rule ext) (simp add: s' tg_bw_def)
  have keep: "rt_rqs s' = rt_rqs s" "rt_ents s' = rt_ents s" "def_rt_bandwidth s' = def_rt_bandwidth s"
    "tg_rt_se (tgs s' g) = tg_rt_se (tgs s g)" "task_groups s' = tg # task_groups s" for g
    by (simp_all add: s')
  have gb: "global_bw s' = global_bw s" by (rule global_bw_cong) (simp_all add: s')
  have new_ok: "bw_ok (tg_bw s tg)" "bw_ratio (tg_bw s tg) = 0"
    using new(1,2) by (simp_all add: bw_ok_def bw_ratio_def RUNTIME_INF_def)
  have "tg_feasible s' g" if g: "g \<in> set (tg_nodes (tg_insert parent tg t))" for g
  proof (cases "g = tg")
    case True
    then show ?thesis using new new_ok by (simp add: tg_feasible_def bw ch keep)
  next
    case False
    then have "tg_feasible s g" using g nodes(2) sh'(7) by simp
    then show ?thesis using False new_ok by (auto simp: tg_feasible_def bw ch keep)
  qed
  moreover have "tg_linked s' g" if "g \<in> set (tg_nodes (tg_insert parent tg t))" for g
    using that nodes(2) sh'(8) new(4) by (auto simp: tg_linked_def keep)
  moreover have "tg_rep (tgs s') (tg_insert parent tg t)"
    by (rule tg_rep_insert [OF sh'(2) tg]) (simp_all add: ch)
  ultimately have "groups_shape K (tg_insert parent tg t) s'"
    using nodes sh' tg by (simp add: groups_shape_def keep)
  moreover have "bw_ratio (tg_bw s' g) \<le> bw_ratio (global_bw s')" if "g \<in> set (tg_nodes (tg_insert parent tg t))" for g
    using that nodes(2) le new_ok by (auto simp: bw gb)
  ultimately show ?thesis using gl by (simp add: groups_ok_def gb)
qed

definition linked_group :: "kenv \<Rightarrow> ptr \<Rightarrow> ptr \<Rightarrow> kstate \<Rightarrow> kstate" where
  "linked_group K tg parent s = upd_tg parent (\<lambda>x. x\<lparr>tg_children := list_add_rcu K tg (tg_children x)\<rparr>)
     (upd_tg tg (\<lambda>x. x\<lparr>tg_parent := Some parent, tg_children := []\<rparr>) (s\<lparr>task_groups := list_add_rcu K tg (task_groups s)\<rparr>))"

lemma sched_create_group_eq:
  assumes "mem_tg M = Some tg" and "alloc_fair_sched_group K tg parent (upd_tg tg (\<lambda>_. zero_tg) s) = (fair, s1)"
    and "alloc_rt_sched_group K M tg parent s1 = Some (rt, s2)"
  shows "sched_create_group K M parent s =
    Some (if fair = 0 then (Inl (- ENOMEM), free_sched_group K tg False s1)
          else if rt = 0 then (Inl (- ENOMEM), free_sched_group K tg (mem_rt_rqs M \<and> mem_rt_ses M) s2)
          else (Inr tg, linked_group K tg parent s2))"
  by (simp add: sched_create_group_def alloc_wrr_sched_group_def assms Let_def linked_group_def)

lemma linked_group_eq:
  assumes "group_env_ok K" and "parent \<noteq> tg" and "distinct (task_groups s)" "tg \<notin> set (task_groups s)"
    and "distinct (tg_children (tgs s parent))" "tg \<notin> set (tg_children (tgs s parent))"
  shows "linked_group K tg parent s = upd_tg parent (\<lambda>x. x\<lparr>tg_children := tg # tg_children x\<rparr>)
      (upd_tg tg (\<lambda>x. x\<lparr>tg_parent := Some parent, tg_children := []\<rparr>) (s\<lparr>task_groups := tg # task_groups s\<rparr>))"
  using rcu_list_laws(1) [OF assms(1,3,4)] rcu_list_laws(1) [OF assms(1,5,6)] assms(2)
  by (simp add: linked_group_def upd_tg_def)

lemma sched_create_group_ok:
  assumes ok: "groups_ok K t s" and K: "group_env_ok K" and par: "parent \<in> set (tg_nodes t)" and M: "fresh_memory M s"
  shows "\<exists>r s'. sched_create_group K M parent s = Some (r, s') \<and>
    sysctl_sched_rt_runtime s' = sysctl_sched_rt_runtime s \<and>
    (case r of Inl e \<Rightarrow> e = - ENOMEM \<and> groups_ok K t s'
     | Inr tg \<Rightarrow> mem_tg M = Some tg \<and> groups_ok K (tg_insert parent tg t) s')"
proof (cases "mem_tg M")
  case None
  then show ?thesis using ok by (simp add: sched_create_group_def)
next
  case (Some tg)
  have sh: "groups_shape K t s" using ok by (simp add: groups_ok_def)
  note sh' = groups_shapeD [OF sh]
  have tg: "tg \<notin> set (tg_nodes t)" using M Some sh'(5) by (simp add: fresh_memory_def)
  have ent: "tg_rt_se (tgs s g) \<noteq> mem_rt_se M \<or> mem_rt_se M = None" if "g \<in> set (tg_nodes t)" for g
    using M that sh'(5) by (cases "mem_rt_se M") (auto simp: fresh_memory_def)
  have ne: "parent \<noteq> tg" using par tg by auto
  define s0 where "s0 = upd_tg tg (\<lambda>_. zero_tg) s"
  obtain fair s1 where f: "alloc_fair_sched_group K tg parent s0 = (fair, s1)" by fastforce
  have "group_part s1 = group_part s0" using K f by (metis group_env_ok_def snd_conv)
  then have same1: "old_groups_same tg None s s1" "tg_rt_se (tgs s1 parent) = tg_rt_se (tgs s parent)"
    using ne by (auto simp: old_groups_same_def s0_def group_part_def)
  have same1': "old_groups_same tg (mem_rt_se M) s s1" using same1 by (simp add: old_groups_same_def)
  note freed = old_groups_same_part [OF free_sched_group_part [OF K]]
  note fresh = groups_ok_fresh [OF ok _ tg ent]
  have link1: "tg_linked s1 parent" using same1 ne sh'(8) [OF par] by (simp add: old_groups_same_def tg_linked_def)
  obtain rt s2 where a: "alloc_rt_sched_group K M tg parent s1 = Some (rt, s2)" "old_groups_same tg (mem_rt_se M) s1 s2"
    "rt \<noteq> 0 \<Longrightarrow> tg_bw s2 tg = (rt_period (def_rt_bandwidth s1), 0) \<and> rt_runtime (rt_rqs s2 tg) = 0 \<and> tg_linked s2 tg"
  proof -
    have "tg_rt_se (tgs s1 parent) \<noteq> Some e" if "mem_rt_se M = Some e" for e using ent [OF par] same1(2) that by simp
    from alloc_rt_sched_group_ok [OF link1 ne this, of M K] that show thesis by blast
  qed
  have same2: "old_groups_same tg (mem_rt_se M) s s2" using same1' a(2) by (simp add: old_groups_same_def)
  note eq = sched_create_group_eq [OF Some f [unfolded s0_def] a(1)]
  show ?thesis
  proof (cases "fair = 0 \<or> rt = 0")
    case True
    have ok': "groups_ok K t (free_sched_group K tg False s1)" "groups_ok K t (free_sched_group K tg (mem_rt_rqs M \<and> mem_rt_ses M) s2)"
      using fresh [OF freed [OF same1']] fresh [OF freed [OF same2]] by blast+
    have "sysctl_sched_rt_runtime (free_sched_group K tg b s1) = sysctl_sched_rt_runtime s"
      "sysctl_sched_rt_runtime (free_sched_group K tg b s2) = sysctl_sched_rt_runtime s" for b
      using freed [OF same1'] freed [OF same2] by (simp_all add: old_groups_same_def)
    with ok' show ?thesis using True by (cases "fair = 0") (simp_all add: eq)
  next
    case False
    have ok2: "groups_ok K t s2" by (rule fresh [OF same2])
    have s2: "task_groups s2 = task_groups s" "tgs s2 parent = tgs s parent" "sysctl_sched_rt_runtime s2 = sysctl_sched_rt_runtime s"
      using same2 ne by (simp_all add: old_groups_same_def)
    have ch: "set (tg_children (tgs s parent)) \<subseteq> set (tg_nodes t)" "distinct (tg_children (tgs s parent))"
      using tg_rep_child [OF sh'(2) par sh'(3)] by auto
    have link: "linked_group K tg parent s2 = upd_tg parent (\<lambda>x. x\<lparr>tg_children := tg # tg_children x\<rparr>)
        (upd_tg tg (\<lambda>x. x\<lparr>tg_parent := Some parent, tg_children := []\<rparr>) (s2\<lparr>task_groups := tg # task_groups s2\<rparr>))"
      by (rule linked_group_eq [OF K ne]) (use s2 ch sh'(4,5) tg in auto)
    have "rt_period (def_rt_bandwidth s1) \<noteq> 0" using same1 sh'(6) by (simp add: old_groups_same_def)
    then have "groups_ok K (tg_insert parent tg t) (linked_group K tg parent s2)"
      using groups_ok_link [OF ok2 tg par _ _ _ _ link] a(3) False by simp
    then show ?thesis using False Some s2 by (simp add: eq link)
  qed
qed

lemma sched_destroy_group_ok:
  assumes ok: "groups_ok K t s" and K: "group_env_ok K" and tg: "tg \<in> set (tg_nodes t)" "tg \<noteq> root_task_group K"
    and leaf: "tg_children (tgs s tg) = []"
  shows "groups_ok K (tg_remove tg t) (sched_destroy_group K tg s) \<and>
    sysctl_sched_rt_runtime (sched_destroy_group K tg s) = sysctl_sched_rt_runtime s"
proof -
  have sh: "groups_shape K t s" and gl: "bw_ok (global_bw s)"
    and le: "\<And>g. g \<in> set (tg_nodes t) \<Longrightarrow> bw_ratio (tg_bw s g) \<le> bw_ratio (global_bw s)"
    using ok by (auto simp: groups_ok_def)
  note sh' = groups_shapeD [OF sh]
  obtain q where q: "tg_parent (tgs s tg) = Some q" "q \<in> set (tg_nodes t)" "tg \<in> set (tg_children (tgs s q))"
    using tg_parent_node [OF sh'(2) tg(1)] tg(2) sh'(1) by auto
  have nodes: "distinct (tg_nodes (tg_remove tg t))" "set (tg_nodes (tg_remove tg t)) = set (tg_nodes t) - {tg}"
    using nodes_remove [OF sh'(2) leaf _ sh'(3) tg(1)] tg(2) sh'(1) by auto
  have dc: "distinct (tg_children (tgs s q))" using tg_rep_child [OF sh'(2) q(2) sh'(3)] by simp
  define s' where "s' = sched_destroy_group K tg s"
  have part: "group_part (unregister_fair_sched_group K tg s) = group_part s" using K by (simp add: group_env_ok_def)
  have ch: "tg_children (tgs s' g) = (if g = q then remove1 tg (tg_children (tgs s g)) else tg_children (tgs s g))"
    "tg_parent (tgs s' g) = tg_parent (tgs s g)" "tg_rt_se (tgs s' g) = tg_rt_se (tgs s g)"
    "tg_rt_bandwidth (tgs s' g) = tg_rt_bandwidth (tgs s g)" for g
    using part q K dc by (auto simp: s'_def sched_destroy_group_def Let_def group_part_def group_env_ok_def)
  have keep: "rt_rqs s' = rt_rqs s" "rt_ents s' = rt_ents s" "def_rt_bandwidth s' = def_rt_bandwidth s"
    "task_groups s' = remove1 tg (task_groups s)" "sysctl_sched_rt_runtime s' = sysctl_sched_rt_runtime s"
    "sysctl_sched_rt_period s' = sysctl_sched_rt_period s"
    using part q K sh'(4,5) tg(1) by (auto simp: s'_def sched_destroy_group_def Let_def group_part_def group_env_ok_def)
  have bw: "tg_bw s' = tg_bw s" by (rule ext) (simp add: tg_bw_def ch)
  have gb: "global_bw s' = global_bw s" by (rule global_bw_cong) (simp_all add: keep)
  have "tg_feasible s' g" if "g \<in> set (tg_nodes t)" for g
  proof -
    have "sum_list (map f (remove1 x xs)) \<le> sum_list (map f xs)" for f :: "ptr \<Rightarrow> nat" and x xs by (induction xs) auto
    then have "sum_list (map (\<lambda>c. bw_ratio (tg_bw s c)) (tg_children (tgs s' g))) \<le>
        sum_list (map (\<lambda>c. bw_ratio (tg_bw s c)) (tg_children (tgs s g)))" by (simp add: ch)
    then show ?thesis using sh'(7) [OF that] by (simp add: tg_feasible_def bw keep)
  qed
  moreover have "tg_linked s' g" if "g \<in> set (tg_nodes t)" for g using sh'(8) [OF that] by (simp add: tg_linked_def ch keep)
  moreover have "tg_rep (tgs s') (tg_remove tg t)" by (rule tg_rep_remove [OF sh'(2,3) q(1)]) (simp add: ch)
  ultimately have "groups_shape K (tg_remove tg t) s'"
    using nodes sh' tg by (auto simp: groups_shape_def keep)
  then show ?thesis using gl le nodes by (auto simp: groups_ok_def bw gb keep s'_def [symmetric])
qed

section \<open>Exactness of the check\<close>

text \<open>The admissible bandwidths in exact arithmetic, and the groups with real-time tasks that would be left without run time.\<close>

definition admissible :: "tg_tree \<Rightarrow> kstate \<Rightarrow> (ptr \<Rightarrow> u64 \<times> u64) \<Rightarrow> bool" where
  "admissible t s B \<longleftrightarrow> (\<forall>h \<in> set (tg_nodes t). bw_ok (B h) \<and> bw_ratio (B h) \<le> bw_ratio (global_bw s) \<and>
     sum_list (map (\<lambda>c. bw_ratio (B c)) (tg_children (tgs s h))) \<le> bw_ratio (B h))"

definition rt_starved :: "kenv \<Rightarrow> ptr list \<Rightarrow> tg_tree \<Rightarrow> kstate \<Rightarrow> (ptr \<Rightarrow> u64 \<times> u64) \<Rightarrow> bool" where
  "rt_starved K th t s B \<longleftrightarrow> rt_bandwidth_enabled s \<and> (\<exists>h \<in> set (tg_nodes t). snd (B h) = 0 \<and> tg_has_rt_tasks K th h s)"

lemma visit_zeroI:
  assumes sh: "groups_shape K t s" and glob: "bw_ok (global_bw s)" and g: "g \<in> set (tg_nodes t)"
    and B: "B = rsd_bandwidth d s" and adm: "admissible t s B" and st: "\<not> rt_starved K th t s B"
  shows "visit_code K th s d g = Some 0"
proof -
  have ok: "bw_ok (B h)" if "h \<in> set (tg_nodes t)" for h using adm that by (simp add: admissible_def)
  have le: "bw_ratio (B g) \<le> bw_ratio (global_bw s)"
    "sum_list (map (\<lambda>c. bw_ratio (B c)) (tg_children (tgs s g))) \<le> bw_ratio (B g)"
    using adm g by (simp_all add: admissible_def)
  have "set (tg_children (tgs s g)) \<subseteq> set (tg_nodes t)" using tg_rep_child [OF groups_shapeD(2) [OF sh] g] groups_shapeD(3) [OF sh] by simp
  then have "bw_ok (rsd_bandwidth d s c)" if "c \<in> set (tg_children (tgs s g))" for c using ok that B by blast
  note ch = children_ratio_exact [of "tg_children (tgs s g)" d s 0, OF this]
  have G: "bw_ratio (B g) < 2 ^ 32" "bw_ratio (global_bw s) < 2 ^ 32"
    using bw_ratio_le [OF ok [OF g]] bw_ratio_le [OF glob] by simp_all
  have "(of_nat (bw_ratio (B g)) :: ulong) \<le> of_nat (bw_ratio (global_bw s))"
    "(of_nat (sum_list (map (\<lambda>c. bw_ratio (B c)) (tg_children (tgs s g)))) :: ulong) \<le> of_nat (bw_ratio (B g))"
    using le G by (subst of_nat_le_ulong; simp)+
  moreover have "\<not> (snd (B g) > fst (B g) \<and> snd (B g) \<noteq> RUNTIME_INF)" using ok [OF g] by (auto simp: bw_ok_def)
  moreover have "\<not> (rt_bandwidth_enabled s \<and> snd (B g) = 0 \<and> tg_has_rt_tasks K th g s)" using st g by (auto simp: rt_starved_def)
  ultimately show ?thesis
    using to_ratio_exact [OF ok [OF g]] to_ratio_exact [OF glob] ch
    by (auto simp: visit_code_def tg_rt_schedulable_def split_def Let_def B global_bw_def)
qed

lemma visit_not_starved:
  assumes "visit_code K th s d g = Some 0"
  shows "\<not> (rt_bandwidth_enabled s \<and> snd (rsd_bandwidth d s g) = 0 \<and> tg_has_rt_tasks K th g s)"
  using assms by (auto simp: visit_code_def tg_rt_schedulable_def split_def Let_def sched_consts EBUSY_def split: if_splits)

lemma tg_set_rt_bandwidth_exact:
  assumes ok: "groups_ok K t s" and g: "g \<in> set (tg_nodes t)"
    and new: "period \<noteq> 0" "runtime = RUNTIME_INF \<or> unat runtime < 2 ^ 44" and B: "B = (tg_bw s)(g := (period, runtime))"
  shows "tg_set_rt_bandwidth K th g period runtime s = Some (0, set_bw g period runtime s) \<longleftrightarrow>
    admissible t s B \<and> \<not> rt_starved K th t s B"
proof -
  let ?d = "\<lparr>rsd_tg = Some g, rsd_period = period, rsd_runtime = runtime\<rparr>"
  have sh: "groups_shape K t s" and gl: "bw_ok (global_bw s)" using ok by (auto simp: groups_ok_def)
  have B': "B = rsd_bandwidth ?d s" by (rule ext) (simp add: B rsd_bandwidth_eq)
  have eq: "tg_set_rt_bandwidth K th g period runtime s = Some (0, set_bw g period runtime s) \<longleftrightarrow>
      rt_schedulable K th (Some g) period runtime s = Some 0"
    by (auto simp: tg_set_rt_bandwidth_def set_bw_def Let_def bind_eq_Some_conv split: if_splits)
  have z: "rt_schedulable K th (Some g) period runtime s = Some 0 \<longleftrightarrow> (\<forall>h \<in> set (tg_nodes t). visit_code K th s ?d h = Some 0)"
    by (simp add: rt_schedulable_eq [OF sh] first_error_0)
  have nw: "Some g \<noteq> None \<Longrightarrow> period \<noteq> 0 \<and> (runtime = RUNTIME_INF \<or> unat runtime < 2 ^ 44)" using new by simp
  show ?thesis
  proof
    assume "tg_set_rt_bandwidth K th g period runtime s = Some (0, set_bw g period runtime s)"
    then have pass: "rt_schedulable K th (Some g) period runtime s = Some 0" by (simp add: eq)
    note c = check_passed [OF sh gl pass nw _ B']
    have "admissible t s B" unfolding admissible_def using c(1) c(2) c(3) by blast
    moreover have "\<not> rt_starved K th t s B"
      using visit_not_starved z pass unfolding rt_starved_def B' by blast
    ultimately show "admissible t s B \<and> \<not> rt_starved K th t s B" ..
  next
    assume "admissible t s B \<and> \<not> rt_starved K th t s B"
    then show "tg_set_rt_bandwidth K th g period runtime s = Some (0, set_bw g period runtime s)"
      unfolding eq z using visit_zeroI [OF sh gl _ B'] by blast
  qed
qed

text \<open>
  \<^verbatim>\<open>tg_has_rt_tasks\<close> compares the group with the group of the CPU's root queue, so only the root group ever has
  real-time tasks: the run time of any other group may be set to 0 under its tasks.
\<close>

lemma rt_runtime_zero_accepted:
  assumes ok: "groups_ok K t s" and g: "g \<in> set (tg_nodes t)" "g \<noteq> root_task_group K"
    and leaf: "tg_children (tgs s g) = []" and root: "rt_tg (rt_rqs s (root_task_group K)) = Some (root_task_group K)"
    and rr: "snd (tg_bw s (root_task_group K)) \<noteq> 0"
  shows "sched_group_set_rt_runtime K th g 0 s = Some (0, set_bw g (fst (tg_bw s g)) 0 s)"
proof -
  have sh: "groups_shape K t s" using ok by (simp add: groups_ok_def)
  let ?p = "fst (tg_bw s g)" and ?B = "(tg_bw s)(g := (fst (tg_bw s g), 0))"
  have feas: "tg_feasible s h" if "h \<in> set (tg_nodes t)" for h using groups_shapeD(7) [OF sh that] .
  have p: "?p \<noteq> 0" using feas [OF g(1)] by (simp add: tg_feasible_def bw_ok_def)
  have z: "bw_ratio (?p, 0) = 0" by (simp add: bw_ratio_def RUNTIME_INF_def)
  have "admissible t s ?B"
    unfolding admissible_def
  proof (intro ballI conjI)
    fix h assume h: "h \<in> set (tg_nodes t)"
    show "bw_ok (?B h)" using feas [OF h] p by (auto simp: tg_feasible_def bw_ok_def)
    show "bw_ratio (?B h) \<le> bw_ratio (global_bw s)" using ok h z by (auto simp: groups_ok_def)
    have "sum_list (map (\<lambda>c. bw_ratio (?B c)) (tg_children (tgs s h))) \<le> sum_list (map (\<lambda>c. bw_ratio (tg_bw s c)) (tg_children (tgs s h)))"
      by (rule sum_list_mono) (use z in auto)
    then show "sum_list (map (\<lambda>c. bw_ratio (?B c)) (tg_children (tgs s h))) \<le> bw_ratio (?B h)"
      using feas [OF h] leaf by (cases "h = g") (auto simp: tg_feasible_def)
  qed
  moreover have "\<not> rt_starved K th t s ?B" using g(2) root rr by (auto simp: rt_starved_def tg_has_rt_tasks_def)
  ultimately have "tg_set_rt_bandwidth K th g ?p 0 s = Some (0, set_bw g ?p 0 s)"
    using tg_set_rt_bandwidth_exact [OF ok g(1) p _ refl, of 0 th] by simp
  then show ?thesis by (simp add: sched_group_set_rt_runtime_def Let_def tg_bw_def)
qed

text \<open>The file \<^verbatim>\<open>rt_period_us\<close> takes an unsigned number, but the period is passed as \<^verbatim>\<open>long\<close>: 71 minutes become 584 years.\<close>

lemma rt_period_wraps:
  "cpu_rt_period_write_uint K th g 4294967295 s =
     tg_set_rt_bandwidth K th g (- 1000) (bw_rt_runtime (tg_rt_bandwidth (tgs s g))) s"
  by (simp add: cpu_rt_period_write_uint_def sched_group_set_rt_period_def NSEC_PER_USEC_def)

section \<open>Reachable states\<close>

inductive group_step :: "kenv \<Rightarrow> ptr list \<Rightarrow> kstate \<Rightarrow> kstate \<Rightarrow> bool" for K th where
  create: "sched_create_group K M parent s = Some (r, s') \<Longrightarrow> parent \<in> set (task_groups s) \<Longrightarrow> fresh_memory M s \<Longrightarrow> group_step K th s s'"
| destroy: "tg \<in> set (task_groups s) \<Longrightarrow> tg \<noteq> root_task_group K \<Longrightarrow> tg_children (tgs s tg) = [] \<Longrightarrow>
    group_step K th s (sched_destroy_group K tg s)"
| runtime: "sched_group_set_rt_runtime K th tg us s = Some (r, s') \<Longrightarrow> tg \<in> set (task_groups s) \<Longrightarrow> us < 2 ^ 31 \<Longrightarrow> group_step K th s s'"
| period: "sched_group_set_rt_period K th tg us s = Some (r, s') \<Longrightarrow> tg \<in> set (task_groups s) \<Longrightarrow> group_step K th s s'"
| global: "sched_rt_handler K th D wr s = Some (r, s') \<Longrightarrow> dointvec_ok D wr \<Longrightarrow> group_step K th s s'"

inductive group_reachable :: "kenv \<Rightarrow> ptr list \<Rightarrow> kstate \<Rightarrow> kstate \<Rightarrow> bool" for K th s where
  start: "group_reachable K th s s"
| step: "group_reachable K th s s' \<Longrightarrow> group_step K th s' s'' \<Longrightarrow> group_reachable K th s s''"

definition groups_inv :: "kenv \<Rightarrow> kstate \<Rightarrow> bool" where
  "groups_inv K s \<longleftrightarrow> (\<exists>t. groups_ok K t s) \<and> sysctl_sched_rt_runtime s < 2 ^ 31"

lemma set_bw_sysctl: "sysctl_sched_rt_runtime (set_bw g p r s) = sysctl_sched_rt_runtime s"
  by (simp add: set_bw_def)

lemma group_step_inv:
  assumes "group_step K th s s'" and "groups_inv K s" and K: "group_env_ok K"
  shows "groups_inv K s'"
proof -
  from assms(2) obtain t where ok: "groups_ok K t s" and lt: "sysctl_sched_rt_runtime s < 2 ^ 31" by (auto simp: groups_inv_def)
  have nodes: "set (task_groups s) = set (tg_nodes t)" using ok by (simp add: groups_ok_def groups_shape_def)
  from assms(1) show ?thesis
  proof cases
    case (create M parent r)
    then show ?thesis using sched_create_group_ok [OF ok K _ create(3), of parent] lt nodes
      by (auto simp: groups_inv_def split: sum.splits)
  next
    case (destroy tg)
    then show ?thesis using sched_destroy_group_ok [OF ok K _ destroy(3,4)] lt nodes by (auto simp: groups_inv_def)
  next
    case (runtime tg us r)
    then show ?thesis using set_rt_runtime_ok [OF ok _ runtime(3), of tg th] lt nodes
      by (auto simp: groups_inv_def set_bw_sysctl split: if_splits)
  next
    case (period tg us r)
    then show ?thesis using set_rt_period_ok [OF ok, of tg th us] lt nodes
      by (auto simp: groups_inv_def set_bw_sysctl split: if_splits)
  next
    case (global D wr r)
    then show ?thesis using sched_rt_handler_ok [OF ok global(2) lt, of th] by (auto simp: groups_inv_def)
  qed
qed

lemma group_reachable_inv: "group_reachable K th s s' \<Longrightarrow> groups_inv K s \<Longrightarrow> group_env_ok K \<Longrightarrow> groups_inv K s'"
  by (induction rule: group_reachable.induct) (auto intro: group_step_inv)

section \<open>A concrete tree\<close>

text \<open>The root group with two children, one of which has a third of the run time.\<close>

definition sample_groups :: kstate where
  "sample_groups = sample_state\<lparr>task_groups := [101, 102, 100],
     tgs := (tgs sample_state)
       (100 := \<lparr>tg_rt_bandwidth = \<lparr>rt_period = 1000000000, bw_rt_runtime = 950000000\<rparr>, tg_rt_se = None, tg_parent = None, tg_children = [101, 102]\<rparr>,
        101 := \<lparr>tg_rt_bandwidth = \<lparr>rt_period = 1000000000, bw_rt_runtime = 300000000\<rparr>, tg_rt_se = None, tg_parent = Some 100, tg_children = []\<rparr>,
        102 := \<lparr>tg_rt_bandwidth = \<lparr>rt_period = 1000000000, bw_rt_runtime = 0\<rparr>, tg_rt_se = None, tg_parent = Some 100, tg_children = []\<rparr>),
     rt_rqs := (rt_rqs sample_state)(101 := sample_rt_rq\<lparr>rt_runtime := 300000000\<rparr>, 102 := sample_rt_rq\<lparr>rt_runtime := 0\<rparr>)\<rparr>"

definition sample_tree :: tg_tree where
  "sample_tree = TG 100 [TG 101 [], TG 102 []]"

lemma sample_group_env: "group_env_ok sample_env"
  by (simp add: group_env_ok_def sample_env_def)

lemma sample_groups_ok: "groups_ok sample_env sample_tree sample_groups"
  by (simp add: groups_ok_def groups_shape_def sample_tree_def sample_groups_def sample_env_def sample_state_def sample_rt_rq_def
      tg_feasible_def tg_linked_def tg_bw_def bw_ok_def bw_ratio_def RUNTIME_INF_def global_bw_def global_rt_period_def
      global_rt_runtime_def NSEC_PER_USEC_def insert_commute)

section \<open>Properties\<close>

text \<open>C28: The walk with its jumps and parent pointers returns on every tree of groups and does what the recursion over the
  tree does; in particular it enters every group exactly once, parents before children.\<close>

theorem walk_tg_tree_refines:
  assumes "tg_rep G t" and "distinct (tg_nodes t)"
  shows "walk_tg_tree_from G (tg_root t) down up d = walk_spec down up t d \<and>
    walk_tg_tree_from G (tg_root t) (\<lambda>p vs. Some (0, p # vs)) tg_nop [] = Some (0, rev (tg_nodes t))"
  by (simp add: walk_tree [OF assms] walk_visits(1))

theorem walk_tg_tree_refines_witness:
  "walk_tg_tree_from (tgs sample_groups) 100 (\<lambda>p vs. Some (0, p # vs)) tg_nop [] = Some (0, [102, 101, 100])"
proof -
  have "tg_rep (tgs sample_groups) sample_tree" "distinct (tg_nodes sample_tree)"
    using groups_shapeD [of sample_env sample_tree sample_groups] sample_groups_ok by (simp_all add: groups_ok_def)
  from conjunct2 [OF walk_tg_tree_refines [OF this]] show ?thesis by (simp add: sample_tree_def)
qed

text \<open>C29: Whatever groups are created and destroyed, whatever bandwidth is asked for and however the global limit is set,
  no group has more than the global limit, the children of a group have together at most what the group has, in arithmetic
  that does not wrap (shares are rounded down to \<open>2 ^ -20\<close>, as in the code), each queue enforces the admitted run time, and a
  further request returns.\<close>

theorem group_bandwidth_invariant:
  assumes "group_reachable K th s s'" and "groups_ok K t s" and "sysctl_sched_rt_runtime s < 2 ^ 31" and "group_env_ok K"
    and "g \<in> set (task_groups s')"
  shows "bw_ratio (tg_bw s' g) \<le> bw_ratio (global_bw s') \<and>
    sum_list (map (\<lambda>c. bw_ratio (tg_bw s' c)) (tg_children (tgs s' g))) \<le> bw_ratio (tg_bw s' g) \<and>
    rt_runtime (rt_rqs s' g) = snd (tg_bw s' g) \<and>
    (us < 2 ^ 31 \<longrightarrow> sched_group_set_rt_runtime K th g us s' \<noteq> None) \<and> sched_group_set_rt_period K th g us s' \<noteq> None"
proof -
  have "groups_inv K s'" by (rule group_reachable_inv [OF assms(1) _ assms(4)]) (use assms(2,3) in \<open>auto simp: groups_inv_def\<close>)
  then obtain u where ok: "groups_ok K u s'" by (auto simp: groups_inv_def)
  then have g: "g \<in> set (tg_nodes u)" using assms(5) by (simp add: groups_ok_def groups_shape_def)
  have "tg_feasible s' g" "bw_ratio (tg_bw s' g) \<le> bw_ratio (global_bw s')" using ok g by (auto simp: groups_ok_def groups_shape_def)
  then show ?thesis using set_rt_runtime_ok [OF ok g, of us th] set_rt_period_ok [OF ok g, of th us] by (auto simp: tg_feasible_def)
qed

theorem group_bandwidth_invariant_witness:
  "bw_ratio (tg_bw (sched_destroy_group sample_env 102 sample_groups) 101) \<le> 2 ^ 20"
proof -
  let ?s = "sched_destroy_group sample_env 102 sample_groups"
  have "group_reachable sample_env [] sample_groups ?s"
    by (rule group_reachable.step [OF group_reachable.start], rule group_step.destroy) (simp_all add: sample_groups_def sample_env_def)
  moreover have "101 \<in> set (task_groups ?s)"
    by (simp add: sched_destroy_group_def sample_groups_def sample_env_def Let_def upd_tg_def)
  moreover have "sysctl_sched_rt_runtime sample_groups < 2 ^ 31" by (simp add: sample_groups_def sample_state_def)
  ultimately have "bw_ratio (tg_bw ?s 101) \<le> bw_ratio (global_bw ?s)"
    using group_bandwidth_invariant [OF _ sample_groups_ok _ sample_group_env, of "[]" ?s 101 0] by blast
  also have "global_bw ?s = global_bw sample_groups"
    by (rule global_bw_cong) (simp_all add: sched_destroy_group_def sample_groups_def sample_env_def Let_def upd_tg_def)
  finally show ?thesis using bw_ratio_le [of "global_bw sample_groups"] sample_groups_ok by (simp add: groups_ok_def)
qed

text \<open>C30: A request for bandwidth is granted exactly when it is admissible in arithmetic that does not wrap, with shares
  rounded down to \<open>2 ^ -20\<close> as in the code, and leaves no group with real-time tasks, as the code counts them, without run time.\<close>

theorem rt_admission_exact:
  assumes "groups_ok K t s" and "g \<in> set (tg_nodes t)" and "period \<noteq> 0" and "runtime = RUNTIME_INF \<or> unat runtime < 2 ^ 44"
  shows "tg_set_rt_bandwidth K th g period runtime s = Some (0, set_bw g period runtime s) \<longleftrightarrow>
    admissible t s ((tg_bw s)(g := (period, runtime))) \<and> \<not> rt_starved K th t s ((tg_bw s)(g := (period, runtime)))"
  by (rule tg_set_rt_bandwidth_exact [OF assms refl])

theorem rt_admission_exact_witness:
  "tg_set_rt_bandwidth sample_env [] 102 1000000000 700000000 sample_groups \<noteq>
     Some (0, set_bw 102 1000000000 700000000 sample_groups)"
proof -
  let ?B = "(tg_bw sample_groups)(102 := (1000000000, 700000000))"
  have "\<not> admissible sample_tree sample_groups ?B"
    by (simp add: admissible_def sample_tree_def tg_bw_def sample_groups_def bw_ratio_def RUNTIME_INF_def)
  moreover have "102 \<in> set (tg_nodes sample_tree)" by (simp add: sample_tree_def)
  ultimately show ?thesis
    using rt_admission_exact [OF sample_groups_ok, of 102 1000000000 700000000 "[]"] by simp
qed

end
