(* ===== verification/Bench.thy ===== *)
theory Bench
  imports Complex_Main Params
begin

text \<open>
  The user programs: the test of \<^verbatim>\<open>basic/test_basic\<close>, the three benchmarks and their driver of \<^verbatim>\<open>bonus\<close>. Their
  system calls on scheduling are those of the modelled kernel; files, \<^verbatim>\<open>fork\<close> and the random numbers are arguments.
  Output to the terminal is left out, except the lines of the test program. A program that stops with
  \<^verbatim>\<open>exit(EXIT_FAILURE)\<close> returns \<open>Inl\<close> of its message; \<open>None\<close> is a loop that does not end or a use of a NULL pointer.
\<close>

section \<open>The C library\<close>

definition is_space :: "char \<Rightarrow> bool" where
  "is_space c \<longleftrightarrow> of_char c \<in> {9, 10, 11, 12, 13, 32 :: nat}"

definition is_digit :: "char \<Rightarrow> bool" where
  "is_digit c \<longleftrightarrow> 48 \<le> (of_char c :: nat) \<and> (of_char c :: nat) \<le> 57"

fun digits_value :: "nat \<Rightarrow> string \<Rightarrow> nat" where
  "digits_value acc [] = acc"
| "digits_value acc (c # cs) = (if is_digit c then digits_value (acc * 10 + (of_char c - 48)) cs else acc)"

text \<open>\<^verbatim>\<open>int\<close> and \<^verbatim>\<open>long\<close> have 32 bits; the conversion saturates.\<close>

definition atol :: "string \<Rightarrow> int" where
  "atol s =
     (let s1 = dropWhile is_space s;
          v = (case s1 of
                 [] \<Rightarrow> 0
               | c # cs \<Rightarrow> if c = CHR ''-'' then - int (digits_value 0 cs)
                          else if c = CHR ''+'' then int (digits_value 0 cs)
                          else int (digits_value 0 s1))
      in max (- (2 ^ 31)) (min (2 ^ 31 - 1) v))"

definition atoi :: "string \<Rightarrow> int" where
  "atoi s = atol s"

text \<open>\<^verbatim>\<open>%d\<close> of a number that is not negative.\<close>

fun print_nat :: "nat \<Rightarrow> string" where
  "print_nat n = (if n < 10 then [char_of (48 + n)] else print_nat (n div 10) @ [char_of (48 + n mod 10)])"

declare print_nat.simps [simp del]

text \<open>\<^verbatim>\<open>memset(buf, c, n)\<close> on a buffer of bytes.\<close>

definition memset :: "'a list \<Rightarrow> 'a \<Rightarrow> nat \<Rightarrow> 'a list" where
  "memset buf c n = replicate (min n (length buf)) c @ drop n buf"

text \<open>The successive results of \<^verbatim>\<open>strtok(buffer, " ")\<close>, \<^verbatim>\<open>strtok(NULL, " ")\<close> and so on, before the first NULL.\<close>

fun tokens :: "string \<Rightarrow> string \<Rightarrow> string list" where
  "tokens w [] = (if w = [] then [] else [w])"
| "tokens w (c # cs) =
     (if c = CHR '' '' then (if w = [] then tokens [] cs else w # tokens [] cs) else tokens (w @ [c]) cs)"

definition token :: "string list \<Rightarrow> nat \<Rightarrow> string option" where
  "token ts i = (if i < length ts then Some (ts ! i) else None)"

section \<open>Command lines\<close>

definition MAX_CHILDREN :: int where "MAX_CHILDREN = 5000"
definition DEFAULT_ITERATIONS :: int where "DEFAULT_ITERATIONS = 100000"
definition DEFAULT_CHILDREN :: int where "DEFAULT_CHILDREN = 20"
definition MIN_ITERATIONS :: int where "MIN_ITERATIONS = 100"

definition policy_of_name :: "string \<Rightarrow> int option" where
  "policy_of_name s =
     (if s = ''SCHED_WRR'' then Some SCHED_WRR
      else if s = ''SCHED_FIFO'' then Some SCHED_FIFO
      else if s = ''SCHED_RR'' then Some SCHED_RR
      else None)"

text \<open>The three values that \<^verbatim>\<open>main\<close> of \<^verbatim>\<open>cpu-bound.c\<close> passes by reference are not initialised: \<open>it0\<close>, \<open>pol0\<close>, \<open>cc0\<close>.\<close>

definition cpu_parseCommandLine :: "int \<Rightarrow> int \<Rightarrow> int \<Rightarrow> string list \<Rightarrow> string + int \<times> int \<times> int" where
  "cpu_parseCommandLine it0 pol0 cc0 argv =
     (let argc = length argv in
      if argc \<noteq> 4 then Inl ''USAGE''
      else
        let it1 = (if argc < 2 then DEFAULT_ITERATIONS else it0);
            pol1 = (if argc < 3 then SCHED_WRR else pol0);
            it2 = (if argc > 1 then atol (argv ! 1) else it1) in
        if argc > 1 \<and> it2 < 1 then Inl ''Bad iterations value''
        else if argc > 2 \<and> policy_of_name (argv ! 2) = None then Inl ''Unhandled scheduling policy''
        else
          let pol2 = (if argc > 2 then the (policy_of_name (argv ! 2)) else pol1);
              cc1 = (if argc > 3 then atoi (argv ! 3) else DEFAULT_CHILDREN) in
          if argc > 3 \<and> (cc1 < 1 \<or> cc1 > MAX_CHILDREN) then Inl ''Unreasonable children count''
          else Inr (it2, pol2, cc1))"

text \<open>\<open>src_ok\<close>: \<^verbatim>\<open>fopen\<close> of the source file succeeds. The result: policy, children, block size and transfer size.\<close>

definition io_parseCommandLine :: "(string \<Rightarrow> bool) \<Rightarrow> string list \<Rightarrow> string + int \<times> int \<times> uint32 \<times> int" where
  "io_parseCommandLine src_ok argv =
     (let argc = length argv in
      if argc < 7 then Inl ''Not enough arguments''
      else case policy_of_name (argv ! 1) of
        None \<Rightarrow> Inl ''Unhandled scheduling policy''
      | Some pol \<Rightarrow>
          if \<not> src_ok (argv ! 2) then Inl ''There was an error opening the source file''
          else if atoi (argv ! 4) < 0 then Inl ''Invalid block size''
          else
            let block_size = word_of_int (atoi (argv ! 4)) :: uint32 in
            if atoi (argv ! 5) < 0 \<or> atoi (argv ! 5) < sint block_size then Inl ''Invalid transfer size''
            else
              let child_count = atoi (argv ! 6) in
              if child_count < 1 \<or> child_count > MAX_CHILDREN then Inl ''Unreasonable children count''
              else Inr (pol, child_count, block_size, atoi (argv ! 5)))"

text \<open>C division truncates; the dividend is not negative where the quotient is used.\<close>

definition mixed_parseCommandLine :: "string list \<Rightarrow> string + int \<times> int \<times> int \<times> uint32 \<times> int" where
  "mixed_parseCommandLine argv =
     (let argc = length argv in
      if argc < 8 then Inl ''Too few arguments''
      else
        let iterations = atol (argv ! 1) in
        if iterations < MIN_ITERATIONS then Inl ''Bad iterations value''
        else case policy_of_name (argv ! 2) of
          None \<Rightarrow> Inl ''Unhandeled scheduling policy''
        | Some pol \<Rightarrow>
            let child_count = atoi (argv ! 3) in
            if child_count < 1 \<or> child_count > MAX_CHILDREN then Inl ''Invalid process count''
            else if atoi (argv ! 4) < 0 then Inl ''Invalid block size''
            else
              let block_size = word_of_int (atoi (argv ! 4)) :: uint32 in
              if atoi (argv ! 5) < 0 \<or> atoi (argv ! 5) div MIN_ITERATIONS < sint block_size then Inl ''Invalid transfer size''
              else Inr (iterations, pol, child_count, block_size, atoi (argv ! 5)))"

section \<open>Setting the policy and forking\<close>

text \<open>The calls on scheduling of the three \<^verbatim>\<open>main\<close> functions, on the modelled kernel.\<close>

definition set_own_policy :: "kenv \<Rightarrow> int \<Rightarrow> kstate \<Rightarrow> ((string + unit) \<times> kstate) option" where
  "set_own_policy K pol s =
     do { let max_prio = sys_sched_get_priority_max pol;
          (r, s1) \<leftarrow> sys_sched_setscheduler K 0 pol (UMem max_prio) s;
          Some (if r \<noteq> 0 then Inl ''Error setting scheduler policy'' else Inr (), s1) }"

text \<open>
  The loop over \<^verbatim>\<open>fork\<close>; the argument \<open>fork i\<close> is what the call in round \<open>i\<close> returns. The parent gets the pids it waits for, a
  child leaves with its number.
\<close>

datatype forked = Parent "int list" | Child nat | Fork_error

fun fork_children :: "(nat \<Rightarrow> int) \<Rightarrow> nat \<Rightarrow> nat \<Rightarrow> int list \<Rightarrow> forked" where
  "fork_children fork 0 i children = Parent children"
| "fork_children fork (Suc n) i children =
     (let pid = fork i in
      if pid > 0 then fork_children fork n (Suc i) (children @ [pid])
      else if pid = 0 then Child i
      else Fork_error)"

text \<open>
  The three \<^verbatim>\<open>main\<close> functions after the command line: the policy first, then the children, which inherit it. The parent
  waits for the pids it got; the child \<open>i\<close> runs the benchmark's task.
\<close>

definition start_children :: "kenv \<Rightarrow> int \<Rightarrow> int \<Rightarrow> (nat \<Rightarrow> int) \<Rightarrow> kstate \<Rightarrow> ((string + forked) \<times> kstate) option" where
  "start_children K pol child_count fork s =
     do { (r, s1) \<leftarrow> set_own_policy K pol s;
          Some (case r of
            Inl e \<Rightarrow> Inl e
          | Inr _ \<Rightarrow> (case fork_children fork (nat child_count) 0 [] of
                Fork_error \<Rightarrow> Inl ''Error forking.''
              | f \<Rightarrow> Inr f), s1) }"

definition cpu_main :: "kenv \<Rightarrow> int \<Rightarrow> int \<Rightarrow> int \<Rightarrow> string list \<Rightarrow> (nat \<Rightarrow> int) \<Rightarrow> kstate \<Rightarrow>
    ((string + forked) \<times> kstate) option" where
  "cpu_main K it0 pol0 cc0 argv fork s =
     (case cpu_parseCommandLine it0 pol0 cc0 argv of
        Inl e \<Rightarrow> Some (Inl e, s)
      | Inr (iterations, pol, child_count) \<Rightarrow> start_children K pol child_count fork s)"

definition io_main :: "kenv \<Rightarrow> (string \<Rightarrow> bool) \<Rightarrow> string list \<Rightarrow> (nat \<Rightarrow> int) \<Rightarrow> kstate \<Rightarrow> ((string + forked) \<times> kstate) option" where
  "io_main K src_ok argv fork s =
     (case io_parseCommandLine src_ok argv of
        Inl e \<Rightarrow> Some (Inl e, s)
      | Inr (pol, child_count, block_size, tran_size) \<Rightarrow> start_children K pol child_count fork s)"

definition mixed_main :: "kenv \<Rightarrow> string list \<Rightarrow> (nat \<Rightarrow> int) \<Rightarrow> kstate \<Rightarrow> ((string + forked) \<times> kstate) option" where
  "mixed_main K argv fork s =
     (case mixed_parseCommandLine argv of
        Inl e \<Rightarrow> Some (Inl e, s)
      | Inr (iterations, pol, child_count, block_size, tran_size) \<Rightarrow> start_children K pol child_count fork s)"

section \<open>The CPU-bound child\<close>

text \<open>
  \<^verbatim>\<open>RAND_MAX\<close> is \<open>2 ^ 31 - 1\<close>. A point is inside when its distance to the origin is below \<^verbatim>\<open>RADIUS\<close>; the counters are
  whole numbers below \<open>2 ^ 31\<close>, exact in \<^verbatim>\<open>double\<close>, and the two results are exact quotients here. \<open>rnd i\<close> is what the \<open>i\<close>-th call of
  \<^verbatim>\<open>random\<close> returns.
\<close>

definition RADIUS :: int where "RADIUS = (2 ^ 31 - 1) div 2"

definition in_circle :: "int \<Rightarrow> int \<Rightarrow> bool" where
  "in_circle x y \<longleftrightarrow> x ^ 2 + y ^ 2 < RADIUS ^ 2"

fun pi_loop :: "(nat \<Rightarrow> int) \<Rightarrow> nat \<Rightarrow> nat \<Rightarrow> nat \<Rightarrow> nat \<Rightarrow> nat \<times> nat" where
  "pi_loop rnd 0 i inCircle inSquare = (inCircle, inSquare)"
| "pi_loop rnd (Suc n) i inCircle inSquare =
     (let x = rnd (2 * i) mod (RADIUS * 2) - RADIUS;
          y = rnd (2 * i + 1) mod (RADIUS * 2) - RADIUS
      in pi_loop rnd n (Suc i) (if in_circle x y then inCircle + 1 else inCircle) (inSquare + 1))"

definition calcPi :: "(nat \<Rightarrow> int) \<Rightarrow> int \<Rightarrow> real" where
  "calcPi rnd iter =
     (let (inCircle, inSquare) = pi_loop rnd (nat iter) 0 0 0;
          pCircle = of_nat inCircle / of_nat inSquare
      in pCircle * 4)"

text \<open>\<^verbatim>\<open>mixed.c\<close> has its own copies of the computation and of the copy loop, \<open>CPU\<close> and \<open>IO\<close>, with the same text.\<close>

definition CPU :: "(nat \<Rightarrow> int) \<Rightarrow> int \<Rightarrow> real" where
  "CPU rnd iter = calcPi rnd iter"

section \<open>The I/O-bound child\<close>

text \<open>
  The file operations on the open source and destination, over a state \<open>'o\<close> of the file system: \<^verbatim>\<open>read\<close> returns the
  number of bytes (negative for an error) with the bytes, \<^verbatim>\<open>lseek\<close> its result.
\<close>

type_synonym byte = "8 word"

record 'o file_ops =
  fo_open_src :: "'o \<Rightarrow> int \<times> 'o"
  fo_open_dest :: "'o \<Rightarrow> int \<times> 'o"
  fo_malloc :: "uint32 \<Rightarrow> bool"
  fo_read :: "uint32 \<Rightarrow> 'o \<Rightarrow> int \<times> byte list \<times> 'o"
  fo_write :: "byte list \<Rightarrow> 'o \<Rightarrow> int \<times> 'o"
  fo_lseek :: "'o \<Rightarrow> int \<times> 'o"
  fo_close_src :: "'o \<Rightarrow> int \<times> 'o"
  fo_close_dest :: "'o \<Rightarrow> int \<times> 'o"

text \<open>One round of the loop; \<open>written\<close> is the \<^verbatim>\<open>ssize_t\<close> count of bytes written.\<close>

definition copy_round :: "'o file_ops \<Rightarrow> uint32 \<Rightarrow> uint32 \<Rightarrow> 'o \<Rightarrow> (string + uint32) \<times> 'o" where
  "copy_round F b written s =
     (case fo_read F b s of (bytes_read, buf, s1) \<Rightarrow>
        if bytes_read < 0 then (Inl ''Error reading source file.'', s1)
        else
          let (w, s2) = (if bytes_read > 0 then fo_write F buf s1 else (0, s1)) in
          if bytes_read > 0 \<and> w < 0 then (Inl ''Error writing to output file.'', s2)
          else
            let total1 = (if bytes_read > 0 then written + word_of_int w else written) in
            if bytes_read \<noteq> sint b then
              (let (r, s3) = fo_lseek F s2 in
               if r \<noteq> 0 then (Inl ''Error seeking to beginning of file.'', s3) else (Inr total1, s3))
            else (Inr total1, s2))"

partial_function (option) copy_loop ::
  "'o file_ops \<Rightarrow> uint32 \<Rightarrow> uint32 \<Rightarrow> uint32 \<Rightarrow> 'o \<Rightarrow> ((string + uint32) \<times> 'o) option" where
  "copy_loop F b t written s =
     (let r = copy_round F b written s in
      case fst r of
        Inl e \<Rightarrow> Some r
      | Inr total1 \<Rightarrow> if sint total1 < sint t then copy_loop F b t total1 (snd r) else Some r)"

definition copy_file :: "'o file_ops \<Rightarrow> uint32 \<Rightarrow> uint32 \<Rightarrow> 'o \<Rightarrow> ((string + unit) \<times> 'o) option" where
  "copy_file F b t s =
     (let (srcFD, s1) = fo_open_src F s in
      if srcFD < 0 then Some (Inl ''There was an error opening the source file.'', s1)
      else
        let (destFD, s2) = fo_open_dest F s1 in
        if destFD < 0 then Some (Inl ''There was an error opening the destination file.'', s2)
        else if \<not> fo_malloc F b then Some (Inl ''Error allocating buffer.'', s2)
        else do {
          (r, s3) \<leftarrow> copy_loop F b t 0 s2;
          case r of
            Inl e \<Rightarrow> Some (Inl e, s3)
          | Inr written \<Rightarrow>
              let (c1, s4) = fo_close_src F s3 in
              if c1 \<noteq> 0 then Some (Inl ''Error closing source file.'', s4)
              else
                let (c2, s5) = fo_close_dest F s4 in
                if c2 \<noteq> 0 then Some (Inl ''Error closing dest file.'', s5) else Some (Inr (), s5) })"

definition IO :: "'o file_ops \<Rightarrow> uint32 \<Rightarrow> uint32 \<Rightarrow> 'o \<Rightarrow> ((string + unit) \<times> 'o) option" where
  "IO F b t s = copy_file F b t s"

text \<open>The child of \<^verbatim>\<open>mixed.c\<close>: rounds of computing and copying. The result of the computation is not used.\<close>

fun mixed_rounds :: "'o file_ops \<Rightarrow> nat \<Rightarrow> uint32 \<Rightarrow> uint32 \<Rightarrow> 'o \<Rightarrow> ((string + unit) \<times> 'o) option" where
  "mixed_rounds F 0 b t s = Some (Inr (), s)"
| "mixed_rounds F (Suc n) b t s =
     do { (r, s1) \<leftarrow> IO F b (t div word_of_int MIN_ITERATIONS) s;
          case r of Inl e \<Rightarrow> Some (Inl e, s1) | Inr _ \<Rightarrow> mixed_rounds F n b t s1 }"

definition mixed_childTask :: "'o file_ops \<Rightarrow> uint32 \<Rightarrow> uint32 \<Rightarrow> 'o \<Rightarrow> ((string + unit) \<times> 'o) option" where
  "mixed_childTask F b t s = mixed_rounds F (nat MIN_ITERATIONS) b t s"

section \<open>The driver\<close>

text \<open>
  The global buffer \<^verbatim>\<open>ret\<close> is a list of bytes; what \<^verbatim>\<open>%s\<close> prints of it ends at the first NUL. The calls of \<^verbatim>\<open>memset\<close> have their
  last two arguments swapped: the byte is \<^verbatim>\<open>sizeof\<close> modulo 256, the length 0.
\<close>

definition cstring :: "char list \<Rightarrow> string" where
  "cstring buf = takeWhile (\<lambda>c. of_char c \<noteq> (0 :: nat)) buf"

definition strcpy :: "char list \<Rightarrow> string \<Rightarrow> char list" where
  "strcpy buf s = s @ [char_of (0 :: nat)] @ drop (length s + 1) buf"

definition convert_to_string :: "int \<Rightarrow> char list \<Rightarrow> char list" where
  "convert_to_string pol ret =
     (if pol = 1 then strcpy ret ''SCHED_FIFO''
      else if pol = 2 then strcpy ret ''SCHED_RR''
      else if pol = 6 then strcpy ret ''SCHED_WRR''
      else ret)"

definition clear_ret :: "char list \<Rightarrow> char list" where
  "clear_ret ret = memset ret (char_of (length ret)) 0"

text \<open>The commands that \<^verbatim>\<open>popen\<close> runs, for the process counts of the loop.\<close>

fun bench_commands :: "(string \<Rightarrow> nat \<Rightarrow> string) \<Rightarrow> nat list \<Rightarrow> char list \<Rightarrow> string list \<times> char list" where
  "bench_commands cmd [] ret = ([], ret)"
| "bench_commands cmd (i # is) ret =
     (let ret1 = clear_ret ret; (cs, ret2) = bench_commands cmd is ret1 in (cmd (cstring ret1) i # cs, ret2))"

text \<open>The three loops have the same bounds: from 20 to 100 by 5.\<close>

definition counts :: "nat list" where
  "counts = map (\<lambda>k. 20 + 5 * k) [0..<17]"

definition print_cpubound :: "int \<Rightarrow> char list \<Rightarrow> string list \<times> char list" where
  "print_cpubound pol ret =
     bench_commands (\<lambda>r i. ''time -p ./test_cpubound 100000 '' @ r @ '' '' @ print_nat i) counts (convert_to_string pol ret)"

definition print_iobound :: "int \<Rightarrow> char list \<Rightarrow> string list \<times> char list" where
  "print_iobound pol ret =
     bench_commands (\<lambda>r i. ''time -p ./test_iobound '' @ r @ '' /data/misc/src/data_in /data/misc/src/data_out 2000 5000000 '' @ print_nat i)
       counts (convert_to_string pol ret)"

definition print_mixed :: "int \<Rightarrow> char list \<Rightarrow> string list \<times> char list" where
  "print_mixed pol ret =
     bench_commands (\<lambda>r i. ''time -p ./test_mixed 100000 '' @ r @ '' '' @ print_nat i @
         '' 2000 5000000 /data/misc/src/data_in /data/misc/src/_data_out'')
       counts (convert_to_string pol ret)"

definition run_policies :: "(int \<Rightarrow> char list \<Rightarrow> string list \<times> char list) \<Rightarrow> char list \<Rightarrow> string list \<times> char list" where
  "run_policies print_bench ret =
     (let (c1, r1) = print_bench SCHED_FIFO ret; (c2, r2) = print_bench SCHED_RR r1; (c3, r3) = print_bench SCHED_WRR r2
      in (c1 @ c2 @ c3, r3))"

definition cpu_output :: "char list \<Rightarrow> string list \<times> char list" where
  "cpu_output ret = run_policies print_cpubound ret"

definition io_output :: "char list \<Rightarrow> string list \<times> char list" where
  "io_output ret = run_policies print_iobound ret"

definition mixed_output :: "char list \<Rightarrow> string list \<times> char list" where
  "mixed_output ret = run_policies print_mixed ret"

definition acquire_main :: "char list \<Rightarrow> string list" where
  "acquire_main ret =
     (let (c, r1) = cpu_output ret; (i, r2) = io_output r1; (m, r3) = mixed_output r2 in c @ i @ m)"

section \<open>The test program\<close>

definition string_convert :: "string \<Rightarrow> int \<Rightarrow> string" where
  "string_convert sched number =
     (if number = 0 then ''SCHED_NORMAL''
      else if number = 1 then ''SCHED_FIFO''
      else if number = 2 then ''SCHED_RR''
      else if number = 6 then ''SCHED_WRR''
      else sched)"

record test_report =
  rep_pid :: int
  rep_group :: string
  rep_name :: "string option"
  rep_previous :: string
  rep_current :: string
  rep_priority :: int
  rep_timeslice :: "int \<times> int"

text \<open>
  The arguments: the last line that \<^verbatim>\<open>ps\<close> printed, the two numbers read, and what the uninitialised \<^verbatim>\<open>tmp\<close> and \<^verbatim>\<open>sched\<close> hold.
  The library's \<^verbatim>\<open>sched_setscheduler\<close> and \<^verbatim>\<open>sched_rr_get_interval\<close> return \<open>-1\<close> for a negative result of the system call, its
  \<^verbatim>\<open>sched_getscheduler\<close> likewise. \<open>Inl\<close> is the message before \<^verbatim>\<open>exit(1)\<close>.
\<close>

definition libc_ret :: "int \<Rightarrow> int" where
  "libc_ret r = (if r < 0 then -1 else r)"

definition test_main :: "kenv \<Rightarrow> string \<Rightarrow> int \<Rightarrow> int \<Rightarrow> string \<Rightarrow> string \<Rightarrow> kstate \<Rightarrow> ((string + test_report) \<times> kstate) option" where
  "test_main K line intended_sched prio0 tmp0 sched0 s =
     (let ts = tokens [] line in
      do { p1 \<leftarrow> token ts 1;
           let pid = atoi p1;
           p5 \<leftarrow> token ts 5;
           let group = (if p5 = ''fg'' then ''Foreground'' else if p5 = ''bg'' then ''Background'' else tmp0);
           let prev_sched = libc_ret (sys_sched_getscheduler K pid s);
           (r, s1) \<leftarrow> sys_sched_setscheduler K pid intended_sched (UMem prio0) s;
           if libc_ret r = -1 then Some (Inl ''SYSCALL: sched_setscheduler Failed!'', s1)
           else
             let prev_name = string_convert sched0 prev_sched;
                 curr_sched = libc_ret (sys_sched_getscheduler K pid s1);
                 curr_name = string_convert prev_name curr_sched in
             case sys_sched_rr_get_interval K pid (UMem (0, 0)) s1 of
               (ri, ts1) \<Rightarrow>
                 if libc_ret ri = -1 then Some (Inl ''SYSCALL: sched_rr_get_interval Failed!'', s1)
                 else
                   let priority = (case sys_sched_getparam K pid (UMem prio0) s1 of (_, Some q) \<Rightarrow> q | (_, None) \<Rightarrow> prio0) in
                   Some (Inr \<lparr>rep_pid = pid, rep_group = group, rep_name = token ts 9, rep_previous = prev_name,
                              rep_current = curr_name, rep_priority = priority,
                              rep_timeslice = (case ts1 of Some q \<Rightarrow> q | None \<Rightarrow> (0, 0))\<rparr>, s1) })"

end
