(* ===== verification/Params_Inv.thy ===== *)
theory Params_Inv
  imports Params
begin

text \<open>
  Changing the priority, the policy or the group of a task keeps the invariant of the scheduler. All these
  operations take the task off its queue, change it and put it back; the locale \<open>task_change\<close> is what the
  change in the middle has to guarantee, and its interpretations are the changes of the source.
\<close>

section \<open>Taking a task off and putting it back\<close>

lemma dequeue_task_ok:
  assumes K: "kenv_ok K" and s: "sched_but None s" and on: "on_rq (tasks s p)"
  shows "\<exists>t. dequeue_task K p f s = Some t \<and> rt_links s t \<and> curr (rq t) = curr (rq s) \<and>
    (\<forall>x. core3 (tasks t x) = core3 (tasks s x)) \<and> sched_but (Some p) t"
proof -
  define s2 where "s2 = emit (SchedInfoDequeued p) (update_rq_clock K s)"
  have k2: "ext_keep s s2" unfolding s2_def by (rule ext_keep_trans [OF ext_keep_upds(1,2)])
  have "on_rq (tasks s2 p)" using on ext_keepD(7) [OF k2] by simp
  then obtain t where t: "class_dequeue_task K (class_of s2 p) p f s2 = Some t" "curr (rq t) = curr (rq s2)"
    "rt_links s2 t" "\<forall>x. core3 (tasks t x) = core3 (tasks s2 x)" "sched_but (Some p) t"
    using class_dequeue_ok [OF K sched_but_keep [OF k2 s]] by blast
  have "dequeue_task K p f s = Some t" using t(1) by (simp add: dequeue_task_def s2_def Let_def)
  then show ?thesis
    using t k2 rt_links_trans [OF rt_links_same [OF ext_keep_same [OF k2]] t(3)] by (simp add: ext_keep_def)
qed

lemma enqueue_task_ok:
  assumes K: "kenv_ok K" and s: "sched_but (Some p) s" and on: "on_rq (tasks s p)"
  shows "\<exists>t. enqueue_task K p f s = Some t \<and> rt_links s t \<and> curr (rq t) = curr (rq s) \<and>
    (\<forall>x. core3 (tasks t x) = core3 (tasks s x)) \<and> sched_but None t"
proof -
  define s2 where "s2 = emit (SchedInfoQueued p) (update_rq_clock K s)"
  have k2: "ext_keep s s2" unfolding s2_def by (rule ext_keep_trans [OF ext_keep_upds(1,2)])
  obtain t where t: "class_enqueue_task K (class_of s2 p) p f s2 = Some t" "curr (rq t) = curr (rq s2)"
    "rt_links s2 t" "\<forall>x. core3 (tasks t x) = core3 (tasks s2 x)" "sched_but None (upd_task p (\<lambda>t. t\<lparr>on_rq := True\<rparr>) t)"
    using class_enqueue_ok [OF K sched_but_keep [OF k2 s]] by blast
  have "on_rq (tasks t p)" using on t(4) ext_keepD(7) [OF k2] by (simp add: core3_def)
  then have "upd_task p (\<lambda>t. t\<lparr>on_rq := True\<rparr>) t = t" by (simp add: upd_task_def fun_upd_idem)
  moreover have "enqueue_task K p f s = Some t" using t(1) by (simp add: enqueue_task_def s2_def Let_def)
  ultimately show ?thesis
    using t k2 rt_links_trans [OF rt_links_same [OF ext_keep_same [OF k2]] t(3)] by (simp add: ext_keep_def)
qed

lemma class_set_curr_keep:
  assumes "kenv_ok K"
  shows "ext_keep s (class_set_curr_task K c s)"
  using ext_okD(7) [OF kenv_okD(3) [OF assms]]
  by (cases c) (simp_all add: class_set_curr_task_def set_curr_task_rt_def set_curr_task_wrr_def)

lemma check_class_changed_keep:
  assumes "kenv_ok K"
  shows "ext_keep s (check_class_changed K p c old s)"
proof -
  have res: "ext_keep t (switched_to_rt p t)" "ext_keep t (switched_to_wrr p t)" "ext_keep t (prio_changed_rt p old t)" for t
    by (auto simp: switched_to_rt_def switched_to_wrr_def prio_changed_rt_def)
  note e = ext_okD(10-12) [OF kenv_okD(3) [OF assms]]
  have 1: "ext_keep t (class_switched_from K c p t)" for t
    using e by (cases c) (simp_all add: class_switched_from_def switched_from_wrr_def)
  have 2: "ext_keep t (class_switched_to K d p t)" for t d
    using e res by (cases d) (simp_all add: class_switched_to_def)
  have 3: "ext_keep t (class_prio_changed K d p old t)" for t d
    using e res by (cases d) (simp_all add: class_prio_changed_def prio_changed_wrr_def)
  show ?thesis using ext_keep_trans [OF 1 2] 3 by (simp add: check_class_changed_def Let_def)
qed

lemma task_off_ok:
  assumes K: "kenv_ok K" and s: "sched_but None s"
  shows "\<exists>t. task_off K p (on_rq (tasks s p)) run s = Some t \<and> rt_links s t \<and> curr (rq t) = curr (rq s) \<and>
    (\<forall>x. core3 (tasks t x) = core3 (tasks s x)) \<and> sched_but (Some p) t"
proof -
  obtain s1 where s1: "(if on_rq (tasks s p) then dequeue_task K p 0 s else Some s) = Some s1" "rt_links s s1"
    "curr (rq s1) = curr (rq s)" "\<forall>x. core3 (tasks s1 x) = core3 (tasks s x)" "sched_but (Some p) s1"
    using dequeue_task_ok [OF K s, of p 0] sched_but_on [OF s, of p] rt_links_same [OF ext_keep_same [OF ext_keep_refl]]
    by (cases "on_rq (tasks s p)") fastforce+
  obtain t where "class_put_prev_task K (class_of s1 p) p s1 = Some t" "sched_but (Some p) t" "rt_links s1 t"
    "curr (rq t) = curr (rq s1)" "\<forall>x. core3 (tasks t x) = core3 (tasks s1 x)"
    using class_put_prev_ok [OF K s1(5)] by blast
  then show ?thesis using s1 rt_links_trans [OF s1(2)] by (cases run) (auto simp: task_off_def)
qed

lemma task_back_on_ok:
  assumes K: "kenv_ok K" and s: "sched_but (Some p) s"
  shows "\<exists>t. task_back_on K p (on_rq (tasks s p)) run f s = Some t \<and> rt_links s t \<and> curr (rq t) = curr (rq s) \<and>
    (\<forall>x. core3 (tasks t x) = core3 (tasks s x)) \<and> sched_but None t"
proof -
  define s1 where "s1 = (if run then class_set_curr_task K (class_of s p) s else s)"
  have k: "ext_keep s s1" using class_set_curr_keep [OF K] by (simp add: s1_def)
  note b1 = sched_but_keep [OF k s]
  have l: "rt_links s s1" by (rule rt_links_same [OF ext_keep_same [OF k]])
  show ?thesis
  proof (cases "on_rq (tasks s p)")
    case True
    then have "on_rq (tasks s1 p)" using ext_keepD(7) [OF k] by simp
    then obtain t where "enqueue_task K p f s1 = Some t" "rt_links s1 t" "curr (rq t) = curr (rq s1)"
      "\<forall>x. core3 (tasks t x) = core3 (tasks s1 x)" "sched_but None t"
      using enqueue_task_ok [OF K b1] by blast
    then show ?thesis using True k rt_links_trans [OF l] by (auto simp: task_back_on_def Let_def s1_def [symmetric] ext_keep_def)
  next
    case False
    then have "sched_but None s1" using sched_but_off [OF b1] ext_keepD(7) [OF k] by simp
    then show ?thesis using False k l by (auto simp: task_back_on_def Let_def s1_def [symmetric] ext_keep_def)
  qed
qed

section \<open>Changing a task in transit\<close>

text \<open>A change of one task that is on no queue: what else it leaves alone.\<close>

definition change_frame :: "ptr \<Rightarrow> kstate \<Rightarrow> kstate \<Rightarrow> bool" where
  "change_frame p s t \<longleftrightarrow> rt_rqs t = rt_rqs s \<and> tgs t = tgs s \<and> rq_wrr (rq t) = rq_wrr (rq s) \<and>
     curr (rq t) = curr (rq s) \<and> rt_links s t \<and> on_rq (tasks t p) = on_rq (tasks s p) \<and>
     (\<forall>x. x \<noteq> p \<longrightarrow> core3 (tasks t x) = core3 (tasks s x))"

lemma change_frame_upd:
  assumes "\<And>t. on_rq (f t) = on_rq t"
  shows "change_frame p s (upd_task p f s)"
  using assms by (simp add: change_frame_def rt_links_def)

lemma change_frame_trans: "change_frame p s t \<Longrightarrow> change_frame p t u \<Longrightarrow> change_frame p s u"
  using rt_links_trans by (auto simp: change_frame_def)

lemma sched_but_change:
  assumes s: "sched_but (Some p) s" and c: "change_frame p s t"
    and rt: "class_of t p = rt_sched_class \<Longrightarrow> rt_valid t p"
    and wrr: "class_of t p = wrr_sched_class \<Longrightarrow> p \<noteq> 0"
  shows "sched_but (Some p) t"
proof -
  have fr: "rt_rqs t = rt_rqs s" "tgs t = tgs s" "rq_wrr (rq t) = rq_wrr (rq s)" "rt_links s t"
    using c by (simp_all add: change_frame_def)
  have lk: "rt_parent (rt_ents t x) = rt_parent (rt_ents s x)" "rt_rq_of (rt_ents t x) = rt_rq_of (rt_ents s x)" for x
    using fr(4) by (simp_all add: rt_links_def)
  have g: "group_rt_rq t = group_rt_rq s" by (rule rt_links_group [OF fr(4)])
  have cx: "prio (tasks t x) = prio (tasks s x)" "class_of t x = class_of s x" "on_rq (tasks t x) = on_rq (tasks s x)"
    if "x \<noteq> p" for x using c that by (simp_all add: change_frame_def core3_def)
  have on: "on_rt_rq t x = on_rt_rq s x" for x by (simp add: on_rt_rq_def fr lk)
  have ok: "rt_ok s" and notp: "\<not> rt_queued s p" using s by (simp_all add: sched_but_def)
  have "rt_se_prio t e = rt_se_prio s e" if "e \<in> set (rtq (rt_rqs s h) i)" for e h i
  proof (cases "group_rt_rq s e")
    case None
    then have "e \<noteq> p" using notp rt_inv_queued(1) [OF rt_ok_parts(3) [OF ok] that] by (auto simp: rt_queued_def)
    then show ?thesis using None cx by (simp add: rt_se_prio_def g)
  qed (simp add: rt_se_prio_def g fr)
  then have "rt_inv t" using rt_ok_parts(3) [OF ok] unfolding rt_inv_def fr lk by simp
  moreover have "rt_hier t" using rt_ok_parts(1) [OF ok] rt_hier_cong [of t s] fr(4) by (simp add: rt_links_def)
  moreover have "rt_tgs t" using rt_ok_parts(2) [OF ok] by (simp add: rt_tgs_def fr g)
  moreover have "rt_skip t x = rt_skip s x" for x by (simp add: rt_skip_def fr g split: option.split)
  then have "rt_full t" using ok by (simp add: rt_ok_def rt_full_def g on)
  ultimately have okt: "rt_ok t" by (simp add: rt_ok_def)
  have q: "rt_queued t x = rt_queued s x" for x by (simp add: rt_queued_def g on)
  have v: "x \<noteq> p \<Longrightarrow> rt_valid t x = rt_valid s x" for x using cx by (simp add: rt_valid_def g)
  have w: "wq t = wq s" "wrr_wf t = wrr_wf s" using fr(3) wrr_wf_cong [of t s] by simp_all
  have "x \<in> set (wq t) \<longleftrightarrow> Some p \<noteq> Some x \<and> on_rq (tasks t x) \<and> class_of t x = wrr_sched_class" for x
    using s cx [of x] unfolding w by (cases "x = p") (auto simp: sched_but_def)
  moreover have "rt_queued t x \<longleftrightarrow> Some p \<noteq> Some x \<and> on_rq (tasks t x) \<and> class_of t x = rt_sched_class" for x
    using s cx [of x] unfolding q by (cases "x = p") (auto simp: sched_but_def)
  moreover have "class_of t x = rt_sched_class \<Longrightarrow> rt_valid t x" "class_of t x = wrr_sched_class \<Longrightarrow> x \<noteq> 0" for x
    using s cx [of x] rt wrr v [of x] by (cases "x = p"; simp add: sched_but_def)+
  ultimately show ?thesis using okt s w(2) unfolding sched_but_def by blast
qed

text \<open>
  The contract of a change, and what follows for the sequence of all these operations: off the queue, change, back
  on. The precondition may only depend on what taking the task off leaves alone.
\<close>

locale task_change =
  fixes K :: kenv and chg :: "ptr \<Rightarrow> kstate \<Rightarrow> kstate option" and pre :: "kstate \<Rightarrow> ptr \<Rightarrow> bool"
  assumes pre_kept: "pre s p \<Longrightarrow> rt_links s t \<Longrightarrow> (\<forall>x. core3 (tasks t x) = core3 (tasks s x)) \<Longrightarrow> pre t p"
    and chg_ok: "pre s p \<Longrightarrow> \<exists>t. chg p s = Some t \<and> change_frame p s t \<and>
      (class_of t p = rt_sched_class \<longrightarrow> rt_valid t p) \<and> (class_of t p = wrr_sched_class \<longrightarrow> p \<noteq> 0)"
begin

lemma around:
  assumes K: "kenv_ok K" and s: "sched_ok s" and p: "pre s p" and cur: "curr (rq s) = p \<Longrightarrow> on_rq (tasks s p)"
  shows "\<exists>s1 s2 s3. task_off K p (on_rq (tasks s p)) run s = Some s1 \<and> chg p s1 = Some s2 \<and>
    task_back_on K p (on_rq (tasks s p)) run f s2 = Some s3 \<and> sched_ok s3 \<and> rt_links s s3 \<and>
    rt_links s s1 \<and> (\<forall>x. core3 (tasks s1 x) = core3 (tasks s x)) \<and> (\<forall>x. core3 (tasks s3 x) = core3 (tasks s2 x)) \<and>
    (\<forall>x. x \<noteq> p \<longrightarrow> core3 (tasks s3 x) = core3 (tasks s x)) \<and> curr (rq s2) = curr (rq s) \<and> curr (rq s3) = curr (rq s)"
proof -
  have b: "sched_but None s" "curr_ok s" using s by (simp_all add: sched_ok_def)
  obtain s1 where s1: "task_off K p (on_rq (tasks s p)) run s = Some s1" "rt_links s s1" "curr (rq s1) = curr (rq s)"
    "\<forall>x. core3 (tasks s1 x) = core3 (tasks s x)" "sched_but (Some p) s1"
    using task_off_ok [OF K b(1)] by blast
  obtain s2 where s2: "chg p s1 = Some s2" "change_frame p s1 s2" "class_of s2 p = rt_sched_class \<longrightarrow> rt_valid s2 p"
    "class_of s2 p = wrr_sched_class \<longrightarrow> p \<noteq> 0"
    using chg_ok [OF pre_kept [OF p s1(2,4)]] by blast
  have b2: "sched_but (Some p) s2" using sched_but_change [OF s1(5) s2(2)] s2(3,4) by simp
  have on: "on_rq (tasks s2 p) = on_rq (tasks s p)" using s2(2) s1(4) by (simp add: change_frame_def core3_def)
  obtain s3 where s3: "task_back_on K p (on_rq (tasks s p)) run f s2 = Some s3" "rt_links s2 s3" "curr (rq s3) = curr (rq s2)"
    "\<forall>x. core3 (tasks s3 x) = core3 (tasks s2 x)" "sched_but None s3"
    using task_back_on_ok [OF K b2, of run f] unfolding on by blast
  have oth: "core3 (tasks s3 x) = core3 (tasks s x)" if "x \<noteq> p" for x
    using that s1(4) s2(2) s3(4) by (simp add: change_frame_def)
  have c3: "curr (rq s2) = curr (rq s)" "curr (rq s3) = curr (rq s)" using s1(3) s2(2) s3(3) by (simp_all add: change_frame_def)
  have "on_rq (tasks s3 p) = on_rq (tasks s p)" using on s3(4) by (simp add: core3_def)
  then have "curr_ok s3" using b(2) cur oth [of "curr (rq s)"] c3
    by (cases "curr (rq s) = p") (auto simp: curr_ok_def core3_def)
  moreover have "rt_links s s3"
    using rt_links_trans [OF rt_links_trans [OF s1(2)] s3(2)] s2(2) by (simp add: change_frame_def)
  ultimately show ?thesis using s1 s2(1) s3 oth c3 by (auto simp: sched_ok_def)
qed

end

section \<open>The changes of the source\<close>

text \<open>Tasks are neither NULL nor group entities, and their parameters are in range.\<close>

definition is_task :: "kstate \<Rightarrow> ptr \<Rightarrow> bool" where
  "is_task s p \<longleftrightarrow> p \<noteq> 0 \<and> group_rt_rq s p = None"

definition prio_wf :: "task_struct \<Rightarrow> bool" where
  "prio_wf t \<longleftrightarrow> MAX_RT_PRIO \<le> static_prio t \<and> static_prio t < MAX_PRIO \<and> uint (rt_priority t) < MAX_USER_RT_PRIO \<and>
     normal_prio_of t = normal_prio t"

lemma prio_wf_params: "task_params t = task_params u \<Longrightarrow> prio_wf t = prio_wf u"
  by (simp add: task_params_def prio_wf_def normal_prio_def normal_prio1_def task_has_rt_policy_def)

lemma normal_prio_range:
  assumes "prio_wf t"
  shows "0 \<le> normal_prio_of t" and "normal_prio_of t < MAX_PRIO" and "rt_prio (normal_prio_of t) \<longleftrightarrow> rt_policy (policy t)"
proof -
  define u where "u = uint (rt_priority t)"
  have "0 \<le> u" by (simp add: u_def)
  with assms [unfolded prio_wf_def normal_prio_def normal_prio1_def task_has_rt_policy_def u_def [symmetric]]
  show "0 \<le> normal_prio_of t" "normal_prio_of t < MAX_PRIO" "rt_prio (normal_prio_of t) \<longleftrightarrow> rt_policy (policy t)"
    by (auto simp: rt_prio_def sched_consts split: if_splits)
qed

text \<open>
  Documented behaviour of \<^verbatim>\<open>rt_mutex_getprio\<close>: the minimum of the normal priority and the priority of the
  highest waiter.
\<close>

definition pi_env :: "kenv \<Rightarrow> bool" where
  "pi_env K \<longleftrightarrow> (\<forall>p s. rt_mutex_getprio K p s \<le> normal_prio_of (tasks s p) \<and>
     (0 \<le> normal_prio_of (tasks s p) \<longrightarrow> 0 \<le> rt_mutex_getprio K p s))"

lemma is_task_links: "rt_links s t \<Longrightarrow> is_task t p = is_task s p"
  by (simp add: is_task_def rt_links_group)

lemma set_load_weight_ok:
  assumes "MAX_RT_PRIO \<le> static_prio (tasks s p)" and "static_prio (tasks s p) < MAX_PRIO"
  shows "\<exists>h. set_load_weight p s = Some (upd_se p h s)"
  using assms by (auto simp: set_load_weight_def Let_def sched_consts)

definition setprio_change :: "int \<Rightarrow> ptr \<Rightarrow> kstate \<Rightarrow> kstate option" where
  "setprio_change pr p s = Some (upd_task p (\<lambda>t. t\<lparr>prio := pr\<rparr>)
     (upd_task p (\<lambda>t. t\<lparr>sched_class := (if rt_prio pr then rt_sched_class else fair_sched_class)\<rparr>) s))"

interpretation prioc: task_change K "setprio_change pr" "\<lambda>s p. is_task s p \<and> 0 \<le> pr" for K pr
proof
  fix s p assume a: "is_task s p \<and> 0 \<le> pr"
  show "is_task t p \<and> 0 \<le> pr" if "rt_links s t" for t using a is_task_links [OF that] by simp
  let ?c = "if rt_prio pr then rt_sched_class else fair_sched_class"
  have "change_frame p s (upd_task p (\<lambda>t. t\<lparr>sched_class := ?c\<rparr>) s)" by (rule change_frame_upd) simp
  then have fr: "change_frame p s (upd_task p (\<lambda>t. t\<lparr>prio := pr\<rparr>) (upd_task p (\<lambda>t. t\<lparr>sched_class := ?c\<rparr>) s))"
    by (rule change_frame_trans) (rule change_frame_upd, simp)
  have "group_rt_rq (upd_task p f s) = group_rt_rq s" for f by (simp add: group_rt_rq_def fun_eq_iff)
  then show "\<exists>t. setprio_change pr p s = Some t \<and> change_frame p s t \<and>
      (class_of t p = rt_sched_class \<longrightarrow> rt_valid t p) \<and> (class_of t p = wrr_sched_class \<longrightarrow> p \<noteq> 0)"
    using a fr by (auto simp: setprio_change_def is_task_def rt_valid_def rt_prio_def group_rt_rq_def)
qed

definition nice_change :: "int \<Rightarrow> ptr \<Rightarrow> kstate \<Rightarrow> kstate option" where
  "nice_change nice p s =
     do { s2 \<leftarrow> set_load_weight p (upd_task p (\<lambda>t. t\<lparr>static_prio := NICE_TO_PRIO nice\<rparr>) s);
          let (pr, s3) = effective_prio p s2;
          Some (upd_task p (\<lambda>t. t\<lparr>prio := pr\<rparr>) s3) }"

text \<open>What the change makes of the task.\<close>

definition niced :: "int \<Rightarrow> (sched_entity \<Rightarrow> sched_entity) \<Rightarrow> task_struct \<Rightarrow> task_struct" where
  "niced nice h t = t\<lparr>static_prio := NICE_TO_PRIO nice, se := h (se t), normal_prio_of := NICE_TO_PRIO nice,
     prio := (if rt_prio (prio t) then prio t else NICE_TO_PRIO nice)\<rparr>"

lemma nice_change_eq:
  assumes "-20 \<le> nice" and "nice \<le> 19" and "\<not> task_has_rt_policy (tasks s p)"
  shows "\<exists>h. nice_change nice p s = Some (upd_task p (niced nice h) s)"
proof -
  let ?s1 = "upd_task p (\<lambda>t. t\<lparr>static_prio := NICE_TO_PRIO nice\<rparr>) s"
  obtain h where h: "set_load_weight p ?s1 = Some (upd_se p h ?s1)"
    using set_load_weight_ok [of ?s1 p] assms(1,2) by (auto simp: NICE_TO_PRIO_def sched_consts)
  have "nice_change nice p s = Some (upd_task p (niced nice h) s)"
    unfolding nice_change_def h using assms(3)
    by (simp add: effective_prio_def Let_def upd_se_def upd_task_def niced_def
        normal_prio_def normal_prio1_def task_has_rt_policy_def)
  then show ?thesis by blast
qed

interpretation nicec: task_change K "nice_change nice" "\<lambda>s p. -20 \<le> nice \<and> nice \<le> 19 \<and>
    \<not> task_has_rt_policy (tasks s p) \<and> (class_of s p = rt_sched_class \<longrightarrow> rt_valid s p) \<and>
    (class_of s p = wrr_sched_class \<longrightarrow> p \<noteq> 0)" for K nice
proof
  fix s p assume a: "-20 \<le> nice \<and> nice \<le> 19 \<and> \<not> task_has_rt_policy (tasks s p) \<and>
    (class_of s p = rt_sched_class \<longrightarrow> rt_valid s p) \<and> (class_of s p = wrr_sched_class \<longrightarrow> p \<noteq> 0)"
  show "-20 \<le> nice \<and> nice \<le> 19 \<and> \<not> task_has_rt_policy (tasks t p) \<and>
    (class_of t p = rt_sched_class \<longrightarrow> rt_valid t p) \<and> (class_of t p = wrr_sched_class \<longrightarrow> p \<noteq> 0)"
    if "rt_links s t" "\<forall>x. core3 (tasks t x) = core3 (tasks s x)" for t
    using a that(2) rt_links_group [OF that(1)]
    by (simp add: core3_def task_params_def task_has_rt_policy_def rt_valid_def)
  obtain h where h: "nice_change nice p s = Some (upd_task p (niced nice h) s)"
    using nice_change_eq a by blast
  have fr: "change_frame p s (upd_task p (niced nice h) s)"
    by (rule change_frame_upd) (simp add: niced_def)
  show "\<exists>t. nice_change nice p s = Some t \<and> change_frame p s t \<and>
      (class_of t p = rt_sched_class \<longrightarrow> rt_valid t p) \<and> (class_of t p = wrr_sched_class \<longrightarrow> p \<noteq> 0)"
    using a fr h by (auto simp: niced_def rt_valid_def rt_prio_def group_rt_rq_def)
qed

text \<open>What \<^verbatim>\<open>__setscheduler\<close> makes of the task; \<open>pr\<close> is the effective priority.\<close>

definition policied :: "int \<Rightarrow> int \<Rightarrow> int \<Rightarrow> bool \<Rightarrow> (sched_entity \<Rightarrow> sched_entity) \<Rightarrow> task_struct \<Rightarrow> task_struct" where
  "policied pol rtp pr rof h t =
     (let n = (if rt_policy pol then MAX_RT_PRIO - 1 - rtp else static_prio t) in
      t\<lparr>sched_reset_on_fork := rof, policy := pol, rt_priority := word_of_int rtp, normal_prio_of := n, prio := pr,
        sched_class := (if pol = SCHED_WRR then wrr_sched_class else if rt_prio pr then rt_sched_class else fair_sched_class),
        se := h (se t)\<rparr>)"

lemma uint_rt_priority: "0 \<le> rtp \<Longrightarrow> rtp < MAX_USER_RT_PRIO \<Longrightarrow> uint (word_of_int rtp :: uint32) = rtp"
  by (simp add: sched_consts uint_word_of_int)

definition sched_change :: "kenv \<Rightarrow> int \<Rightarrow> int \<Rightarrow> bool \<Rightarrow> ptr \<Rightarrow> kstate \<Rightarrow> kstate option" where
  "sched_change K pol rtp rof p s = setscheduler1 K p pol rtp (upd_task p (\<lambda>t. t\<lparr>sched_reset_on_fork := rof\<rparr>) s)"

lemma sched_change_eq:
  assumes "pi_env K" and "prio_wf (tasks s p)" and "0 \<le> rtp" and "rtp < MAX_USER_RT_PRIO"
  shows "\<exists>h pr. sched_change K pol rtp rof p s = Some (upd_task p (policied pol rtp pr rof h) s) \<and> 0 \<le> pr \<and>
    pr \<le> (if rt_policy pol then MAX_RT_PRIO - 1 - rtp else static_prio (tasks s p))"
proof -
  let ?s0 = "upd_task p (\<lambda>t. t\<lparr>sched_reset_on_fork := rof\<rparr>) s"
  let ?s2 = "upd_task p (\<lambda>t. t\<lparr>rt_priority := word_of_int rtp\<rparr>) (upd_task p (\<lambda>t. t\<lparr>policy := pol\<rparr>) ?s0)"
  define s3 where "s3 = upd_task p (\<lambda>t. t\<lparr>normal_prio_of := normal_prio t\<rparr>) ?s2"
  let ?n = "if rt_policy pol then MAX_RT_PRIO - 1 - rtp else static_prio (tasks s p)"
  have n: "normal_prio_of (tasks s3 p) = ?n"
    using uint_rt_priority [OF assms(3,4)]
    by (simp add: s3_def normal_prio_def normal_prio1_def task_has_rt_policy_def)
  have "0 \<le> ?n" using assms(2-4) by (auto simp: prio_wf_def sched_consts)
  then have pr: "0 \<le> rt_mutex_getprio K p s3" "rt_mutex_getprio K p s3 \<le> ?n"
    using assms(1) n unfolding pi_env_def by metis+
  define s4 where "s4 = upd_task p (\<lambda>t. t\<lparr>prio := rt_mutex_getprio K p s3\<rparr>) s3"
  define s5 where "s5 = upd_task p (\<lambda>t. t\<lparr>sched_class := (if policy t = SCHED_WRR then wrr_sched_class
      else if rt_prio (prio t) then rt_sched_class else fair_sched_class)\<rparr>) s4"
  have "static_prio (tasks s5 p) = static_prio (tasks s p)" by (simp add: s5_def s4_def s3_def)
  then obtain h where h: "set_load_weight p s5 = Some (upd_se p h s5)"
    using set_load_weight_ok [of s5 p] assms(2) by (auto simp: prio_wf_def)
  have "sched_change K pol rtp rof p s = Some (upd_se p h s5)"
    by (simp add: sched_change_def setscheduler1_def Let_def s3_def [symmetric] s4_def [symmetric] s5_def [symmetric] h)
  moreover have "upd_se p h s5 = upd_task p (policied pol rtp (rt_mutex_getprio K p s3) rof h) s"
    using n by (simp add: s5_def s4_def s3_def upd_se_def upd_task_def policied_def Let_def)
  ultimately show ?thesis using pr by (intro exI [of _ h] exI [of _ "rt_mutex_getprio K p s3"]) simp
qed

interpretation schedc: task_change K "sched_change K pol rtp rof" "\<lambda>s p. pi_env K \<and> is_task s p \<and>
    prio_wf (tasks s p) \<and> 0 \<le> rtp \<and> rtp < MAX_USER_RT_PRIO" for K pol rtp rof
proof
  fix s p assume a: "pi_env K \<and> is_task s p \<and> prio_wf (tasks s p) \<and> 0 \<le> rtp \<and> rtp < MAX_USER_RT_PRIO"
  show "pi_env K \<and> is_task t p \<and> prio_wf (tasks t p) \<and> 0 \<le> rtp \<and> rtp < MAX_USER_RT_PRIO"
    if "rt_links s t" "\<forall>x. core3 (tasks t x) = core3 (tasks s x)" for t
    using a is_task_links [OF that(1)] prio_wf_params [of "tasks t p" "tasks s p"] that(2) by (simp add: core3_def)
  obtain h pr where h: "sched_change K pol rtp rof p s = Some (upd_task p (policied pol rtp pr rof h) s)" "0 \<le> pr"
    using sched_change_eq a by blast
  have fr: "change_frame p s (upd_task p (policied pol rtp pr rof h) s)"
    by (rule change_frame_upd) (simp add: policied_def Let_def)
  show "\<exists>t. sched_change K pol rtp rof p s = Some t \<and> change_frame p s t \<and>
      (class_of t p = rt_sched_class \<longrightarrow> rt_valid t p) \<and> (class_of t p = wrr_sched_class \<longrightarrow> p \<noteq> 0)"
    using a fr h by (auto simp: policied_def rt_valid_def rt_prio_def is_task_def Let_def group_rt_rq_def split: if_splits)
qed

end
