(* ===== verification/Params_Props.thy ===== *)
theory Params_Props
  imports Params_Inv
begin

text \<open>
  What the calls that change scheduling parameters do: they keep the invariant of the scheduler together
  with that of the parameters, a failed call changes nothing, a successful one is what the reading calls
  report, and the policy decides the class.
\<close>

section \<open>The operations\<close>

lemma setsched_change_ok:
  assumes K: "kenv_ok K" "pi_env K" and s: "sched_ok s" and p: "is_task s p" "prio_wf (tasks s p)"
    and nid: "class_of s p \<noteq> idle_sched_class" and r: "0 \<le> rtp" "rtp < MAX_USER_RT_PRIO"
  shows "\<exists>t h pr. setsched_change K p pol rtp rof s = Some t \<and> sched_ok t \<and> rt_links s t \<and>
    (\<forall>x. x \<noteq> p \<longrightarrow> core3 (tasks t x) = core3 (tasks s x)) \<and>
    core3 (tasks t p) = core3 (policied pol rtp pr rof h (tasks s p)) \<and> 0 \<le> pr \<and>
    pr \<le> (if rt_policy pol then MAX_RT_PRIO - 1 - rtp else static_prio (tasks s p))"
proof -
  let ?on = "on_rq (tasks s p)" and ?run = "task_current p s"
  have cur: "curr (rq s) = p \<Longrightarrow> on_rq (tasks s p)" using s nid by (auto simp: sched_ok_def curr_ok_def)
  obtain s1 s2 s3 where o: "task_off K p ?on ?run s = Some s1" "sched_change K pol rtp rof p s1 = Some s2"
    "task_back_on K p ?on ?run 0 s2 = Some s3" "sched_ok s3" "rt_links s s3" "rt_links s s1"
    "\<forall>x. core3 (tasks s1 x) = core3 (tasks s x)" "\<forall>x. core3 (tasks s3 x) = core3 (tasks s2 x)"
    "\<forall>x. x \<noteq> p \<longrightarrow> core3 (tasks s3 x) = core3 (tasks s x)"
    using schedc.around [OF K(1) s _ cur, where pol = pol and rtp = rtp and rof = rof and run = "?run" and f = 0] K(2) p r
    by blast
  have wf1: "prio_wf (tasks s1 p)" and st: "static_prio (tasks s1 p) = static_prio (tasks s p)"
    using p(2) o(7) prio_wf_params [of "tasks s1 p" "tasks s p"] by (simp_all add: core3_def task_params_def)
  obtain h pr where "sched_change K pol rtp rof p s1 = Some (upd_task p (policied pol rtp pr rof h) s1)" "0 \<le> pr"
    "pr \<le> (if rt_policy pol then MAX_RT_PRIO - 1 - rtp else static_prio (tasks s p))"
    using sched_change_eq [OF K(2) wf1 r, of pol rof] unfolding st by blast
  then have h: "s2 = upd_task p (policied pol rtp pr rof h) s1" "0 \<le> pr"
    "pr \<le> (if rt_policy pol then MAX_RT_PRIO - 1 - rtp else static_prio (tasks s p))"
    using o(2) by simp_all
  define t where "t = emit (RtMutexAdjustPi p) (check_class_changed K p (class_of s1 p) (prio (tasks s1 p)) s3)"
  have k: "ext_keep s3 t"
    unfolding t_def by (rule ext_keep_trans [OF check_class_changed_keep [OF K(1)] ext_keep_upds(2)])
  have "core3 (policied pol rtp pr rof h (tasks s1 p)) = core3 (policied pol rtp pr rof h (tasks s p))"
    using o(7) by (simp add: policied_def Let_def core3_def task_params_def)
  then have "core3 (tasks t p) = core3 (policied pol rtp pr rof h (tasks s p))"
    using k o(8) h(1) by (simp add: ext_keep_def)
  moreover have "setsched_change K p pol rtp rof s = Some t"
    using o(1-3) by (simp add: setsched_change_def sched_change_def t_def Let_def)
  ultimately show ?thesis
    using sched_ok_keep [OF k o(4)] rt_links_trans [OF o(5) rt_links_same [OF ext_keep_same [OF k]]] o(9) k h(2,3)
    by (fastforce simp: ext_keep_def)
qed

lemma set_user_nice_ok:
  assumes K: "kenv_ok K" and s: "sched_ok s" and nid: "class_of s p \<noteq> idle_sched_class"
    and n: "TASK_NICE (tasks s p) \<noteq> nice" "-20 \<le> nice" "nice \<le> 19" and pol: "\<not> task_has_rt_policy (tasks s p)"
  shows "\<exists>t h. set_user_nice K p nice s = Some t \<and> sched_ok t \<and> rt_links s t \<and>
    (\<forall>x. x \<noteq> p \<longrightarrow> core3 (tasks t x) = core3 (tasks s x)) \<and> core3 (tasks t p) = core3 (niced nice h (tasks s p))"
proof -
  let ?on = "on_rq (tasks s p)"
  have cur: "curr (rq s) = p \<Longrightarrow> on_rq (tasks s p)" using s nid by (auto simp: sched_ok_def curr_ok_def)
  have v: "class_of s p = rt_sched_class \<longrightarrow> rt_valid s p" "class_of s p = wrr_sched_class \<longrightarrow> p \<noteq> 0"
    using s by (simp_all add: sched_ok_def sched_but_def)
  obtain s1 s2 s3 where o: "task_off K p ?on False s = Some s1" "nice_change nice p s1 = Some s2"
    "task_back_on K p ?on False 0 s2 = Some s3" "sched_ok s3" "rt_links s s3"
    "\<forall>x. core3 (tasks s1 x) = core3 (tasks s x)" "\<forall>x. core3 (tasks s3 x) = core3 (tasks s2 x)"
    "\<forall>x. x \<noteq> p \<longrightarrow> core3 (tasks s3 x) = core3 (tasks s x)"
    using nicec.around [OF K s _ cur, where nice = nice and run = False and f = 0] n pol v by blast
  have "\<not> task_has_rt_policy (tasks s1 p)" using pol o(6) by (simp add: core3_def task_params_def task_has_rt_policy_def)
  then obtain h where h: "s2 = upd_task p (niced nice h) s1"
    using nice_change_eq [OF n(2,3), of s1 p] o(2) by auto
  define t where "t = (let delta = prio (tasks s2 p) - prio (tasks s1 p) in
      if ?on \<and> (delta < 0 \<or> delta > 0 \<and> task_current p s3) then resched_task (curr (rq s3)) s3 else s3)"
  have k: "ext_keep s3 t" by (simp add: t_def Let_def)
  have "core3 (niced nice h (tasks s1 p)) = core3 (niced nice h (tasks s p))"
    using o(6) by (simp add: niced_def core3_def task_params_def)
  then have "core3 (tasks t p) = core3 (niced nice h (tasks s p))" using k o(7) h by (simp add: ext_keep_def)
  moreover have "set_user_nice K p nice s = Some t"
  proof -
    obtain a where a: "set_load_weight p (upd_task p (\<lambda>t. t\<lparr>static_prio := NICE_TO_PRIO nice\<rparr>) s1) = Some a"
      "s2 = upd_task p (\<lambda>t. t\<lparr>prio := fst (effective_prio p a)\<rparr>) (snd (effective_prio p a))"
      using o(2) by (auto simp: nice_change_def split_beta bind_eq_Some_conv)
    have "prio (tasks a p) = prio (tasks s1 p)"
      using a(1) by (auto simp: set_load_weight_def Let_def split: if_splits)
    then show ?thesis using o(1,3) n pol a
      by (cases ?on) (simp_all add: set_user_nice_def task_off_def task_back_on_def t_def Let_def split_beta)
  qed
  ultimately show ?thesis
    using sched_ok_keep [OF k o(4)] rt_links_trans [OF o(5) rt_links_same [OF ext_keep_same [OF k]]] o(8) k
    by (fastforce simp: ext_keep_def)
qed

lemma rt_mutex_setprio_ok:
  assumes K: "kenv_ok K" and s: "sched_ok s" and p: "is_task s p" and nid: "class_of s p \<noteq> idle_sched_class"
    and pr: "0 \<le> pr" "pr \<le> MAX_PRIO"
  shows "\<exists>t. rt_mutex_setprio K p pr s = Some t \<and> sched_ok t \<and> rt_links s t \<and>
    (\<forall>x. x \<noteq> p \<longrightarrow> core3 (tasks t x) = core3 (tasks s x)) \<and> task_params (tasks t p) = task_params (tasks s p) \<and>
    (p \<noteq> idle (rq s) \<longrightarrow> prio (tasks t p) = pr \<and> on_rq (tasks t p) = on_rq (tasks s p) \<and>
       class_of t p = (if rt_prio pr then rt_sched_class else fair_sched_class)) \<and>
    (p = idle (rq s) \<longrightarrow> t = s)"
proof (cases "p = idle (rq s)")
  case True
  then show ?thesis using s pr rt_links_same [OF ext_keep_same [OF ext_keep_refl]] by (simp add: rt_mutex_setprio_def)
next
  case False
  let ?on = "on_rq (tasks s p)" and ?run = "task_current p s"
  let ?f = "if prio (tasks s p) < pr then ENQUEUE_HEAD else 0"
  have cur: "curr (rq s) = p \<Longrightarrow> on_rq (tasks s p)" using s nid by (auto simp: sched_ok_def curr_ok_def)
  obtain s1 s2 s3 where o: "task_off K p ?on ?run s = Some s1" "setprio_change pr p s1 = Some s2"
    "task_back_on K p ?on ?run ?f s2 = Some s3" "sched_ok s3" "rt_links s s3"
    "\<forall>x. core3 (tasks s1 x) = core3 (tasks s x)" "\<forall>x. core3 (tasks s3 x) = core3 (tasks s2 x)"
    "\<forall>x. x \<noteq> p \<longrightarrow> core3 (tasks s3 x) = core3 (tasks s x)"
    using prioc.around [OF K s _ cur, where pr = pr and run = "?run" and f = "?f"] p pr by blast
  define t where "t = check_class_changed K p (class_of s p) (prio (tasks s p)) s3"
  have k: "ext_keep s3 t" unfolding t_def by (rule check_class_changed_keep [OF K])
  have s2: "s2 = upd_task p (\<lambda>t. t\<lparr>prio := pr\<rparr>)
      (upd_task p (\<lambda>t. t\<lparr>sched_class := (if rt_prio pr then rt_sched_class else fair_sched_class)\<rparr>) s1)"
    using o(2) by (simp add: setprio_change_def)
  have "core3 (tasks t p) = core3 (tasks s2 p)" using k o(7) by (simp add: ext_keep_def)
  then have "prio (tasks t p) = pr" "class_of t p = (if rt_prio pr then rt_sched_class else fair_sched_class)"
    "on_rq (tasks t p) = on_rq (tasks s p)" "task_params (tasks t p) = task_params (tasks s p)"
    using s2 o(6) by (simp_all add: core3_def task_params_def)
  moreover have "rt_mutex_setprio K p pr s = Some t"
    using o(1,3) pr False s2 by (simp add: rt_mutex_setprio_def t_def Let_def)
  ultimately show ?thesis
    using False sched_ok_keep [OF k o(4)] rt_links_trans [OF o(5) rt_links_same [OF ext_keep_same [OF k]]] o(8) k
    by (simp add: ext_keep_def)
qed

section \<open>Steps\<close>

text \<open>
  The steps of the scheduler and the changes of parameters. The locked phase of \<^verbatim>\<open>__sched_setscheduler\<close> may
  come any time after its checks: \<open>s0\<close> is the state in which they were made.
\<close>

inductive param_step :: "kenv \<Rightarrow> kstate \<Rightarrow> kstate \<Rightarrow> bool" for K where
  base: "sched_step K s t \<Longrightarrow> param_step K s t"
| setsched: "is_task s p \<Longrightarrow> class_of s p \<noteq> idle_sched_class \<Longrightarrow> setsched_check K p pol pr user s0 = Inr (pol1, rof, old) \<Longrightarrow>
    setsched_locked K p pol1 pr user rof old s = Some (r, t) \<Longrightarrow> param_step K s t"
| nice: "class_of s p \<noteq> idle_sched_class \<Longrightarrow> set_user_nice K p n s = Some t \<Longrightarrow> param_step K s t"
| setprio: "is_task s p \<Longrightarrow> class_of s p \<noteq> idle_sched_class \<Longrightarrow> rt_mutex_setprio K p pr s = Some t \<Longrightarrow> param_step K s t"

inductive param_reachable :: "kenv \<Rightarrow> kstate \<Rightarrow> kstate \<Rightarrow> bool" for K s where
  start: "param_reachable K s s"
| step: "param_reachable K s t \<Longrightarrow> param_step K t u \<Longrightarrow> param_reachable K s u"

definition params_ok :: "kenv \<Rightarrow> kstate \<Rightarrow> bool" where
  "params_ok K s \<longleftrightarrow> sched_ok s \<and> boot_ok K s \<and> (\<forall>p. prio_wf (tasks s p))"

lemma setsched_check_range:
  assumes "setsched_check K p pol pr user s = Inr (pol1, rof, old)"
  shows "0 \<le> pr" and "pr < MAX_USER_RT_PRIO"
  using assms by (auto simp: setsched_check_def sched_consts split: sum.splits if_splits)

lemma boot_ok_change:
  assumes "boot_ok K s" and "rt_links s t" and "\<forall>x. x \<noteq> p \<longrightarrow> core3 (tasks t x) = core3 (tasks s x)"
    and "class_of s p \<noteq> idle_sched_class"
  shows "boot_ok K t"
proof -
  have "idle_task K \<noteq> p" using assms(1,4) by (auto simp: boot_ok_def)
  then show ?thesis using assms(1-3) rt_root_links by (simp add: boot_ok_def core3_def)
qed

lemma policied_wf:
  assumes "prio_wf t" and "0 \<le> rtp" and "rtp < MAX_USER_RT_PRIO"
  shows "prio_wf (policied pol rtp pr rof h t)"
  using assms uint_rt_priority [OF assms(2,3)]
  by (simp add: prio_wf_def policied_def Let_def normal_prio_def normal_prio1_def task_has_rt_policy_def)

lemma niced_wf:
  assumes "prio_wf t" and "-20 \<le> n" and "n \<le> 19" and "\<not> task_has_rt_policy t"
  shows "prio_wf (niced n h t)"
  using assms by (simp add: prio_wf_def niced_def normal_prio_def normal_prio1_def task_has_rt_policy_def NICE_TO_PRIO_def sched_consts)

lemma params_ok_change:
  assumes s: "params_ok K s" and t: "sched_ok t" "rt_links s t" "\<forall>x. x \<noteq> p \<longrightarrow> core3 (tasks t x) = core3 (tasks s x)"
    and p: "class_of s p \<noteq> idle_sched_class" "core3 (tasks t p) = core3 u" "prio_wf u"
  shows "params_ok K t"
proof -
  have "prio_wf (tasks t x)" for x
    using s t(3) p(2,3) prio_wf_params [of "tasks t x" "tasks s x"] prio_wf_params [of "tasks t p" u]
    by (cases "x = p") (auto simp: params_ok_def core3_def)
  then show ?thesis using s t boot_ok_change [OF _ t(2,3) p(1)] by (simp add: params_ok_def)
qed

lemma setsched_change_params:
  assumes K: "kenv_ok K" "pi_env K" and s: "params_ok K s" and p: "is_task s p" "class_of s p \<noteq> idle_sched_class"
    and r: "0 \<le> pr" "pr < MAX_USER_RT_PRIO"
  shows "\<exists>t. setsched_change K p pol pr rof s = Some t \<and> params_ok K t"
proof -
  have "sched_ok s" "prio_wf (tasks s p)" using s by (simp_all add: params_ok_def)
  then obtain t h q where t: "setsched_change K p pol pr rof s = Some t" "sched_ok t" "rt_links s t"
    "\<forall>x. x \<noteq> p \<longrightarrow> core3 (tasks t x) = core3 (tasks s x)"
    "core3 (tasks t p) = core3 (policied pol pr q rof h (tasks s p))"
    using setsched_change_ok [OF K _ p(1) _ p(2) r] by blast
  have "params_ok K t"
    by (rule params_ok_change [OF s t(2-4) p(2) t(5) policied_wf [OF \<open>prio_wf (tasks s p)\<close> r]])
  then show ?thesis using t(1) by blast
qed

lemma setsched_locked_ok:
  assumes "kenv_ok K" and "pi_env K" and "params_ok K s" and "is_task s p" and "class_of s p \<noteq> idle_sched_class"
    and "0 \<le> pr" and "pr < MAX_USER_RT_PRIO"
  shows "\<exists>res t. setsched_locked K p pol pr user rof old s = Some (res, t) \<and> params_ok K t"
  using setsched_change_params [OF assms, of pol rof] assms(3) by (auto simp: setsched_locked_def)

lemma set_user_nice_params:
  assumes K: "kenv_ok K" and s: "params_ok K s" and p: "class_of s p \<noteq> idle_sched_class"
  shows "\<exists>t. set_user_nice K p n s = Some t \<and> params_ok K t"
proof -
  have ok: "sched_ok s" "prio_wf (tasks s p)" using s by (simp_all add: params_ok_def)
  consider (same) "TASK_NICE (tasks s p) = n \<or> n < -20 \<or> n > 19"
    | (rt) "\<not> (TASK_NICE (tasks s p) = n \<or> n < -20 \<or> n > 19)" "task_has_rt_policy (tasks s p)"
    | (norm) "TASK_NICE (tasks s p) \<noteq> n" "-20 \<le> n" "n \<le> 19" "\<not> task_has_rt_policy (tasks s p)" by linarith
  then show ?thesis
  proof cases
    case same
    then show ?thesis using s by (simp add: set_user_nice_def)
  next
    case rt
    let ?t = "upd_task p (\<lambda>t. t\<lparr>static_prio := NICE_TO_PRIO n\<rparr>) s"
    have same: "rt_same ?t s" by simp
    have "sched_but None ?t" "curr_ok ?t"
      using ok(1) rt_same_inv(4) [OF same] wrr_wf_cong [of ?t s]
      by (auto simp: sched_ok_def sched_but_def curr_ok_def rt_queued_def rt_valid_def rt_same_facts [OF same])
    moreover have "rt_links s ?t" by (rule rt_links_same [OF same])
    moreover have "prio_wf (tasks ?t p)" using ok(2) rt
      by (auto simp: prio_wf_def normal_prio_def task_has_rt_policy_def NICE_TO_PRIO_def sched_consts)
    ultimately have "params_ok K ?t"
      by (intro params_ok_change [OF s _ _ _ p refl]) (simp_all add: sched_ok_def)
    then show ?thesis using rt by (simp add: set_user_nice_def)
  next
    case norm
    obtain t h where t: "set_user_nice K p n s = Some t" "sched_ok t" "rt_links s t"
      "\<forall>x. x \<noteq> p \<longrightarrow> core3 (tasks t x) = core3 (tasks s x)" "core3 (tasks t p) = core3 (niced n h (tasks s p))"
      using set_user_nice_ok [OF K ok(1) p norm] by blast
    then show ?thesis using params_ok_change [OF s t(2-4) p t(5) niced_wf [OF ok(2) norm(2-4)]] by blast
  qed
qed

lemma rt_mutex_setprio_params:
  assumes K: "kenv_ok K" and s: "params_ok K s" and p: "is_task s p" "class_of s p \<noteq> idle_sched_class"
    and pr: "0 \<le> pr" "pr \<le> MAX_PRIO"
  shows "\<exists>t. rt_mutex_setprio K p pr s = Some t \<and> params_ok K t"
proof -
  have ok: "sched_ok s" "prio_wf (tasks s p)" using s by (simp_all add: params_ok_def)
  obtain t where t: "rt_mutex_setprio K p pr s = Some t" "sched_ok t" "rt_links s t"
    "\<forall>x. x \<noteq> p \<longrightarrow> core3 (tasks t x) = core3 (tasks s x)" "task_params (tasks t p) = task_params (tasks s p)"
    using rt_mutex_setprio_ok [OF K ok(1) p pr] by blast
  then show ?thesis
    using params_ok_change [OF s t(2-4) p(2) refl] ok(2) prio_wf_params [OF t(5)] by blast
qed

lemma param_step_ok:
  assumes K: "kenv_ok K" "pi_env K" and "param_step K s t" and s: "params_ok K s"
  shows "params_ok K t"
  using assms(3)
proof cases
  case base
  have "prio_wf (tasks t x)" if "same_params s t" for x
    using s prio_wf_params [OF same_paramsD(2) [OF that]] by (simp add: params_ok_def)
  then show ?thesis
    using sched_step_kept [OF K(1) base] sched_step_ok [OF K(1) base] s by (simp add: params_ok_def)
next
  case (setsched p pol pr user s0 pol1 rof old r)
  show ?thesis
    using setsched_locked_ok [OF K s setsched(1,2) setsched_check_range [OF setsched(3)], of pol1 user rof old] setsched(4)
    by auto
next
  case (nice p n)
  then show ?thesis using set_user_nice_params [OF K(1) s nice(1), of n] by auto
next
  case (setprio p pr)
  then have "0 \<le> pr" "pr \<le> MAX_PRIO" by (auto simp: rt_mutex_setprio_def split: if_splits)
  then show ?thesis using rt_mutex_setprio_params [OF K(1) s setprio(1,2), of pr] setprio(3) by auto
qed

lemma param_reachable_inv:
  assumes "param_reachable K s t" and "kenv_ok K" and "pi_env K" and "params_ok K s"
  shows "params_ok K t"
  using assms(1) by induction (use assms param_step_ok in blast)+

section \<open>The whole call\<close>

lemma setsched_check_old:
  assumes "setsched_check K p pol pr user s = Inr (pol1, rof, old)"
  shows "old = -1 \<or> old = policy (tasks s p)"
    and "0 \<le> pol \<Longrightarrow> pol1 = (pol AND NOT SCHED_RESET_ON_FORK) \<and> rof = (pol AND SCHED_RESET_ON_FORK \<noteq> 0)"
    and "user \<Longrightarrow> \<not> capable_sys_nice K s \<Longrightarrow> setsched_user_perm K p pol1 pr rof s"
  using assms by (auto simp: setsched_check_def setsched_policy_def Let_def split: sum.splits if_splits)

text \<open>Without another step in between, the second phase never asks to check again.\<close>

lemma sched_setscheduler1_eq:
  assumes "\<not> in_interrupt K s"
  shows "sched_setscheduler1 K p pol pr user s = (case setsched_check K p pol pr user s of
      Inl e \<Rightarrow> Some (e, s)
    | Inr (pol1, rof, old) \<Rightarrow>
        (if p = stop (rq s) then Some (- EINVAL, s)
         else if pol1 = policy (tasks s p) \<and> (\<not> rt_policy pol1 \<or> pr = uint (rt_priority (tasks s p))) then Some (0, s)
         else if user \<and> rt_bandwidth_enabled s \<and> rt_policy pol1 \<and>
           bw_rt_runtime (tg_rt_bandwidth (tgs s (sched_task_group (tasks s p)))) = 0 \<and>
           \<not> task_group_is_autogroup K (sched_task_group (tasks s p)) then Some (- EPERM, s)
         else map_option (Pair 0) (setsched_change K p pol1 pr rof s)))"
proof (cases "setsched_check K p pol pr user s")
  case (Inr r)
  obtain pol1 rof old where r: "r = (pol1, rof, old)" by (cases r)
  have "old = -1 \<or> old = policy (tasks s p)" using setsched_check_old(1) Inr r by blast
  then show ?thesis
    using assms Inr by (subst sched_setscheduler1.simps)
      (auto simp: r setsched_locked_def map_option_case split: option.split)
qed (use assms in \<open>simp add: sched_setscheduler1.simps\<close>)

lemma getscheduler_bits:
  "(pol AND NOT SCHED_RESET_ON_FORK) OR (if pol AND SCHED_RESET_ON_FORK \<noteq> 0 then SCHED_RESET_ON_FORK else 0) = pol"
proof -
  have e: "SCHED_RESET_ON_FORK = 2 ^ 30" by (simp add: sched_consts)
  have b: "bit SCHED_RESET_ON_FORK n \<longleftrightarrow> n = 30" for n
    unfolding e bit_exp_iff by (simp only: possible_bit_def) simp
  have "pol AND SCHED_RESET_ON_FORK = (if bit pol 30 then SCHED_RESET_ON_FORK else 0)"
    by (rule bit_eqI) (auto simp: b bit_and_iff)
  then have "(if pol AND SCHED_RESET_ON_FORK \<noteq> 0 then SCHED_RESET_ON_FORK else 0) = pol AND SCHED_RESET_ON_FORK"
    by simp
  then show ?thesis by (simp add: bit_eq_iff bit_simps) blast
qed

section \<open>Properties\<close>

lemma sample_prio_wf [simp]: "prio_wf (tasks (sample_sched0 thr) p)"
  by (simp add: sample_sched_task sample_tasks_def sample_task_def prio_wf_def normal_prio_def normal_prio1_def
      task_has_rt_policy_def rt_policy_def sched_consts uint_word_of_int)

lemma sample_params_ok [simp]: "params_ok sample_env (sample_sched0 thr)" "pi_env sample_env"
  by (simp_all add: params_ok_def pi_env_def) (simp_all add: sample_env_def)

lemma sample_is_task: "is_task (sample_sched0 thr) p \<longleftrightarrow> p \<noteq> 0 \<and> p \<noteq> 201"
  by (simp add: is_task_def rt_same_facts [OF sample_sched_same])

text \<open>In every state reached by steps of the scheduler, changes of policy, nice value and inherited priority,
  the queues hold exactly the runnable tasks, all parameters are in range and the normal priority is the
  one the policy gives; and there each of these changes returns.\<close>

lemma param_reachable_ok:
  assumes "kenv_ok K" and "pi_env K" and "params_ok K s" and "param_reachable K s t"
    and "is_task t p" and "class_of t p \<noteq> idle_sched_class"
  shows "params_ok K t \<and> (0 \<le> pr \<and> pr < MAX_USER_RT_PRIO \<longrightarrow> setsched_locked K p pol pr user rof old t \<noteq> None) \<and>
    set_user_nice K p n t \<noteq> None \<and> (rt_mutex_setprio K p pr t = None \<longleftrightarrow> pr < 0 \<or> pr > MAX_PRIO)"
proof -
  have ok: "params_ok K t" using param_reachable_inv [OF assms(4,1-3)] .
  have "setsched_locked K p pol pr user rof old t \<noteq> None" if "0 \<le> pr \<and> pr < MAX_USER_RT_PRIO"
    using setsched_locked_ok [OF assms(1,2) ok assms(5,6)] that by fastforce
  moreover have "set_user_nice K p n t \<noteq> None" using set_user_nice_params [OF assms(1) ok assms(6)] by fastforce
  moreover have "rt_mutex_setprio K p pr t = None \<longleftrightarrow> pr < 0 \<or> pr > MAX_PRIO"
    using rt_mutex_setprio_params [OF assms(1) ok assms(5,6), of pr] by (fastforce simp: rt_mutex_setprio_def)
  ultimately show ?thesis using ok by blast
qed

lemma param_reachable_ok_witness:
  "\<exists>t. set_user_nice sample_env 10 5 sample_sched = Some t \<and> params_ok sample_env t"
proof -
  have c: "class_of sample_sched 10 \<noteq> idle_sched_class" by (simp add: sample_sched_task sample_tasks_def sample_task_def)
  have i: "is_task sample_sched 10" by (simp add: sample_is_task)
  have "set_user_nice sample_env 10 5 sample_sched \<noteq> None"
    using param_reachable_ok [OF sample_kenv_ok sample_params_ok(2,1) param_reachable.start i c] by blast
  then obtain t where t: "set_user_nice sample_env 10 5 sample_sched = Some t" by blast
  then have r: "param_reachable sample_env sample_sched t"
    using param_reachable.step [OF param_reachable.start param_step.nice [OF c]] by blast
  have l: "is_task t 20 \<and> class_of t 20 \<noteq> idle_sched_class"
  proof -
    have "\<not> task_has_rt_policy (tasks sample_sched 10)" "TASK_NICE (tasks sample_sched 10) \<noteq> 5"
      by (simp_all add: sample_sched_task sample_tasks_def sample_task_def task_has_rt_policy_def rt_policy_def TASK_NICE_def
          PRIO_TO_NICE_def sched_consts)
    then obtain h where "rt_links sample_sched t" "\<forall>x. x \<noteq> 10 \<longrightarrow> core3 (tasks t x) = core3 (tasks sample_sched x)"
      using set_user_nice_ok [OF sample_kenv_ok sample_sched_ok(1) c, of 5] t by auto
    then show ?thesis using is_task_links sample_is_task by (simp add: core3_def sample_sched_task sample_tasks_def sample_task_def)
  qed
  then have "params_ok sample_env t"
    using param_reachable_ok [OF sample_kenv_ok sample_params_ok(2,1) r] by blast
  then show ?thesis using t by blast
qed

text \<open>C20: \<^verbatim>\<open>sched_setscheduler\<close>, called outside interrupt context for any task but the idle task, always returns, keeps all
  scheduling parameters consistent, and an error leaves the state as it was. The check and the locked change run without a step of another
  task between them; steps between them are those of \<open>param_step\<close>.\<close>

theorem setscheduler_returns:
  assumes "kenv_ok K" and "pi_env K" and "params_ok K s" and "is_task s p" and "class_of s p \<noteq> idle_sched_class"
    and "\<not> in_interrupt K s"
  shows "\<exists>r t. sched_setscheduler1 K p pol pr user s = Some (r, t) \<and> params_ok K t \<and> (r \<noteq> 0 \<longrightarrow> t = s)"
proof (cases "setsched_check K p pol pr user s")
  case (Inl e)
  then show ?thesis using assms(3,6) by (simp add: sched_setscheduler1_eq)
next
  case (Inr r)
  obtain pol1 rof old where r: "r = (pol1, rof, old)" by (cases r)
  have "\<exists>t. setsched_change K p pol1 pr rof s = Some t \<and> params_ok K t"
    using setsched_change_params [OF assms(1-5)] setsched_check_range [of K p pol pr user s] Inr r by blast
  then show ?thesis using assms(3,6) Inr r by (auto simp: sched_setscheduler1_eq)
qed

theorem setscheduler_returns_witness:
  "\<exists>r t. sched_setscheduler1 sample_env 20 6 10 True sample_sched = Some (r, t) \<and> params_ok sample_env t"
  using setscheduler_returns [OF sample_kenv_ok sample_params_ok(2,1), of False 20 6 10 True]
  by (auto simp: sample_is_task sample_sched_task sample_tasks_def sample_task_def) (auto simp: sample_env_def)

end
