(* ===== verification/Params_Calls.thy ===== *)
theory Params_Calls
  imports Params_Props
begin

text \<open>
  The system calls that set and read scheduling parameters: what a successful \<^verbatim>\<open>sched_setscheduler\<close> does, that
  the reading calls report it, which arguments and which callers are refused, what the code silently
  ignores, priority inheritance of weighted round-robin tasks, and yielding.
\<close>

section \<open>A successful call\<close>

lemma setscheduler_success:
  assumes K: "kenv_ok K" "pi_env K" and s: "params_ok K s" and p: "is_task s p" "class_of s p \<noteq> idle_sched_class"
    and call: "sched_setscheduler1 K p pol pr user s = Some (0, t)" and pol: "0 \<le> pol"
    and new: "(pol AND NOT SCHED_RESET_ON_FORK) \<noteq> policy (tasks s p)"
    and sec: "security_task_setscheduler K p s = 0" and irq: "\<not> in_interrupt K s"
  shows "\<exists>h q. sched_ok t \<and> 0 \<le> pr \<and> pr < MAX_USER_RT_PRIO \<and>
    core3 (tasks t p) = core3 (policied (pol AND NOT SCHED_RESET_ON_FORK) pr q
      (pol AND SCHED_RESET_ON_FORK \<noteq> 0) h (tasks s p)) \<and>
    (\<forall>x. x \<noteq> p \<longrightarrow> core3 (tasks t x) = core3 (tasks s x))"
proof (cases "setsched_check K p pol pr user s")
  case (Inl e)
  then have "e \<noteq> 0" using sec
    by (auto simp: setsched_check_def setsched_policy_def Let_def sched_consts split: sum.splits if_splits)
  then show ?thesis using call Inl irq by (simp add: sched_setscheduler1_eq)
next
  case (Inr r)
  let ?pol1 = "pol AND NOT SCHED_RESET_ON_FORK" and ?rof = "pol AND SCHED_RESET_ON_FORK \<noteq> 0"
  obtain old where r: "r = (?pol1, ?rof, old)" using setsched_check_old(2) Inr pol by (cases r) blast
  have rg: "0 \<le> pr" "pr < MAX_USER_RT_PRIO" using setsched_check_range Inr r by blast+
  have ch: "setsched_change K p ?pol1 pr ?rof s = Some t"
    using call Inr irq new by (auto simp: r sched_setscheduler1_eq sched_consts split: if_splits)
  have "sched_ok s" "prio_wf (tasks s p)" using s by (simp_all add: params_ok_def)
  from setsched_change_ok [OF K this(1) p(1) this(2) p(2) rg, of ?pol1 ?rof] show ?thesis
    using ch rg by auto
qed

lemma core3_policied:
  assumes "core3 u = core3 (policied pol pr q rof h t)" and "0 \<le> pr" and "pr < MAX_USER_RT_PRIO"
  shows "policy u = pol" and "uint (rt_priority u) = pr" and "sched_reset_on_fork u = rof" and "prio u = q"
    and "sched_class u = (if pol = SCHED_WRR then wrr_sched_class else if rt_prio q then rt_sched_class else fair_sched_class)"
    and "on_rq u = on_rq t" and "static_prio u = static_prio t"
    and "normal_prio_of u = (if rt_policy pol then MAX_RT_PRIO - 1 - pr else static_prio t)"
  using assms uint_rt_priority [OF assms(2,3)]
  by (simp_all add: core3_def task_params_def policied_def Let_def)

section \<open>Properties\<close>

text \<open>C21: A successful change of policy sets policy, priority and reset flag; the task is in the weighted
  round-robin class exactly for \<^verbatim>\<open>SCHED_WRR\<close>, else in the class of its effective priority. It stays runnable if it was: it
  is on the queue of the weighted round-robin class or on that of the real-time class, at the level of its effective priority,
  exactly when it is runnable and in that class, and no other task changes. All invariants of the scheduler hold afterwards.\<close>

theorem setscheduler_sets_class:
  assumes "kenv_ok K" and "pi_env K" and "params_ok K s" and "is_task s p" and "class_of s p \<noteq> idle_sched_class"
    and "sched_setscheduler1 K p pol pr user s = Some (0, t)" and "0 \<le> pol"
    and "(pol AND NOT SCHED_RESET_ON_FORK) \<noteq> policy (tasks s p)"
    and "security_task_setscheduler K p s = 0" and "\<not> in_interrupt K s"
  shows "policy (tasks t p) = (pol AND NOT SCHED_RESET_ON_FORK) \<and> uint (rt_priority (tasks t p)) = pr \<and>
    sched_reset_on_fork (tasks t p) = (pol AND SCHED_RESET_ON_FORK \<noteq> 0) \<and>
    class_of t p = (if (pol AND NOT SCHED_RESET_ON_FORK) = SCHED_WRR then wrr_sched_class
      else if prio (tasks t p) < MAX_RT_PRIO then rt_sched_class else fair_sched_class) \<and>
    (p \<in> set (wq t) \<longleftrightarrow> on_rq (tasks s p) \<and> (pol AND NOT SCHED_RESET_ON_FORK) = SCHED_WRR) \<and>
    (rt_queued t p \<longleftrightarrow> on_rq (tasks s p) \<and> class_of t p = rt_sched_class) \<and>
    (rt_queued t p \<longrightarrow> p \<in> set (rtq (rt_rqs t (rt_rq_of (rt_ents t p))) (prio (tasks t p)))) \<and>
    on_rq (tasks t p) = on_rq (tasks s p) \<and> sched_ok t \<and>
    (\<forall>x. x \<noteq> p \<longrightarrow> prio (tasks t x) = prio (tasks s x) \<and> class_of t x = class_of s x \<and> on_rq (tasks t x) = on_rq (tasks s x))"
proof -
  obtain h q where t: "sched_ok t" "0 \<le> pr" "pr < MAX_USER_RT_PRIO"
    "core3 (tasks t p) = core3 (policied (pol AND NOT SCHED_RESET_ON_FORK) pr q
      (pol AND SCHED_RESET_ON_FORK \<noteq> 0) h (tasks s p))"
    "\<forall>x. x \<noteq> p \<longrightarrow> core3 (tasks t x) = core3 (tasks s x)"
    using setscheduler_success [OF assms] by blast
  note c = core3_policied [OF t(4,2,3)]
  have "p \<in> set (wq t) \<longleftrightarrow> on_rq (tasks t p) \<and> class_of t p = wrr_sched_class"
    and q: "rt_queued t p \<longleftrightarrow> on_rq (tasks t p) \<and> class_of t p = rt_sched_class" and "rt_inv t"
    using t(1) by (simp_all add: sched_ok_def sched_but_def rt_ok_def)
  moreover from \<open>rt_inv t\<close> have "p \<in> set (rtq (rt_rqs t (rt_rq_of (rt_ents t p))) (prio (tasks t p)))" if "rt_queued t p"
    using rt_inv_on(1) [of t p] that by (simp add: rt_queued_def rt_se_prio_def)
  ultimately show ?thesis using c t(1,5) by (simp add: core3_def rt_prio_def)
qed

lemma sample_setscheduler:
  "\<exists>t. sched_setscheduler1 sample_env 20 6 10 True sample_sched = Some (0, t)"
proof -
  have c: "class_of sample_sched 20 \<noteq> idle_sched_class" "policy (tasks sample_sched 20) = 0"
    "has_mm (tasks sample_sched 20)" "rq sample_sched = sample_rq\<lparr>curr := 31\<rparr>"
    by (simp_all add: sample_sched_task sample_tasks_def sample_task_def)
  have i: "is_task sample_sched 20" by (simp add: sample_is_task)
  have e: "\<not> in_interrupt sample_env sample_sched" "capable_sys_nice sample_env sample_sched"
    "security_task_setscheduler sample_env 20 sample_sched = 0" by (simp_all add: sample_env_def)
  have ck: "setsched_check sample_env 20 6 10 True sample_sched = Inr (6, False, -1)"
    using c e by (simp add: setsched_check_def setsched_policy_def Let_def sched_consts rt_policy_def wrr_policy_def)
  obtain t where "setsched_change sample_env 20 6 10 False sample_sched = Some t"
    using setsched_change_params [OF sample_kenv_ok sample_params_ok(2,1) i c(1), of 10 6 False]
    by (auto simp: sched_consts)
  then show ?thesis
    using c e ck by (simp add: sched_setscheduler1_eq sample_rq_def rt_policy_def sched_consts)
qed

theorem setscheduler_sets_class_witness:
  "\<exists>t. sched_setscheduler1 sample_env 20 6 10 True sample_sched = Some (0, t) \<and> 20 \<in> set (wq t)"
proof -
  obtain t where t: "sched_setscheduler1 sample_env 20 6 10 True sample_sched = Some (0, t)"
    using sample_setscheduler by blast
  have c: "class_of sample_sched 20 \<noteq> idle_sched_class" "is_task sample_sched 20" "on_rq (tasks sample_sched 20)"
    "6 AND NOT SCHED_RESET_ON_FORK \<noteq> policy (tasks sample_sched 20)" "(6 AND NOT SCHED_RESET_ON_FORK) = SCHED_WRR"
    by (simp_all add: sample_is_task sample_sched_task sample_tasks_def sample_task_def sched_consts)
  have e: "security_task_setscheduler sample_env 20 sample_sched = 0" "\<not> in_interrupt sample_env sample_sched"
    by (simp_all add: sample_env_def)
  show ?thesis
    using setscheduler_sets_class [OF sample_kenv_ok sample_params_ok(2,1) c(2,1) t _ c(4) e] t c(3,5) by auto
qed

text \<open>C22: What \<^verbatim>\<open>sched_setscheduler\<close> has set with a new policy, \<^verbatim>\<open>sched_getscheduler\<close> and \<^verbatim>\<open>sched_getparam\<close> return,
  the reset-on-fork bit included.\<close>

theorem setscheduler_getscheduler:
  assumes "kenv_ok K" and "pi_env K" and "params_ok K s" and "is_task s p" and "class_of s p \<noteq> idle_sched_class"
    and "sched_setscheduler1 K p pol pr user s = Some (0, t)" and "0 \<le> pol"
    and "(pol AND NOT SCHED_RESET_ON_FORK) \<noteq> policy (tasks s p)"
    and "security_task_setscheduler K p s = 0" and "\<not> in_interrupt K s"
    and "0 < pid" and "find_task_by_vpid K pid t = Some p" and "security_task_getscheduler K p t = 0"
  shows "sys_sched_getscheduler K pid t = pol \<and> sys_sched_getparam K pid (UMem x) t = (0, Some pr)"
proof -
  obtain h q where t: "0 \<le> pr" "pr < MAX_USER_RT_PRIO"
    "core3 (tasks t p) = core3 (policied (pol AND NOT SCHED_RESET_ON_FORK) pr q
      (pol AND SCHED_RESET_ON_FORK \<noteq> 0) h (tasks s p))"
    using setscheduler_success [OF assms(1-10)] by blast
  note c = core3_policied [OF t(3,1,2)]
  have "sint (rt_priority (tasks t p)) = pr"
    using c(2) t(1,2) by (simp add: sint_uint sched_consts signed_take_bit_int_eq_self)
  then show ?thesis
    using c(1,3) assms(11-13) getscheduler_bits [of pol]
    by (simp add: sys_sched_getscheduler_def sys_sched_getparam_def find_process_by_pid_def copy_to_user_def)
qed

theorem setscheduler_getscheduler_witness:
  "\<exists>t. sched_setscheduler1 sample_env 20 6 10 True sample_sched = Some (0, t) \<and> sys_sched_getscheduler sample_env 42 t = 6"
proof -
  obtain t where t: "sched_setscheduler1 sample_env 20 6 10 True sample_sched = Some (0, t)"
    using sample_setscheduler by blast
  have c: "class_of sample_sched 20 \<noteq> idle_sched_class" "is_task sample_sched 20"
    "6 AND NOT SCHED_RESET_ON_FORK \<noteq> policy (tasks sample_sched 20)"
    by (simp_all add: sample_is_task sample_sched_task sample_tasks_def sample_task_def sched_consts)
  have e: "security_task_setscheduler sample_env 20 sample_sched = 0" "\<not> in_interrupt sample_env sample_sched"
    "find_task_by_vpid sample_env 42 t = Some 20" "security_task_getscheduler sample_env 20 t = 0"
    by (simp_all add: sample_env_def)
  show ?thesis
    using setscheduler_getscheduler [OF sample_kenv_ok sample_params_ok(2,1) c(2,1) t _ c(3) e(1,2) _ e(3,4)] t by auto
qed

text \<open>C23: A caller without \<^verbatim>\<open>CAP_SYS_NICE\<close> changes only tasks of its own user, cannot clear the reset-on-fork flag, and
  sets a real-time priority only up to the larger of the present one and the resource limit.\<close>

theorem setscheduler_unprivileged:
  assumes "\<not> in_interrupt K s" and "\<not> capable_sys_nice K s" and "0 \<le> pol"
    and "sched_setscheduler K p pol pr s = Some (r, t)" and "t \<noteq> s"
  shows "check_same_owner p s \<and> (sched_reset_on_fork (tasks s p) \<longrightarrow> pol AND SCHED_RESET_ON_FORK \<noteq> 0) \<and>
    (rt_policy (pol AND NOT SCHED_RESET_ON_FORK) \<longrightarrow>
       pr \<le> uint (rt_priority (tasks s p)) \<or> pr \<le> uint (task_rlimit K p RLIMIT_RTPRIO))"
proof (cases "setsched_check K p pol pr True s")
  case (Inl e)
  then show ?thesis using assms by (simp add: sched_setscheduler_def sched_setscheduler1_eq)
next
  case (Inr q)
  obtain pol1 rof old where q: "q = (pol1, rof, old)" by (cases q)
  have "setsched_user_perm K p pol1 pr rof s" using setsched_check_old(3) Inr q assms(2) by blast
  moreover have "pol1 = (pol AND NOT SCHED_RESET_ON_FORK)" "rof = (pol AND SCHED_RESET_ON_FORK \<noteq> 0)"
    using setsched_check_old(2) Inr q assms(3) by blast+
  ultimately show ?thesis by (auto simp: setsched_user_perm_def Let_def split: if_splits)
qed

theorem setscheduler_unprivileged_witness:
  "check_same_owner 20 sample_sched"
proof -
  let ?K = "sample_env\<lparr>capable_sys_nice := \<lambda>s. False\<rparr>"
  have ext: "kenv_ok ?K" "pi_env ?K" "params_ok ?K sample_sched"
  proof -
    have "rt_env ?K" "ext_ok ?K" using kenv_okD(1,3) [OF sample_kenv_ok] by (simp_all add: rt_env_def ext_ok_def)
    then show "kenv_ok ?K" by (simp add: kenv_ok_def)
    show "pi_env ?K" using sample_params_ok(2) by (simp add: pi_env_def)
    show "params_ok ?K sample_sched"
      using sample_params_ok(1) [of False] by (simp add: params_ok_def boot_ok_def rt_root_def)
  qed
  have c: "class_of sample_sched 20 \<noteq> idle_sched_class" "policy (tasks sample_sched 20) = 0"
    "has_mm (tasks sample_sched 20)" "rq sample_sched = sample_rq\<lparr>curr := 31\<rparr>" "is_task sample_sched 20"
    "\<not> sched_reset_on_fork (tasks sample_sched 20)"
    by (simp_all add: sample_is_task sample_sched_task sample_tasks_def sample_task_def)
  have own: "cred_ns (tasks sample_sched x) = 0" "cred_euid (tasks sample_sched x) = 0" for x
    by (simp_all add: sample_sched_task sample_tasks_def sample_task_def)
  have e: "\<not> in_interrupt ?K sample_sched" "\<not> capable_sys_nice ?K sample_sched"
    "security_task_setscheduler ?K 20 sample_sched = 0" by (simp_all add: sample_env_def)
  have ck: "setsched_check ?K 20 6 10 True sample_sched = Inr (6, False, -1)"
    using c e own by (simp add: setsched_check_def setsched_policy_def setsched_user_perm_def check_same_owner_def
        Let_def sched_consts rt_policy_def wrr_policy_def)
  obtain t h q where t: "setsched_change ?K 20 6 10 False sample_sched = Some t"
    "core3 (tasks t 20) = core3 (policied 6 10 q False h (tasks sample_sched 20))"
    using setsched_change_ok [OF ext(1,2) sample_sched_ok(1) c(5) sample_prio_wf c(1), of 10 6 False]
    by (auto simp: sched_consts)
  have "policy (tasks t 20) = 6" using core3_policied(1) [OF t(2)] by (simp add: sched_consts)
  then have "t \<noteq> sample_sched" using c(2) by auto
  moreover have "sched_setscheduler ?K 20 6 10 sample_sched = Some (0, t)"
    using c e ck t(1) by (simp add: sched_setscheduler_def sched_setscheduler1_eq sample_rq_def rt_policy_def sched_consts)
  ultimately show ?thesis using setscheduler_unprivileged [OF e(1,2), of 6 20 10 0 t] by simp
qed

text \<open>The arguments that are accepted: a known policy, possibly with the reset flag, and a priority up to 99 that
  is 0 unless the policy is a real-time one or \<^verbatim>\<open>SCHED_WRR\<close>. Priority 0 is accepted for the real-time policies
  too, although a comment gives their range as 1 to 99; all else is \<^verbatim>\<open>-EINVAL\<close>.\<close>

lemma setscheduler_domain:
  assumes "0 \<le> pol"
  shows "setsched_check K p pol pr False s =
    (let pol1 = pol AND NOT SCHED_RESET_ON_FORK in
     if pol1 \<in> {SCHED_NORMAL, SCHED_FIFO, SCHED_RR, SCHED_BATCH, SCHED_IDLE, SCHED_WRR} \<and> 0 \<le> pr \<and> pr \<le> 99 \<and>
       (pr = 0 \<or> pol1 \<in> {SCHED_FIFO, SCHED_RR, SCHED_WRR})
     then Inr (pol1, pol AND SCHED_RESET_ON_FORK \<noteq> 0, -1) else Inl (- EINVAL))"
  using assms
  by (cases "has_mm (tasks s p)")
    (auto simp: setsched_check_def setsched_policy_def Let_def rt_policy_def wrr_policy_def sched_consts)

lemma setscheduler_domain_witness:
  "setsched_check sample_env 20 SCHED_FIFO 0 False sample_sched = Inr (SCHED_FIFO, False, -1)"
  using setscheduler_domain [of SCHED_FIFO sample_env 20 0 sample_sched] by (simp add: sched_consts)

text \<open>A call that names the policy the task already has, where that is not a real-time policy, succeeds and changes
  nothing: neither a new priority of a weighted round-robin task nor the reset-on-fork flag is stored.\<close>

lemma setscheduler_same_policy_ignored:
  assumes "\<not> in_interrupt K s" and "p \<noteq> stop (rq s)"
    and "setsched_check K p pol pr user s = Inr (policy (tasks s p), rof, old)"
    and "\<not> rt_policy (policy (tasks s p))"
  shows "sched_setscheduler1 K p pol pr user s = Some (0, s)"
  using assms by (simp add: sched_setscheduler1_eq)

lemma setscheduler_same_policy_ignored_witness:
  "sched_setscheduler1 sample_env 10 (SCHED_WRR OR SCHED_RESET_ON_FORK) 50 True sample_sched = Some (0, sample_sched) \<and>
   \<not> sched_reset_on_fork (tasks sample_sched 10) \<and> rt_priority (tasks sample_sched 10) = 0"
proof -
  have c: "policy (tasks sample_sched 10) = SCHED_WRR" "has_mm (tasks sample_sched 10)" "rq sample_sched = sample_rq\<lparr>curr := 31\<rparr>"
    "\<not> sched_reset_on_fork (tasks sample_sched 10)" "rt_priority (tasks sample_sched 10) = 0"
    by (simp_all add: sample_sched_task sample_tasks_def sample_task_def sched_consts)
  have e: "\<not> in_interrupt sample_env sample_sched" "capable_sys_nice sample_env sample_sched"
    "security_task_setscheduler sample_env 10 sample_sched = 0" by (simp_all add: sample_env_def)
  have "setsched_check sample_env 10 (SCHED_WRR OR SCHED_RESET_ON_FORK) 50 True sample_sched =
      Inr (policy (tasks sample_sched 10), True, -1)"
    using c e by (simp add: setsched_check_def setsched_policy_def Let_def sched_consts rt_policy_def wrr_policy_def)
  then show ?thesis
    using setscheduler_same_policy_ignored [OF e(1), of 10] c
    by (simp add: rt_policy_def sched_consts sample_rq_def)
qed

text \<open>Priority inheritance takes a weighted round-robin task out of its class for good: whatever priority
  \<^verbatim>\<open>rt_mutex_setprio\<close> sets, the task leaves the queue of the class while its policy stays \<^verbatim>\<open>SCHED_WRR\<close>; and setting it
  back to its normal priority puts it into the fair class.\<close>

lemma wrr_setprio_loses_class:
  assumes "kenv_ok K" and "params_ok K s" and "is_task s p" and "p \<noteq> idle (rq s)"
    and "class_of s p \<noteq> idle_sched_class" and "policy (tasks s p) = SCHED_WRR" and "0 \<le> pr" and "pr \<le> MAX_PRIO"
  shows "\<exists>t. rt_mutex_setprio K p pr s = Some t \<and> params_ok K t \<and> policy (tasks t p) = SCHED_WRR \<and> p \<notin> set (wq t) \<and>
    class_of t p = (if pr < MAX_RT_PRIO then rt_sched_class else fair_sched_class) \<and>
    (pr = normal_prio (tasks s p) \<longrightarrow> class_of t p = fair_sched_class) \<and> on_rq (tasks t p) = on_rq (tasks s p)"
proof -
  have s: "sched_ok s" "prio_wf (tasks s p)" using assms(2) by (simp_all add: params_ok_def)
  obtain t where t: "rt_mutex_setprio K p pr s = Some t" "sched_ok t" "task_params (tasks t p) = task_params (tasks s p)"
    "on_rq (tasks t p) = on_rq (tasks s p)" "class_of t p = (if rt_prio pr then rt_sched_class else fair_sched_class)"
    using rt_mutex_setprio_ok [OF assms(1) s(1) assms(3,5,7,8)] assms(4) by auto
  have "params_ok K t" using rt_mutex_setprio_params [OF assms(1-3,5,7,8)] t(1) by auto
  moreover have "p \<notin> set (wq t)" using t(2,5) by (auto simp: sched_ok_def sched_but_def split: if_splits)
  moreover have "\<not> rt_prio (normal_prio (tasks s p))"
    using normal_prio_range(3) [OF s(2)] s(2) assms(6) by (simp add: prio_wf_def rt_policy_def sched_consts)
  ultimately show ?thesis using t assms(6) by (auto simp: task_params_def rt_prio_def)
qed

lemma wrr_setprio_loses_class_witness:
  "\<exists>t. rt_mutex_setprio sample_env 10 120 sample_sched = Some t \<and> class_of t 10 = fair_sched_class \<and>
     policy (tasks t 10) = SCHED_WRR"
  using wrr_setprio_loses_class [OF sample_kenv_ok sample_params_ok(1), of False 10 120]
  by (auto simp: sample_is_task sample_sched_task sample_tasks_def sample_task_def sched_consts sample_rq_def)

section \<open>Yielding\<close>

text \<open>C24: \<^verbatim>\<open>sched_yield\<close> of a weighted round-robin task returns, with the task at the tail of the queue and the next one on
  the CPU, if no class above can run a task and not all runnable tasks are fair ones (\<open>wrr_turn\<close>) and the next task has no
  reschedule pending.\<close>

theorem wrr_yield_switches:
  assumes "kenv_ok K" and "sched_ok s" and "wrr_turn K s" and "class_of s (curr (rq s)) = wrr_sched_class"
    and "tstate (tasks s (curr (rq s))) = TASK_RUNNING"
    and "remove1 (curr (rq s)) (wq s) = n # ns" and "\<not> need_resched (tasks s n)"
  shows "\<exists>u. sys_sched_yield K s = Some (0, u) \<and> curr (rq u) = n \<and> wq u = n # ns @ [curr (rq s)] \<and>
    on_rq (tasks u (curr (rq s))) \<and> nr_running (rq u) = nr_running (rq s)"
proof -
  let ?c = "curr (rq s)"
  have but: "wrr_wf s" "?c \<in> set (wq s)" "on_rq (tasks s ?c)"
    using assms(2,4) by (auto simp: sched_ok_def sched_but_def curr_ok_def)
  define s1 where "s1 = s\<lparr>rq := (rq s)\<lparr>yld_count := yld_count (rq s) + 1\<rparr>\<rparr>"
  define s2 where "s2 = requeue_task_wrr K ?c False s1"
  let ?s3 = "schedule_debug s2"
  have wf1: "wrr_wf s1" "?c \<in> set (wq s1)" using but wrr_wf_cong [of s1 s] by (simp_all add: s1_def)
  note l = kenv_okD(2) [OF assms(1)]
  have q2: "wq s2 = n # ns @ [?c]" using wq_requeue_task_wrr [OF l wf1, of False] assms(6) by (simp add: s2_def) (simp add: s1_def)
  have f3: "tasks ?s3 = tasks s" "wq ?s3 = n # ns @ [?c]" "curr (rq ?s3) = ?c" "rt_rqs ?s3 = rt_rqs s"
    "nr_running (rq ?s3) = nr_running (rq s)" "cfs_h_nr_running (rq ?s3) = cfs_h_nr_running (rq s)"
    using q2 by (simp_all add: schedule_debug_def s2_def s1_def)
  have wf3: "wrr_wf ?s3"
    using wrr_wf_requeue [OF l wf1, of False] wrr_wf_cong [of ?s3 s2] by (simp add: s2_def schedule_debug_def)
  have out: "sched_out K ?c ?s3 = Some (False, ?s3)"
    using assms(5) unfolding sched_out_def f3(1) by (simp add: TASK_RUNNING_def)
  have ne: "?c \<noteq> n" using but(1) assms(6) by (metis wrr_wf_def list.set_intros(1) set_remove1_distinct Diff_iff singletonI)
  have turn: "wrr_turn K ?s3" by (rule wrr_turn_cong [OF f3(4-6) assms(3)])
  have cl: "class_of ?s3 ?c = wrr_sched_class" unfolding f3(1) by (rule assms(4))
  obtain s4 where s4: "do { s3 \<leftarrow> put_prev_task K ?c ?s3; (next, s4) \<leftarrow> pick_next_task K s3; Some (switch_to ?c False next s4) } =
      Some (switch_to ?c False n s4)" "wq s4 = wq ?s3" "nr_running (rq s4) = nr_running (rq ?s3)"
    "\<forall>q. on_rq (tasks s4 q) = on_rq (tasks ?s3 q)" "\<forall>q. need_resched (tasks s4 q) = need_resched (tasks ?s3 q)"
    using wrr_switch [OF kenv_okD(3) [OF assms(1)] turn wf3 f3(2) cl f3(3) ne] by blast
  let ?u = "switch_to ?c False n s4"
  have "schedule_pass K s2 = Some ?u"
    using s4(1) out by (simp add: schedule_pass_def) (simp add: s2_def s1_def)
  moreover have "\<not> need_resched (tasks ?u (curr (rq ?u)))"
    using s4(5) assms(7) ne f3(1) by (simp add: switch_to_simps)
  ultimately have "schedule_loop K s2 = Some ?u" by (subst schedule_loop.simps) simp
  then have "sys_sched_yield K s = Some (0, ?u)"
    using assms(4) by (simp add: sys_sched_yield_def s1_def [symmetric] class_yield_task_def yield_task_wrr_def schedule_def)
      (simp add: s1_def s2_def class_yield_task_def yield_task_wrr_def)
  then show ?thesis using ne s4 f3 but(3) by (simp add: switch_to_simps)
qed

theorem wrr_yield_switches_witness:
  "\<exists>u. sys_sched_yield sample_env (sample_sched0 True) = Some (0, u) \<and> curr (rq u) = 11 \<and> wq u = [11, 12, 10]"
  using wrr_yield_switches [OF sample_kenv_ok sample_sched_ok(1) sample_wrr_turn, of 11 "[12]"]
  by (auto simp: sample_sched_task sample_tasks_def sample_task_def sample_rq_def sched_consts)

section \<open>Normalising real-time tasks\<close>

lemma normalize_task_ok:
  assumes K: "kenv_ok K" "pi_env K" and s: "params_ok K s" and p: "is_task s p" "class_of s p \<noteq> idle_sched_class"
  shows "\<exists>t h q. normalize_task K p s = Some t \<and> params_ok K t \<and> rt_links s t \<and>
    (\<forall>x. x \<noteq> p \<longrightarrow> core3 (tasks t x) = core3 (tasks s x)) \<and>
    core3 (tasks t p) = core3 (policied SCHED_NORMAL 0 q (sched_reset_on_fork (tasks s p)) h (tasks s p))"
proof -
  let ?on = "on_rq (tasks s p)" and ?rof = "sched_reset_on_fork (tasks s p)"
  have ok: "sched_ok s" "prio_wf (tasks s p)" using s by (simp_all add: params_ok_def)
  have cur: "curr (rq s) = p \<Longrightarrow> on_rq (tasks s p)" using ok(1) p(2) by (auto simp: sched_ok_def curr_ok_def)
  have z: "(0 :: int) < MAX_USER_RT_PRIO" by (simp add: sched_consts)
  obtain s1 s2 s3 where o: "task_off K p ?on False s = Some s1" "sched_change K SCHED_NORMAL 0 ?rof p s1 = Some s2"
    "task_back_on K p ?on False 0 s2 = Some s3" "sched_ok s3" "rt_links s s3"
    "\<forall>x. core3 (tasks s1 x) = core3 (tasks s x)" "\<forall>x. core3 (tasks s3 x) = core3 (tasks s2 x)"
    "\<forall>x. x \<noteq> p \<longrightarrow> core3 (tasks s3 x) = core3 (tasks s x)"
    using schedc.around [OF K(1) ok(1) _ cur, where pol = SCHED_NORMAL and rtp = 0 and rof = "?rof" and run = False and f = 0]
      K(2) p ok z by blast
  have r1: "sched_reset_on_fork (tasks s1 p) = ?rof" and wf1: "prio_wf (tasks s1 p)"
    using o(6) ok(2) prio_wf_params [of "tasks s1 p" "tasks s p"] by (simp_all add: core3_def task_params_def)
  have "upd_task p (\<lambda>t. t\<lparr>sched_reset_on_fork := ?rof\<rparr>) s1 = s1"
    using r1 by (simp add: upd_task_def fun_upd_idem)
  then have c: "setscheduler1 K p SCHED_NORMAL 0 s1 = Some s2" using o(2) by (simp add: sched_change_def)
  obtain h q where "s2 = upd_task p (policied SCHED_NORMAL 0 q ?rof h) s1"
    using sched_change_eq [OF K(2) wf1 _ z, of SCHED_NORMAL ?rof] o(2) by auto
  moreover have "core3 (policied SCHED_NORMAL 0 q ?rof h (tasks s1 p)) = core3 (policied SCHED_NORMAL 0 q ?rof h (tasks s p))"
    using o(6) by (simp add: policied_def Let_def core3_def task_params_def)
  ultimately have s2: "core3 (tasks s3 p) = core3 (policied SCHED_NORMAL 0 q ?rof h (tasks s p))" using o(7) by simp
  define t where "t = check_class_changed K p (class_of s p) (prio (tasks s p))
      (if ?on then resched_task (curr (rq s3)) s3 else s3)"
  have k: "ext_keep s3 t"
    unfolding t_def using ext_keep_trans [OF ext_keep_upds(4) check_class_changed_keep [OF K(1)]]
      check_class_changed_keep [OF K(1)] by simp
  have eq: "normalize_task K p s = Some t"
    using o(1,3) c by (cases ?on) (simp_all add: normalize_task_def task_off_def task_back_on_def t_def Let_def)
  have t: "sched_ok t" "rt_links s t" "\<forall>x. x \<noteq> p \<longrightarrow> core3 (tasks t x) = core3 (tasks s x)"
    "core3 (tasks t p) = core3 (policied SCHED_NORMAL 0 q ?rof h (tasks s p))"
    using sched_ok_keep [OF k o(4)] rt_links_trans [OF o(5) rt_links_same [OF ext_keep_same [OF k]]] o(8) s2 k
    by (simp_all add: ext_keep_def)
  have "params_ok K t" by (rule params_ok_change [OF s t(1-3) p(2) t(4) policied_wf [OF ok(2) _ z]]) simp
  then show ?thesis using eq t by blast
qed

text \<open>What is left of a task after the magic key.\<close>

definition normalized :: "task_struct \<Rightarrow> task_struct \<Rightarrow> bool" where
  "normalized t u \<longleftrightarrow> (has_mm t \<longrightarrow> (if rt_task t then policy u = SCHED_NORMAL \<and> rt_priority u = 0 else 0 \<le> TASK_NICE u))"

lemma normalized_core3: "core3 t = core3 t' \<Longrightarrow> core3 u = core3 u' \<Longrightarrow> normalized t u = normalized t' u'"
  by (simp add: normalized_def rt_task_def core3_def task_params_def TASK_NICE_def)

lemma normalize_one_ok:
  assumes K: "kenv_ok K" "pi_env K" and s: "params_ok K s" and p: "is_task s p" "class_of s p \<noteq> idle_sched_class"
  shows "\<exists>t. normalize_one K p s = Some t \<and> params_ok K t \<and> rt_links s t \<and> normalized (tasks s p) (tasks t p) \<and>
    (\<forall>x. x \<noteq> p \<longrightarrow> core3 (tasks t x) = core3 (tasks s x)) \<and> class_of t p \<noteq> idle_sched_class"
proof -
  define s1 where "s1 = upd_se p (\<lambda>e. e\<lparr>exec_start := 0, wait_start := 0, sleep_start := 0, block_start := 0\<rparr>) s"
  have k: "ext_keep s s1" unfolding s1_def by (rule ext_keep_upds)
  have l1: "rt_links s s1" by (rule rt_links_same [OF ext_keep_same [OF k]])
  have c1: "core3 (tasks s1 x) = core3 (tasks s x)" for x using k by (simp add: ext_keep_def)
  have p1: "is_task s1 p" "class_of s1 p \<noteq> idle_sched_class"
    using p is_task_links [OF l1] c1 [of p] by (simp_all add: core3_def)
  have ok1: "params_ok K s1"
    using params_ok_change [OF s sched_ok_keep [OF k] l1 _ p(2) c1] s c1 by (simp add: params_ok_def)
  have eq: "has_mm (tasks s1 p) = has_mm (tasks s p)" "rt_task (tasks s1 p) = rt_task (tasks s p)"
    "TASK_NICE (tasks s1 p) = TASK_NICE (tasks s p)"
    using c1 [of p] by (simp_all add: core3_def task_params_def rt_task_def TASK_NICE_def)
  consider (kernel) "\<not> has_mm (tasks s p)" | (fine) "has_mm (tasks s p)" "\<not> rt_task (tasks s p)" "0 \<le> TASK_NICE (tasks s p)"
    | (renice) "has_mm (tasks s p)" "\<not> rt_task (tasks s p)" "TASK_NICE (tasks s p) < 0"
    | (rt) "has_mm (tasks s p)" "rt_task (tasks s p)" by linarith
  then show ?thesis
  proof cases
    case kernel
    then show ?thesis using s p(2) rt_links_same [OF ext_keep_same [OF ext_keep_refl]]
      by (simp add: normalize_one_def normalized_def)
  next
    case fine
    then show ?thesis using ok1 l1 c1 p1 eq
      by (simp add: normalize_one_def s1_def [symmetric] Let_def normalized_def)
  next
    case rt
    then have "normalize_one K p s = normalize_task K p s1"
      using eq by (simp add: normalize_one_def s1_def [symmetric] Let_def)
    moreover obtain t h q where t: "normalize_task K p s1 = Some t" "params_ok K t" "rt_links s1 t"
      "\<forall>x. x \<noteq> p \<longrightarrow> core3 (tasks t x) = core3 (tasks s1 x)"
      "core3 (tasks t p) = core3 (policied SCHED_NORMAL 0 q (sched_reset_on_fork (tasks s1 p)) h (tasks s1 p))"
      using normalize_task_ok [OF K ok1 p1] by blast
    ultimately show ?thesis
      using rt c1 rt_links_trans [OF l1 t(3)]
      by (auto simp: normalized_def core3_def task_params_def policied_def Let_def sched_consts)
  next
    case renice
    then have ne: "normalize_one K p s = set_user_nice K p 0 s1"
      using eq by (simp add: normalize_one_def s1_def [symmetric] Let_def)
    obtain t where t: "set_user_nice K p 0 s1 = Some t" "params_ok K t" using set_user_nice_params [OF K(1) ok1 p1(2)] by blast
    have n: "TASK_NICE (tasks s1 p) \<noteq> 0" using renice eq by simp
    have z: "TASK_NICE u = 0" if "static_prio u = NICE_TO_PRIO 0" for u
      using that by (simp add: TASK_NICE_def PRIO_TO_NICE_def NICE_TO_PRIO_def)
    have "rt_links s1 t \<and> (\<forall>x. x \<noteq> p \<longrightarrow> core3 (tasks t x) = core3 (tasks s1 x)) \<and> static_prio (tasks t p) = NICE_TO_PRIO 0 \<and>
      class_of t p = class_of s1 p"
    proof (cases "task_has_rt_policy (tasks s1 p)")
      case True
      then show ?thesis using t(1) n by (auto simp: set_user_nice_def rt_links_def)
    next
      case False
      have ok: "sched_ok s1" using ok1 by (simp add: params_ok_def)
      show ?thesis using set_user_nice_ok [OF K(1) ok p1(2) n _ _ False] t(1)
        by (auto simp: core3_def task_params_def niced_def)
    qed
    then show ?thesis using ne t z renice c1 rt_links_trans [OF l1] p1(2) by (auto simp: normalized_def)
  qed
qed

text \<open>The magic key for real-time tasks returns and keeps the invariant: every user task that had a real-time
  priority is back to \<^verbatim>\<open>SCHED_NORMAL\<close> and every other user task has a nice value of at least 0.\<close>

lemma normalize_rt_tasks_ok:
  assumes "kenv_ok K" and "pi_env K" and "params_ok K s" and "distinct ps"
    and "\<forall>p \<in> set ps. is_task s p \<and> class_of s p \<noteq> idle_sched_class"
  shows "\<exists>t. normalize_rt_tasks K ps s = Some t \<and> params_ok K t \<and>
    (\<forall>p \<in> set ps. has_mm (tasks s p) \<longrightarrow>
       (if rt_task (tasks s p) then policy (tasks t p) = SCHED_NORMAL \<and> rt_priority (tasks t p) = 0
        else 0 \<le> TASK_NICE (tasks t p)))"
proof -
  have "\<exists>t. normalize_rt_tasks K ps s = Some t \<and> params_ok K t \<and> (\<forall>p \<in> set ps. normalized (tasks s p) (tasks t p)) \<and>
      (\<forall>x. x \<notin> set ps \<longrightarrow> core3 (tasks t x) = core3 (tasks s x))"
    using assms(3-5)
  proof (induction ps arbitrary: s)
    case (Cons p ps)
    then obtain s1 where s1: "normalize_one K p s = Some s1" "params_ok K s1" "rt_links s s1"
      "normalized (tasks s p) (tasks s1 p)" "\<forall>x. x \<noteq> p \<longrightarrow> core3 (tasks s1 x) = core3 (tasks s x)"
      using normalize_one_ok [OF assms(1,2), of s p] by auto
    have "is_task s1 x \<and> class_of s1 x \<noteq> idle_sched_class" if "x \<in> set ps" for x
    proof -
      have "x \<noteq> p" using that Cons.prems(2) by auto
      then show ?thesis using that Cons.prems(3) is_task_links [OF s1(3)] s1(5) by (simp add: core3_def)
    qed
    then obtain t where t: "normalize_rt_tasks K ps s1 = Some t" "params_ok K t" "\<forall>x \<in> set ps. normalized (tasks s1 x) (tasks t x)"
      "\<forall>x. x \<notin> set ps \<longrightarrow> core3 (tasks t x) = core3 (tasks s1 x)"
      using Cons.IH [OF s1(2)] Cons.prems(2) by auto
    have "normalized (tasks s p) (tasks t p)"
      using s1(4) t(4) Cons.prems(2) normalized_core3 [OF refl, of "tasks t p" "tasks s1 p"] by auto
    moreover have "normalized (tasks s x) (tasks t x)" if "x \<in> set ps" for x
    proof -
      have "x \<noteq> p" using that Cons.prems(2) by auto
      then have "normalized (tasks s1 x) (tasks t x) = normalized (tasks s x) (tasks t x)"
        using s1(5) by (intro normalized_core3) simp_all
      then show ?thesis using that t(3) by simp
    qed
    ultimately show ?case using s1 t Cons.prems(2) by auto
  qed simp
  then show ?thesis by (fastforce simp: normalized_def)
qed

lemma normalize_rt_tasks_ok_witness:
  "\<exists>t. normalize_rt_tasks sample_env [10, 31, 32] sample_sched = Some t \<and> policy (tasks t 31) = SCHED_NORMAL"
  using normalize_rt_tasks_ok [OF sample_kenv_ok sample_params_ok(2,1), of "[10, 31, 32]" False]
  by (auto simp: sample_is_task sample_sched_task sample_tasks_def sample_task_def rt_task_def rt_prio_def sched_consts)

end
