(* ===== verification/Bench_Props.thy ===== *)
theory Bench_Props
  imports Bench Params_Calls
begin

text \<open>
  The user programs: what they print they read back, what the benchmarks ask of the kernel it grants, when the copy
  loop returns and what it has copied then.
\<close>

section \<open>Numbers and words\<close>

lemma digit_char: "d < 10 \<Longrightarrow> is_digit (char_of (48 + d)) \<and> (of_char (char_of (48 + d) :: char) :: nat) = 48 + d"
  by (simp add: is_digit_def)

lemma print_nat_ne: "print_nat n \<noteq> []"
  by (subst print_nat.simps) simp

lemma print_nat_digits: "c \<in> set (print_nat n) \<Longrightarrow> is_digit c"
proof (induction n rule: print_nat.induct)
  case (1 n)
  then show ?case using digit_char [of n] digit_char [of "n mod 10"]
    by (cases "n < 10") (auto simp: print_nat.simps [of n])
qed

lemma digits_value_print:
  "digits_value acc (print_nat n @ cs) = digits_value (acc * 10 ^ length (print_nat n) + n) cs"
proof (induction n arbitrary: acc cs rule: print_nat.induct)
  case (1 n)
  show ?case
  proof (cases "n < 10")
    case True
    then show ?thesis using digit_char [of n] by (simp add: print_nat.simps [of n])
  next
    case False
    have m: "n mod 10 < 10" by simp
    have "(acc * 10 ^ length (print_nat (n div 10)) + n div 10) * 10 + n mod 10 = acc * 10 ^ Suc (length (print_nat (n div 10))) + n"
      using div_mult_mod_eq [of n 10] by (simp add: algebra_simps)
    then show ?thesis using False "1.IH" [OF False, of acc] digit_char [OF m]
      by (simp add: print_nat.simps [of n] ac_simps)
  qed
qed

lemma digit_not_sign: "is_digit c \<Longrightarrow> \<not> is_space c \<and> c \<noteq> CHR ''-'' \<and> c \<noteq> CHR ''+'' \<and> c \<noteq> CHR '' ''"
  by (auto simp: is_digit_def is_space_def)

lemma atol_print:
  assumes "n < 2 ^ 31"
  shows "atol (print_nat n) = int n"
proof -
  obtain c cs where p: "print_nat n = c # cs" using print_nat_ne by (cases "print_nat n") auto
  then have "is_digit c" using print_nat_digits [of c n] by simp
  note c = digit_not_sign [OF this]
  have "dropWhile is_space (print_nat n) = c # cs" using c p by simp
  moreover have "digits_value 0 (c # cs) = n" using digits_value_print [of 0 n "[]"] p by simp
  ultimately show ?thesis using c assms by (simp add: atol_def)
qed

lemma tokens_word: "CHR '' '' \<notin> set u \<Longrightarrow> w @ u \<noteq> [] \<Longrightarrow> tokens w (u @ CHR '' '' # v) = (w @ u) # tokens [] v"
  by (induction u arbitrary: w) auto

lemma tokens_last: "CHR '' '' \<notin> set u \<Longrightarrow> w @ u \<noteq> [] \<Longrightarrow> tokens w u = [w @ u]"
  by (induction u arbitrary: w) auto

lemma tokens_print: "tokens [] (print_nat n) = [print_nat n]" "tokens [] (print_nat n @ CHR '' '' # v) = print_nat n # tokens [] v"
proof -
  have "CHR '' '' \<notin> set (print_nat n)" using print_nat_digits digit_not_sign by blast
  then show "tokens [] (print_nat n) = [print_nat n]" "tokens [] (print_nat n @ CHR '' '' # v) = print_nat n # tokens [] v"
    using tokens_last [of "print_nat n" "[]"] tokens_word [of "print_nat n" "[]"] print_nat_ne by simp_all
qed

section \<open>The driver\<close>

text \<open>What the shell's \<^verbatim>\<open>time -p\<close> hands to the program: the words after the first two.\<close>

definition shell_argv :: "string \<Rightarrow> string list" where
  "shell_argv cmd = drop 2 (tokens [] cmd)"

definition policy_name :: "int \<Rightarrow> string" where
  "policy_name pol = (if pol = 1 then ''SCHED_FIFO'' else if pol = 2 then ''SCHED_RR'' else ''SCHED_WRR'')"

lemma clear_ret_id: "clear_ret ret = ret"
  by (simp add: clear_ret_def memset_def)

lemma bench_commands_eq: "bench_commands cmd is ret = (map (cmd (cstring ret)) is, ret)"
  by (induction "is") (simp_all add: clear_ret_id)

lemma convert_name: "pol \<in> {1, 2, 6} \<Longrightarrow> cstring (convert_to_string pol ret) = policy_name pol"
  by (auto simp: convert_to_string_def cstring_def strcpy_def policy_name_def)

lemma policy_name_back: "pol \<in> {1, 2, 6} \<Longrightarrow> policy_of_name (policy_name pol) = Some pol"
  by (auto simp: policy_name_def policy_of_name_def sched_consts)

lemma policy_name_word: "CHR '' '' \<notin> set (policy_name pol)" "policy_name pol \<noteq> []"
  by (auto simp: policy_name_def)

lemmas print_bench_defs = print_cpubound_def print_iobound_def print_mixed_def

lemma policy_token: "tokens [] (policy_name pol @ CHR '' '' # v) = policy_name pol # tokens [] v"
  using tokens_word [of "policy_name pol" "[]"] policy_name_word by simp

lemma shell_argv_simps:
  "shell_argv (''time -p ./test_cpubound 100000 '' @ policy_name pol @ '' '' @ print_nat i) =
     [''./test_cpubound'', ''100000'', policy_name pol, print_nat i]"
  "shell_argv (''time -p ./test_iobound '' @ policy_name pol @ '' /data/misc/src/data_in /data/misc/src/data_out 2000 5000000 '' @ print_nat i) =
     [''./test_iobound'', policy_name pol, ''/data/misc/src/data_in'', ''/data/misc/src/data_out'', ''2000'', ''5000000'', print_nat i]"
  "shell_argv (''time -p ./test_mixed 100000 '' @ policy_name pol @ '' '' @ print_nat i @
       '' 2000 5000000 /data/misc/src/data_in /data/misc/src/_data_out'') =
     [''./test_mixed'', ''100000'', policy_name pol, print_nat i, ''2000'', ''5000000'', ''/data/misc/src/data_in'', ''/data/misc/src/_data_out'']"
  by (simp_all add: shell_argv_def policy_token tokens_print)

lemma atol_consts: "atol ''100000'' = 100000" "atoi ''2000'' = 2000" "atoi ''5000000'' = 5000000"
  by (simp_all add: atoi_def atol_def is_space_def is_digit_def)

lemma counts_range: "i \<in> set counts \<Longrightarrow> 20 \<le> i \<and> i \<le> 100"
  by (auto simp: counts_def)

lemma parse_commands:
  assumes "pol \<in> {1, 2, 6}" and "i \<in> set counts"
  shows "cpu_parseCommandLine it0 pol0 cc0 (shell_argv (''time -p ./test_cpubound 100000 '' @ policy_name pol @ '' '' @ print_nat i)) =
      Inr (100000, pol, int i)"
    and "src_ok ''/data/misc/src/data_in'' \<Longrightarrow> io_parseCommandLine src_ok (shell_argv (''time -p ./test_iobound '' @ policy_name pol @
      '' /data/misc/src/data_in /data/misc/src/data_out 2000 5000000 '' @ print_nat i)) = Inr (pol, int i, 2000, 5000000)"
    and "mixed_parseCommandLine (shell_argv (''time -p ./test_mixed 100000 '' @ policy_name pol @ '' '' @ print_nat i @
      '' 2000 5000000 /data/misc/src/data_in /data/misc/src/_data_out'')) = Inr (100000, pol, int i, 2000, 5000000)"
proof -
  have i: "20 \<le> i" "i \<le> 100" using counts_range [OF assms(2)] by simp_all
  then have "atol (print_nat i) = int i" by (intro atol_print) simp
  note simps = atol_consts policy_name_back [OF assms(1)] this atoi_def [of "print_nat i"] MAX_CHILDREN_def MIN_ITERATIONS_def
  show "cpu_parseCommandLine it0 pol0 cc0 (shell_argv (''time -p ./test_cpubound 100000 '' @ policy_name pol @ '' '' @ print_nat i)) =
      Inr (100000, pol, int i)"
    unfolding shell_argv_simps using i by (simp add: cpu_parseCommandLine_def Let_def simps)
  show "io_parseCommandLine src_ok (shell_argv (''time -p ./test_iobound '' @ policy_name pol @
      '' /data/misc/src/data_in /data/misc/src/data_out 2000 5000000 '' @ print_nat i)) = Inr (pol, int i, 2000, 5000000)"
    if "src_ok ''/data/misc/src/data_in''"
    unfolding shell_argv_simps using i that by (simp add: io_parseCommandLine_def Let_def simps)
  show "mixed_parseCommandLine (shell_argv (''time -p ./test_mixed 100000 '' @ policy_name pol @ '' '' @ print_nat i @
      '' 2000 5000000 /data/misc/src/data_in /data/misc/src/_data_out'')) = Inr (100000, pol, int i, 2000, 5000000)"
    unfolding shell_argv_simps using i by (simp add: mixed_parseCommandLine_def Let_def simps)
qed

text \<open>
  The swapped arguments of \<^verbatim>\<open>memset\<close> are what keeps the driver working: a call that cleared \<^verbatim>\<open>ret\<close> would erase the name
  of the policy before the command is printed.
\<close>

lemma cleared_ret_loses_policy: "cstring (memset ret (char_of (0 :: nat)) (length ret)) = []"
  by (cases ret) (simp_all add: memset_def cstring_def)

section \<open>Command lines and forking\<close>

text \<open>The three values that \<^verbatim>\<open>main\<close> leaves uninitialised are never used, nor are the defaults: any other number of
  arguments is refused first.\<close>

lemma policy_of_name_range: "policy_of_name n = Some pol \<Longrightarrow> pol \<in> {SCHED_FIFO, SCHED_RR, SCHED_WRR}"
  by (auto simp: policy_of_name_def split: if_splits)

lemma cpu_parse_range:
  assumes "cpu_parseCommandLine it0 pol0 cc0 argv = Inr (it, pol, cc)"
  shows "cpu_parseCommandLine a b c argv = Inr (it, pol, cc)" and "1 \<le> it" and "pol \<in> {SCHED_FIFO, SCHED_RR, SCHED_WRR}"
    and "1 \<le> cc \<and> cc \<le> MAX_CHILDREN"
  using assms policy_of_name_range
  by (auto simp: cpu_parseCommandLine_def Let_def split: if_splits)

lemma fork_children_parent:
  "fork_children fork n i children = Parent ps \<Longrightarrow>
   ps = children @ map fork [i..<i + n] \<and> (\<forall>k. i \<le> k \<and> k < i + n \<longrightarrow> 0 < fork k)"
proof (induction fork n i children rule: fork_children.induct)
  case (2 fork n i children)
  then have "0 < fork i" and p: "fork_children fork n (Suc i) (children @ [fork i]) = Parent ps"
    by (auto simp: Let_def split: if_splits)
  with "2.IH" [OF refl] have ih: "ps = (children @ [fork i]) @ map fork [Suc i..<Suc i + n]"
    "\<forall>k. Suc i \<le> k \<and> k < Suc i + n \<longrightarrow> 0 < fork k" by auto
  have "[i..<i + Suc n] = i # [Suc i..<Suc i + n]" by (simp add: upt_rec)
  moreover have "0 < fork k" if "i \<le> k \<and> k < i + Suc n" for k
    using ih(2) \<open>0 < fork i\<close> that by (cases "k = i") auto
  ultimately show ?case using ih(1) by auto
qed simp

lemma fork_children_all:
  "\<forall>k. i \<le> k \<and> k < i + n \<longrightarrow> 0 < fork k \<Longrightarrow> fork_children fork n i children = Parent (children @ map fork [i..<i + n])"
proof (induction n arbitrary: i children)
  case (Suc n)
  have "[i..<i + Suc n] = i # [Suc i..<Suc i + n]" by (simp add: upt_rec)
  then show ?case using Suc.prems Suc.IH [of "Suc i" "children @ [fork i]"] by simp
qed simp

lemma fork_children_child: "fork_children fork n i children = Child k \<Longrightarrow> i \<le> k \<and> k < i + n \<and> fork k = 0"
  by (induction fork n i children rule: fork_children.induct) (fastforce simp: Let_def split: if_splits)+

section \<open>The computation\<close>

lemma pi_loop_range:
  "pi_loop rnd n i a b = (a', b') \<Longrightarrow> a \<le> b \<Longrightarrow> b' = b + n \<and> a' \<le> b'"
  by (induction rnd n i a b rule: pi_loop.induct) (fastforce simp: Let_def split: if_splits)+

lemma calcPi_range: "1 \<le> iter \<Longrightarrow> 0 \<le> calcPi rnd iter \<and> calcPi rnd iter \<le> 4"
proof -
  assume "1 \<le> iter"
  obtain a b where p: "pi_loop rnd (nat iter) 0 0 0 = (a, b)" by fastforce
  then have "b = nat iter" "a \<le> b" using pi_loop_range [OF p] by simp_all
  then show ?thesis using p \<open>1 \<le> iter\<close> by (simp add: calcPi_def divide_le_eq)
qed

section \<open>The copy loop\<close>

text \<open>
  A regular source file with the bytes \<open>src\<close> and a destination on which nothing fails; \<open>view\<close> reads from the state of
  the file system the position in the source and the bytes written so far. A read delivers what is asked for, up
  to the end of the file.
\<close>

definition regular_files :: "'o file_ops \<Rightarrow> byte list \<Rightarrow> ('o \<Rightarrow> nat \<times> byte list) \<Rightarrow> bool" where
  "regular_files F src view \<longleftrightarrow>
     (\<forall>b s. unat b < 2 ^ 31 \<longrightarrow> (\<exists>s'. fo_read F b s = (int (min (unat b) (length src - fst (view s))),
          take (min (unat b) (length src - fst (view s))) (drop (fst (view s)) src), s') \<and>
        view s' = (fst (view s) + min (unat b) (length src - fst (view s)), snd (view s)))) \<and>
     (\<forall>buf s. \<exists>s'. fo_write F buf s = (int (length buf), s') \<and> view s' = (fst (view s), snd (view s) @ buf)) \<and>
     (\<forall>s. \<exists>s'. fo_lseek F s = (0, s') \<and> view s' = (0, snd (view s)))"

text \<open>The bytes written after some rounds: whole copies of the source and the beginning of the next.\<close>

definition copied :: "byte list \<Rightarrow> nat \<Rightarrow> byte list \<Rightarrow> bool" where
  "copied src pos dest \<longleftrightarrow> (\<exists>k. dest = concat (replicate k src) @ take pos src)"

lemma concat_replicate_Suc: "concat (replicate k x) @ x = concat (replicate (Suc k) x)"
  by (induction k) simp_all

lemma copied_more:
  assumes "copied src pos dest" and "n = min b (length src - pos)" and "pos \<le> length src"
  shows "copied src (if n = b then pos + n else 0) (dest @ take n (drop pos src))"
proof -
  obtain k where k: "dest = concat (replicate k src) @ take pos src" using assms(1) by (auto simp: copied_def)
  have t: "take pos src @ take n (drop pos src) = take (pos + n) src" by (simp add: take_add)
  show ?thesis
  proof (cases "n = b")
    case True
    then show ?thesis using k t by (auto simp: copied_def)
  next
    case False
    then have "take pos src @ take n (drop pos src) = src" using assms(2,3) t by simp
    then have "dest @ take n (drop pos src) = concat (replicate (Suc k) src)" 
      using k concat_replicate_Suc [of k src] by simp
    then show ?thesis using False unfolding copied_def by (intro exI [of _ "Suc k"]) simp
  qed
qed

lemma sint_small:
  fixes x :: uint32
  assumes "unat x < 2 ^ 31"
  shows "sint x = int (unat x)"
proof -
  have "int (unat x) < int (2 ^ 31)" using assms unfolding of_nat_less_iff .
  then have "uint x < 2 ^ 31" by simp
  moreover have "- (2 ^ 31) \<le> uint x" by (rule order_trans [of _ 0]) simp_all
  ultimately have "signed_take_bit 31 (uint x) = uint x" by (intro signed_take_bit_int_eq_self)
  then have "sint x = uint x" by (simp add: sint_uint)
  then show ?thesis by simp
qed

lemma regular_read:
  assumes F: "regular_files F src view" and b: "unat b < 2 ^ 31" and n: "n = min (unat b) (length src - fst (view s))"
  obtains s' where "fo_read F b s = (int n, take n (drop (fst (view s)) src), s')"
    and "view s' = (fst (view s) + n, snd (view s))"
  using F [unfolded regular_files_def, THEN conjunct1, rule_format, OF b, of s] unfolding n
  by (elim exE conjE) (rule that [unfolded n], assumption+)

lemma regular_write:
  assumes F: "regular_files F src view"
  obtains s' where "fo_write F buf s = (int (length buf), s')" and "view s' = (fst (view s), snd (view s) @ buf)"
  using F [unfolded regular_files_def, THEN conjunct2, THEN conjunct1, rule_format, of buf s] by (elim exE conjE) (rule that)

lemma regular_lseek:
  assumes F: "regular_files F src view"
  obtains s' where "fo_lseek F s = (0, s')" and "view s' = (0, snd (view s))"
  using F [unfolded regular_files_def, THEN conjunct2, THEN conjunct2, rule_format, of s] by (elim exE conjE) (rule that)

lemma unat_add_count:
  fixes b w :: uint32
  shows "n \<le> unat b \<Longrightarrow> unat w + unat b < 2 ^ 32 \<Longrightarrow> unat (w + word_of_int (int n)) = unat w + n"
  by (simp add: unat_word_ariths unat_of_nat)

lemma copy_round_ok:
  assumes F: "regular_files F src view" and v: "view s = (pos, dest)"
    and b: "unat b < 2 ^ 31" and w: "unat w + unat b < 2 ^ 32" and n: "n = min (unat b) (length src - pos)"
  obtains w' s' where "copy_round F b w s = (Inr w', s')" and "unat w' = unat w + n"
    and "view s' = (if n = unat b then pos + n else 0, dest @ take n (drop pos src))"
proof -
  obtain s1 where r: "fo_read F b s = (int n, take n (drop pos src), s1)" "view s1 = (pos + n, dest)"
    using regular_read [OF F b, of n s] v n by auto
  have len: "length (take n (drop pos src)) = n" using n by simp
  obtain s2 where wr: "fo_write F (take n (drop pos src)) s1 = (int n, s2)" "view s2 = (pos + n, dest @ take n (drop pos src))"
    using regular_write [OF F, of "take n (drop pos src)" s1] r(2) unfolding len by auto
  define s2' where "s2' = (if 0 < n then s2 else s1)"
  have v2: "view s2' = (pos + n, dest @ take n (drop pos src))" using wr(2) r(2) by (simp add: s2'_def)
  obtain s3 where sk: "fo_lseek F s2' = (0, s3)" "view s3 = (0, dest @ take n (drop pos src))"
    using regular_lseek [OF F, of s2'] v2 by auto
  have u: "unat (w + word_of_int (int n)) = unat w + n" by (rule unat_add_count [OF _ w]) (simp add: n)
  define m where "m = unat b"
  have sb: "sint b = int m" unfolding m_def by (rule sint_small [OF b])
  have "copy_round F b w s = (Inr (w + word_of_int (int n)), if n = m then s2' else s3)"
  proof (cases "n = 0")
    case True
    then show ?thesis using r(1) sk(1) sb by (auto simp: copy_round_def s2'_def)
  next
    case False
    then show ?thesis using r(1) wr(1) sk(1) sb by (auto simp: copy_round_def s2'_def Let_def)
  qed
  then show thesis by (rule that) (use u v2 sk(2) m_def in simp_all)
qed

lemma copy_loop_ok:
  assumes F: "regular_files F src view" and b: "0 < unat b" and t: "unat t + unat b < 2 ^ 31" and src: "src \<noteq> []"
  shows "view s = (pos, dest) \<Longrightarrow> pos \<le> length src \<Longrightarrow> copied src pos dest \<Longrightarrow> length dest = unat w \<Longrightarrow> unat w < unat t \<Longrightarrow>
    \<exists>w' s' pos' dest'. copy_loop F b t w s = Some (Inr w', s') \<and> unat t \<le> unat w' \<and> unat w' < unat t + unat b \<and>
      view s' = (pos', dest') \<and> pos' \<le> length src \<and> copied src pos' dest' \<and> length dest' = unat w'"
proof (induction "2 * (unat t - unat w) + (if pos = length src then 1 else 0)" arbitrary: w s pos dest rule: less_induct)
  case less
  define n where "n = min (unat b) (length src - pos)"
  have b31: "unat b < 2 ^ 31" and nb: "n \<le> unat b" using t n_def by simp_all
  obtain w' s' where r: "copy_round F b w s = (Inr w', s')" "unat w' = unat w + n"
      "view s' = (if n = unat b then pos + n else 0, dest @ take n (drop pos src))"
    by (rule copy_round_ok [OF F less.prems(1) b31 _ n_def, of w]) (use less.prems(5) t in simp_all)
  let ?p = "if n = unat b then pos + n else 0" and ?d = "dest @ take n (drop pos src)"
  have p: "?p \<le> length src" using less.prems(2) n_def by (simp split: if_split) linarith
  have c: "copied src ?p ?d" by (rule copied_more [OF less.prems(3) n_def less.prems(2)])
  have l: "length ?d = unat w'" using r(2) less.prems(4) n_def by simp
  have w31: "unat w' < 2 ^ 31" "unat t < 2 ^ 31" using r(2) nb less.prems(5) t by simp_all
  have s: "sint w' < sint t \<longleftrightarrow> unat w' < unat t" unfolding w31 [THEN sint_small] by (rule of_nat_less_iff)
  show ?case
  proof (cases "unat w' < unat t")
    case True
    have "2 * (unat t - unat w') + (if ?p = length src then 1 else 0) < 2 * (unat t - unat w) + (if pos = length src then 1 else 0)"
      using True r(2) b src n_def less.prems(2) by (cases "n = 0") auto
    from less.hyps [OF this r(3) p c l] True s r(1) show ?thesis by (subst copy_loop.simps) (simp add: Let_def)
  next
    case False
    have "copy_loop F b t w s = Some (Inr w', s')" using False s r(1) by (subst copy_loop.simps) simp
    then show ?thesis using False r(2,3) nb less.prems(5) p c l by auto
  qed
qed

lemma copy_loop_never:
  assumes F: "regular_files F src view" and t: "0 < sint t"
  shows "copy_loop F' b t' w s = Some r \<Longrightarrow> \<not> (F' = F \<and> b = 0 \<and> t' = t \<and> w = 0)"
proof (induct rule: copy_loop.raw_induct [rotated, consumes 1, case_names step])
  case (step cl F' b t' w s r)
  show ?case
  proof
    assume e: "F' = F \<and> b = 0 \<and> t' = t \<and> w = 0"
    obtain s1 where "fo_read F 0 s = (0, [], s1)" using regular_read [OF F, of 0 0 s] by auto
    then have "copy_round F 0 0 s = (Inr 0, s1)" by (simp add: copy_round_def)
    then have "cl F 0 t 0 s1 = Some r" using step(2) e t by simp
    then show False using step(1) by blast
  qed
qed

section \<open>Forking in the weighted round-robin class\<close>

lemma sched_fork_wrr:
  assumes K: "kenv_ok K" and c: "c \<noteq> curr (rq s)" "tasks s c = tasks s (curr (rq s))"
    and p: "prio_wf (tasks s (curr (rq s)))" "policy (tasks s (curr (rq s))) = SCHED_WRR"
  obtains t where "sched_fork K c s = Some t" and "policy (tasks t c) = SCHED_WRR" and "class_of t c = fair_sched_class"
    and "has_mm (tasks t c) = has_mm (tasks s c)"
proof -
  let ?p = "tasks s (curr (rq s))"
  have st: "MAX_RT_PRIO \<le> static_prio ?p" "static_prio ?p < MAX_PRIO" "normal_prio_of ?p = static_prio ?p"
    using p by (simp_all add: prio_wf_def normal_prio_def normal_prio1_def task_has_rt_policy_def rt_policy_def sched_consts)
  define s3 where "s3 = upd_task c (\<lambda>t. t\<lparr>prio := static_prio ?p\<rparr>) (upd_task c (\<lambda>t. t\<lparr>tstate := TASK_RUNNING\<rparr>) (sched_fork1 c s))"
  have s3: "prio (tasks s3 c) = static_prio ?p" "static_prio (tasks s3 c) = static_prio ?p" "policy (tasks s3 c) = SCHED_WRR"
    "sched_reset_on_fork (tasks s3 c) = sched_reset_on_fork ?p" "has_mm (tasks s3 c) = has_mm (tasks s c)"
    using c p(2) by (simp_all add: s3_def sched_fork1_def)
  have nrt: "\<not> task_has_rt_policy (tasks s3 c)" using s3(3) by (simp add: task_has_rt_policy_def rt_policy_def sched_consts)
  have start: "upd_task c (\<lambda>t. t\<lparr>prio := normal_prio_of (tasks (upd_task c (\<lambda>t. t\<lparr>tstate := TASK_RUNNING\<rparr>) (sched_fork1 c s))
      (curr (rq (upd_task c (\<lambda>t. t\<lparr>tstate := TASK_RUNNING\<rparr>) (sched_fork1 c s)))))\<rparr>)
      (upd_task c (\<lambda>t. t\<lparr>tstate := TASK_RUNNING\<rparr>) (sched_fork1 c s)) = s3"
    using c(1) st(3) by (simp add: s3_def sched_fork1_def)
  have "\<exists>u. sched_fork K c s = class_task_fork K (class_of u c) c u \<and>
      policy (tasks u c) = SCHED_WRR \<and> class_of u c = fair_sched_class \<and> has_mm (tasks u c) = has_mm (tasks s c)"
  proof (cases "sched_reset_on_fork ?p")
    case False
    let ?u = "upd_task c (\<lambda>t. t\<lparr>sched_class := fair_sched_class\<rparr>) s3"
    have "sched_fork K c s = class_task_fork K (class_of ?u c) c ?u"
      unfolding sched_fork_def Let_def start using False s3 st(1) by (simp add: rt_prio_def)
    then show ?thesis using s3 by (intro exI [of _ ?u]) simp
  next
    case True
    let ?f = "\<lambda>t. if task_has_rt_policy t then t\<lparr>policy := SCHED_NORMAL, static_prio := NICE_TO_PRIO 0, rt_priority := 0\<rparr>
        else if PRIO_TO_NICE (static_prio t) < 0 then t\<lparr>static_prio := NICE_TO_PRIO 0\<rparr> else t"
    define s32 where "s32 = upd_task c (\<lambda>t. t\<lparr>normal_prio_of := normal_prio1 t, prio := normal_prio1 t\<rparr>) (upd_task c ?f s3)"
    have s32: "MAX_RT_PRIO \<le> static_prio (tasks s32 c)" "static_prio (tasks s32 c) < MAX_PRIO" "prio (tasks s32 c) = static_prio (tasks s32 c)"
      "policy (tasks s32 c) = SCHED_WRR" "has_mm (tasks s32 c) = has_mm (tasks s c)"
      using s3 st nrt by (simp_all add: s32_def normal_prio1_def NICE_TO_PRIO_def sched_consts)
    obtain h where h: "set_load_weight c s32 = Some (upd_se c h s32)" using set_load_weight_ok [OF s32(1,2)] by blast
    let ?u = "upd_task c (\<lambda>t. t\<lparr>sched_class := fair_sched_class\<rparr>) (upd_task c (\<lambda>t. t\<lparr>sched_reset_on_fork := False\<rparr>) (upd_se c h s32))"
    have "sched_fork K c s = class_task_fork K (class_of ?u c) c ?u"
      unfolding sched_fork_def Let_def start using True s3(4) s32 by (simp add: h rt_prio_def flip: s32_def)
    then show ?thesis using s32 by (intro exI [of _ ?u]) simp
  qed
  then obtain u where u: "sched_fork K c s = class_task_fork K (class_of u c) c u"
    "policy (tasks u c) = SCHED_WRR" "class_of u c = fair_sched_class" "has_mm (tasks u c) = has_mm (tasks s c)" by blast
  let ?v = "ec_task_fork (ext_class_of K fair_sched_class) c u"
  have "core3 (tasks ?v c) = core3 (tasks u c)"
    using ext_okD(9) [OF kenv_okD(3) [OF K], of fair_sched_class u c] by (simp add: ext_keep_def)
  then have "policy (tasks ?v c) = SCHED_WRR" "class_of ?v c = fair_sched_class" "has_mm (tasks ?v c) = has_mm (tasks s c)"
    using u(2-4) by (simp_all add: core3_def task_params_def)
  moreover have "sched_fork K c s = Some ?v" unfolding u(1,3) by (simp add: class_task_fork_def)
  ultimately show thesis by (intro that [of ?v])
qed

section \<open>Properties\<close>

text \<open>C31: The driver and the benchmarks agree: the words of every command line the driver runs are what the benchmark it
  names reads back as the intended policy, process count and sizes, whatever the buffer holds before.\<close>

theorem driver_benchmarks_roundtrip:
  assumes "pol \<in> {SCHED_FIFO, SCHED_RR, SCHED_WRR}" and "src_ok ''/data/misc/src/data_in''"
  shows "map (\<lambda>c. cpu_parseCommandLine it0 pol0 cc0 (shell_argv c)) (fst (print_cpubound pol ret)) =
      map (\<lambda>i. Inr (100000, pol, int i)) counts \<and>
    map (\<lambda>c. io_parseCommandLine src_ok (shell_argv c)) (fst (print_iobound pol ret)) =
      map (\<lambda>i. Inr (pol, int i, 2000, 5000000)) counts \<and>
    map (\<lambda>c. mixed_parseCommandLine (shell_argv c)) (fst (print_mixed pol ret)) =
      map (\<lambda>i. Inr (100000, pol, int i, 2000, 5000000)) counts"
proof -
  have p: "pol \<in> {1, 2, 6}" using assms(1) by (simp add: sched_consts)
  show ?thesis
    unfolding print_bench_defs bench_commands_eq convert_name [OF p] fst_conv list.map_comp
    unfolding comp_def
    by (intro conjI list.map_cong refl; rule parse_commands(1) parse_commands(2) parse_commands(3); (rule p assms(2) | assumption))
qed

theorem driver_benchmarks_roundtrip_witness:
  "map (\<lambda>c. mixed_parseCommandLine (shell_argv c)) (fst (print_mixed SCHED_WRR [])) =
     map (\<lambda>i. Inr (100000, SCHED_WRR, int i, 2000, 5000000)) counts"
  using driver_benchmarks_roundtrip [of SCHED_WRR "\<lambda>_. True" 0 0 0 "[]"] by blast

text \<open>C32: On a regular, not empty source file, for block and transfer sizes whose sum is below \<open>2 ^ 31\<close> so that the signed total of
  written bytes does not overflow, and something to copy, the copy loop of the I/O benchmarks returns exactly when the block size is
  not 0: then it has written at least the transfer size and less than a block more, and the destination holds whole copies
  of the source and the beginning of another. With block size 0, which the command line accepts, it never returns. The command
  line also accepts larger sizes, of which nothing is said.\<close>

theorem copy_loop_returns_iff:
  assumes "regular_files F src view" and "src \<noteq> []" and "view s = (0, [])"
    and "unat t + unat b < 2 ^ 31" and "0 < unat t"
  shows "(copy_loop F b t 0 s \<noteq> None \<longleftrightarrow> 0 < unat b) \<and>
    (\<forall>r s'. copy_loop F b t 0 s = Some (r, s') \<longrightarrow> (\<exists>w pos dest. r = Inr w \<and> unat t \<le> unat w \<and> unat w < unat t + unat b \<and>
       view s' = (pos, dest) \<and> copied src pos dest \<and> length dest = unat w))"
proof (cases "0 < unat b")
  case True
  have "copied src 0 []" by (auto simp: copied_def intro: exI [of _ 0])
  from copy_loop_ok [OF assms(1) True assms(4,2,3) _ this, of 0] True assms(5) show ?thesis by fastforce
next
  case False
  then have b: "b = 0" by (simp add: unat_eq_0)
  have "unat t < 2 ^ 31" using assms(4) by simp
  from sint_small [OF this] have t: "0 < sint t" using assms(5) by linarith
  have "copy_loop F 0 t 0 s = None" using copy_loop_never [OF assms(1) t, of F 0 t 0 s] by (cases "copy_loop F 0 t 0 s") auto
  then show ?thesis using b by simp
qed

text \<open>A file system with one source file of three bytes and one destination.\<close>

definition sample_src :: "byte list" where
  "sample_src = [1, 2, 3]"

definition sample_files :: "(nat \<times> byte list) file_ops" where
  "sample_files = \<lparr>
     fo_open_src = (\<lambda>s. (3, s)), fo_open_dest = (\<lambda>s. (4, s)), fo_malloc = (\<lambda>b. True),
     fo_read = (\<lambda>b (pos, d). (let n = min (unat b) (length sample_src - pos)
        in (int n, take n (drop pos sample_src), (pos + n, d)))),
     fo_write = (\<lambda>buf (pos, d). (int (length buf), (pos, d @ buf))), fo_lseek = (\<lambda>(pos, d). (0, (0, d))),
     fo_close_src = (\<lambda>s. (0, s)), fo_close_dest = (\<lambda>s. (0, s))\<rparr>"

theorem copy_loop_returns_iff_witness:
  "copy_loop sample_files 0 5 0 (0, []) = None \<and>
   copy_loop sample_files 2 5 0 (0, []) = Some (Inr 5, (2, [1, 2, 3, 1, 2]))"
proof -
  have F: "regular_files sample_files sample_src id"
    by (auto simp: regular_files_def sample_files_def Let_def split: prod.split)
  have "copy_loop sample_files 0 5 0 (0, []) = None"
    using copy_loop_returns_iff [OF F, of "(0, [])" 5 0] by (simp add: sample_src_def del: not_None_eq)
  moreover have "copy_loop sample_files 2 5 0 (0, []) = Some (Inr 5, (2, [1, 2, 3, 1, 2]))"
    by (simp add: copy_loop.simps copy_round_def sample_files_def sample_src_def)
  ultimately show ?thesis by blast
qed

lemma set_own_policy_accepted:
  assumes "kenv_ok K" and "pi_env K" and "params_ok K s" and "is_task s (curr (rq s))"
    and "class_of s (curr (rq s)) \<noteq> idle_sched_class" and "curr (rq s) \<noteq> stop (rq s)" and "\<not> in_interrupt K s"
    and "capable_sys_nice K s" and "security_task_setscheduler K (curr (rq s)) s = 0"
    and "policy_of_name n = Some pol"
    and "bw_rt_runtime (tg_rt_bandwidth (tgs s (sched_task_group (tasks s (curr (rq s)))))) \<noteq> 0"
  shows "\<exists>t. set_own_policy K pol s = Some (Inr (), t) \<and> params_ok K t \<and> policy (tasks t (curr (rq s))) = pol \<and>
    (policy (tasks s (curr (rq s))) \<noteq> pol \<longrightarrow> uint (rt_priority (tasks t (curr (rq s)))) = 99 \<and>
       (class_of t (curr (rq s)) = wrr_sched_class \<longleftrightarrow> n = ''SCHED_WRR''))"
proof -
  let ?p = "curr (rq s)" and ?t = "tasks s (curr (rq s))"
  have pol: "pol \<in> {1, 2, 6}" using policy_of_name_range [OF assms(10)] by (simp add: sched_consts)
  then have bits: "pol AND NOT SCHED_RESET_ON_FORK = pol" "pol AND SCHED_RESET_ON_FORK = 0" "0 \<le> pol"
    by (auto simp: sched_consts)
  have max: "sys_sched_get_priority_max pol = 99" using pol by (auto simp: sys_sched_get_priority_max_def sched_consts)
  have ck: "setsched_check K ?p pol 99 True s = Inr (pol, False, -1)"
    using pol bits assms(8,9) by (auto simp: setsched_check_def setsched_policy_def Let_def rt_policy_def wrr_policy_def sched_consts)
  have call: "set_own_policy K pol s = map_option (\<lambda>(r, t). (if r \<noteq> 0 then Inl ''Error setting scheduler policy'' else Inr (), t))
      (sched_setscheduler1 K ?p pol 99 True s)"
    using bits(3) by (simp add: set_own_policy_def sys_sched_setscheduler_def do_sched_setscheduler_def max find_process_by_pid_def
        sched_setscheduler_def map_conv_bind_option comp_def split: bind_split prod.split)
  show ?thesis
  proof (cases "pol = policy ?t \<and> (\<not> rt_policy pol \<or> 99 = uint (rt_priority ?t))")
    case True
    then have "sched_setscheduler1 K ?p pol 99 True s = Some (0, s)" using assms(6,7) ck by (simp add: sched_setscheduler1_eq)
    then show ?thesis using call True assms(3) by auto
  next
    case False
    obtain t where t: "setsched_change K ?p pol 99 False s = Some t" "params_ok K t"
      using setsched_change_params [OF assms(1-5), of 99 pol False] by (auto simp: sched_consts)
    have ok: "sched_setscheduler1 K ?p pol 99 True s = Some (0, t)"
      using assms(6,7,11) ck t(1) False by (auto simp: sched_setscheduler1_eq)
    have "sched_ok s" "prio_wf ?t" using assms(3) by (simp_all add: params_ok_def)
    from setsched_change_ok [OF assms(1,2) this(1) assms(4) this(2) assms(5), of 99 pol False] t(1)
    obtain h q where "core3 (tasks t ?p) = core3 (policied pol 99 q False h ?t)" by (auto simp: sched_consts)
    note c = core3_policied [OF this]
    have "policy (tasks t ?p) = pol" "uint (rt_priority (tasks t ?p)) = 99" "class_of t ?p = wrr_sched_class \<longleftrightarrow> pol = SCHED_WRR"
      using c(1,2,5) by (simp_all add: sched_consts)
    moreover have "pol = SCHED_WRR \<longleftrightarrow> n = ''SCHED_WRR''"
      using assms(10) by (auto simp: policy_of_name_def sched_consts split: if_splits)
    ultimately show ?thesis using call ok t(2) by simp
  qed
qed

text \<open>C33: What the benchmarks ask of the kernel it grants: for a privileged caller whose group has real-time run time a
  policy accepted on a command line is set with the maximal priority the kernel reports for it, and reported by
  the kernel from then on; then, where no \<^verbatim>\<open>fork\<close> fails, the parent has one pid for each child to wait for.\<close>

theorem benchmark_policy_accepted:
  assumes "kenv_ok K" and "pi_env K" and "params_ok K s" and "is_task s (curr (rq s))"
    and "class_of s (curr (rq s)) \<noteq> idle_sched_class" and "curr (rq s) \<noteq> stop (rq s)" and "\<not> in_interrupt K s"
    and "capable_sys_nice K s" and "security_task_setscheduler K (curr (rq s)) s = 0"
    and "policy_of_name n = Some pol"
    and "bw_rt_runtime (tg_rt_bandwidth (tgs s (sched_task_group (tasks s (curr (rq s)))))) \<noteq> 0"
    and "\<forall>i < nat child_count. 0 < fork i"
  shows "\<exists>t. start_children K pol child_count fork s = Some (Inr (Parent (map fork [0..<nat child_count])), t) \<and>
    params_ok K t \<and> policy (tasks t (curr (rq s))) = pol \<and>
    (policy (tasks s (curr (rq s))) \<noteq> pol \<longrightarrow> uint (rt_priority (tasks t (curr (rq s)))) = 99 \<and>
       (class_of t (curr (rq s)) = wrr_sched_class \<longleftrightarrow> n = ''SCHED_WRR''))"
proof -
  have "fork_children fork (nat child_count) 0 [] = Parent (map fork [0..<nat child_count])"
    using fork_children_all [of 0 "nat child_count" fork "[]"] assms(12) by simp
  then show ?thesis using set_own_policy_accepted [OF assms(1-11)] by (auto simp: start_children_def)
qed

theorem benchmark_policy_accepted_witness:
  "\<exists>t. start_children sample_env SCHED_WRR 2 (\<lambda>i. 500 + int i) sample_sched = Some (Inr (Parent [500, 501]), t) \<and> policy (tasks t 31) = SCHED_WRR \<and>
     class_of t 31 = wrr_sched_class"
proof -
  have c: "curr (rq sample_sched) = 31" "stop (rq sample_sched) = 2" "class_of sample_sched 31 = rt_sched_class"
    "policy (tasks sample_sched 31) \<noteq> SCHED_WRR" "tgs sample_sched = tgs sample_rt"
    by (simp_all add: sample_sched_task sample_task_def sample_rq_def sched_consts) (simp add: sample_sched0_def)
  have e: "\<not> in_interrupt sample_env sample_sched" "capable_sys_nice sample_env sample_sched"
    "security_task_setscheduler sample_env 31 sample_sched = 0" by (simp_all add: sample_env_def)
  show ?thesis
    using benchmark_policy_accepted [OF sample_kenv_ok sample_params_ok(2,1), of False "''SCHED_WRR''" SCHED_WRR 2 "\<lambda>i. 500 + int i"] c(4) e
    by (simp add: c(1-3,5) sample_is_task policy_of_name_def) (auto simp: sample_rt0_def upt_rec)
qed

text \<open>C17: The children of a weighted round-robin task do not run in its class: the child, a copy of its parent, leaves \<^verbatim>\<open>sched_fork\<close> in the
  fair class while its policy says \<^verbatim>\<open>SCHED_WRR\<close>, and asking for \<^verbatim>\<open>SCHED_WRR\<close> again succeeds without changing anything. So
  what the benchmarks measure in their children under \<^verbatim>\<open>SCHED_WRR\<close> is the fair class.\<close>

theorem wrr_children_are_fair:
  assumes "kenv_ok K" and "child \<noteq> curr (rq s)" and "tasks s child = tasks s (curr (rq s))"
    and "prio_wf (tasks s (curr (rq s)))" and "policy (tasks s (curr (rq s))) = SCHED_WRR"
  shows "\<exists>t. sched_fork K child s = Some t \<and> class_of t child = fair_sched_class \<and> policy (tasks t child) = SCHED_WRR \<and>
    (\<forall>u pr. tasks u child = tasks t child \<and> \<not> in_interrupt K u \<and> child \<noteq> stop (rq u) \<and> 0 \<le> pr \<and> pr < MAX_USER_RT_PRIO \<longrightarrow>
       sched_setscheduler1 K child SCHED_WRR pr False u = Some (0, u))"
proof -
  obtain t where t: "sched_fork K child s = Some t" "policy (tasks t child) = SCHED_WRR" "class_of t child = fair_sched_class"
    by (rule sched_fork_wrr [OF assms])
  have "sched_setscheduler1 K child SCHED_WRR pr False u = Some (0, u)"
    if u: "tasks u child = tasks t child" "\<not> in_interrupt K u" "child \<noteq> stop (rq u)" "0 \<le> pr" "pr < MAX_USER_RT_PRIO" for u pr
  proof -
    have "setsched_check K child SCHED_WRR pr False u = Inr (policy (tasks u child), False, -1)"
      using u t(2) by (cases "has_mm (tasks u child)")
        (auto simp: setsched_check_def setsched_policy_def Let_def rt_policy_def wrr_policy_def sched_consts)
    then show ?thesis using u t(2) by (simp add: sched_setscheduler1_eq rt_policy_def sched_consts)
  qed
  then show ?thesis using t by blast
qed

theorem wrr_children_are_fair_witness:
  "\<exists>t. sched_fork sample_env 11 (sample_sched0 True) = Some t \<and> class_of t 11 = fair_sched_class \<and> policy (tasks t 11) = SCHED_WRR"
  using wrr_children_are_fair [OF sample_kenv_ok, of 11 "sample_sched0 True"]
  by (auto simp: sample_sched_task sample_rq_def sample_tasks_def sample_task_def sched_consts prio_wf_def normal_prio_def
      normal_prio1_def task_has_rt_policy_def rt_policy_def)

end
