(* ===== verification/Waiting.thy ===== *)
theory Waiting
  imports Core_Props
begin

text \<open>
  Wait queues and completions, \<^verbatim>\<open>core.c\<close> from \<^verbatim>\<open>default_wake_function\<close> to \<^verbatim>\<open>sleep_on_timeout\<close>, and preemption. A queue is
  the list of its entries; the locks are the atomic steps. A wait gives up the CPU in \<^verbatim>\<open>schedule_timeout\<close>
  (\<^verbatim>\<open>kernel/timer.c\<close>), where everything else may run: the code before, between and after these calls is a definition each.
\<close>

section \<open>Queues\<close>

definition TASK_KILLABLE :: int where [sched_consts]: "TASK_KILLABLE = TASK_WAKEKILL OR TASK_UNINTERRUPTIBLE"
definition MAX_SCHEDULE_TIMEOUT :: int where [sched_consts]: "MAX_SCHEDULE_TIMEOUT = 2 ^ 31 - 1"
definition ERESTARTSYS :: int where [sched_consts]: "ERESTARTSYS = 512"

text \<open>
  An entry is exclusive or not, belongs to a task (\<^verbatim>\<open>private\<close>) and has a wake function: the default one or one of the
  functions outside the repository, by number.
\<close>

datatype wake_fn = Default_wake | Other_wake nat

record wait_entry =
  we_exclusive :: bool
  we_private :: ptr
  we_func :: wake_fn

record completion =
  cdone :: uint32
  cwait :: "wait_entry list"

text \<open>
  What the code uses of \<^verbatim>\<open>linux/wait.h\<close>: \<^verbatim>\<open>DECLARE_WAITQUEUE\<close> and \<^verbatim>\<open>init_waitqueue_entry\<close>, adding and removing entries, and
  the other wake functions. A wake function is assumed to take at most its own entry off the queue, so the
  loop with its saved next entry runs over the entries the queue has when it starts.
\<close>

record wait_ops =
  wo_entry :: "ptr \<Rightarrow> wait_entry"
  wo_add :: "wait_entry \<Rightarrow> wait_entry list \<Rightarrow> wait_entry list"
  wo_add_tail_exclusive :: "wait_entry \<Rightarrow> wait_entry list \<Rightarrow> wait_entry list"
  wo_remove :: "ptr \<Rightarrow> wait_entry list \<Rightarrow> wait_entry list"
  wo_func :: "nat \<Rightarrow> wait_entry \<Rightarrow> int \<Rightarrow> int \<Rightarrow> ptr \<Rightarrow> kstate \<Rightarrow> (bool \<times> kstate) option"

section \<open>Waking\<close>

definition default_wake_function :: "kenv \<Rightarrow> wait_entry \<Rightarrow> int \<Rightarrow> int \<Rightarrow> ptr \<Rightarrow> kstate \<Rightarrow> (bool \<times> kstate) option" where
  "default_wake_function K e mode wake_flags key s = try_to_wake_up K (we_private e) mode wake_flags s"

definition call_wake_fn :: "kenv \<Rightarrow> wait_ops \<Rightarrow> wait_entry \<Rightarrow> int \<Rightarrow> int \<Rightarrow> ptr \<Rightarrow> kstate \<Rightarrow> (bool \<times> kstate) option" where
  "call_wake_fn K W e mode wake_flags key s =
     (case we_func e of
        Default_wake \<Rightarrow> default_wake_function K e mode wake_flags key s
      | Other_wake n \<Rightarrow> wo_func W n e mode wake_flags key s)"

text \<open>\<^verbatim>\<open>__wake_up_common\<close>; the count \<open>nr\<close> is 0 for no limit: decremented below 0 it does not come back to 0.\<close>

fun wake_up_common :: "kenv \<Rightarrow> wait_ops \<Rightarrow> wait_entry list \<Rightarrow> int \<Rightarrow> int \<Rightarrow> int \<Rightarrow> ptr \<Rightarrow> kstate \<Rightarrow> kstate option" where
  "wake_up_common K W [] mode nr wake_flags key s = Some s"
| "wake_up_common K W (e # es) mode nr wake_flags key s =
     do { (woken, s1) \<leftarrow> call_wake_fn K W e mode wake_flags key s;
          if woken \<and> we_exclusive e then
            (if nr - 1 = 0 then Some s1 else wake_up_common K W es mode (nr - 1) wake_flags key s1)
          else wake_up_common K W es mode nr wake_flags key s1 }"

definition wake_up :: "kenv \<Rightarrow> wait_ops \<Rightarrow> wait_entry list \<Rightarrow> int \<Rightarrow> int \<Rightarrow> ptr \<Rightarrow> kstate \<Rightarrow> kstate option" where
  "wake_up K W q mode nr_exclusive key s = wake_up_common K W q mode nr_exclusive 0 key s"

definition wake_up_locked :: "kenv \<Rightarrow> wait_ops \<Rightarrow> wait_entry list \<Rightarrow> int \<Rightarrow> int \<Rightarrow> kstate \<Rightarrow> kstate option" where
  "wake_up_locked K W q mode nr s = wake_up_common K W q mode nr 0 0 s"

definition wake_up_locked_key :: "kenv \<Rightarrow> wait_ops \<Rightarrow> wait_entry list \<Rightarrow> int \<Rightarrow> ptr \<Rightarrow> kstate \<Rightarrow> kstate option" where
  "wake_up_locked_key K W q mode key s = wake_up_common K W q mode 1 0 key s"

definition wake_up_sync_key :: "kenv \<Rightarrow> wait_ops \<Rightarrow> wait_entry list option \<Rightarrow> int \<Rightarrow> int \<Rightarrow> ptr \<Rightarrow> kstate \<Rightarrow> kstate option" where
  "wake_up_sync_key K W q mode nr_exclusive key s =
     (case q of
        None \<Rightarrow> Some s
      | Some es \<Rightarrow> wake_up_common K W es mode nr_exclusive (if nr_exclusive = 0 then 0 else WF_SYNC) key s)"

definition wake_up_sync :: "kenv \<Rightarrow> wait_ops \<Rightarrow> wait_entry list option \<Rightarrow> int \<Rightarrow> int \<Rightarrow> kstate \<Rightarrow> kstate option" where
  "wake_up_sync K W q mode nr_exclusive s = wake_up_sync_key K W q mode nr_exclusive 0 s"

section \<open>Completions\<close>

definition complete :: "kenv \<Rightarrow> wait_ops \<Rightarrow> completion \<Rightarrow> kstate \<Rightarrow> (completion \<times> kstate) option" where
  "complete K W x s =
     do { let x1 = x\<lparr>cdone := cdone x + 1\<rparr>;
          s1 \<leftarrow> wake_up_common K W (cwait x1) TASK_NORMAL 1 0 0 s;
          Some (x1, s1) }"

definition complete_all :: "kenv \<Rightarrow> wait_ops \<Rightarrow> completion \<Rightarrow> kstate \<Rightarrow> (completion \<times> kstate) option" where
  "complete_all K W x s =
     do { let x1 = x\<lparr>cdone := cdone x + 0xFFFFFFFF div 2\<rparr>;
          s1 \<leftarrow> wake_up_common K W (cwait x1) TASK_NORMAL 0 0 0 s;
          Some (x1, s1) }"

text \<open>
  \<^verbatim>\<open>do_wait_for_common\<close> of the task \<open>p\<close> in pieces: a call returns, or is in \<^verbatim>\<open>schedule_timeout\<close> with the lock released. \<open>wait_take\<close> is
  what the last two lines do, \<open>wait_finish\<close> all after the loop, \<open>wait_iter\<close> one round up to the call.
\<close>

datatype wait_result = Returned int | Blocked int

definition wait_take :: "int \<Rightarrow> completion \<Rightarrow> wait_result \<times> completion" where
  "wait_take timeout x = (Returned (if timeout \<noteq> 0 then timeout else 1), x\<lparr>cdone := cdone x - 1\<rparr>)"

definition wait_finish :: "wait_ops \<Rightarrow> ptr \<Rightarrow> int \<Rightarrow> completion \<Rightarrow> wait_result \<times> completion" where
  "wait_finish W p timeout x =
     (let x1 = x\<lparr>cwait := wo_remove W p (cwait x)\<rparr>
      in if cdone x1 = 0 then (Returned timeout, x1) else wait_take timeout x1)"

definition wait_iter :: "kenv \<Rightarrow> wait_ops \<Rightarrow> ptr \<Rightarrow> int \<Rightarrow> int \<Rightarrow> completion \<Rightarrow> kstate \<Rightarrow>
    wait_result \<times> completion \<times> kstate" where
  "wait_iter K W p state timeout x s =
     (if signal_pending_state K state p s then
        (let (r, x1) = wait_finish W p (- ERESTARTSYS) x in (r, x1, s))
      else (Blocked timeout, x, upd_task p (\<lambda>t. t\<lparr>tstate := state\<rparr>) s))"

definition wait_begin :: "kenv \<Rightarrow> wait_ops \<Rightarrow> ptr \<Rightarrow> int \<Rightarrow> int \<Rightarrow> completion \<Rightarrow> kstate \<Rightarrow>
    wait_result \<times> completion \<times> kstate" where
  "wait_begin K W p state timeout x s =
     (if cdone x = 0
      then wait_iter K W p state timeout (x\<lparr>cwait := wo_add_tail_exclusive W (wo_entry W p) (cwait x)\<rparr>) s
      else (let (r, x1) = wait_take timeout x in (r, x1, s)))"

definition wait_resume :: "kenv \<Rightarrow> wait_ops \<Rightarrow> ptr \<Rightarrow> int \<Rightarrow> int \<Rightarrow> completion \<Rightarrow> kstate \<Rightarrow>
    wait_result \<times> completion \<times> kstate" where
  "wait_resume K W p state timeout x s =
     (if cdone x = 0 \<and> timeout \<noteq> 0 then wait_iter K W p state timeout x s
      else (let (r, x1) = wait_finish W p timeout x in (r, x1, s)))"

text \<open>The whole function, for a \<^verbatim>\<open>schedule_timeout\<close> that returns the time left and the world as the others have left it.\<close>

type_synonym 'x sleeper = "int \<Rightarrow> 'x \<Rightarrow> kstate \<Rightarrow> (int \<times> 'x \<times> kstate) option"

partial_function (option) wait_loop :: "kenv \<Rightarrow> wait_ops \<Rightarrow> completion sleeper \<Rightarrow> ptr \<Rightarrow> int \<Rightarrow>
    wait_result \<times> completion \<times> kstate \<Rightarrow> (int \<times> completion \<times> kstate) option" where
  "wait_loop K W schedule_timeout p state r =
     (case fst r of
        Returned t \<Rightarrow> Some (t, snd r)
      | Blocked t \<Rightarrow> Option.bind (schedule_timeout t (fst (snd r)) (snd (snd r)))
          (\<lambda>q. wait_loop K W schedule_timeout p state (wait_resume K W p state (fst q) (fst (snd q)) (snd (snd q)))))"

definition do_wait_for_common :: "kenv \<Rightarrow> wait_ops \<Rightarrow> completion sleeper \<Rightarrow> completion \<Rightarrow> int \<Rightarrow> int \<Rightarrow> kstate \<Rightarrow>
    (int \<times> completion \<times> kstate) option" where
  "do_wait_for_common K W schedule_timeout x timeout state s =
     (let p = curr (rq s) in wait_loop K W schedule_timeout p state (wait_begin K W p state timeout x s))"

definition wait_for_common :: "kenv \<Rightarrow> wait_ops \<Rightarrow> completion sleeper \<Rightarrow> completion \<Rightarrow> int \<Rightarrow> int \<Rightarrow> kstate \<Rightarrow>
    (int \<times> completion \<times> kstate) option" where
  "wait_for_common K W schedule_timeout x timeout state s = do_wait_for_common K W schedule_timeout x timeout state s"

definition wait_for_completion :: "kenv \<Rightarrow> wait_ops \<Rightarrow> completion sleeper \<Rightarrow> completion \<Rightarrow> kstate \<Rightarrow>
    (completion \<times> kstate) option" where
  "wait_for_completion K W schedule_timeout x s =
     map_option snd (wait_for_common K W schedule_timeout x MAX_SCHEDULE_TIMEOUT TASK_UNINTERRUPTIBLE s)"

text \<open>The calls with a timeout take it as \<^verbatim>\<open>unsigned long\<close> and pass it on as \<^verbatim>\<open>long\<close>; the first returns \<^verbatim>\<open>unsigned long\<close>.\<close>

definition wait_for_completion_timeout :: "kenv \<Rightarrow> wait_ops \<Rightarrow> completion sleeper \<Rightarrow> completion \<Rightarrow> ulong \<Rightarrow> kstate \<Rightarrow>
    (ulong \<times> completion \<times> kstate) option" where
  "wait_for_completion_timeout K W schedule_timeout x timeout s =
     map_option (\<lambda>(r, y). (word_of_int r, y)) (wait_for_common K W schedule_timeout x (sint timeout) TASK_UNINTERRUPTIBLE s)"

definition errno_only :: "int \<Rightarrow> int" where
  "errno_only t = (if t = - ERESTARTSYS then t else 0)"

definition wait_for_completion_interruptible :: "kenv \<Rightarrow> wait_ops \<Rightarrow> completion sleeper \<Rightarrow> completion \<Rightarrow> kstate \<Rightarrow>
    (int \<times> completion \<times> kstate) option" where
  "wait_for_completion_interruptible K W schedule_timeout x s =
     map_option (\<lambda>(r, y). (errno_only r, y)) (wait_for_common K W schedule_timeout x MAX_SCHEDULE_TIMEOUT TASK_INTERRUPTIBLE s)"

definition wait_for_completion_interruptible_timeout :: "kenv \<Rightarrow> wait_ops \<Rightarrow> completion sleeper \<Rightarrow> completion \<Rightarrow> ulong \<Rightarrow>
    kstate \<Rightarrow> (int \<times> completion \<times> kstate) option" where
  "wait_for_completion_interruptible_timeout K W schedule_timeout x timeout s =
     wait_for_common K W schedule_timeout x (sint timeout) TASK_INTERRUPTIBLE s"

definition wait_for_completion_killable :: "kenv \<Rightarrow> wait_ops \<Rightarrow> completion sleeper \<Rightarrow> completion \<Rightarrow> kstate \<Rightarrow>
    (int \<times> completion \<times> kstate) option" where
  "wait_for_completion_killable K W schedule_timeout x s =
     map_option (\<lambda>(r, y). (errno_only r, y)) (wait_for_common K W schedule_timeout x MAX_SCHEDULE_TIMEOUT TASK_KILLABLE s)"

definition wait_for_completion_killable_timeout :: "kenv \<Rightarrow> wait_ops \<Rightarrow> completion sleeper \<Rightarrow> completion \<Rightarrow> ulong \<Rightarrow>
    kstate \<Rightarrow> (int \<times> completion \<times> kstate) option" where
  "wait_for_completion_killable_timeout K W schedule_timeout x timeout s =
     wait_for_common K W schedule_timeout x (sint timeout) TASK_KILLABLE s"

definition try_wait_for_completion :: "completion \<Rightarrow> bool \<times> completion" where
  "try_wait_for_completion x = (if cdone x = 0 then (False, x) else (True, x\<lparr>cdone := cdone x - 1\<rparr>))"

definition completion_done :: "completion \<Rightarrow> bool" where
  "completion_done x = (cdone x \<noteq> 0)"

section \<open>Sleeping on a queue\<close>

definition sleep_on_common :: "wait_ops \<Rightarrow> wait_entry list sleeper \<Rightarrow> wait_entry list \<Rightarrow> int \<Rightarrow> int \<Rightarrow> kstate \<Rightarrow>
    (int \<times> wait_entry list \<times> kstate) option" where
  "sleep_on_common W schedule_timeout q state timeout s =
     do { let p = curr (rq s);
          let s1 = upd_task p (\<lambda>t. t\<lparr>tstate := state\<rparr>) s;
          (t, q2, s2) \<leftarrow> schedule_timeout timeout (wo_add W (wo_entry W p) q) s1;
          Some (t, wo_remove W p q2, s2) }"

definition interruptible_sleep_on :: "wait_ops \<Rightarrow> wait_entry list sleeper \<Rightarrow> wait_entry list \<Rightarrow> kstate \<Rightarrow>
    (wait_entry list \<times> kstate) option" where
  "interruptible_sleep_on W schedule_timeout q s =
     map_option snd (sleep_on_common W schedule_timeout q TASK_INTERRUPTIBLE MAX_SCHEDULE_TIMEOUT s)"

definition interruptible_sleep_on_timeout :: "wait_ops \<Rightarrow> wait_entry list sleeper \<Rightarrow> wait_entry list \<Rightarrow> int \<Rightarrow> kstate \<Rightarrow>
    (int \<times> wait_entry list \<times> kstate) option" where
  "interruptible_sleep_on_timeout W schedule_timeout q timeout s =
     sleep_on_common W schedule_timeout q TASK_INTERRUPTIBLE timeout s"

definition sleep_on :: "wait_ops \<Rightarrow> wait_entry list sleeper \<Rightarrow> wait_entry list \<Rightarrow> kstate \<Rightarrow> (wait_entry list \<times> kstate) option" where
  "sleep_on W schedule_timeout q s =
     map_option snd (sleep_on_common W schedule_timeout q TASK_UNINTERRUPTIBLE MAX_SCHEDULE_TIMEOUT s)"

definition sleep_on_timeout :: "wait_ops \<Rightarrow> wait_entry list sleeper \<Rightarrow> wait_entry list \<Rightarrow> int \<Rightarrow> kstate \<Rightarrow>
    (int \<times> wait_entry list \<times> kstate) option" where
  "sleep_on_timeout W schedule_timeout q timeout s = sleep_on_common W schedule_timeout q TASK_UNINTERRUPTIBLE timeout s"

section \<open>Preemption\<close>

text \<open>
  These functions set \<^verbatim>\<open>PREEMPT_ACTIVE\<close> in the counter of the calling task around \<^verbatim>\<open>__schedule\<close>. The counter is 0 outside,
  and \<open>preemptible\<close> says so with interrupts on.
\<close>

partial_function (option) preempt_loop1 :: "kenv \<Rightarrow> kstate \<Rightarrow> kstate option" where
  "preempt_loop1 K s =
     Option.bind (schedule_loop (with_preempt_active K (curr (rq s))) s)
       (\<lambda>s1. if need_resched (tasks s1 (curr (rq s1))) then preempt_loop1 K s1 else Some s1)"

definition preempt_schedule :: "kenv \<Rightarrow> bool \<Rightarrow> kstate \<Rightarrow> kstate option" where
  "preempt_schedule K preemptible s = (if \<not> preemptible then Some s else preempt_loop1 K s)"

definition preempt_schedule_irq :: "kenv \<Rightarrow> int \<Rightarrow> bool \<Rightarrow> kstate \<Rightarrow> kstate option" where
  "preempt_schedule_irq K preempt_count irqs_disabled s =
     (if preempt_count \<noteq> 0 \<or> \<not> irqs_disabled then None else preempt_loop1 K s)"

end
