(* ===== verification/Waiting_Props.thy ===== *)
theory Waiting_Props
  imports Waiting
begin

text \<open>
  Wait queues and completions: whom \<^verbatim>\<open>__wake_up\<close> wakes, that no wakeup of a completion is lost in any interleaving of
  waiters, completions and the rest of the kernel, and exactly when a wait returns, with what result.
\<close>

section \<open>Waking a queue\<close>

text \<open>
  The loop over a queue for any wakeup function, and what it needs of one: it returns, wakes exactly a task whose state
  matches, and leaves the states of all others alone.
\<close>

fun scan :: "(ptr \<Rightarrow> int \<Rightarrow> kstate \<Rightarrow> (bool \<times> kstate) option) \<Rightarrow> wait_entry list \<Rightarrow> int \<Rightarrow> int \<Rightarrow> kstate \<Rightarrow> kstate option" where
  "scan wake [] mode nr s = Some s"
| "scan wake (e # es) mode nr s =
     do { (woken, s1) \<leftarrow> wake (we_private e) mode s;
          if woken \<and> we_exclusive e then (if nr - 1 = 0 then Some s1 else scan wake es mode (nr - 1) s1)
          else scan wake es mode nr s1 }"

text \<open>An entry is reached when fewer than \<open>nr\<close> exclusive ones before it match.\<close>

definition reached :: "(ptr \<Rightarrow> bool) \<Rightarrow> int \<Rightarrow> wait_entry list \<Rightarrow> nat \<Rightarrow> bool" where
  "reached m nr es i \<longleftrightarrow> nr \<le> 0 \<or> int (length (filter (\<lambda>e. we_exclusive e \<and> m (we_private e)) (take i es))) < nr"

lemma reached_Cons:
  "0 < nr \<Longrightarrow> reached m nr (e # es) (Suc i) \<longleftrightarrow> (if we_exclusive e \<and> m (we_private e) then 1 < nr \<and> reached m (nr - 1) es i else reached m nr es i)"
  "reached m nr es 0"
  "nr \<le> 0 \<Longrightarrow> reached m nr es i"
  by (auto simp: reached_def)

lemma ex_Cons_nth: "(\<exists>i < length (e # es). P i ((e # es) ! i)) \<longleftrightarrow> P 0 e \<or> (\<exists>i < length es. P (Suc i) (es ! i))"
  by (simp add: Ex_less_Suc2)

locale waker =
  fixes wake :: "kenv \<Rightarrow> int \<Rightarrow> ptr \<Rightarrow> int \<Rightarrow> kstate \<Rightarrow> (bool \<times> kstate) option"
    and ok :: "kenv \<Rightarrow> kstate \<Rightarrow> bool"
  assumes wake_ok: "ok K s \<Longrightarrow> \<exists>b t. wake K w p mode s = Some (b, t) \<and> ok K t \<and>
    (b \<longleftrightarrow> tstate (tasks s p) AND mode \<noteq> 0) \<and>
    (\<forall>q. tstate (tasks t q) = (if b \<and> q = p then TASK_RUNNING else tstate (tasks s q)))"
begin

lemma scan_ok:
  assumes "ok K s" and "distinct (map we_private es)"
  shows "\<exists>t. scan (wake K w) es mode nr s = Some t \<and> ok K t \<and>
    (\<forall>q. tstate (tasks t q) =
      (if \<exists>i < length es. we_private (es ! i) = q \<and> tstate (tasks s q) AND mode \<noteq> 0 \<and>
            reached (\<lambda>p. tstate (tasks s p) AND mode \<noteq> 0) nr es i
       then TASK_RUNNING else tstate (tasks s q)))"
  using assms
proof (induction es arbitrary: nr s)
  case (Cons e es)
  let ?m = "\<lambda>p. tstate (tasks s p) AND mode \<noteq> 0" and ?p = "we_private e"
  obtain b s1 where w: "wake K w ?p mode s = Some (b, s1)" "ok K s1" "b \<longleftrightarrow> ?m ?p"
    "\<forall>q. tstate (tasks s1 q) = (if b \<and> q = ?p then TASK_RUNNING else tstate (tasks s q))"
    using wake_ok [OF Cons.prems(1)] by blast
  have nin: "we_private (es ! i) \<noteq> ?p" if "i < length es" for i
    using Cons.prems(2) that by (metis distinct.simps(2) length_map list.simps(9) nth_map nth_mem)
  have nin': "we_private x \<noteq> ?p" if "x \<in> set es" for x
    using Cons.prems(2) imageI [OF that, of we_private] by (intro notI) simp
  have m1: "reached (\<lambda>p. tstate (tasks s1 p) AND mode \<noteq> 0) n es i \<longleftrightarrow> reached ?m n es i" for n i
  proof -
    have "filter (\<lambda>e. we_exclusive e \<and> tstate (tasks s1 (we_private e)) AND mode \<noteq> 0) (take i es) =
        filter (\<lambda>e. we_exclusive e \<and> ?m (we_private e)) (take i es)"
      using w(4) nin' by (intro filter_cong refl) (metis in_set_takeD)
    then show ?thesis by (simp add: reached_def)
  qed
  have st: "(\<exists>i < length es. we_private (es ! i) = q \<and> tstate (tasks s1 q) AND mode \<noteq> 0 \<and> reached (\<lambda>p. tstate (tasks s1 p) AND mode \<noteq> 0) n es i) \<longleftrightarrow>
      (\<exists>i < length es. we_private (es ! i) = q \<and> ?m q \<and> reached ?m n es i)" for q n
    using w(4) nin unfolding m1 by (metis (no_types, lifting))
  note ex = ex_Cons_nth [where P = "\<lambda>i x. we_private x = q \<and> ?m q \<and> reached ?m nr (e # es) i" for q]
  show ?case
  proof (cases "b \<and> we_exclusive e \<and> nr - 1 = 0")
    case True
    then have "nr = 1" by simp
    then have "(\<exists>i < length (e # es). we_private ((e # es) ! i) = q \<and> ?m q \<and> reached ?m nr (e # es) i) \<longleftrightarrow> q = ?p" for q
      unfolding ex using True w(3) by (auto simp: reached_Cons)
    then show ?thesis using True w by simp
  next
    case False
    define n where "n = (if b \<and> we_exclusive e then nr - 1 else nr)"
    obtain t where t: "scan (wake K w) es mode n s1 = Some t" "ok K t"
      "\<forall>q. tstate (tasks t q) = (if \<exists>i < length es. we_private (es ! i) = q \<and> ?m q \<and> reached ?m n es i
         then TASK_RUNNING else tstate (tasks s1 q))"
      using Cons.IH [OF w(2), of n] Cons.prems(2) unfolding st by auto
    have r: "reached ?m nr (e # es) (Suc i) \<longleftrightarrow> reached ?m n es i" for i
      using False w(3) by (cases "0 < nr") (auto simp: n_def reached_Cons)
    have "scan (wake K w) (e # es) mode nr s = Some t" using w(1) t(1) False by (auto simp: n_def)
    moreover have "tstate (tasks t q) = (if \<exists>i < length (e # es). we_private ((e # es) ! i) = q \<and> ?m q \<and> reached ?m nr (e # es) i
         then TASK_RUNNING else tstate (tasks s q))" for q
      unfolding ex r using t(3) w(3,4) by (auto simp: reached_Cons(2))
    ultimately show ?thesis using t(2) by blast
  qed
qed simp

end

section \<open>Wakeups leave other states alone\<close>

text \<open>Named hypothesis: no operation of the classes outside the repository changes the state of a task.\<close>

definition ext_state_ok :: "kenv \<Rightarrow> bool" where
  "ext_state_ok K \<longleftrightarrow> (\<forall>c \<in> ext_classes. \<forall>p f s x.
     tstate (tasks (ec_enqueue_task (ext_class_of K c) p f s) x) = tstate (tasks s x) \<and>
     tstate (tasks (ec_check_preempt_curr (ext_class_of K c) p f s) x) = tstate (tasks s x))"

lemma class_enqueue_tstate:
  assumes K: "kenv_ok K" "ext_state_ok K" and s: "sched_but (Some p) s" and t: "class_enqueue_task K (class_of s p) p f s = Some t"
  shows "tstate (tasks t x) = tstate (tasks s x)"
proof -
  consider "class_of s p = rt_sched_class" | "class_of s p = wrr_sched_class" | "class_of s p \<in> ext_classes"
    by (cases "class_of s p") auto
  then show ?thesis
  proof cases
    case 1
    have v: "p \<noteq> 0" "group_rt_rq s p = None" "0 \<le> prio (tasks s p)" "prio (tasks s p) < MAX_RT_PRIO" "rt_ok s"
      using s 1 by (auto simp: sched_but_def rt_valid_def)
    then show ?thesis
      using enqueue_task_rt_ok [OF kenv_okD(1) [OF K(1)] v(5,1-4), of f] t 1 by (auto simp: class_enqueue_task_def)
  next
    case 2
    then show ?thesis using t
      by (auto simp: class_enqueue_task_def enqueue_task_wrr_def enqueue_wrr_entity_def Let_def inc_nr_running_def)
  next
    case 3
    then show ?thesis using t K(2) by (auto simp: class_enqueue_task_def ext_state_ok_def)
  qed
qed

lemma class_check_preempt_tstate:
  assumes "kenv_ok K" and "ext_state_ok K"
  shows "tstate (tasks (class_check_preempt_curr K c p f s) x) = tstate (tasks s x)"
  using assms
  by (cases c) (simp_all add: class_check_preempt_curr_def check_preempt_curr_rt_def check_preempt_curr_wrr_def ext_state_ok_def)

lemma check_preempt_curr_tstate:
  assumes "kenv_ok K" and "ext_state_ok K" and "check_preempt_curr K p f s = Some t"
  shows "tstate (tasks t x) = tstate (tasks s x)"
  using assms class_check_preempt_tstate [OF assms(1,2)]
  by (auto simp: check_preempt_curr_def Let_def split: if_splits bind_splits)

lemma activate_task_tstate:
  assumes K: "kenv_ok K" "ext_state_ok K" and s: "sched_but None s" "\<not> on_rq (tasks s p)" and t: "activate_task K p f s = Some t"
  shows "tstate (tasks t x) = tstate (tasks s x)"
proof -
  define s1 where "s1 = (if task_contributes_to_load (tasks s p)
      then s\<lparr>rq := (rq s)\<lparr>nr_uninterruptible := nr_uninterruptible (rq s) - 1\<rparr>\<rparr> else s)"
  define s2 where "s2 = emit (SchedInfoQueued p) (update_rq_clock K s1)"
  have k1: "ext_keep s s1" by (simp add: s1_def)
  have k2: "ext_keep s s2"
    unfolding s2_def by (rule ext_keep_trans [OF ext_keep_trans [OF k1 ext_keep_upds(1)] ext_keep_upds(2)])
  have "sched_but (Some p) s2"
    using sched_but_on [OF sched_but_keep [OF k2 s(1)]] s(2) ext_keepD(7) [OF k2] by simp
  moreover have "class_enqueue_task K (class_of s2 p) p f s2 = Some t"
    using t by (simp add: activate_task_def enqueue_task_def s1_def s2_def Let_def)
  ultimately have "tstate (tasks t x) = tstate (tasks s2 x)" by (rule class_enqueue_tstate [OF K])
  also have "\<dots> = tstate (tasks s x)"
    by (simp add: s2_def s1_def emit_def update_rq_clock_def update_rq_clock_task_def Let_def)
  finally show ?thesis .
qed

lemma ttwu_do_wakeup_tstate:
  assumes "kenv_ok K" and "ext_state_ok K" and "ttwu_do_wakeup K p w s = Some t"
  shows "tstate (tasks t x) = (if x = p then TASK_RUNNING else tstate (tasks s x))"
  using assms(3) check_preempt_curr_tstate [OF assms(1,2)]
  by (auto simp: ttwu_do_wakeup_def Let_def split: bind_splits)

lemma try_to_wake_up_tstate:
  assumes K: "kenv_ok K" "ext_state_ok K" and s: "sched_but None s" and t: "try_to_wake_up K p m w s = Some (b, t)"
  shows "tstate (tasks t x) = (if b \<and> x = p then TASK_RUNNING else tstate (tasks s x))"
proof (cases "tstate (tasks s p) AND m = 0")
  case True
  then show ?thesis using t by (auto simp: try_to_wake_up_def)
next
  case False
  show ?thesis
  proof (cases "on_rq (tasks s p)")
    case True
    then show ?thesis
      using t False ttwu_do_wakeup_tstate [OF K]
      by (auto simp: try_to_wake_up_def ttwu_remote_def split: bind_splits)
  next
    case off: False
    then obtain v u where v: "ttwu_activate K p (ENQUEUE_WAKEUP OR ENQUEUE_WAKING) s = Some v"
      "ttwu_do_wakeup K p 0 v = Some u" "b" "t = ttwu_stat p w u"
      using t False by (auto simp: try_to_wake_up_def ttwu_queue_def ttwu_do_activate_def split: bind_splits)
    then have "tstate (tasks v x) = tstate (tasks s x)" for x
      using activate_task_tstate [OF K s off] by (auto simp: ttwu_activate_def Let_def emit_def split: bind_splits if_splits)
    then show ?thesis using v ttwu_do_wakeup_tstate [OF K v(2)] by simp
  qed
qed

definition wake_env :: "kenv \<Rightarrow> kstate \<Rightarrow> bool" where
  "wake_env K s \<longleftrightarrow> kenv_ok K \<and> ext_state_ok K \<and> sched_but None s"

interpretation ttwu: waker "\<lambda>K w p m s. try_to_wake_up K p m w s" wake_env
proof unfold_locales
  fix K s w p mode
  assume "wake_env K s"
  then have K: "kenv_ok K" "ext_state_ok K" and s: "sched_but None s" by (simp_all add: wake_env_def)
  obtain b t where t: "try_to_wake_up K p mode w s = Some (b, t)" "sched_but None t"
    "b \<longleftrightarrow> tstate (tasks s p) AND mode \<noteq> 0"
    using try_to_wake_up_ok [OF K(1) s, of p mode w] by blast
  then show "\<exists>b t. try_to_wake_up K p mode w s = Some (b, t) \<and> wake_env K t \<and> (b \<longleftrightarrow> tstate (tasks s p) AND mode \<noteq> 0) \<and>
      (\<forall>q. tstate (tasks t q) = (if b \<and> q = p then TASK_RUNNING else tstate (tasks s q)))"
    using K try_to_wake_up_tstate [OF K s t(1)] by (auto simp: wake_env_def)
qed

text \<open>A queue whose entries have the default wake function.\<close>

definition default_queue :: "wait_entry list \<Rightarrow> bool" where
  "default_queue es \<longleftrightarrow> distinct (map we_private es) \<and> (\<forall>e \<in> set es. we_func e = Default_wake)"

lemma wake_up_common_scan:
  "\<forall>e \<in> set es. we_func e = Default_wake \<Longrightarrow>
   wake_up_common K W es mode nr fl key s = scan (\<lambda>p m s. try_to_wake_up K p m fl s) es mode nr s"
  by (induction es arbitrary: nr s)
    (simp_all add: call_wake_fn_def default_wake_function_def cong: option.case_cong if_cong)

lemma wake_up_common_ok:
  assumes "wake_env K s" and "default_queue es"
  shows "\<exists>t. wake_up_common K W es mode nr fl key s = Some t \<and> wake_env K t \<and>
    (\<forall>q. tstate (tasks t q) =
      (if \<exists>i < length es. we_private (es ! i) = q \<and> tstate (tasks s q) AND mode \<noteq> 0 \<and>
            reached (\<lambda>p. tstate (tasks s p) AND mode \<noteq> 0) nr es i
       then TASK_RUNNING else tstate (tasks s q)))"
  using ttwu.scan_ok [OF assms(1), of es fl mode nr] wake_up_common_scan [of es] assms(2)
  by (simp add: default_queue_def)

section \<open>A completion under interleaving\<close>

text \<open>The documented behaviour of the queue operations of \<^verbatim>\<open>linux/wait.h\<close>, and an instance.\<close>

definition wait_ops_ok :: "wait_ops \<Rightarrow> bool" where
  "wait_ops_ok W \<longleftrightarrow> (\<forall>p. wo_entry W p = \<lparr>we_exclusive = False, we_private = p, we_func = Default_wake\<rparr>) \<and>
     (\<forall>e q. wo_add W e q = e # q) \<and>
     (\<forall>e q. wo_add_tail_exclusive W e q = q @ [e\<lparr>we_exclusive := True\<rparr>]) \<and>
     (\<forall>p q. distinct (map we_private q) \<longrightarrow> wo_remove W p q = filter (\<lambda>e. we_private e \<noteq> p) q)"

definition hol_waits :: wait_ops where
  "hol_waits = \<lparr>wo_entry = (\<lambda>p. \<lparr>we_exclusive = False, we_private = p, we_func = Default_wake\<rparr>),
     wo_add = (\<lambda>e q. e # q), wo_add_tail_exclusive = (\<lambda>e q. q @ [e\<lparr>we_exclusive := True\<rparr>]),
     wo_remove = (\<lambda>p q. filter (\<lambda>e. we_private e \<noteq> p) q), wo_func = (\<lambda>n e m f key s. Some (False, s))\<rparr>"

lemma hol_waits_ok [simp]: "wait_ops_ok hol_waits"
  by (simp add: wait_ops_ok_def hol_waits_def)

text \<open>
  The whole system around one completion: the kernel, the completion and which tasks are in \<^verbatim>\<open>schedule_timeout\<close> of a wait for
  it, with the state they sleep in. \<open>given\<close> and \<open>taken\<close> count what was added to the counter and how often a wait or a
  \<^verbatim>\<open>try_wait_for_completion\<close> took from it. Between the calls anything may happen to the kernel that leaves a waiter's state
  alone or makes it run.
\<close>

record wsys =
  w_k :: kstate
  w_x :: completion
  w_blk :: "ptr \<Rightarrow> int option"
  given :: nat
  taken :: nat

definition waits_on :: "wsys \<Rightarrow> kenv \<Rightarrow> kstate \<Rightarrow> bool" where
  "waits_on c K t \<longleftrightarrow> wake_env K t \<and>
     (\<forall>p. w_blk c p \<noteq> None \<longrightarrow> tstate (tasks t p) = tstate (tasks (w_k c) p) \<or> tstate (tasks t p) = TASK_RUNNING)"

definition after_wait :: "ptr \<Rightarrow> int \<Rightarrow> bool \<Rightarrow> wait_result \<times> completion \<times> kstate \<Rightarrow> wsys \<Rightarrow> wsys" where
  "after_wait p state took r c =
     c\<lparr>w_k := snd (snd r), w_x := fst (snd r),
       w_blk := (w_blk c)(p := (case fst r of Blocked t \<Rightarrow> Some state | Returned t \<Rightarrow> None)),
       taken := (if took then taken c + 1 else taken c)\<rparr>"

inductive comp_step :: "kenv \<Rightarrow> wait_ops \<Rightarrow> wsys \<Rightarrow> wsys \<Rightarrow> bool" for K W where
  begin_wait: "p = curr (rq (w_k c)) \<Longrightarrow> w_blk c p = None \<Longrightarrow> state AND TASK_NORMAL \<noteq> 0 \<Longrightarrow>
     comp_step K W c (after_wait p state (cdone (w_x c) \<noteq> 0) (wait_begin K W p state timeout (w_x c) (w_k c)) c)"
| resume: "p = curr (rq (w_k c)) \<Longrightarrow> w_blk c p = Some state \<Longrightarrow> tstate (tasks (w_k c) p) = TASK_RUNNING \<Longrightarrow>
     comp_step K W c (after_wait p state (cdone (w_x c) \<noteq> 0) (wait_resume K W p state timeout (w_x c) (w_k c)) c)"
| one: "complete K W (w_x c) (w_k c) = Some (x, s) \<Longrightarrow> comp_step K W c (c\<lparr>w_x := x, w_k := s, given := given c + 1\<rparr>)"
| all: "complete_all K W (w_x c) (w_k c) = Some (x, s) \<Longrightarrow>
     comp_step K W c (c\<lparr>w_x := x, w_k := s, given := given c + (2 ^ 31 - 1)\<rparr>)"
| try_wait: "try_wait_for_completion (w_x c) = (b, x) \<Longrightarrow>
     comp_step K W c (c\<lparr>w_x := x, taken := (if b then taken c + 1 else taken c)\<rparr>)"
| other: "waits_on c K t \<Longrightarrow> comp_step K W c (c\<lparr>w_k := t\<rparr>)"

inductive comp_reachable :: "kenv \<Rightarrow> wait_ops \<Rightarrow> wsys \<Rightarrow> wsys \<Rightarrow> bool" for K W c where
  start: "comp_reachable K W c c"
| step: "comp_reachable K W c d \<Longrightarrow> comp_step K W d e \<Longrightarrow> comp_reachable K W c e"

abbreviation waiting :: "wsys \<Rightarrow> ptr list" where
  "waiting c \<equiv> map we_private (cwait (w_x c))"

definition awake :: "wsys \<Rightarrow> ptr list" where
  "awake c = filter (\<lambda>p. tstate (tasks (w_k c) p) = TASK_RUNNING) (waiting c)"

text \<open>The invariant: the queue holds exactly the waiters, exclusive and in states that a completion wakes, the counter counts, and
  as many waiters are awake as the counter can satisfy.\<close>

definition comp_inv :: "kenv \<Rightarrow> wsys \<Rightarrow> bool" where
  "comp_inv K c \<longleftrightarrow> wake_env K (w_k c) \<and> default_queue (cwait (w_x c)) \<and>
     (\<forall>e \<in> set (cwait (w_x c)). we_exclusive e) \<and>
     (\<forall>p. p \<in> set (waiting c) \<longleftrightarrow> w_blk c p \<noteq> None) \<and>
     (\<forall>p state. w_blk c p = Some state \<longrightarrow> state AND TASK_NORMAL \<noteq> 0 \<and> tstate (tasks (w_k c) p) \<in> {TASK_RUNNING, state}) \<and>
     of_nat (given c) - of_nat (taken c) = cdone (w_x c) \<and>
     min (unat (cdone (w_x c))) (length (cwait (w_x c))) \<le> length (awake c)"

lemma comp_invD:
  assumes "comp_inv K c"
  shows "wake_env K (w_k c)" and "distinct (waiting c)" and "\<forall>e \<in> set (cwait (w_x c)). we_func e = Default_wake \<and> we_exclusive e"
    and "p \<in> set (waiting c) \<longleftrightarrow> w_blk c p \<noteq> None"
    and "w_blk c p = Some state \<Longrightarrow> state AND TASK_NORMAL \<noteq> 0 \<and> tstate (tasks (w_k c) p) \<in> {TASK_RUNNING, state}"
    and "of_nat (given c) - of_nat (taken c) = cdone (w_x c)"
    and "min (unat (cdone (w_x c))) (length (cwait (w_x c))) \<le> length (awake c)"
  using assms by (auto simp: comp_inv_def default_queue_def)

lemma wake_env_state: "wake_env K s \<Longrightarrow> wake_env K (upd_task p (\<lambda>t. t\<lparr>tstate := x\<rparr>) s)"
proof -
  assume w: "wake_env K s"
  have "ext_keep s (upd_task p (\<lambda>t. t\<lparr>tstate := x\<rparr>) s)"
    by (rule ext_keep_upds) (simp add: core3_def task_params_def)
  then show ?thesis using w sched_but_keep by (auto simp: wake_env_def)
qed

lemma waiting_nth: "i < length (cwait (w_x c)) \<Longrightarrow> we_private (cwait (w_x c) ! i) = waiting c ! i"
  by simp

lemma half_uint: "0xFFFFFFFF div 2 = (0x7FFFFFFF :: uint32)"
  by code_simp

lemma unat_dec: "d \<noteq> 0 \<Longrightarrow> unat (d - 1 :: uint32) = unat d - 1"
  by (rule unat_minus_one)

lemma unat_inc: "unat (d + 1 :: uint32) \<le> unat d + 1"
  by (simp add: unat_word_ariths)

text \<open>Taking from the counter without a place in the queue.\<close>

lemma take_inv:
  assumes "comp_inv K c" and "cdone (w_x c) \<noteq> 0"
  shows "comp_inv K (c\<lparr>w_x := (w_x c)\<lparr>cdone := cdone (w_x c) - 1\<rparr>, taken := taken c + 1\<rparr>)"
  using assms unat_dec [OF assms(2)] by (auto simp: comp_inv_def awake_def algebra_simps)

text \<open>Leaving the queue: a waiter that runs goes, and takes from the counter if it is not 0.\<close>

lemma length_filter_remove:
  assumes "distinct xs" and "p \<in> set xs"
  shows "length (filter P (filter (\<lambda>x. x \<noteq> p) xs)) = length (filter P xs) - (if P p then 1 else 0)"
proof -
  have "filter P (filter (\<lambda>x. x \<noteq> p) xs) = filter (\<lambda>x. x \<noteq> p) (filter P xs)" by (simp add: conj_commute)
  also have "\<dots> = remove1 p (filter P xs)" using assms(1) 
    by (auto simp: distinct_remove1_removeAll removeAll_filter_not_eq intro!: filter_cong)
  finally show ?thesis using assms(2) by (simp add: length_remove1)
qed

lemma finish_inv:
  assumes W: "wait_ops_ok W" and inv: "comp_inv K c" and blk: "w_blk c p \<noteq> None"
    and run: "cdone (w_x c) \<noteq> 0 \<Longrightarrow> tstate (tasks (w_k c) p) = TASK_RUNNING"
  shows "comp_inv K (after_wait p st (cdone (w_x c) \<noteq> 0) (let (r, x1) = wait_finish W p t (w_x c) in (r, x1, w_k c)) c)"
proof -
  note i = comp_invD [OF inv]
  let ?q = "filter (\<lambda>e. we_private e \<noteq> p) (cwait (w_x c))" and ?d = "cdone (w_x c)"
  have q: "wo_remove W p (cwait (w_x c)) = ?q" using W i(2) by (simp add: wait_ops_ok_def)
  define d' where "d' = (if ?d = 0 then 0 else ?d - 1)"
  let ?c = "c\<lparr>w_x := \<lparr>cdone = d', cwait = ?q\<rparr>, w_blk := (w_blk c)(p := None), taken := (if ?d \<noteq> 0 then taken c + 1 else taken c)\<rparr>"
  have c': "after_wait p st (?d \<noteq> 0) (let (r, x1) = wait_finish W p t (w_x c) in (r, x1, w_k c)) c = ?c"
    by (simp add: after_wait_def wait_finish_def wait_take_def q d'_def Let_def)
  have mem: "p \<in> set (waiting c)" using i(4) blk by blast
  have w': "waiting ?c = filter (\<lambda>x. x \<noteq> p) (waiting c)" by (simp add: filter_map comp_def)
  have len: "length ?q = length (cwait (w_x c)) - 1"
    using length_filter_remove [OF i(2) mem, of "\<lambda>_. True"] by (simp add: filter_map comp_def)
  have aw: "length (awake ?c) = length (awake c) - (if tstate (tasks (w_k c) p) = TASK_RUNNING then 1 else 0)"
    unfolding awake_def w' using length_filter_remove [OF i(2) mem] by simp
  have "min (unat d') (length ?q) \<le> length (awake ?c)"
  proof (cases "?d = 0")
    case False
    then show ?thesis using i(7) len aw run unat_dec [OF False] by (simp add: d'_def)
  qed (simp add: d'_def)
  moreover have "wake_env K (w_k ?c)" using i(1) by simp
  moreover have "default_queue ?q" using i(2,3) by (simp add: default_queue_def distinct_map_filter)
  moreover have "\<forall>x. x \<in> set (waiting ?c) \<longleftrightarrow> w_blk ?c x \<noteq> None" unfolding w' using i(4) by auto
  moreover have "of_nat (given ?c) - of_nat (taken ?c) = d'" using i(6) by (auto simp: d'_def)
  ultimately show ?thesis unfolding c' comp_inv_def using i(3,5) by simp
qed

text \<open>Going to sleep, with the counter at 0.\<close>

lemma sleep_inv:
  assumes inv: "comp_inv K c" and d: "cdone (w_x c) = 0" and p: "w_blk c p \<noteq> None" "st AND TASK_NORMAL \<noteq> 0"
  shows "comp_inv K (c\<lparr>w_k := upd_task p (\<lambda>t. t\<lparr>tstate := st\<rparr>) (w_k c), w_blk := (w_blk c)(p := Some st)\<rparr>)"
  using inv d p wake_env_state by (auto simp: comp_inv_def)

lemma enqueue_inv:
  assumes W: "wait_ops_ok W" and inv: "comp_inv K c" and d: "cdone (w_x c) = 0" and p: "w_blk c p = None" "st AND TASK_NORMAL \<noteq> 0"
  shows "comp_inv K (c\<lparr>w_k := upd_task p (\<lambda>t. t\<lparr>tstate := st\<rparr>) (w_k c), w_blk := (w_blk c)(p := Some st),
     w_x := (w_x c)\<lparr>cwait := wo_add_tail_exclusive W (wo_entry W p) (cwait (w_x c))\<rparr>\<rparr>)"
proof -
  have "p \<notin> set (waiting c)" using comp_invD(4) [OF inv] p(1) by simp
  then show ?thesis using W inv d p wake_env_state by (auto simp: comp_inv_def wait_ops_ok_def default_queue_def)
qed

lemma iter_inv:
  assumes W: "wait_ops_ok W" and inv: "comp_inv K c" and d: "cdone (w_x c) = 0" and p: "w_blk c p = Some st"
  shows "comp_inv K (after_wait p st False (wait_iter K W p st t (w_x c) (w_k c)) c)"
proof (cases "signal_pending_state K st p (w_k c)")
  case True
  then show ?thesis using finish_inv [OF W inv, of p st "- ERESTARTSYS"] d p by (simp add: wait_iter_def)
next
  case False
  then have e: "after_wait p st False (wait_iter K W p st t (w_x c) (w_k c)) c =
      c\<lparr>w_k := upd_task p (\<lambda>t. t\<lparr>tstate := st\<rparr>) (w_k c), w_blk := (w_blk c)(p := Some st)\<rparr>"
    by (simp add: after_wait_def wait_iter_def)
  show ?thesis unfolding e using comp_invD(5) [OF inv p] p by (intro sleep_inv [OF inv d]) simp_all
qed

lemma begin_inv:
  assumes W: "wait_ops_ok W" and inv: "comp_inv K c" and p: "w_blk c p = None" "st AND TASK_NORMAL \<noteq> 0"
  shows "comp_inv K (after_wait p st (cdone (w_x c) \<noteq> 0) (wait_begin K W p st t (w_x c) (w_k c)) c)"
proof (cases "cdone (w_x c) = 0")
  case d: True
  let ?x = "(w_x c)\<lparr>cwait := wo_add_tail_exclusive W (wo_entry W p) (cwait (w_x c))\<rparr>"
  have nin: "p \<notin> set (waiting c)" using comp_invD(4) [OF inv] p(1) by simp
  show ?thesis
  proof (cases "signal_pending_state K st p (w_k c)")
    case True
    have "cwait ?x = cwait (w_x c) @ [\<lparr>we_exclusive = True, we_private = p, we_func = Default_wake\<rparr>]"
      using W by (simp add: wait_ops_ok_def)
    moreover have "distinct (waiting c @ [p])" using comp_invD(2) [OF inv] nin by simp
    ultimately have "wo_remove W p (cwait ?x) = filter (\<lambda>e. we_private e \<noteq> p) (cwait (w_x c))"
      using W by (simp add: wait_ops_ok_def)
    also have "\<dots> = cwait (w_x c)" using nin by (intro filter_True) auto
    finally have "after_wait p st False (wait_begin K W p st t (w_x c) (w_k c)) c = c"
      using d True p(1) by (simp add: after_wait_def wait_begin_def wait_iter_def wait_finish_def Let_def fun_upd_idem)
    then show ?thesis using d inv by simp
  next
    case False
    then have e: "after_wait p st False (wait_begin K W p st t (w_x c) (w_k c)) c =
        c\<lparr>w_k := upd_task p (\<lambda>t. t\<lparr>tstate := st\<rparr>) (w_k c), w_blk := (w_blk c)(p := Some st), w_x := ?x\<rparr>"
      using d by (simp add: after_wait_def wait_begin_def wait_iter_def)
    show ?thesis using enqueue_inv [OF W inv d p] d unfolding e [symmetric] by simp
  qed
next
  case False
  then have "after_wait p st True (wait_begin K W p st t (w_x c) (w_k c)) c =
      c\<lparr>w_x := (w_x c)\<lparr>cdone := cdone (w_x c) - 1\<rparr>, taken := taken c + 1\<rparr>"
    using p(1) by (simp add: after_wait_def wait_begin_def wait_take_def fun_upd_idem)
  then show ?thesis using take_inv [OF inv False] False by simp
qed

lemma resume_inv:
  assumes W: "wait_ops_ok W" and inv: "comp_inv K c" and p: "w_blk c p = Some st" "tstate (tasks (w_k c) p) = TASK_RUNNING"
  shows "comp_inv K (after_wait p st (cdone (w_x c) \<noteq> 0) (wait_resume K W p st t (w_x c) (w_k c)) c)"
  using iter_inv [OF W inv _ p(1), of t] finish_inv [OF W inv, of p st t] p by (auto simp: wait_resume_def)

lemma length_filter_card: "distinct xs \<Longrightarrow> length (filter P xs) = card {x \<in> set xs. P x}"
  by (metis distinct_card distinct_filter set_filter)

lemma awake_card: "distinct (waiting c) \<Longrightarrow> length (awake c) = card {p \<in> set (waiting c). tstate (tasks (w_k c) p) = TASK_RUNNING}"
  unfolding awake_def by (rule length_filter_card)

text \<open>A wakeup of the queue: the invariant but for the counter; and how many are awake after it.\<close>

lemma wake_waiters:
  assumes inv: "comp_inv K c"
  shows "\<exists>t. wake_up_common K W (cwait (w_x c)) TASK_NORMAL nr 0 0 (w_k c) = Some t \<and> wake_env K t \<and>
    (\<forall>p st. w_blk c p = Some st \<longrightarrow> tstate (tasks t p) \<in> {TASK_RUNNING, st}) \<and>
    length (awake c) \<le> length (awake (c\<lparr>w_k := t\<rparr>)) \<and>
    (nr \<le> 0 \<longrightarrow> awake (c\<lparr>w_k := t\<rparr>) = waiting c) \<and>
    (nr = 1 \<longrightarrow> length (awake c) < length (awake (c\<lparr>w_k := t\<rparr>)) \<or> awake (c\<lparr>w_k := t\<rparr>) = waiting c)"
proof -
  note i = comp_invD [OF inv]
  let ?es = "cwait (w_x c)" and ?s = "w_k c"
  let ?m = "\<lambda>p. tstate (tasks ?s p) AND TASK_NORMAL \<noteq> 0"
  have "default_queue ?es" using inv by (simp add: comp_inv_def)
  from wake_up_common_ok [OF i(1) this, of W TASK_NORMAL nr 0 0] obtain t where
    t: "wake_up_common K W ?es TASK_NORMAL nr 0 0 ?s = Some t" "wake_env K t"
      "\<forall>q. tstate (tasks t q) = (if \<exists>i < length ?es. we_private (?es ! i) = q \<and> ?m q \<and> reached ?m nr ?es i
         then TASK_RUNNING else tstate (tasks ?s q))" by blast
  have run: "tstate (tasks ?s p) = TASK_RUNNING \<Longrightarrow> tstate (tasks t p) = TASK_RUNNING" for p using t(3) by simp
  have m: "?m p \<longleftrightarrow> tstate (tasks ?s p) \<noteq> TASK_RUNNING" if p: "p \<in> set (waiting c)" for p
  proof -
    obtain st where "w_blk c p = Some st" using i(4) p by auto
    from i(5) [OF this] show ?thesis by (auto simp: sched_consts)
  qed
  let ?A = "{p \<in> set (waiting c). tstate (tasks ?s p) = TASK_RUNNING}" and ?B = "{p \<in> set (waiting c). tstate (tasks t p) = TASK_RUNNING}"
  have len: "length (awake c) = card ?A" "length (awake (c\<lparr>w_k := t\<rparr>)) = card ?B"
    using awake_card [OF i(2)] awake_card [of "c\<lparr>w_k := t\<rparr>"] i(2) by simp_all
  have sub: "?A \<subseteq> ?B" using run by blast
  have 0: "awake (c\<lparr>w_k := t\<rparr>) = waiting c" if "nr \<le> 0"
  proof -
    have "tstate (tasks t p) = TASK_RUNNING" if p: "p \<in> set (waiting c)" for p
    proof -
      obtain i where "i < length ?es" "we_private (?es ! i) = p" using p by (auto simp: in_set_conv_nth)
      then show ?thesis using t(3) m [OF p] reached_Cons(3) [OF \<open>nr \<le> 0\<close>] by (cases "?m p") auto
    qed
    then show ?thesis by (simp add: awake_def)
  qed
  have 1: "?A \<noteq> ?B \<or> awake (c\<lparr>w_k := t\<rparr>) = waiting c" if "nr = 1"
  proof (cases "\<exists>e \<in> set ?es. ?m (we_private e)")
    case True
    then have "\<exists>n. n < length ?es \<and> ?m (we_private (?es ! n))" by (auto simp: in_set_conv_nth)
    then obtain n where n: "n < length ?es" "?m (we_private (?es ! n))" "\<forall>j < n. \<not> ?m (we_private (?es ! j))"
      by (subst (asm) exists_least_iff) auto
    then have "filter (\<lambda>e. we_exclusive e \<and> ?m (we_private e)) (take n ?es) = []"
      by (auto simp: filter_empty_conv in_set_conv_nth)
    then have "reached ?m nr ?es n" using that by (simp add: reached_def)
    then have "tstate (tasks t (we_private (?es ! n))) = TASK_RUNNING" using t(3) n by auto
    moreover have p: "we_private (?es ! n) \<in> set (waiting c)" using n(1) by simp
    ultimately show ?thesis using m [OF p] n(2) by auto
  next
    case False
    then have "\<forall>p \<in> set (waiting c). tstate (tasks t p) = TASK_RUNNING" using m run by auto
    then show ?thesis by (simp add: awake_def)
  qed
  have "\<forall>p st. w_blk c p = Some st \<longrightarrow> tstate (tasks t p) \<in> {TASK_RUNNING, st}" using t(3) i(5) by simp
  moreover have "length (awake c) \<le> length (awake (c\<lparr>w_k := t\<rparr>))" unfolding len by (rule card_mono [OF _ sub]) simp
  moreover have "length (awake c) < length (awake (c\<lparr>w_k := t\<rparr>)) \<or> awake (c\<lparr>w_k := t\<rparr>) = waiting c" if "nr = 1"
  proof (rule disjE [OF 1 [OF that]])
    assume "?A \<noteq> ?B"
    with sub have "?A \<subset> ?B" by (rule psubsetI)
    then have "card ?A < card ?B" by (intro psubset_card_mono) simp_all
    then show ?thesis unfolding len by (rule disjI1)
  qed (rule disjI2)
  ultimately show ?thesis using t(1,2) 0 by (intro exI [of _ t] conjI impI) simp_all
qed

lemma wake_inv:
  assumes inv: "comp_inv K c" and w: "wake_up_common K W (cwait (w_x c)) TASK_NORMAL nr 0 0 (w_k c) = Some t"
    and nr: "nr = 0 \<or> nr = 1 \<and> d = cdone (w_x c) + 1"
    and g: "of_nat g - of_nat (taken c) = d"
  shows "comp_inv K (c\<lparr>w_x := (w_x c)\<lparr>cdone := d\<rparr>, w_k := t, given := g\<rparr>)"
proof -
  note i = comp_invD [OF inv]
  obtain t' where t: "wake_up_common K W (cwait (w_x c)) TASK_NORMAL nr 0 0 (w_k c) = Some t'" "wake_env K t'"
    "\<forall>p st. w_blk c p = Some st \<longrightarrow> tstate (tasks t' p) \<in> {TASK_RUNNING, st}"
    "length (awake c) \<le> length (awake (c\<lparr>w_k := t'\<rparr>))"
    "nr \<le> 0 \<longrightarrow> awake (c\<lparr>w_k := t'\<rparr>) = waiting c"
    "nr = 1 \<longrightarrow> length (awake c) < length (awake (c\<lparr>w_k := t'\<rparr>)) \<or> awake (c\<lparr>w_k := t'\<rparr>) = waiting c"
    using wake_waiters [OF inv, of W nr] by blast
  have t': "t' = t" using t(1) w by simp
  have aw: "awake (c\<lparr>w_x := (w_x c)\<lparr>cdone := d\<rparr>, w_k := t, given := g\<rparr>) = awake (c\<lparr>w_k := t\<rparr>)" by (simp add: awake_def)
  have "min (unat d) (length (cwait (w_x c))) \<le> length (awake (c\<lparr>w_k := t\<rparr>))"
  proof (cases "awake (c\<lparr>w_k := t\<rparr>) = waiting c")
    case False
    then have "d = cdone (w_x c) + 1" "length (awake c) < length (awake (c\<lparr>w_k := t\<rparr>))" using nr t(5,6) t' by auto
    then show ?thesis using i(7) unat_inc [of "cdone (w_x c)"] by simp
  qed simp
  then show ?thesis using inv t(2,3) g unfolding comp_inv_def aw t' by simp
qed

lemma comp_step_inv:
  assumes W: "wait_ops_ok W" and step: "comp_step K W c d" and inv: "comp_inv K c"
  shows "comp_inv K d"
  using step
proof cases
  case (begin_wait p state timeout)
  then show ?thesis using begin_inv [OF W inv] by simp
next
  case (resume p state timeout)
  then show ?thesis using resume_inv [OF W inv] by simp
next
  case (one x s)
  have g: "of_nat (given c + 1) - of_nat (taken c) = cdone (w_x c) + 1" using comp_invD(6) [OF inv] by (simp add: algebra_simps)
  have "wake_up_common K W (cwait (w_x c)) TASK_NORMAL 1 0 0 (w_k c) = Some s" "x = (w_x c)\<lparr>cdone := cdone (w_x c) + 1\<rparr>"
    using one(2) by (auto simp: complete_def Let_def split: bind_splits)
  then show ?thesis using wake_inv [OF inv _ _ g, of W 1 s] one(1) by simp
next
  case (all x s)
  have g: "of_nat (given c + (2 ^ 31 - 1)) - of_nat (taken c) = cdone (w_x c) + 0xFFFFFFFF div 2"
    using comp_invD(6) [OF inv] unfolding half_uint by (simp add: algebra_simps)
  have "wake_up_common K W (cwait (w_x c)) TASK_NORMAL 0 0 0 (w_k c) = Some s" "x = (w_x c)\<lparr>cdone := cdone (w_x c) + 0xFFFFFFFF div 2\<rparr>"
    using all(2) by (auto simp: complete_all_def Let_def split: bind_splits)
  then show ?thesis using wake_inv [OF inv _ _ g, of W 0 s] all(1) by simp
next
  case (try_wait b x)
  then show ?thesis using take_inv [OF inv] inv by (cases "cdone (w_x c) = 0") (auto simp: try_wait_for_completion_def)
next
  case (other t)
  have "length (awake c) \<le> length (awake (c\<lparr>w_k := t\<rparr>))"
  proof -
    have "\<forall>p \<in> set (waiting c). tstate (tasks (w_k c) p) = TASK_RUNNING \<longrightarrow> tstate (tasks t p) = TASK_RUNNING"
      using other(2) comp_invD(4) [OF inv] unfolding waits_on_def by metis
    then have "card {p \<in> set (waiting c). tstate (tasks (w_k c) p) = TASK_RUNNING} \<le> card {p \<in> set (waiting c). tstate (tasks t p) = TASK_RUNNING}"
      by (intro card_mono) auto
    then show ?thesis using awake_card [of c] awake_card [of "c\<lparr>w_k := t\<rparr>"] comp_invD(2) [OF inv] by simp
  qed
  moreover have "tstate (tasks t p) \<in> {TASK_RUNNING, st}" if "w_blk c p = Some st" for p st
    using comp_invD(5) [OF inv that] other(2) that unfolding waits_on_def by fastforce
  ultimately show ?thesis using inv other by (auto simp: comp_inv_def waits_on_def)
qed

lemma comp_reachable_inv: "comp_reachable K W c d \<Longrightarrow> wait_ops_ok W \<Longrightarrow> comp_inv K c \<Longrightarrow> comp_inv K d"
  by (induction rule: comp_reachable.induct) (blast intro: comp_step_inv)+

section \<open>When a wait returns\<close>

text \<open>
  The loop of \<^verbatim>\<open>do_wait_for_common\<close> unrolled: \<open>wait_world n\<close> is what the waiting task finds after \<open>n\<close> sleeps (time left, completion, state
  of the scheduler), if it has come back from all of them; \<open>wait_over n\<close> says that it does not sleep again then, \<open>wait_outcome n\<close> what
  the call makes of it. A completion goes before the timeout, and the timeout before a signal; before the first
  sleep only a signal counts.
\<close>

type_synonym wait_round = "int \<times> completion \<times> kstate"

definition sleep_once :: "completion sleeper \<Rightarrow> ptr \<Rightarrow> int \<Rightarrow> wait_round \<Rightarrow> wait_round option" where
  "sleep_once sto p st w = (case w of (t, x, s) \<Rightarrow> sto t x (upd_task p (\<lambda>u. u\<lparr>tstate := st\<rparr>) s))"

primrec wait_world :: "completion sleeper \<Rightarrow> ptr \<Rightarrow> int \<Rightarrow> nat \<Rightarrow> wait_round \<Rightarrow> wait_round option" where
  "wait_world sto p st 0 w = Some w"
| "wait_world sto p st (Suc n) w = Option.bind (sleep_once sto p st w) (wait_world sto p st n)"

definition wait_over :: "kenv \<Rightarrow> ptr \<Rightarrow> int \<Rightarrow> nat \<Rightarrow> wait_round \<Rightarrow> bool" where
  "wait_over K p st n w = (case w of (t, x, s) \<Rightarrow>
     signal_pending_state K st p s \<or> n \<noteq> 0 \<and> (cdone x \<noteq> 0 \<or> t = 0))"

definition wait_outcome :: "wait_ops \<Rightarrow> ptr \<Rightarrow> nat \<Rightarrow> wait_round \<Rightarrow> wait_round" where
  "wait_outcome W p n w = (case w of (t, x, s) \<Rightarrow>
     let x1 = x\<lparr>cwait := wo_remove W p (cwait x)\<rparr> in
     if cdone x \<noteq> 0 then (if t \<noteq> 0 then t else 1, x1\<lparr>cdone := cdone x - 1\<rparr>, s)
     else (if n \<noteq> 0 \<and> t = 0 then 0 else - ERESTARTSYS, x1, s))"

text \<open>The wait ends after exactly \<open>n\<close> sleeps, finding \<open>v\<close>.\<close>

definition wait_ends :: "kenv \<Rightarrow> completion sleeper \<Rightarrow> ptr \<Rightarrow> int \<Rightarrow> wait_round \<Rightarrow> nat \<Rightarrow> wait_round \<Rightarrow> bool" where
  "wait_ends K sto p st w n v \<longleftrightarrow> wait_world sto p st n w = Some v \<and> wait_over K p st n v \<and>
     (\<forall>m < n. \<forall>u. wait_world sto p st m w = Some u \<longrightarrow> \<not> wait_over K p st m u)"

lemma wait_over_Suc: "wait_over K p st (Suc n) w = wait_over K p st 1 w"
  by (simp add: wait_over_def)

lemma wait_outcome_Suc: "wait_outcome W p (Suc n) w = wait_outcome W p 1 w"
  by (cases w) (simp add: wait_outcome_def)

text \<open>The rest of the loop, from the test at its end.\<close>

definition wait_rest :: "kenv \<Rightarrow> wait_ops \<Rightarrow> completion sleeper \<Rightarrow> ptr \<Rightarrow> int \<Rightarrow> wait_round \<Rightarrow> wait_round option" where
  "wait_rest K W sto p st w = wait_loop K W sto p st (wait_resume K W p st (fst w) (fst (snd w)) (snd (snd w)))"

lemma wait_loop_Blocked:
  "wait_loop K W sto p st (Blocked t, x, s) = Option.bind (sto t x s) (wait_rest K W sto p st)"
  by (subst wait_loop.simps) (simp add: wait_rest_def [abs_def])

lemma wait_resume_cases:
  "wait_resume K W p st (fst w) (fst (snd w)) (snd (snd w)) =
     (if wait_over K p st 1 w then (Returned (fst (wait_outcome W p 1 w)), snd (wait_outcome W p 1 w))
      else (Blocked (fst w), fst (snd w), upd_task p (\<lambda>u. u\<lparr>tstate := st\<rparr>) (snd (snd w))))"
  by (cases w) (auto simp: wait_resume_def wait_iter_def wait_finish_def wait_take_def wait_over_def wait_outcome_def Let_def ERESTARTSYS_def)

lemma wait_rest_unfold:
  "wait_rest K W sto p st w =
     (if wait_over K p st 1 w then Some (wait_outcome W p 1 w)
      else Option.bind (sleep_once sto p st w) (wait_rest K W sto p st))"
proof (cases "wait_over K p st 1 w")
  case True
  then show ?thesis unfolding wait_rest_def wait_resume_cases by (subst wait_loop.simps) simp
next
  case False
  then show ?thesis
    by (simp add: wait_rest_def [of K W sto p st w] wait_resume_cases wait_loop_Blocked sleep_once_def split: prod.split)
qed

text \<open>What the rest of the loop returns, it returns after some number of sleeps, and conversely.\<close>

definition rest_ends :: "kenv \<Rightarrow> completion sleeper \<Rightarrow> ptr \<Rightarrow> int \<Rightarrow> wait_round \<Rightarrow> nat \<Rightarrow> wait_round \<Rightarrow> bool" where
  "rest_ends K sto p st w n v \<longleftrightarrow> wait_world sto p st n w = Some v \<and> wait_over K p st 1 v \<and>
     (\<forall>m < n. \<forall>u. wait_world sto p st m w = Some u \<longrightarrow> \<not> wait_over K p st 1 u)"

lemma rest_ends_0: "rest_ends K sto p st w 0 v \<longleftrightarrow> v = w \<and> wait_over K p st 1 w"
  by (auto simp: rest_ends_def)

lemma rest_ends_Suc:
  "rest_ends K sto p st w (Suc n) v \<longleftrightarrow>
     \<not> wait_over K p st 1 w \<and> (\<exists>w'. sleep_once sto p st w = Some w' \<and> rest_ends K sto p st w' n v)"
  by (cases "sleep_once sto p st w") (auto simp: rest_ends_def less_Suc_eq_0_disj simp del: split_paired_All split_paired_Ex)

lemma wait_ends_0: "wait_ends K sto p st w 0 v \<longleftrightarrow> v = w \<and> wait_over K p st 0 w"
  by (auto simp: wait_ends_def)

lemma wait_ends_Suc:
  "wait_ends K sto p st w (Suc n) v \<longleftrightarrow>
     \<not> wait_over K p st 0 w \<and> (\<exists>w'. sleep_once sto p st w = Some w' \<and> rest_ends K sto p st w' n v)"
  by (cases "sleep_once sto p st w")
    (auto simp: wait_ends_def rest_ends_def less_Suc_eq_0_disj wait_over_Suc simp del: One_nat_def split_paired_All split_paired_Ex)

lemma wait_rest_ends: "rest_ends K sto p st w n v \<Longrightarrow> wait_rest K W sto p st w = Some (wait_outcome W p 1 v)"
proof (induction n arbitrary: w)
  case 0
  then show ?case by (simp add: rest_ends_0 wait_rest_unfold)
next
  case (Suc n)
  then obtain w' where "\<not> wait_over K p st 1 w" "sleep_once sto p st w = Some w'" "rest_ends K sto p st w' n v"
    by (auto simp: rest_ends_Suc)
  then show ?case using Suc.IH [of w'] by (simp add: wait_rest_unfold [of K W sto p st w])
qed

lemma wait_loop_ends:
  assumes "wait_loop K W sto p st r = Some q"
  shows "\<forall>w. r = wait_resume K W p st (fst w) (fst (snd w)) (snd (snd w)) \<longrightarrow> (\<exists>n v. rest_ends K sto p st w n v \<and> q = wait_outcome W p 1 v)"
  using assms
proof (induct rule: wait_loop.raw_induct [rotated, consumes 1, case_names step])
  case (step wl K W sto p st r q)
  show ?case
  proof (intro allI impI)
    fix w assume r: "r = wait_resume K W p st (fst w) (fst (snd w)) (snd (snd w))"
    show "\<exists>n v. rest_ends K sto p st w n v \<and> q = wait_outcome W p 1 v"
    proof (cases "wait_over K p st 1 w")
      case True
      then have "q = wait_outcome W p 1 w" using step(2) by (simp add: r wait_resume_cases)
      then show ?thesis using True rest_ends_0 by blast
    next
      case False
      then have "Option.bind (sleep_once sto p st w)
          (\<lambda>w'. wl K W sto p st (wait_resume K W p st (fst w') (fst (snd w')) (snd (snd w')))) = Some q"
        using step(2) unfolding r wait_resume_cases [of K W p st w] by (cases w) (simp add: sleep_once_def)
      then obtain w' where w': "sleep_once sto p st w = Some w'"
        "wl K W sto p st (wait_resume K W p st (fst w') (fst (snd w')) (snd (snd w'))) = Some q"
        unfolding bind_eq_Some_conv by blast
      from step(1) [OF w'(2)] obtain n v where "rest_ends K sto p st w' n v" "q = wait_outcome W p 1 v" by blast
      then have "rest_ends K sto p st w (Suc n) v" using False w'(1) by (auto simp: rest_ends_Suc)
      then show ?thesis using \<open>q = wait_outcome W p 1 v\<close> by blast
    qed
  qed
qed

lemma wait_rest_iff: "wait_rest K W sto p st w = Some q \<longleftrightarrow> (\<exists>n v. rest_ends K sto p st w n v \<and> q = wait_outcome W p 1 v)"
  using wait_rest_ends wait_loop_ends [of K W sto p st "wait_resume K W p st (fst w) (fst (snd w)) (snd (snd w))" q]
  unfolding wait_rest_def by blast

lemma wait_from_queue:
  "wait_loop K W sto p st (wait_iter K W p st t x s) = Some q \<longleftrightarrow>
     (\<exists>n v. wait_ends K sto p st (t, x, s) n v \<and> q = wait_outcome W p n v)" if "cdone x = 0"
proof (cases "signal_pending_state K st p s")
  case True
  then have o: "wait_over K p st 0 (t, x, s)" by (simp add: wait_over_def)
  have "wait_ends K sto p st (t, x, s) n v \<longleftrightarrow> n = 0 \<and> v = (t, x, s)" for n v
    using o by (cases n) (auto simp: wait_ends_0 wait_ends_Suc)
  moreover have "wait_loop K W sto p st (wait_iter K W p st t x s) = Some (wait_outcome W p 0 (t, x, s))"
    using True that by (subst wait_loop.simps) (simp add: wait_iter_def wait_finish_def wait_outcome_def Let_def)
  ultimately show ?thesis by auto
next
  case False
  then have o: "\<not> wait_over K p st 0 (t, x, s)" by (simp add: wait_over_def)
  have "wait_loop K W sto p st (wait_iter K W p st t x s) = Option.bind (sleep_once sto p st (t, x, s)) (wait_rest K W sto p st)"
    using False by (simp add: wait_iter_def wait_loop_Blocked sleep_once_def)
  then have "wait_loop K W sto p st (wait_iter K W p st t x s) = Some q \<longleftrightarrow>
      (\<exists>w' n v. sleep_once sto p st (t, x, s) = Some w' \<and> rest_ends K sto p st w' n v \<and> q = wait_outcome W p 1 v)"
    by (simp only: bind_eq_Some_conv wait_rest_iff) blast
  also have "\<dots> \<longleftrightarrow> (\<exists>n v. wait_ends K sto p st (t, x, s) (Suc n) v \<and> q = wait_outcome W p 1 v)"
    unfolding wait_ends_Suc using o by blast
  also have "\<dots> \<longleftrightarrow> (\<exists>n v. wait_ends K sto p st (t, x, s) n v \<and> q = wait_outcome W p n v)"
    by (metis o wait_ends_0 wait_outcome_Suc not0_implies_Suc)
  finally show ?thesis .
qed

text \<open>
  What \<^verbatim>\<open>schedule_timeout\<close> of \<^verbatim>\<open>kernel/timer.c\<close> documents of the time it returns: what is left, and without a timeout
  the argument itself. A wakeup may come at once, so it need not be less.
\<close>

definition timeout_law :: "completion sleeper \<Rightarrow> bool" where
  "timeout_law sto \<longleftrightarrow> (\<forall>t x s t' x' s'. 0 \<le> t \<and> sto t x s = Some (t', x', s') \<longrightarrow>
     0 \<le> t' \<and> t' \<le> t \<and> (t = MAX_SCHEDULE_TIMEOUT \<longrightarrow> t' = t))"

lemma wait_world_time:
  assumes "timeout_law sto"
  shows "wait_world sto p st n (t, x, s) = Some (t', x', s') \<Longrightarrow> 0 \<le> t \<Longrightarrow>
    0 \<le> t' \<and> t' \<le> t \<and> (t = MAX_SCHEDULE_TIMEOUT \<longrightarrow> t' = t)"
proof (induction n arbitrary: t x s)
  case (Suc n)
  obtain t1 x1 s1 where w: "sto t x (upd_task p (\<lambda>u. u\<lparr>tstate := st\<rparr>) s) = Some (t1, x1, s1)"
    "wait_world sto p st n (t1, x1, s1) = Some (t', x', s')"
    using Suc.prems(1) by (auto simp: sleep_once_def bind_eq_Some_conv)
  have "0 \<le> t1 \<and> t1 \<le> t \<and> (t = MAX_SCHEDULE_TIMEOUT \<longrightarrow> t1 = t)"
    using assms w(1) Suc.prems(2) unfolding timeout_law_def by blast
  then show ?case using Suc.IH [OF w(2)] by auto
qed simp

lemma wait_outcome_time:
  assumes "timeout_law sto" and "wait_ends K sto p st (t, x, s) n v" and "0 \<le> t" and "cdone x = 0"
  shows "(fst (wait_outcome W p n v) = - ERESTARTSYS \<or> 0 \<le> fst (wait_outcome W p n v) \<and> fst (wait_outcome W p n v) \<le> max t 1) \<and>
    (fst (wait_outcome W p n v) \<le> 0 \<longrightarrow> cdone (fst (snd (wait_outcome W p n v))) = 0) \<and>
    (t = MAX_SCHEDULE_TIMEOUT \<longrightarrow> fst (wait_outcome W p n v) \<in> {t, - ERESTARTSYS})"
proof -
  obtain t' x' s' where v: "v = (t', x', s')" by (cases v)
  have "0 \<le> t' \<and> t' \<le> t \<and> (t = MAX_SCHEDULE_TIMEOUT \<longrightarrow> t' = t)"
    using wait_world_time [OF assms(1)] assms(2,3) by (auto simp: v wait_ends_def)
  then show ?thesis by (auto simp: v wait_outcome_def Let_def sched_consts max_def)
qed

section \<open>A sample system\<close>

lemma sample_ext_state_ok [simp]: "ext_state_ok sample_env"
  by (auto simp: ext_state_ok_def sample_env_def sample_class_def sample_fair_def inc_nr_running_def sample_idle_def)

lemma sample_wake_env [simp]: "wake_env sample_env sample_sched"
  using sample_sched_ok(1) [of False] by (simp add: wake_env_def sched_ok_def)

definition sample_wsys :: wsys where
  "sample_wsys = \<lparr>w_k = sample_sched, w_x = \<lparr>cdone = 0, cwait = []\<rparr>, w_blk = (\<lambda>_. None), given = 0, taken = 0\<rparr>"

section \<open>Properties\<close>

text \<open>C34: \<^verbatim>\<open>__wake_up\<close> on a queue of ordinary sleepers wakes exactly the tasks whose state matches the mode, in queue order, until
  \<^verbatim>\<open>nr_exclusive\<close> exclusive ones are woken (all for a number that is not positive), and changes no other task's state. The comment at
  \<^verbatim>\<open>__wake_up_common\<close> (all non-exclusive tasks and one exclusive one) fits the case of one exclusive task behind the others.\<close>

theorem wake_up_exact:
  assumes "kenv_ok K" and "ext_state_ok K" and "sched_ok s" and "default_queue es"
  shows "\<exists>t. wake_up K W es mode nr key s = Some t \<and>
    (\<forall>q. tstate (tasks t q) =
      (if \<exists>i < length es. we_private (es ! i) = q \<and> tstate (tasks s q) AND mode \<noteq> 0 \<and>
            (nr \<le> 0 \<or> int (length (filter (\<lambda>e. we_exclusive e \<and> tstate (tasks s (we_private e)) AND mode \<noteq> 0) (take i es))) < nr)
       then TASK_RUNNING else tstate (tasks s q)))"
proof -
  have "wake_env K s" using assms(1-3) by (simp add: wake_env_def sched_ok_def)
  from wake_up_common_ok [OF this assms(4), of W mode nr 0 key] show ?thesis
    unfolding wake_up_def reached_def by blast
qed

theorem wake_up_exact_witness:
  "\<exists>t. wake_up sample_env hol_waits
     [\<lparr>we_exclusive = False, we_private = 11, we_func = Default_wake\<rparr>, \<lparr>we_exclusive = True, we_private = 12, we_func = Default_wake\<rparr>,
      \<lparr>we_exclusive = True, we_private = 20, we_func = Default_wake\<rparr>] TASK_NORMAL 1 0
     (upd_task 20 (\<lambda>t. t\<lparr>tstate := 1\<rparr>) (upd_task 12 (\<lambda>t. t\<lparr>tstate := 1\<rparr>) sample_sched)) = Some t \<and>
     tstate (tasks t 12) = TASK_RUNNING \<and> tstate (tasks t 20) = 1"
proof -
  let ?es = "[\<lparr>we_exclusive = False, we_private = 11, we_func = Default_wake\<rparr>, \<lparr>we_exclusive = True, we_private = 12, we_func = Default_wake\<rparr>,
      \<lparr>we_exclusive = True, we_private = 20, we_func = Default_wake\<rparr>] :: wait_entry list"
  let ?s = "upd_task 20 (\<lambda>t. t\<lparr>tstate := 1\<rparr>) (upd_task 12 (\<lambda>t. t\<lparr>tstate := 1\<rparr>) sample_sched)"
  have "ext_keep sample_sched (upd_task 12 (\<lambda>t. t\<lparr>tstate := 1\<rparr>) sample_sched)" "ext_keep (upd_task 12 (\<lambda>t. t\<lparr>tstate := 1\<rparr>) sample_sched) ?s"
    by (rule ext_keep_upds, simp add: core3_def task_params_def)+
  then have "ext_keep sample_sched ?s" by (rule ext_keep_trans)
  from sched_ok_keep [OF this] have ok: "sched_ok ?s" by simp
  have q: "default_queue ?es" by (simp add: default_queue_def)
  obtain t where t: "wake_up sample_env hol_waits ?es TASK_NORMAL 1 0 ?s = Some t"
    "\<forall>q. tstate (tasks t q) =
      (if \<exists>i < length ?es. we_private (?es ! i) = q \<and> tstate (tasks ?s q) AND TASK_NORMAL \<noteq> 0 \<and>
            ((1 :: int) \<le> 0 \<or> int (length (filter (\<lambda>e. we_exclusive e \<and> tstate (tasks ?s (we_private e)) AND TASK_NORMAL \<noteq> 0) (take i ?es))) < 1)
       then TASK_RUNNING else tstate (tasks ?s q))"
    using wake_up_exact [OF sample_kenv_ok sample_ext_state_ok ok q, of hol_waits TASK_NORMAL 1 0] by blast
  have "tstate (tasks t 12) = TASK_RUNNING" "tstate (tasks t 20) = 1"
    unfolding t(2) [rule_format]
    by (simp_all add: Ex_less_Suc2 sched_consts sample_sched_task sample_tasks_def sample_task_def)
  then show ?thesis using t(1) by blast
qed

text \<open>C35: No wakeup of a completion is lost: however waits, completions, \<^verbatim>\<open>try_wait_for_completion\<close> and the rest of the kernel are
  interleaved, the queue holds exactly the tasks in a wait, the counter is what was given less what was taken (at
  its width), and as many waiters are running as the counter can satisfy.\<close>

theorem completion_no_lost_wakeup:
  assumes "wait_ops_ok W" and "kenv_ok K" and "ext_state_ok K" and "sched_ok (w_k c)"
    and "w_x c = \<lparr>cdone = 0, cwait = []\<rparr>" and "w_blk c = (\<lambda>_. None)" and "given c = 0" and "taken c = 0"
    and "comp_reachable K W c d"
  shows "set (waiting d) = {p. w_blk d p \<noteq> None} \<and> cdone (w_x d) = of_nat (given d) - of_nat (taken d) \<and>
    min (unat (cdone (w_x d))) (length (waiting d)) \<le>
      length (filter (\<lambda>p. tstate (tasks (w_k d) p) = TASK_RUNNING) (waiting d))"
proof -
  have "comp_inv K c"
    using assms(2-8) by (simp add: comp_inv_def default_queue_def wake_env_def sched_ok_def awake_def)
  note i = comp_invD [OF comp_reachable_inv [OF assms(9,1) this]]
  show ?thesis using i(4,6,7) by (auto simp: awake_def)
qed

theorem completion_no_lost_wakeup_witness:
  "\<exists>d. comp_reachable sample_env hol_waits sample_wsys d \<and> waiting d = [31] \<and> cdone (w_x d) = 1 \<and>
     tstate (tasks (w_k d) 31) = TASK_RUNNING"
proof -
  let ?x = "\<lparr>cdone = 0, cwait = [\<lparr>we_exclusive = True, we_private = 31, we_func = Default_wake\<rparr>]\<rparr> :: completion"
  let ?s = "upd_task 31 (\<lambda>t. t\<lparr>tstate := 2\<rparr>) sample_sched"
  let ?c = "sample_wsys\<lparr>w_k := ?s, w_x := ?x, w_blk := [31 \<mapsto> 2]\<rparr>"
  have cur: "curr (rq sample_sched) = 31" by (simp add: sample_sched_task)
  have b: "after_wait 31 2 (cdone (w_x sample_wsys) \<noteq> 0) (wait_begin sample_env hol_waits 31 2 100 (w_x sample_wsys) (w_k sample_wsys)) sample_wsys = ?c"
    by (simp add: after_wait_def wait_begin_def wait_iter_def sample_wsys_def hol_waits_def) (simp add: sample_env_def signal_pending_state_def)
  have s1: "comp_step sample_env hol_waits sample_wsys ?c"
    using comp_step.begin_wait [of 31 sample_wsys 2 sample_env hol_waits 100] unfolding b by (simp add: sample_wsys_def cur sched_consts)
  have w: "wake_env sample_env ?s" by (rule wake_env_state [OF sample_wake_env])
  have q: "default_queue (cwait ?x)" by (simp add: default_queue_def)
  obtain t where "wake_up_common sample_env hol_waits (cwait ?x) TASK_NORMAL 1 0 0 ?s = Some t"
    using wake_up_common_ok [OF w q] by blast
  then have co: "complete sample_env hol_waits (w_x ?c) (w_k ?c) = Some (?x\<lparr>cdone := 1\<rparr>, t)" by (simp add: complete_def)
  define d where "d = ?c\<lparr>w_x := ?x\<lparr>cdone := 1\<rparr>, w_k := t, given := given ?c + 1\<rparr>"
  have d: "comp_step sample_env hol_waits ?c d" "waiting d = [31]" "cdone (w_x d) = 1"
    unfolding d_def by (rule comp_step.one [OF co]) simp_all
  have r: "comp_reachable sample_env hol_waits sample_wsys d"
    using comp_reachable.step [OF comp_reachable.step [OF comp_reachable.start s1] d(1)] .
  have f: "w_x sample_wsys = \<lparr>cdone = 0, cwait = []\<rparr>" "w_blk sample_wsys = (\<lambda>_. None)" "given sample_wsys = 0" "taken sample_wsys = 0"
    "sched_ok (w_k sample_wsys)" by (simp_all add: sample_wsys_def)
  have "tstate (tasks (w_k d) 31) = TASK_RUNNING"
    using completion_no_lost_wakeup [OF hol_waits_ok sample_kenv_ok sample_ext_state_ok f(5,1-4) r] unfolding d(2,3)
    by (simp split: if_splits)
  with r d(2,3) show ?thesis by (intro exI [of _ d] conjI)
qed

text \<open>C36: A wait for a completion returns exactly when, after some number of sleeps, the completion is there, the time is used up,
  or a signal is pending that the state reacts to; it returns after the first such sleep, and otherwise sleeps on. The result is the time
  left (or 1) with the completion taken, else 0 if the time is used up, else \<^verbatim>\<open>-ERESTARTSYS\<close>; in all cases the task has left the
  queue. Nothing is assumed of \<^verbatim>\<open>schedule_timeout\<close> for this. By its documented bounds on the time left the result lies between 0
  and the timeout (or 1), a result of 0 or \<^verbatim>\<open>-ERESTARTSYS\<close> leaves no completion behind, and a wait without timeout
  returns the timeout or \<^verbatim>\<open>-ERESTARTSYS\<close>.\<close>

theorem wait_for_completion_returns:
  "(wait_for_common K W sto x timeout state s = Some q \<longleftrightarrow>
     (if cdone x \<noteq> 0 then q = (if timeout \<noteq> 0 then timeout else 1, x\<lparr>cdone := cdone x - 1\<rparr>, s)
      else \<exists>n v. wait_ends K sto (curr (rq s)) state
          (timeout, x\<lparr>cwait := wo_add_tail_exclusive W (wo_entry W (curr (rq s))) (cwait x)\<rparr>, s) n v \<and>
        q = wait_outcome W (curr (rq s)) n v)) \<and>
   (timeout_law sto \<and> 0 \<le> timeout \<and> wait_for_common K W sto x timeout state s = Some q \<longrightarrow>
     (fst q = - ERESTARTSYS \<or> 0 \<le> fst q \<and> fst q \<le> max timeout 1) \<and> (fst q \<le> 0 \<longrightarrow> cdone (fst (snd q)) = 0) \<and>
     (timeout = MAX_SCHEDULE_TIMEOUT \<longrightarrow> fst q \<in> {timeout, - ERESTARTSYS}))"
proof (cases "cdone x = 0")
  case False
  then have e: "wait_for_common K W sto x timeout state s = Some (if timeout \<noteq> 0 then timeout else 1, x\<lparr>cdone := cdone x - 1\<rparr>, s)"
    by (simp add: wait_for_common_def do_wait_for_common_def wait_begin_def wait_take_def Let_def wait_loop.simps)
  show ?thesis unfolding e using False by (auto simp: sched_consts)
next
  case True
  let ?x = "x\<lparr>cwait := wo_add_tail_exclusive W (wo_entry W (curr (rq s))) (cwait x)\<rparr>"
  have z: "cdone ?x = 0" using True by simp
  have "wait_for_common K W sto x timeout state s = wait_loop K W sto (curr (rq s)) state (wait_iter K W (curr (rq s)) state timeout ?x s)"
    using True by (simp add: wait_for_common_def do_wait_for_common_def wait_begin_def Let_def)
  then have iff: "wait_for_common K W sto x timeout state s = Some q \<longleftrightarrow>
      (\<exists>n v. wait_ends K sto (curr (rq s)) state (timeout, ?x, s) n v \<and> q = wait_outcome W (curr (rq s)) n v)"
    using wait_from_queue [OF z] by simp
  show ?thesis
  proof (intro conjI impI)
    assume a: "timeout_law sto \<and> 0 \<le> timeout \<and> wait_for_common K W sto x timeout state s = Some q"
    then obtain n v where "wait_ends K sto (curr (rq s)) state (timeout, ?x, s) n v" "q = wait_outcome W (curr (rq s)) n v"
      using iff by blast
    with wait_outcome_time [OF _ this(1) _ z, of W] a
    show "fst q = - ERESTARTSYS \<or> 0 \<le> fst q \<and> fst q \<le> max timeout 1" "fst q \<le> 0 \<Longrightarrow> cdone (fst (snd q)) = 0"
      "timeout = MAX_SCHEDULE_TIMEOUT \<Longrightarrow> fst q \<in> {timeout, - ERESTARTSYS}" by blast+
  qed (use True iff in simp)
qed

text \<open>The witness: without a timeout, a first wakeup that leaves the completion as it is, and a second one that signals it.\<close>

definition sample_sleep :: "completion sleeper" where
  "sample_sleep t x s = Some (t, (if nvcsw (tasks s 31) = 0 then x else x\<lparr>cdone := 1\<rparr>), upd_task 31 (\<lambda>u. u\<lparr>nvcsw := nvcsw u + 1\<rparr>) s)"

theorem wait_for_completion_returns_witness:
  "timeout_law sample_sleep \<and>
   (\<exists>x' s'. wait_for_common sample_env hol_waits sample_sleep \<lparr>cdone = 0, cwait = []\<rparr> MAX_SCHEDULE_TIMEOUT TASK_UNINTERRUPTIBLE
     sample_sched = Some (MAX_SCHEDULE_TIMEOUT, x', s') \<and> cdone x' = 0)"
proof -
  have law: "timeout_law sample_sleep" by (auto simp: timeout_law_def sample_sleep_def)
  let ?w = "(MAX_SCHEDULE_TIMEOUT, \<lparr>cdone = 0, cwait = []\<rparr>\<lparr>cwait := wo_add_tail_exclusive hol_waits (wo_entry hol_waits (curr (rq sample_sched)))
     (cwait \<lparr>cdone = 0, cwait = []\<rparr>)\<rparr>, sample_sched)"
  have c: "curr (rq sample_sched) = 31" "nvcsw (tasks sample_sched 31) = 0"
    by (simp_all add: sample_sched_task sample_tasks_def sample_task_def)
  have u: "signal_pending_state sample_env TASK_UNINTERRUPTIBLE p s = False" for p s
    by (simp add: signal_pending_state_def sample_env_def)
  have "\<exists>v. wait_ends sample_env sample_sleep 31 TASK_UNINTERRUPTIBLE ?w 2 v \<and> fst (wait_outcome hol_waits 31 2 v) = MAX_SCHEDULE_TIMEOUT \<and>
      cdone (fst (snd (wait_outcome hol_waits 31 2 v))) = 0"
    using c u by (simp add: wait_ends_Suc rest_ends_Suc rest_ends_0 numeral_2_eq_2 wait_over_def sleep_once_def sample_sleep_def
        wait_outcome_def Let_def) (simp add: sched_consts)
  then obtain v where v: "wait_ends sample_env sample_sleep 31 TASK_UNINTERRUPTIBLE ?w 2 v"
    "fst (wait_outcome hol_waits 31 2 v) = MAX_SCHEDULE_TIMEOUT" "cdone (fst (snd (wait_outcome hol_waits 31 2 v))) = 0" by blast
  obtain x' s' where q: "wait_outcome hol_waits 31 2 v = (MAX_SCHEDULE_TIMEOUT, x', s')" using v(2) by (cases "wait_outcome hol_waits 31 2 v") auto
  have "wait_for_common sample_env hol_waits sample_sleep \<lparr>cdone = 0, cwait = []\<rparr> MAX_SCHEDULE_TIMEOUT TASK_UNINTERRUPTIBLE sample_sched =
      Some (MAX_SCHEDULE_TIMEOUT, x', s')"
    by (rule wait_for_completion_returns [THEN conjunct1, THEN iffD2]) (use v(1) q [symmetric] in \<open>auto simp: c(1) simp del: split_paired_Ex intro!: exI [of _ 2] exI [of _ v]\<close>)
  then show ?thesis using law v(3) q by auto
qed

text \<open>\<^verbatim>\<open>complete_all\<close> adds half the range to an unsigned counter, so a second one and two more completions bring the counter back to
  where it was: at 0, the next wait blocks although the completion was signalled four times.\<close>

lemma complete_all_wraps:
  assumes "complete_all K W x s = Some (x1, s1)" and "complete_all K W x1 s1 = Some (x2, s2)"
    and "complete K W x2 s2 = Some (x3, s3)" and "complete K W x3 s3 = Some (x4, s4)"
  shows "x4 = x \<and> try_wait_for_completion x4 = try_wait_for_completion x"
proof -
  have z: "(4294967296 :: uint32) = 0" by code_simp
  show ?thesis
    using assms by (auto simp: complete_all_def complete_def Let_def half_uint z split: bind_splits)
qed

lemma complete_all_wraps_witness:
  "\<exists>x1 x2 x3 s. complete_all sample_env hol_waits \<lparr>cdone = 0, cwait = []\<rparr> sample_sched = Some (x1, s) \<and>
     complete_all sample_env hol_waits x1 s = Some (x2, s) \<and> complete sample_env hol_waits x2 s = Some (x3, s) \<and>
     complete sample_env hol_waits x3 s = Some (\<lparr>cdone = 0, cwait = []\<rparr>, s) \<and> cdone x3 \<noteq> 0"
proof -
  let ?x = "\<lparr>cdone = 0, cwait = []\<rparr> :: completion"
  have a: "complete_all sample_env hol_waits y sample_sched = Some (y\<lparr>cdone := cdone y + 0xFFFFFFFF div 2\<rparr>, sample_sched)"
    "complete sample_env hol_waits y sample_sched = Some (y\<lparr>cdone := cdone y + 1\<rparr>, sample_sched)" if "cwait y = []" for y
    using that by (simp_all add: complete_all_def complete_def)
  from complete_all_wraps [OF a(1) [of ?x] a(1) a(2) a(2)] show ?thesis
    by (simp add: a half_uint)
qed

end
