(* ===== verification/Cputime.thy ===== *)
theory Cputime
  imports Params
begin

text \<open>
  The accounting of CPU time, \<^verbatim>\<open>core.c\<close> from \<^verbatim>\<open>do_task_delta_exec\<close> to \<^verbatim>\<open>thread_group_times\<close>, and the accounting
  control groups at its end. The configuration sets neither \<^verbatim>\<open>CONFIG_VIRT_CPU_ACCOUNTING\<close> nor
  \<^verbatim>\<open>CONFIG_IRQ_TIME_ACCOUNTING\<close> nor \<^verbatim>\<open>CONFIG_PARAVIRT\<close>: \<^verbatim>\<open>sched_clock_irqtime\<close> is 0 and no time is stolen. \<^verbatim>\<open>cputime_t\<close> is an
  \<^verbatim>\<open>unsigned long\<close> of 32 bits.
\<close>

section \<open>State\<close>

datatype stat_index = CPUTIME_USER | CPUTIME_NICE | CPUTIME_SYSTEM | CPUTIME_SOFTIRQ | CPUTIME_IRQ | CPUTIME_IDLE
  | CPUTIME_IOWAIT | CPUTIME_STEAL | CPUTIME_GUEST | CPUTIME_GUEST_NICE

text \<open>The times of a task or, the last two, of a thread group.\<close>

record cputimes =
  utime :: ulong
  stime :: ulong
  utimescaled :: ulong
  stimescaled :: ulong
  gtime :: ulong
  prev_utime :: ulong
  prev_stime :: ulong

text \<open>
  The calls outside the repository that only record: the thread group's times (\<^verbatim>\<open>account_group_user_time\<close>,
  \<^verbatim>\<open>account_group_system_time\<close>) and \<^verbatim>\<open>acct_update_integrals\<close>.
\<close>

datatype ct_event = Group_user ptr ulong | Group_system ptr ulong | Acct_integrals ptr

record ct_state =
  times :: "ptr \<Rightarrow> cputimes"
  kcpustat :: "stat_index \<Rightarrow> u64"
  ca_cpustat :: "nat \<Rightarrow> stat_index \<Rightarrow> u64"
  ct_events :: "ct_event list"

text \<open>What is read from elsewhere: conversions of times, the contexts the tick has interrupted, \<^verbatim>\<open>nr_iowait\<close> of the run queue.\<close>

record ct_env =
  cputime_one_jiffy :: ulong
  cputime_to_scaled :: "ulong \<Rightarrow> ulong"
  jiffies_to_cputime :: "ulong \<Rightarrow> ulong"
  nsecs_to_cputime :: "u64 \<Rightarrow> ulong"
  cputime64_to_clock_t :: "u64 \<Rightarrow> u64"
  irq_count :: int
  hardirq_count :: int
  in_serving_softirq :: bool
  nr_iowait :: int
  root_cpuacct :: nat

definition PF_VCPU :: int where [sched_consts]: "PF_VCPU = 0x10"

definition upd_times :: "ptr \<Rightarrow> (cputimes \<Rightarrow> cputimes) \<Rightarrow> ct_state \<Rightarrow> ct_state" where
  "upd_times p f c = c\<lparr>times := (times c)(p := f (times c p))\<rparr>"

definition add_stat :: "stat_index \<Rightarrow> u64 \<Rightarrow> ct_state \<Rightarrow> ct_state" where
  "add_stat index d c = c\<lparr>kcpustat := (kcpustat c)(index := kcpustat c index + d)\<rparr>"

definition note_ct :: "ct_event \<Rightarrow> ct_state \<Rightarrow> ct_state" where
  "note_ct e c = c\<lparr>ct_events := e # ct_events c\<rparr>"

section \<open>Run time of a task\<close>

definition do_task_delta_exec :: "kenv \<Rightarrow> ptr \<Rightarrow> kstate \<Rightarrow> u64 \<times> kstate" where
  "do_task_delta_exec K p s =
     (if task_current p s then
        let s1 = update_rq_clock K s; ns = clock_task (rq s1) - exec_start (se (tasks s1 p))
        in (if sint ns < 0 then 0 else ns, s1)
      else (0, s))"

definition task_delta_exec :: "kenv \<Rightarrow> ptr \<Rightarrow> kstate \<Rightarrow> u64 \<times> kstate" where
  "task_delta_exec K p s = do_task_delta_exec K p s"

definition task_sched_runtime :: "kenv \<Rightarrow> ptr \<Rightarrow> kstate \<Rightarrow> u64 \<times> kstate" where
  "task_sched_runtime K p s = (let (d, s1) = do_task_delta_exec K p s in (sum_exec_runtime (se (tasks s p)) + d, s1))"

section \<open>Accounting\<close>

text \<open>The groups of a task are listed from its own upwards; the root is charged first and ends the loop.\<close>

definition task_group_account_field :: "kenv \<Rightarrow> ct_env \<Rightarrow> ptr \<Rightarrow> stat_index \<Rightarrow> u64 \<Rightarrow> kstate \<Rightarrow> ct_state \<Rightarrow> ct_state" where
  "task_group_account_field K E p index tmp s c =
     (let c1 = add_stat index tmp c in
      if \<not> cpuacct_active K then c1
      else c1\<lparr>ca_cpustat := fold (\<lambda>ca f. f(ca := (f ca)(index := f ca index + tmp)))
                (takeWhile (\<lambda>ca. ca \<noteq> root_cpuacct E) (ca_chain s p)) (ca_cpustat c1)\<rparr>)"

definition account_user_time :: "kenv \<Rightarrow> ct_env \<Rightarrow> ptr \<Rightarrow> ulong \<Rightarrow> ulong \<Rightarrow> kstate \<Rightarrow> ct_state \<Rightarrow> ct_state" where
  "account_user_time K E p cputime cputime_scaled s c =
     (let c1 = upd_times p (\<lambda>t. t\<lparr>utime := utime t + cputime, utimescaled := utimescaled t + cputime_scaled\<rparr>) c;
          c2 = note_ct (Group_user p cputime) c1;
          index = (if TASK_NICE (tasks s p) > 0 then CPUTIME_NICE else CPUTIME_USER);
          c3 = task_group_account_field K E p index (ucast cputime) s c2
      in note_ct (Acct_integrals p) c3)"

definition account_guest_time :: "ptr \<Rightarrow> ulong \<Rightarrow> ulong \<Rightarrow> kstate \<Rightarrow> ct_state \<Rightarrow> ct_state" where
  "account_guest_time p cputime cputime_scaled s c =
     (let c1 = upd_times p (\<lambda>t. t\<lparr>utime := utime t + cputime, utimescaled := utimescaled t + cputime_scaled\<rparr>) c;
          c2 = note_ct (Group_user p cputime) c1;
          c3 = upd_times p (\<lambda>t. t\<lparr>gtime := gtime t + cputime\<rparr>) c2
      in if TASK_NICE (tasks s p) > 0
         then add_stat CPUTIME_GUEST_NICE (ucast cputime) (add_stat CPUTIME_NICE (ucast cputime) c3)
         else add_stat CPUTIME_GUEST (ucast cputime) (add_stat CPUTIME_USER (ucast cputime) c3))"

definition account_system_time1 :: "kenv \<Rightarrow> ct_env \<Rightarrow> ptr \<Rightarrow> ulong \<Rightarrow> ulong \<Rightarrow> stat_index \<Rightarrow> kstate \<Rightarrow> ct_state \<Rightarrow> ct_state" where
  "account_system_time1 K E p cputime cputime_scaled index s c =
     (let c1 = upd_times p (\<lambda>t. t\<lparr>stime := stime t + cputime, stimescaled := stimescaled t + cputime_scaled\<rparr>) c;
          c2 = note_ct (Group_system p cputime) c1;
          c3 = task_group_account_field K E p index (ucast cputime) s c2
      in note_ct (Acct_integrals p) c3)"

definition account_system_time :: "kenv \<Rightarrow> ct_env \<Rightarrow> ptr \<Rightarrow> int \<Rightarrow> ulong \<Rightarrow> ulong \<Rightarrow> kstate \<Rightarrow> ct_state \<Rightarrow> ct_state" where
  "account_system_time K E p hardirq_offset cputime cputime_scaled s c =
     (if tflags (tasks s p) AND PF_VCPU \<noteq> 0 \<and> irq_count E - hardirq_offset = 0
      then account_guest_time p cputime cputime_scaled s c
      else
        let index = (if hardirq_count E - hardirq_offset \<noteq> 0 then CPUTIME_IRQ
                     else if in_serving_softirq E then CPUTIME_SOFTIRQ else CPUTIME_SYSTEM)
        in account_system_time1 K E p cputime cputime_scaled index s c)"

definition account_steal_time :: "ulong \<Rightarrow> ct_state \<Rightarrow> ct_state" where
  "account_steal_time cputime c = add_stat CPUTIME_STEAL (ucast cputime) c"

definition account_idle_time :: "ct_env \<Rightarrow> ulong \<Rightarrow> ct_state \<Rightarrow> ct_state" where
  "account_idle_time E cputime c =
     (if nr_iowait E > 0 then add_stat CPUTIME_IOWAIT (ucast cputime) c else add_stat CPUTIME_IDLE (ucast cputime) c)"

definition steal_account_process_tick :: bool where
  "steal_account_process_tick = False"

text \<open>\<open>hardirq_offset\<close> is \<^verbatim>\<open>HARDIRQ_OFFSET\<close> of \<^verbatim>\<open>linux/hardirq.h\<close>: the tick itself runs in a hard interrupt.\<close>

definition account_process_tick :: "kenv \<Rightarrow> ct_env \<Rightarrow> int \<Rightarrow> ptr \<Rightarrow> bool \<Rightarrow> kstate \<Rightarrow> ct_state \<Rightarrow> ct_state" where
  "account_process_tick K E hardirq_offset p user_tick s c =
     (let one_jiffy_scaled = cputime_to_scaled E (cputime_one_jiffy E) in
      if steal_account_process_tick then c
      else if user_tick then account_user_time K E p (cputime_one_jiffy E) one_jiffy_scaled s c
      else if p \<noteq> idle (rq s) \<or> irq_count E \<noteq> hardirq_offset
      then account_system_time K E p hardirq_offset (cputime_one_jiffy E) one_jiffy_scaled s c
      else account_idle_time E (cputime_one_jiffy E) c)"

definition account_steal_ticks :: "ct_env \<Rightarrow> ulong \<Rightarrow> ct_state \<Rightarrow> ct_state" where
  "account_steal_ticks E ticks c = account_steal_time (jiffies_to_cputime E ticks) c"

definition account_idle_ticks :: "ct_env \<Rightarrow> ulong \<Rightarrow> ct_state \<Rightarrow> ct_state" where
  "account_idle_ticks E ticks c = account_idle_time E (jiffies_to_cputime E ticks) c"

section \<open>The times a process reads\<close>

text \<open>\<^verbatim>\<open>div_u64\<close> of a 64-bit product by a 32-bit total; the quotient is cut to 32 bits.\<close>

definition scale_utime :: "ulong \<Rightarrow> ulong \<Rightarrow> ulong \<Rightarrow> ulong" where
  "scale_utime ut rtime tot = ucast ((ucast rtime * ucast ut :: u64) div ucast tot)"

definition task_times :: "ct_env \<Rightarrow> ptr \<Rightarrow> kstate \<Rightarrow> ct_state \<Rightarrow> (ulong \<times> ulong) \<times> ct_state" where
  "task_times E p s c =
     (let t = times c p;
          total1 = utime t + stime t;
          rtime = nsecs_to_cputime E (sum_exec_runtime (se (tasks s p)));
          ut = (if total1 \<noteq> 0 then scale_utime (utime t) rtime total1 else rtime);
          c1 = upd_times p (\<lambda>t. t\<lparr>prev_utime := max (prev_utime t) ut\<rparr>) c;
          c2 = upd_times p (\<lambda>t. t\<lparr>prev_stime := max (prev_stime t) (rtime - prev_utime t)\<rparr>) c1
      in ((prev_utime (times c2 p), prev_stime (times c2 p)), c2))"

text \<open>The thread group: \<^verbatim>\<open>thread_group_cputime\<close> (\<^verbatim>\<open>kernel/posix-cpu-timers.c\<close>) is the argument; \<open>sig\<close> is the key of the signal structure.\<close>

definition thread_group_times :: "ct_env \<Rightarrow> (ulong \<times> ulong \<times> u64) \<Rightarrow> ptr \<Rightarrow> ct_state \<Rightarrow> (ulong \<times> ulong) \<times> ct_state" where
  "thread_group_times E cputime sig c =
     (case cputime of (ut0, st0, exec) \<Rightarrow>
        let total1 = ut0 + st0;
            rtime = nsecs_to_cputime E exec;
            ut = (if total1 \<noteq> 0 then scale_utime ut0 rtime total1 else rtime);
            c1 = upd_times sig (\<lambda>t. t\<lparr>prev_utime := max (prev_utime t) ut\<rparr>) c;
            c2 = upd_times sig (\<lambda>t. t\<lparr>prev_stime := max (prev_stime t) (rtime - prev_utime t)\<rparr>) c1
        in ((prev_utime (times c2 sig), prev_stime (times c2 sig)), c2))"

section \<open>Accounting groups\<close>

text \<open>
  Creation takes the results of the three allocations; it returns the group or \<^verbatim>\<open>-ENOMEM\<close>, with what stays allocated.
\<close>

definition ENOMEM :: int where [sched_consts]: "ENOMEM = 12"

datatype ca_part = Ca_struct | Ca_usage | Ca_stat

definition cpuacct_create :: "ct_env \<Rightarrow> bool \<Rightarrow> nat option \<Rightarrow> bool \<Rightarrow> bool \<Rightarrow> (int + nat) \<times> ca_part list" where
  "cpuacct_create E has_parent kzalloc usage_ok stat_ok =
     (if \<not> has_parent then (Inr (root_cpuacct E), [])
      else case kzalloc of
        None \<Rightarrow> (Inl (- ENOMEM), [])
      | Some ca \<Rightarrow>
          let live = [Ca_struct] in
          if \<not> usage_ok then (Inl (- ENOMEM), removeAll Ca_struct live)
          else
            let live1 = Ca_usage # live in
            if \<not> stat_ok then (Inl (- ENOMEM), removeAll Ca_struct (removeAll Ca_usage live1))
            else (Inr ca, Ca_stat # live1))"

definition cpuacct_destroy :: "ca_part list \<Rightarrow> ca_part list" where
  "cpuacct_destroy live = removeAll Ca_struct (removeAll Ca_usage (removeAll Ca_stat live))"

definition cpuacct_cpuusage_read :: "nat \<Rightarrow> kstate \<Rightarrow> u64" where
  "cpuacct_cpuusage_read ca s = cpuusage s ca"

definition cpuacct_cpuusage_write :: "nat \<Rightarrow> u64 \<Rightarrow> kstate \<Rightarrow> kstate" where
  "cpuacct_cpuusage_write ca val s = s\<lparr>cpuusage := (cpuusage s)(ca := val)\<rparr>"

definition cpuusage_read :: "nat \<Rightarrow> kstate \<Rightarrow> u64" where
  "cpuusage_read ca s = 0 + cpuacct_cpuusage_read ca s"

definition cpuusage_write :: "nat \<Rightarrow> u64 \<Rightarrow> kstate \<Rightarrow> int \<times> kstate" where
  "cpuusage_write ca reset s = (if reset \<noteq> 0 then (- EINVAL, s) else (0, cpuacct_cpuusage_write ca 0 s))"

definition cpuacct_percpu_seq_read :: "nat \<Rightarrow> kstate \<Rightarrow> u64 list" where
  "cpuacct_percpu_seq_read ca s = [cpuacct_cpuusage_read ca s]"

text \<open>The root's counters are those of the CPU. The two values are the user and the system line.\<close>

definition cpustat_of :: "ct_env \<Rightarrow> nat \<Rightarrow> ct_state \<Rightarrow> stat_index \<Rightarrow> u64" where
  "cpustat_of E ca c = (if ca = root_cpuacct E then kcpustat c else ca_cpustat c ca)"

definition cpuacct_stats_show :: "ct_env \<Rightarrow> nat \<Rightarrow> ct_state \<Rightarrow> u64 \<times> u64" where
  "cpuacct_stats_show E ca c =
     (let f = cpustat_of E ca c in
      (cputime64_to_clock_t E (f CPUTIME_USER + f CPUTIME_NICE),
       cputime64_to_clock_t E (f CPUTIME_SYSTEM + f CPUTIME_IRQ + f CPUTIME_SOFTIRQ)))"

end
