(* ===== verification/Cputime_Props.thy ===== *)
theory Cputime_Props
  imports Cputime Params_Calls
begin

text \<open>
  CPU time: the counters are exactly the histogram of the ticks, and the times a process reads are monotone and never fall behind its run
  time.
\<close>

section \<open>Ticks\<close>

definition busy_and_idle :: "stat_index list" where
  "busy_and_idle = [CPUTIME_USER, CPUTIME_NICE, CPUTIME_SYSTEM, CPUTIME_SOFTIRQ, CPUTIME_IRQ, CPUTIME_IDLE, CPUTIME_IOWAIT]"

definition cpu_total :: "ct_state \<Rightarrow> u64" where
  "cpu_total c = sum_list (map (kcpustat c) busy_and_idle)"

lemma add_stat_total:
  "cpu_total (add_stat i d c) = cpu_total c + (if i \<in> set busy_and_idle then d else 0)"
  by (cases i) (simp_all add: cpu_total_def busy_and_idle_def add_stat_def algebra_simps)

lemma total_other [simp]:
  "cpu_total (upd_times p f c) = cpu_total c" "cpu_total (note_ct e c) = cpu_total c"
  "cpu_total (c\<lparr>ca_cpustat := g\<rparr>) = cpu_total c"
  by (simp_all add: cpu_total_def upd_times_def note_ct_def)

lemma times_other [simp]:
  "times (upd_times p f c) = (times c)(p := f (times c p))" "times (note_ct e c) = times c" "times (add_stat i d c) = times c"
  by (simp_all add: upd_times_def note_ct_def add_stat_def)

lemma group_field [simp]:
  "cpu_total (task_group_account_field K E p i d s c) = cpu_total (add_stat i d c)"
  "times (task_group_account_field K E p i d s c) = times c"
  by (simp_all add: task_group_account_field_def Let_def add_stat_def)

lemmas account_defs = account_user_time_def account_guest_time_def account_system_time_def account_system_time1_def account_idle_time_def

section \<open>Scaling\<close>

lemma scale_utime_unat:
  assumes "unat u \<le> unat tot" and "tot \<noteq> 0"
  shows "unat (scale_utime u r tot) = unat r * unat u div unat tot" and "unat r * unat u div unat tot \<le> unat r"
proof -
  have pos: "0 < unat tot" using assms(2) by (simp add: unat_gt_0)
  show le: "unat r * unat u div unat tot \<le> unat r"
    using div_le_mono [OF mult_le_mono2 [OF assms(1), of "unat r"], of "unat tot"] pos by simp
  have lt: "unat r < 2 ^ 32" "unat u < 2 ^ 32" "unat tot < 2 ^ 32" using unsigned_less [of r] unsigned_less [of u] unsigned_less [of tot] by simp_all
  have "unat r * unat u \<le> (2 ^ 32 - 1) * (2 ^ 32 - 1)" using lt by (intro mult_le_mono) simp_all
  then have m: "unat (ucast r * ucast u :: u64) = unat r * unat u"
    using lt by (simp add: unat_word_ariths unsigned_ucast_eq take_bit_nat_eq_self)
  have "unat r * unat u div unat tot < 2 ^ 32" using le lt by linarith
  then have "take_bit 32 (unat r * unat u div unat tot) = unat r * unat u div unat tot" by (rule take_bit_nat_eq_self)
  moreover have "take_bit 64 (unat tot) = unat tot" by (rule take_bit_nat_eq_self) (use lt in simp)
  ultimately show "unat (scale_utime u r tot) = unat r * unat u div unat tot"
    by (simp add: scale_utime_def unsigned_ucast_eq unat_div m)
qed

section \<open>Reading the times\<close>

definition rtime_of :: "ct_env \<Rightarrow> kstate \<Rightarrow> ptr \<Rightarrow> ulong" where
  "rtime_of E s p = nsecs_to_cputime E (sum_exec_runtime (se (tasks s p)))"

definition ticks_fit :: "ct_state \<Rightarrow> ptr \<Rightarrow> bool" where
  "ticks_fit c p \<longleftrightarrow> unat (utime (times c p)) + unat (stime (times c p)) < 2 ^ 32"

text \<open>
  What happens to the times: ticks, run time that grows (while its conversion to \<^verbatim>\<open>cputime_t\<close> fits), and reads, while the
  counters of ticks fit.
\<close>

inductive time_step :: "kenv \<Rightarrow> ct_env \<Rightarrow> kstate \<times> ct_state \<Rightarrow> kstate \<times> ct_state \<Rightarrow> bool" for K E where
  tick: "time_step K E (s, c) (s, account_process_tick K E off p user s c)"
| run: "(\<And>q. unat (rtime_of E s q) \<le> unat (rtime_of E t q)) \<Longrightarrow> time_step K E (s, c) (t, c)"
| read: "ticks_fit c p \<Longrightarrow> task_times E p s c = (r, c') \<Longrightarrow> time_step K E (s, c) (s, c')"

inductive time_reachable :: "kenv \<Rightarrow> ct_env \<Rightarrow> kstate \<times> ct_state \<Rightarrow> kstate \<times> ct_state \<Rightarrow> bool" for K E a where
  start: "time_reachable K E a a"
| step: "time_reachable K E a b \<Longrightarrow> time_step K E b c \<Longrightarrow> time_reachable K E a c"

definition reads_ok :: "ct_env \<Rightarrow> kstate \<times> ct_state \<Rightarrow> bool" where
  "reads_ok E b \<longleftrightarrow> (\<forall>q. prev_utime (times (snd b) q) \<le> rtime_of E (fst b) q \<and> prev_stime (times (snd b) q) \<le> rtime_of E (fst b) q)"

lemma account_prev:
  "prev_utime (times (account_process_tick K E off p user s c) q) = prev_utime (times c q) \<and>
   prev_stime (times (account_process_tick K E off p user s c) q) = prev_stime (times c q)"
  by (simp add: account_process_tick_def account_defs Let_def)

lemma task_times_read:
  assumes fit: "ticks_fit c p" and prev: "prev_utime (times c p) \<le> rtime_of E s p" "prev_stime (times c p) \<le> rtime_of E s p"
  obtains ut st c' where "task_times E p s c = ((ut, st), c')" and "prev_utime (times c p) \<le> ut" and "prev_stime (times c p) \<le> st"
    and "ut \<le> rtime_of E s p" and "st \<le> rtime_of E s p" and "unat (rtime_of E s p) \<le> unat ut + unat st"
    and "times c' = (times c)(p := (times c p)\<lparr>prev_utime := ut, prev_stime := st\<rparr>)"
proof -
  let ?t = "times c p" and ?r = "rtime_of E s p"
  define tot where "tot = utime ?t + stime ?t"
  define u where "u = (if tot \<noteq> 0 then scale_utime (utime ?t) ?r tot else ?r)"
  define ut where "ut = max (prev_utime ?t) u"
  define st where "st = max (prev_stime ?t) (?r - ut)"
  have "unat tot = unat (utime ?t) + unat (stime ?t)"
    using fit by (simp add: tot_def ticks_fit_def unat_word_ariths)
  then have "u \<le> ?r" using scale_utime_unat(1,2) [of "utime ?t" tot ?r] by (simp add: u_def word_le_nat_alt)
  then have ut: "ut \<le> ?r" using prev(1) by (simp add: ut_def)
  have sub: "?r - ut \<le> ?r" "unat (?r - ut) = unat ?r - unat ut"
    by (rule word_sub_le [OF ut], rule unat_sub [OF ut])
  have "unat (?r - ut) \<le> unat st" unfolding st_def by (rule word_le_nat_alt [THEN iffD1]) simp
  then have sum: "unat ?r \<le> unat ut + unat st" using sub(2) by linarith
  have eq: "task_times E p s c = ((ut, st), upd_times p (\<lambda>t. t\<lparr>prev_utime := ut, prev_stime := st\<rparr>) c)"
    by (simp add: task_times_def Let_def ut_def st_def u_def tot_def rtime_of_def upd_times_def)
  have "prev_utime ?t \<le> ut" "prev_stime ?t \<le> st" unfolding ut_def st_def by (rule max.cobounded1)+
  moreover have "st \<le> ?r" unfolding st_def by (rule max.boundedI [OF prev(2) sub(1)])
  ultimately show thesis
    by (rule that [OF eq _ _ ut _ sum]) (rule times_other(1))
qed

lemma time_step_ok:
  assumes "time_step K E b d" and "reads_ok E b"
  shows "reads_ok E d"
  using assms(1)
proof cases
  case (tick s c off p user)
  then show ?thesis using assms(2) by (simp add: reads_ok_def account_prev)
next
  case (run s t c)
  have "rtime_of E s q \<le> rtime_of E t q" for q using run(3) [of q] by (rule word_le_nat_alt [THEN iffD2])
  then show ?thesis using assms(2) unfolding reads_ok_def run(1,2) fst_conv snd_conv by (blast intro: order_trans)
next
  case (read c p s r c')
  have old: "prev_utime (times c q) \<le> rtime_of E s q" "prev_stime (times c q) \<le> rtime_of E s q" for q
    using assms(2) read(1) by (simp_all add: reads_ok_def)
  obtain ut st where "ut \<le> rtime_of E s p" "st \<le> rtime_of E s p" "times c' = (times c)(p := (times c p)\<lparr>prev_utime := ut, prev_stime := st\<rparr>)"
    using task_times_read [OF read(3) old(1) old(2)] read(4) by (metis prod.inject)
  then show ?thesis using old by (simp add: reads_ok_def read(2))
qed

lemma time_reachable_ok: "time_reachable K E a b \<Longrightarrow> reads_ok E a \<Longrightarrow> reads_ok E b"
  by (induction rule: time_reachable.induct) (blast intro: time_step_ok)+

section \<open>Accounting groups\<close>

text \<open>A failed creation leaves nothing allocated, and destroying a created group frees all of it.\<close>

lemma cpuacct_create_no_leak:
  "cpuacct_create E True k u st = (Inl e, live) \<Longrightarrow> live = [] \<and> e = - ENOMEM"
  "cpuacct_create E True k u st = (Inr ca, live) \<Longrightarrow> k = Some ca \<and> cpuacct_destroy live = []"
  by (auto simp: cpuacct_create_def cpuacct_destroy_def Let_def split: option.splits if_splits)

lemma cpuusage_write_read:
  "cpuusage_write ca 0 s = (0, t) \<Longrightarrow> cpuusage_read ca t = 0"
  by (auto simp: cpuusage_write_def cpuusage_read_def cpuacct_cpuusage_read_def cpuacct_cpuusage_write_def)

lemma fold_charge:
  "distinct cas \<Longrightarrow> fold (\<lambda>ca f. f(ca := (f ca)(i := f ca i + d))) cas g ca =
     (if ca \<in> set cas then (g ca)(i := g ca i + d) else g ca)"
  by (induction cas arbitrary: g) auto

lemma group_charged:
  assumes "cpuacct_active K" and "distinct (ca_chain s p)"
  shows "ca_cpustat (task_group_account_field K E p i d s c) ca =
    (if ca \<in> set (takeWhile (\<lambda>ca. ca \<noteq> root_cpuacct E) (ca_chain s p))
     then (ca_cpustat c ca)(i := ca_cpustat c ca i + d) else ca_cpustat c ca)"
  using assms fold_charge [OF distinct_takeWhile [OF assms(2)], of i d "\<lambda>ca. ca \<noteq> root_cpuacct E" "ca_cpustat c" ca]
  by (simp add: task_group_account_field_def Let_def add_stat_def)

section \<open>The counters as a histogram of the ticks\<close>

text \<open>
  A tick as the documentation sees it: what it interrupted, and the lines of \<^verbatim>\<open>/proc/stat\<close> it belongs to. Guest time is part of
  user time, so a guest tick is in two lines. \<open>off\<close> is \<^verbatim>\<open>HARDIRQ_OFFSET\<close>, what the tick's own interrupt adds to the counts.
\<close>

datatype tick_kind = Tick_user | Tick_guest | Tick_hardirq | Tick_softirq | Tick_kernel | Tick_idle | Tick_iowait

record tick =
  tk_env :: ct_env
  tk_task :: ptr
  tk_user :: bool
  tk_state :: kstate

definition tick_kind :: "int \<Rightarrow> tick \<Rightarrow> tick_kind" where
  "tick_kind off k =
     (let E = tk_env k; p = tk_task k; s = tk_state k; nested = (irq_count E \<noteq> off) in
      if tk_user k then Tick_user
      else if p = idle (rq s) \<and> \<not> nested then (if nr_iowait E > 0 then Tick_iowait else Tick_idle)
      else if tflags (tasks s p) AND PF_VCPU \<noteq> 0 \<and> \<not> nested then Tick_guest
      else if hardirq_count E \<noteq> off then Tick_hardirq
      else if in_serving_softirq E then Tick_softirq
      else Tick_kernel)"

definition tick_nice :: "tick \<Rightarrow> bool" where
  "tick_nice k = (TASK_NICE (tasks (tk_state k) (tk_task k)) > 0)"

fun tick_lines :: "tick_kind \<Rightarrow> bool \<Rightarrow> stat_index list" where
  "tick_lines Tick_user nice = [if nice then CPUTIME_NICE else CPUTIME_USER]"
| "tick_lines Tick_guest nice = (if nice then [CPUTIME_NICE, CPUTIME_GUEST_NICE] else [CPUTIME_USER, CPUTIME_GUEST])"
| "tick_lines Tick_hardirq nice = [CPUTIME_IRQ]"
| "tick_lines Tick_softirq nice = [CPUTIME_SOFTIRQ]"
| "tick_lines Tick_kernel nice = [CPUTIME_SYSTEM]"
| "tick_lines Tick_idle nice = [CPUTIME_IDLE]"
| "tick_lines Tick_iowait nice = [CPUTIME_IOWAIT]"

text \<open>The time of the ticks that satisfy \<open>P\<close>, in counters of 64 and of 32 bits.\<close>

definition time_of :: "(tick \<Rightarrow> bool) \<Rightarrow> tick list \<Rightarrow> u64" where
  "time_of P ks = sum_list (map (\<lambda>k. ucast (cputime_one_jiffy (tk_env k))) (filter P ks))"

definition cputime_of :: "(tick \<Rightarrow> bool) \<Rightarrow> tick list \<Rightarrow> ulong" where
  "cputime_of P ks = sum_list (map (\<lambda>k. cputime_one_jiffy (tk_env k)) (filter P ks))"

definition in_line :: "int \<Rightarrow> stat_index \<Rightarrow> tick \<Rightarrow> bool" where
  "in_line off i k \<longleftrightarrow> i \<in> set (tick_lines (tick_kind off k) (tick_nice k))"

text \<open>Groups count the ticks of the tasks below them; guest and idle time is not accounted to groups.\<close>

definition in_group :: "int \<Rightarrow> nat \<Rightarrow> stat_index \<Rightarrow> tick \<Rightarrow> bool" where
  "in_group off g i k \<longleftrightarrow> in_line off i k \<and> tick_kind off k \<notin> {Tick_guest, Tick_idle, Tick_iowait} \<and>
     g \<in> set (takeWhile (\<lambda>ca. ca \<noteq> root_cpuacct (tk_env k)) (ca_chain (tk_state k) (tk_task k)))"

definition account_tick :: "kenv \<Rightarrow> int \<Rightarrow> tick \<Rightarrow> ct_state \<Rightarrow> ct_state" where
  "account_tick K off k c = account_process_tick K (tk_env k) off (tk_task k) (tk_user k) (tk_state k) c"

text \<open>One tick.\<close>

lemma kcpustat_other [simp]:
  "kcpustat (upd_times p f c) = kcpustat c" "kcpustat (note_ct e c) = kcpustat c" "kcpustat (add_stat i d c) = (kcpustat c)(i := kcpustat c i + d)"
  "kcpustat (task_group_account_field K E p i d s c) = (kcpustat c)(i := kcpustat c i + d)"
  by (simp_all add: upd_times_def note_ct_def add_stat_def task_group_account_field_def Let_def)

lemma ca_cpustat_other [simp]:
  "ca_cpustat (upd_times p f c) = ca_cpustat c" "ca_cpustat (note_ct e c) = ca_cpustat c" "ca_cpustat (add_stat i d c) = ca_cpustat c"
  by (simp_all add: upd_times_def note_ct_def add_stat_def)

lemmas account_tick_defs = account_tick_def account_process_tick_def steal_account_process_tick_def account_defs Let_def

lemma account_tick_lines:
  "kcpustat (account_tick K off k c) i =
     kcpustat c i + (if in_line off i k then ucast (cputime_one_jiffy (tk_env k)) else 0)"
  by (simp add: account_tick_defs in_line_def tick_kind_def tick_nice_def)

lemma account_tick_times:
  "times (account_tick K off k c) q =
     (let t = times c q; j = cputime_one_jiffy (tk_env k); j' = cputime_to_scaled (tk_env k) j in
      if q \<noteq> tk_task k then t
      else case tick_kind off k of
        Tick_user \<Rightarrow> t\<lparr>utime := utime t + j, utimescaled := utimescaled t + j'\<rparr>
      | Tick_guest \<Rightarrow> t\<lparr>utime := utime t + j, utimescaled := utimescaled t + j', gtime := gtime t + j\<rparr>
      | Tick_idle \<Rightarrow> t
      | Tick_iowait \<Rightarrow> t
      | _ \<Rightarrow> t\<lparr>stime := stime t + j, stimescaled := stimescaled t + j'\<rparr>)"
  by (simp add: account_tick_defs tick_kind_def)

lemma account_tick_groups:
  assumes "cpuacct_active K" and "distinct (ca_chain (tk_state k) (tk_task k))"
  shows "ca_cpustat (account_tick K off k c) g i =
    ca_cpustat c g i + (if in_group off g i k then ucast (cputime_one_jiffy (tk_env k)) else 0)"
  using group_charged [OF assms, of "tk_env k"]
  by (simp add: account_tick_defs in_group_def in_line_def tick_kind_def tick_nice_def)

lemma account_tick_total: "cpu_total (account_tick K off k c) = cpu_total c + ucast (cputime_one_jiffy (tk_env k))"
  by (simp add: account_tick_defs add_stat_total busy_and_idle_def)

lemma time_of_Cons:
  "time_of P (k # ks) = (if P k then ucast (cputime_one_jiffy (tk_env k)) else 0) + time_of P ks"
  "cputime_of P (k # ks) = (if P k then cputime_one_jiffy (tk_env k) else 0) + cputime_of P ks"
  by (simp_all add: time_of_def cputime_of_def)

lemma time_of_Nil: "time_of P [] = 0" "cputime_of P [] = 0"
  by (simp_all add: time_of_def cputime_of_def)

section \<open>Properties\<close>

text \<open>C37: After any sequence of ticks, whatever each of them interrupted, every line of the CPU has grown by exactly the jiffies of the
  ticks that belong to it: user ticks to \<^verbatim>\<open>NICE\<close> or \<^verbatim>\<open>USER\<close> by the nice value of the task, guest ticks there and to the guest line, ticks
  inside the kernel to \<^verbatim>\<open>IRQ\<close>, \<^verbatim>\<open>SOFTIRQ\<close> or \<^verbatim>\<open>SYSTEM\<close> by the context, idle ticks to \<^verbatim>\<open>IOWAIT\<close> or \<^verbatim>\<open>IDLE\<close>. The user, system and guest time of every
  task has grown by its own ticks, each accounting group has what the tasks below it used, and no tick is lost or counted
  twice in the total of the busy and idle lines. Sums are those of the counters, which wrap at their width. The accounting
  groups are in use, and no group is its own ancestor.\<close>

theorem ticks_accounted_exactly:
  assumes "cpuacct_active K" and "\<forall>k \<in> set ks. distinct (ca_chain (tk_state k) (tk_task k))"
  shows "kcpustat (fold (account_tick K off) ks c) i = kcpustat c i + time_of (in_line off i) ks \<and>
    utime (times (fold (account_tick K off) ks c) q) =
      utime (times c q) + cputime_of (\<lambda>k. tk_task k = q \<and> tick_kind off k \<in> {Tick_user, Tick_guest}) ks \<and>
    stime (times (fold (account_tick K off) ks c) q) =
      stime (times c q) + cputime_of (\<lambda>k. tk_task k = q \<and> tick_kind off k \<in> {Tick_hardirq, Tick_softirq, Tick_kernel}) ks \<and>
    gtime (times (fold (account_tick K off) ks c) q) =
      gtime (times c q) + cputime_of (\<lambda>k. tk_task k = q \<and> tick_kind off k = Tick_guest) ks \<and>
    ca_cpustat (fold (account_tick K off) ks c) g i = ca_cpustat c g i + time_of (in_group off g i) ks \<and>
    cpu_total (fold (account_tick K off) ks c) = cpu_total c + time_of (\<lambda>_. True) ks"
  using assms(2)
proof (induction ks arbitrary: c)
  case (Cons k ks)
  have "distinct (ca_chain (tk_state k) (tk_task k))" using Cons.prems by simp
  note step = account_tick_lines account_tick_groups [OF assms(1) this] account_tick_total
  show ?case
    using Cons.IH [of "account_tick K off k c"] Cons.prems
    by (simp add: step time_of_Cons account_tick_times Let_def algebra_simps split: tick_kind.split)
qed (simp add: time_of_Nil)

text \<open>C38: The times a process reads never go back and never fall behind: with prior reads, ticks and run time in any order, a read
  returns a user and a system time that are not below the last ones, not above the run time, and together not
  below it.\<close>

theorem process_times_monotone:
  assumes "time_reachable K E (s0, c0) (s, c)" and "\<forall>q. prev_utime (times c0 q) = 0 \<and> prev_stime (times c0 q) = 0" and "ticks_fit c p"
  shows "\<exists>ut st c'. task_times E p s c = ((ut, st), c') \<and> prev_utime (times c p) \<le> ut \<and> prev_stime (times c p) \<le> st \<and>
    ut \<le> rtime_of E s p \<and> st \<le> rtime_of E s p \<and> unat (rtime_of E s p) \<le> unat ut + unat st"
proof -
  have "reads_ok E (s, c)" by (rule time_reachable_ok [OF assms(1)]) (simp add: reads_ok_def assms(2))
  then have "prev_utime (times c p) \<le> rtime_of E s p" "prev_stime (times c p) \<le> rtime_of E s p" by (simp_all add: reads_ok_def)
  from task_times_read [OF assms(3) this] show ?thesis by metis
qed

definition sample_ct_env :: ct_env where
  "sample_ct_env = \<lparr>cputime_one_jiffy = 1, cputime_to_scaled = id, jiffies_to_cputime = id, nsecs_to_cputime = (\<lambda>n. ucast (n div 10000000)),
     cputime64_to_clock_t = id, irq_count = 65536, hardirq_count = 65536, in_serving_softirq = False, nr_iowait = 0, root_cpuacct = 0\<rparr>"

definition sample_ct :: ct_state where
  "sample_ct = \<lparr>times = (\<lambda>_. \<lparr>utime = 0, stime = 0, utimescaled = 0, stimescaled = 0, gtime = 0, prev_utime = 0, prev_stime = 0\<rparr>),
     kcpustat = (\<lambda>_. 0), ca_cpustat = (\<lambda>_ _. 0), ct_events = []\<rparr>"

text \<open>A user tick of the task at 10 and one that interrupts the idle task.\<close>

definition sample_tick :: "ptr \<Rightarrow> bool \<Rightarrow> tick" where
  "sample_tick p user = \<lparr>tk_env = sample_ct_env, tk_task = p, tk_user = user, tk_state = sample_sched\<rparr>"

theorem ticks_accounted_exactly_witness:
  "kcpustat (fold (account_tick sample_env 65536) [sample_tick 10 True, sample_tick 1 False] sample_ct) CPUTIME_IDLE = 1 \<and>
   utime (times (fold (account_tick sample_env 65536) [sample_tick 10 True, sample_tick 1 False] sample_ct) 10) = 1 \<and>
   ca_cpustat (fold (account_tick sample_env 65536) [sample_tick 10 True, sample_tick 1 False] sample_ct) 1 CPUTIME_USER = 1"
proof -
  have k: "tick_kind 65536 (sample_tick 10 True) = Tick_user" "tick_kind 65536 (sample_tick 1 False) = Tick_idle"
    "\<not> tick_nice (sample_tick 10 True)" "cputime_one_jiffy (tk_env (sample_tick p u)) = 1" "tk_task (sample_tick p u) = p"
    "root_cpuacct (tk_env (sample_tick p u)) = 0" "ca_chain (tk_state (sample_tick p u)) q = [1, 0]" for p q u
    by (simp_all add: tick_kind_def tick_nice_def sample_tick_def sample_ct_env_def Let_def TASK_NICE_def sample_sched_task sample_tasks_def sample_task_def
        PRIO_TO_NICE_def sched_consts sample_sched0_def sample_rt0_def sample_state_def sample_rq_def)
  have a: "cpuacct_active sample_env" "\<forall>k \<in> set [sample_tick 10 True, sample_tick 1 False]. distinct (ca_chain (tk_state k) (tk_task k))"
    by (simp_all add: k) (simp add: sample_env_def)
  note h = ticks_accounted_exactly [OF a]
  have "time_of (in_line 65536 CPUTIME_IDLE) [sample_tick 10 True, sample_tick 1 False] = 1"
    "cputime_of (\<lambda>k. tk_task k = 10 \<and> tick_kind 65536 k \<in> {Tick_user, Tick_guest}) [sample_tick 10 True, sample_tick 1 False] = 1"
    "time_of (in_group 65536 1 CPUTIME_USER) [sample_tick 10 True, sample_tick 1 False] = 1"
    by (simp_all add: time_of_Cons time_of_Nil in_line_def in_group_def k)
  then show ?thesis using h [where i = CPUTIME_IDLE and off = 65536 and c = sample_ct and q = 10 and g = 1]
      h [where i = CPUTIME_USER and off = 65536 and c = sample_ct and q = 10 and g = 1]
    by (simp add: sample_ct_def)
qed

theorem process_times_monotone_witness:
  "\<exists>ut st c'. task_times sample_ct_env 10 sample_sched (account_process_tick sample_env sample_ct_env 65536 10 True sample_sched sample_ct) =
     ((ut, st), c') \<and> ut \<le> rtime_of sample_ct_env sample_sched 10"
proof -
  let ?c = "account_process_tick sample_env sample_ct_env 65536 10 True sample_sched sample_ct"
  have r: "time_reachable sample_env sample_ct_env (sample_sched, sample_ct) (sample_sched, ?c)"
    by (rule time_reachable.step [OF time_reachable.start time_step.tick])
  have t: "times ?c 10 = (times sample_ct 10)\<lparr>utime := 1, utimescaled := 1\<rparr>"
    by (simp add: account_process_tick_def steal_account_process_tick_def account_defs Let_def sample_ct_def sample_ct_env_def)
  have "ticks_fit ?c 10" by (simp add: ticks_fit_def t) (simp add: sample_ct_def)
  from process_times_monotone [OF r _ this] show ?thesis by (fastforce simp: sample_ct_def)
qed

end
