(* ===== verification/Group_Links.thy ===== *)
theory Group_Links
  imports Group_Props Params_Calls
begin

text \<open>
  The operations that set up or change the pointers between tasks, groups and queues keep the invariant of the
  scheduler: a child that keeps the links of its parent, moving a task to another group, and creating a group.
  The other theories treat these pointers as fixed (\<open>rt_links\<close>).
\<close>

section \<open>Groups a task may be in\<close>

text \<open>The root group, whose queue has no entity, or a group whose entity owns the group's queue.\<close>

definition group_ok :: "kenv \<Rightarrow> kstate \<Rightarrow> ptr \<Rightarrow> bool" where
  "group_ok K s g \<longleftrightarrow>
     (case tg_rt_se (tgs s g) of None \<Rightarrow> g = root_task_group K | Some e \<Rightarrow> e \<noteq> 0 \<and> group_rt_rq s e = Some g)"

lemma group_ok_links: "rt_links s t \<Longrightarrow> group_ok K t g = group_ok K s g"
  by (simp add: group_ok_def rt_links_group split: option.split) (simp add: rt_links_def)

section \<open>Linking a task to the queue of its group\<close>

lemma rt_chain_away:
  assumes "\<And>x. x \<noteq> p \<Longrightarrow> rt_parent (rt_ents t x) = rt_parent (rt_ents s x)"
    and "rt_chain s e = Some xs" and "p \<notin> set xs"
  shows "rt_chain t e = Some xs"
  using assms(2,3)
proof (induction xs arbitrary: e)
  case Nil
  then show ?case by (cases e) (auto simp: rt_chain_Some bind_eq_Some_conv)
next
  case (Cons x xs)
  then obtain y where e: "e = Some y" by (cases e) auto
  then have "y = x" "rt_chain s (rt_parent (rt_ents s x)) = Some xs" using Cons.prems by (auto elim: rt_chain_SomeE)
  moreover have "rt_parent (rt_ents t x) = rt_parent (rt_ents s x)" by (rule assms(1)) (use Cons.prems in auto)
  ultimately show ?case using Cons e by (simp add: rt_chain_Some)
qed

lemma set_task_rq_links:
  "rt_rqs (set_task_rq p s) = rt_rqs s" "tgs (set_task_rq p s) = tgs s" "tasks (set_task_rq p s) = tasks s"
  "rq (set_task_rq p s) = rq s" "group_rt_rq (set_task_rq p s) x = group_rt_rq s x"
  "x \<noteq> p \<Longrightarrow> rt_ents (set_task_rq p s) x = rt_ents s x"
  "rt_rq_of (rt_ents (set_task_rq p s) p) = sched_task_group (tasks s p)"
  "rt_parent (rt_ents (set_task_rq p s) p) = tg_rt_se (tgs s (sched_task_group (tasks s p)))"
  by (simp_all add: set_task_rq_def Let_def group_rt_rq_def)

text \<open>
  Giving one task that is on no queue another place in the hierarchy: its parent owns the queue it goes to, or it has
  no parent and goes to the root queue.
\<close>

definition placed :: "kenv \<Rightarrow> kstate \<Rightarrow> sched_rt_entity \<Rightarrow> bool" where
  "placed K s e \<longleftrightarrow>
     (case rt_parent e of None \<Rightarrow> rt_rq_of e = root_task_group K | Some y \<Rightarrow> y \<noteq> 0 \<and> group_rt_rq s y = Some (rt_rq_of e))"

definition relinked :: "ptr \<Rightarrow> kstate \<Rightarrow> kstate \<Rightarrow> bool" where
  "relinked p s t \<longleftrightarrow> rt_rqs t = rt_rqs s \<and> tgs t = tgs s \<and> rq_wrr (rq t) = rq_wrr (rq s) \<and> group_rt_rq t = group_rt_rq s \<and>
     (\<forall>x. x \<noteq> p \<longrightarrow> rt_parent (rt_ents t x) = rt_parent (rt_ents s x) \<and> rt_rq_of (rt_ents t x) = rt_rq_of (rt_ents s x) \<and>
        core3 (tasks t x) = core3 (tasks s x))"

lemma relinked_hier:
  assumes hier: "rt_hier s" and root: "rt_root K s" and p: "is_task s p" and t: "relinked p s t" and e: "placed K s (rt_ents t p)"
  shows "rt_hier t" and "rt_root K t"
proof -
  have l: "group_rt_rq t = group_rt_rq s" "x \<noteq> p \<Longrightarrow> rt_parent (rt_ents t x) = rt_parent (rt_ents s x)"
    "x \<noteq> p \<Longrightarrow> rt_rq_of (rt_ents t x) = rt_rq_of (rt_ents s x)" for x using t by (simp_all add: relinked_def)
  note h = rt_hierD [OF hier]
  have away: "rt_chain t e = Some xs" if "rt_chain s e = Some xs" "p \<notin> set xs" for e xs
    by (rule rt_chain_away [OF _ that]) (rule l(2))
  have other: "\<exists>xs. rt_chain t (Some x) = Some xs" if "x \<noteq> p" for x
  proof -
    obtain xs where xs: "rt_chain s (Some x) = Some xs" using h(4) by blast
    moreover have "p \<notin> set xs" using rt_chain_groups [OF hier xs, of p] that p by (auto simp: is_task_def)
    ultimately show ?thesis using away by blast
  qed
  have ent: "rt_parent (rt_ents t p) = Some y \<Longrightarrow> group_rt_rq s y = Some (rt_rq_of (rt_ents t p)) \<and> y \<noteq> p \<and> y \<noteq> 0" for y
    using e p by (auto simp: placed_def is_task_def)
  have none: "rt_parent (rt_ents t p) = None \<Longrightarrow> rt_rq_of (rt_ents t p) = root_task_group K" using e by (simp add: placed_def)
  have "\<exists>xs. rt_chain t (Some p) = Some xs"
    using ent other by (cases "rt_parent (rt_ents t p)") (force simp: rt_chain_Some [of t p])+
  then have chain: "rt_chain t (Some x) \<noteq> None" for x using other [of x] by (cases "x = p") auto
  have 1: "rt_parent (rt_ents t x) = Some y \<Longrightarrow> group_rt_rq t y = Some (rt_rq_of (rt_ents t x))" for x y
    using h(1) ent by (cases "x = p") (simp_all add: l)
  have 2: "rt_parent (rt_ents t x) = None \<Longrightarrow> group_rt_rq t y \<noteq> Some (rt_rq_of (rt_ents t x))" for x y
    using h(3) none root by (cases "x = p") (simp_all add: l rt_root_def)
  have 3: "rt_parent (rt_ents t x) \<noteq> Some 0" for x
    using h(5) ent by (cases "x = p") (auto simp: l)
  show "rt_hier t" unfolding rt_hier_def using 1 2 3 chain h(2) by (simp add: l(1))
  have "rt_parent (rt_ents t x) = None \<Longrightarrow> rt_rq_of (rt_ents t x) = root_task_group K" for x
    using root none l(2,3) by (cases "x = p") (simp_all add: rt_root_def)
  then show "rt_root K t" using root by (simp add: rt_root_def l(1))
qed

lemma relinked_but:
  assumes s: "sched_but b s" and root: "rt_root K s" and p: "is_task s p" and t: "relinked p s t" and e: "placed K s (rt_ents t p)"
    and off: "b = Some p \<or> \<not> on_rq (tasks s p) \<and> \<not> on_rq (tasks t p)" and v: "class_of t p = rt_sched_class \<Longrightarrow> rt_valid t p"
  shows "sched_but b t" and "rt_root K t" and "group_ok K t h = group_ok K s h" and "is_task t x = is_task s x"
proof -
  have l: "rt_rqs t = rt_rqs s" "tgs t = tgs s" "rq_wrr (rq t) = rq_wrr (rq s)" and gr: "group_rt_rq t = group_rt_rq s"
    and ne: "x \<noteq> p \<Longrightarrow> rt_rq_of (rt_ents t x) = rt_rq_of (rt_ents s x)" "x \<noteq> p \<Longrightarrow> core3 (tasks t x) = core3 (tasks s x)" for x
    using t by (simp_all add: relinked_def)
  have ok: "rt_hier s" "rt_tgs s" "rt_inv s" "rt_full s" using s by (simp_all add: sched_but_def rt_ok_def)
  note hr = relinked_hier [OF ok(1) root p t e]
  show "rt_root K t" by (rule hr)
  show "group_ok K t h = group_ok K s h" by (simp add: group_ok_def l(2) gr split: option.split)
  show "is_task t x = is_task s x" by (simp add: is_task_def gr)
  have out: "\<not> rt_queued s p" "p \<notin> set (wq s)" using s off by (auto simp: sched_but_def)
  have notp: "p \<notin> set (rtq (rt_rqs s h) i)" for h i
    using out(1) p rt_inv_queued(1) [OF ok(3)] by (auto simp: rt_queued_def is_task_def)
  have on: "on_rt_rq t x = on_rt_rq s x" for x
    using notp ne(1) by (cases "x = p") (simp_all add: on_rt_rq_def l on_rt_list_def list_ex_iff)
  have c: "prio (tasks t x) = prio (tasks s x)" "class_of t x = class_of s x" "on_rq (tasks t x) = on_rq (tasks s x)" if "x \<noteq> p" for x
    using ne(2) [OF that] by (simp_all add: core3_def)
  have pr: "rt_se_prio t x = rt_se_prio s x" "rt_rq_of (rt_ents t x) = rt_rq_of (rt_ents s x)" if "x \<in> set (rtq (rt_rqs s h) i)" for x h i
    using notp [of h i] that c(1) ne(1) by (cases "x = p"; simp add: rt_se_prio_def gr l split: option.split)+
  have sk: "rt_skip t x = rt_skip s x" for x by (simp add: rt_skip_def gr l split: option.split)
  have "rt_inv t" using ok(3) pr unfolding rt_inv_def l(1) by simp
  moreover have "rt_tgs t" using ok(2) by (simp add: rt_tgs_def l gr)
  moreover have "rt_full t" using ok(4) by (simp add: rt_full_def gr on sk)
  ultimately have okt: "rt_ok t" using hr(1) by (simp add: rt_ok_def)
  have q: "rt_queued t x = rt_queued s x" for x by (simp add: rt_queued_def gr on)
  have w: "wq t = wq s" "wrr_wf t = wrr_wf s" using l(3) wrr_wf_cong [of t s] by simp_all
  have "x \<in> set (wq t) \<longleftrightarrow> b \<noteq> Some x \<and> on_rq (tasks t x) \<and> class_of t x = wrr_sched_class" for x
    using s c [of x] out off unfolding w by (cases "x = p") (auto simp: sched_but_def)
  moreover have "rt_queued t x \<longleftrightarrow> b \<noteq> Some x \<and> on_rq (tasks t x) \<and> class_of t x = rt_sched_class" for x
    using s c [of x] out off unfolding q by (cases "x = p") (auto simp: sched_but_def)
  moreover have "class_of t x = rt_sched_class \<Longrightarrow> rt_valid t x" for x
    using s c [of x] v by (cases "x = p") (simp_all add: sched_but_def rt_valid_def gr)
  moreover have "class_of t x = wrr_sched_class \<Longrightarrow> x \<noteq> 0" for x
    using s c [of x] p by (cases "x = p") (auto simp: sched_but_def is_task_def)
  ultimately show "sched_but b t" using s okt w(2) unfolding sched_but_def by blast
qed

lemma set_task_rq_but:
  assumes s: "sched_but b s" and root: "rt_root K s" and p: "is_task s p" and off: "b = Some p \<or> \<not> on_rq (tasks s p)"
    and g: "group_ok K s (sched_task_group (tasks s p))"
  shows "sched_but b (set_task_rq p s)" and "rt_root K (set_task_rq p s)"
    and "group_ok K (set_task_rq p s) h = group_ok K s h" and "is_task (set_task_rq p s) x = is_task s x"
proof -
  note l = set_task_rq_links [where p = p and s = s]
  have 1: "relinked p s (set_task_rq p s)" by (simp add: relinked_def l fun_eq_iff)
  have 2: "placed K s (rt_ents (set_task_rq p s) p)" using g by (simp add: placed_def l group_ok_def split: option.splits)
  have 3: "b = Some p \<or> \<not> on_rq (tasks s p) \<and> \<not> on_rq (tasks (set_task_rq p s) p)" using off by (simp add: l)
  have 4: "class_of (set_task_rq p s) p = rt_sched_class \<Longrightarrow> rt_valid (set_task_rq p s) p"
    using s by (simp add: sched_but_def rt_valid_def l)
  note * = relinked_but [OF s root p 1 2 3]
  show "sched_but b (set_task_rq p s)" "rt_root K (set_task_rq p s)"
    "group_ok K (set_task_rq p s) h = group_ok K s h" "is_task (set_task_rq p s) x = is_task s x" using * 4 by blast+
qed

section \<open>Moving a task\<close>

text \<open>
  Documented behaviour of the \<^verbatim>\<open>task_move_group\<close> hook of the classes outside the repository: it calls \<^verbatim>\<open>set_task_rq\<close>
  and works on the queue of its own class.
\<close>

definition move_env :: "kenv \<Rightarrow> bool" where
  "move_env K \<longleftrightarrow> (\<forall>c \<in> ext_classes. \<forall>f. ec_task_move_group (ext_class_of K c) = Some f \<longrightarrow>
     (\<forall>p on s. ext_keep (set_task_rq p s) (f p on s)))"

definition regrouped :: "ptr \<Rightarrow> task_struct \<Rightarrow> task_struct" where
  "regrouped tg t = t\<lparr>sched_task_group := tg\<rparr>"

lemma move_keep:
  assumes "move_env K"
  shows "ext_keep (set_task_rq p s) (case class_task_move_group K c of Some move \<Rightarrow> move p on s | None \<Rightarrow> set_task_rq p s)"
  using assms by (cases c) (auto simp: class_task_move_group_def move_env_def split: option.splits)

lemma sched_move_task_ok:
  assumes K: "kenv_ok K" "move_env K" and s: "sched_ok s" "rt_root K s" and p: "is_task s p" "class_of s p \<noteq> idle_sched_class"
    and g: "\<And>u. group_ok K s (autogroup_task_group K p (task_css_tg K p u) u)"
  shows "\<exists>t tg. sched_move_task K p s = Some t \<and> sched_ok t \<and> rt_root K t \<and> (\<forall>h. group_ok K t h = group_ok K s h) \<and>
    group_ok K s tg \<and> curr (rq t) = curr (rq s) \<and> group_rt_rq t = group_rt_rq s \<and>
    (\<forall>x. core3 (tasks t x) = core3 (if x = p then regrouped tg (tasks s x) else tasks s x))"
proof -
  let ?on = "on_rq (tasks s p)" and ?run = "task_current p s"
  have b: "sched_but None s" and cur: "curr_ok s" using s(1) by (simp_all add: sched_ok_def)
  obtain s1 where s1: "task_off K p ?on ?run s = Some s1" "rt_links s s1" "curr (rq s1) = curr (rq s)"
    "\<forall>x. core3 (tasks s1 x) = core3 (tasks s x)" "sched_but (Some p) s1"
    using task_off_ok [OF K(1) b] by blast
  define tg where "tg = autogroup_task_group K p (task_css_tg K p s1) s1"
  define s2 where "s2 = upd_task p (regrouped tg) s1"
  have s2': "upd_task p (\<lambda>t. t\<lparr>sched_task_group := autogroup_task_group K p (task_css_tg K p s1) s1\<rparr>) s1 = s2"
    by (simp add: s2_def regrouped_def [abs_def] tg_def)
  have fr: "change_frame p s1 s2" unfolding s2_def by (rule change_frame_upd) (simp add: regrouped_def)
  have v1: "class_of s1 p = rt_sched_class \<Longrightarrow> rt_valid s1 p" "class_of s1 p = wrr_sched_class \<Longrightarrow> p \<noteq> 0"
    using s1(5) by (simp_all add: sched_but_def)
  have c2: "class_of s2 p = class_of s1 p" "rt_valid s2 p = rt_valid s1 p" "sched_task_group (tasks s2 p) = tg"
    by (simp_all add: s2_def regrouped_def rt_valid_def group_rt_rq_def)
  have b2: "sched_but (Some p) s2" by (rule sched_but_change [OF s1(5) fr]) (use v1 c2 in auto)
  have l2: "rt_links s s2" using rt_links_trans [OF s1(2)] fr by (simp add: change_frame_def)
  have g2: "group_ok K s2 (sched_task_group (tasks s2 p))" using g [of s1] group_ok_links [OF l2] by (simp add: c2(3) tg_def)
  have pre: "rt_root K s2" "is_task s2 p" using s(2) p(1) rt_root_links [OF l2] is_task_links [OF l2] by simp_all
  note m = set_task_rq_but [OF b2 pre _ g2, simplified]
  define s3 where "s3 = (case class_task_move_group K (class_of s2 p) of Some move \<Rightarrow> move p ?on s2 | None \<Rightarrow> set_task_rq p s2)"
  have k3: "ext_keep (set_task_rq p s2) s3" unfolding s3_def by (rule move_keep [OF K(2)])
  have l3: "rt_links (set_task_rq p s2) s3" by (rule rt_links_same [OF ext_keep_same [OF k3]])
  have b3: "sched_but (Some p) s3" by (rule sched_but_keep [OF k3 m(1)])
  have c3: "core3 (tasks s3 x) = core3 (tasks s2 x)" for x
    using k3 by (simp add: ext_keep_def set_task_rq_links)
  have on: "on_rq (tasks s3 p) = ?on" using c3 [of p] s1(4) by (simp add: core3_def s2_def regrouped_def)
  obtain t where t: "task_back_on K p ?on ?run 0 s3 = Some t" "rt_links s3 t" "curr (rq t) = curr (rq s3)"
    "\<forall>x. core3 (tasks t x) = core3 (tasks s3 x)" "sched_but None t"
    using task_back_on_ok [OF K(1) b3, of ?run 0] unfolding on by blast
  have l4: "rt_links (set_task_rq p s2) t" by (rule rt_links_trans [OF l3 t(2)])
  have "curr (rq s3) = curr (rq s2)" using k3 by (simp add: ext_keep_def set_task_rq_links)
  then have cr: "curr (rq t) = curr (rq s)" using t(3) s1(3) by (simp add: s2_def)
  have core: "core3 (tasks t x) = core3 (if x = p then regrouped tg (tasks s x) else tasks s x)" for x
    using t(4) c3 [of x] s1(4) by (simp add: s2_def core3_def task_params_def regrouped_def)
  have "on_rq (tasks t x) = on_rq (tasks s x)" "class_of t x = class_of s x" for x
    using core [of x] by (auto simp: core3_def regrouped_def split: if_splits)
  then have "curr_ok t" using cur by (simp add: curr_ok_def cr)
  moreover have "rt_root K t" using m(2) rt_root_links [OF l4] by simp
  moreover have "group_ok K t h = group_ok K s h" for h using group_ok_links [OF l4] m(3) group_ok_links [OF l2] by simp
  moreover have "group_rt_rq t = group_rt_rq s"
    using rt_links_group [OF l4] rt_links_group [OF l2] by (simp add: fun_eq_iff set_task_rq_links(5))
  moreover have "sched_move_task K p s = Some t"
    using s1(1) t(1) [unfolded s3_def] unfolding sched_move_task_def Let_def s1(1) by (simp only: bind.bind_lunit s2')
  ultimately show ?thesis using t(5) core cr g [of s1] unfolding sched_ok_def tg_def by blast
qed

section \<open>Forking\<close>

text \<open>
  What \<^verbatim>\<open>sched_fork\<close> finds (\<^verbatim>\<open>copy_process\<close> of \<^verbatim>\<open>kernel/fork.c\<close>): at a free address the child, a copy of the current task
  in all that concerns scheduling.
\<close>

definition forked :: "kenv \<Rightarrow> ptr \<Rightarrow> kstate \<Rightarrow> kstate \<Rightarrow> bool" where
  "forked K c s u \<longleftrightarrow> (\<exists>t. u = s\<lparr>tasks := (tasks s)(c := t), rt_ents := (rt_ents s)(c := rt_ents s (curr (rq s)))\<rparr> \<and>
     task_params t = task_params (tasks s (curr (rq s))) \<and> sched_class t = class_of s (curr (rq s))) \<and>
     is_task s c \<and> \<not> on_rq (tasks s c) \<and> c \<noteq> curr (rq s) \<and> c \<noteq> idle_task K"

text \<open>The parameters of the child after \<^verbatim>\<open>sched_fork\<close>.\<close>

definition child_ok :: "task_struct \<Rightarrow> task_struct \<Rightarrow> bool" where
  "child_ok par t \<longleftrightarrow> \<not> on_rq t \<and> prio_wf t \<and> \<not> sched_reset_on_fork t \<and> sched_task_group t = sched_task_group par \<and>
     prio t = normal_prio_of t \<and> sched_class t = (if rt_prio (prio t) then sched_class par else fair_sched_class) \<and>
     (policy t = policy par \<or> policy t = SCHED_NORMAL)"

lemma sched_fork_params:
  assumes t: "task_params t = task_params par" "sched_class t = sched_class par" and wf: "prio_wf par"
    and s: "tasks s c = t" "normal_prio_of (tasks s (curr (rq s))) = normal_prio_of par" "c \<noteq> curr (rq s)"
  shows "\<exists>t'. child_ok par t' \<and> sched_fork K c s =
    class_task_fork K (sched_class t') c (upd_task c (\<lambda>_. t') s)"
proof -
  have up: "upd_task c f (upd_task c g s) = upd_task c (\<lambda>_. f (g t)) s" "upd_task c f s = upd_task c (\<lambda>_. f t) s" for f g
    using s(1) by (simp_all add: upd_task_def)
  define e0 where "e0 = (se t)\<lparr>se_on_rq := 0, exec_start := 0, sum_exec_runtime := 0, prev_sum_exec_runtime := 0,
     nr_migrations := 0, vruntime := 0, wait_start := 0, sleep_start := 0, block_start := 0, exec_max := 0, nr_wakeups := 0, nr_wakeups_sync := 0\<rparr>"
  define t3 where "t3 = t\<lparr>on_rq := False, se := e0, tstate := TASK_RUNNING, prio := normal_prio_of par\<rparr>"
  define t31 where "t31 = (if task_has_rt_policy t3
      then t3\<lparr>policy := SCHED_NORMAL, static_prio := NICE_TO_PRIO 0, rt_priority := 0\<rparr>
      else if PRIO_TO_NICE (static_prio t3) < 0 then t3\<lparr>static_prio := NICE_TO_PRIO 0\<rparr> else t3)"
  define t32 where "t32 = t31\<lparr>normal_prio_of := normal_prio1 t31, prio := normal_prio1 t31\<rparr>"
  have par: "policy t = policy par" "static_prio t = static_prio par" "normal_prio_of t = normal_prio_of par"
    "rt_priority t = rt_priority par" "sched_task_group t = sched_task_group par"
    "sched_reset_on_fork t = sched_reset_on_fork par" using t(1) by (simp_all add: task_params_def)
  have st: "MAX_RT_PRIO \<le> static_prio par" "static_prio par < MAX_PRIO" using wf by (simp_all add: prio_wf_def)
  have start: "upd_task c (\<lambda>t. t\<lparr>prio := normal_prio_of (tasks (upd_task c (\<lambda>t. t\<lparr>tstate := TASK_RUNNING\<rparr>) (sched_fork1 c s))
      (curr (rq (upd_task c (\<lambda>t. t\<lparr>tstate := TASK_RUNNING\<rparr>) (sched_fork1 c s)))))\<rparr>)
      (upd_task c (\<lambda>t. t\<lparr>tstate := TASK_RUNNING\<rparr>) (sched_fork1 c s)) = upd_task c (\<lambda>_. t3) s"
    using s by (simp add: sched_fork1_def upd_task_def t3_def e0_def)
  have t3: "policy t3 = policy par" "static_prio t3 = static_prio par" "rt_priority t3 = rt_priority par"
    "sched_reset_on_fork t3 = sched_reset_on_fork par" "\<not> on_rq t3" "sched_class t3 = sched_class par"
    "sched_task_group t3 = sched_task_group par" "normal_prio_of t3 = normal_prio_of par" "prio t3 = normal_prio_of par"
    using par t(2) by (simp_all add: t3_def)
  define fin where "fin t4 = (if \<not> rt_prio (prio t4) then t4\<lparr>sched_class := fair_sched_class\<rparr> else t4)" for t4 :: task_struct
  have step: "sched_fork K c s = class_task_fork K (sched_class (fin t4)) c (upd_task c (\<lambda>_. fin t4) s)"
    if "(if sched_reset_on_fork t3 then
           do { let s31 = upd_task c (\<lambda>_. t31) s; let s32 = upd_task c (\<lambda>_. t32) s;
                s33 \<leftarrow> set_load_weight c s32; Some (upd_task c (\<lambda>t. t\<lparr>sched_reset_on_fork := False\<rparr>) s33) }
         else Some (upd_task c (\<lambda>_. t3) s)) = Some (upd_task c (\<lambda>_. t4) s)" for t4
  proof -
    have a1: "upd_task c (\<lambda>t. if task_has_rt_policy t then t\<lparr>policy := SCHED_NORMAL, static_prio := NICE_TO_PRIO 0, rt_priority := 0\<rparr>
        else if PRIO_TO_NICE (static_prio t) < 0 then t\<lparr>static_prio := NICE_TO_PRIO 0\<rparr> else t) (upd_task c (\<lambda>_. t3) s) =
        upd_task c (\<lambda>_. t31) s"
      and a2: "upd_task c (\<lambda>t. t\<lparr>normal_prio_of := normal_prio1 t, prio := normal_prio1 t\<rparr>) (upd_task c (\<lambda>_. t31) s) = upd_task c (\<lambda>_. t32) s"
      by (simp_all add: up(1) t31_def t32_def)
    have cond: "sched_reset_on_fork (tasks (upd_task c (\<lambda>_. t3) s) c) = sched_reset_on_fork t3" by simp
    have last: "(if \<not> rt_prio (prio (tasks (upd_task c (\<lambda>_. t4) s) c)) then upd_task c (\<lambda>t. t\<lparr>sched_class := fair_sched_class\<rparr>) (upd_task c (\<lambda>_. t4) s)
        else upd_task c (\<lambda>_. t4) s) = upd_task c (\<lambda>_. fin t4) s" by (simp add: up(1) fin_def)
    have cl: "class_of (upd_task c (\<lambda>_. fin t4) s) c = sched_class (fin t4)" by simp
    show ?thesis
      unfolding sched_fork_def Let_def start a1 a2 cond that [unfolded Let_def] by (simp only: bind.bind_lunit last cl)
  qed
  show ?thesis
  proof (cases "sched_reset_on_fork t3")
    case False
    have "child_ok par (fin t3)" using wf t3 False by (simp add: child_ok_def fin_def prio_wf_def normal_prio_def normal_prio1_def task_has_rt_policy_def)
    then show ?thesis using step [of t3] False by auto
  next
    case True
    have t32: "MAX_RT_PRIO \<le> static_prio t32" "static_prio t32 < MAX_PRIO" using st t3(2)
      by (auto simp: t32_def t31_def NICE_TO_PRIO_def sched_consts)
    obtain h where h: "set_load_weight c (upd_task c (\<lambda>_. t32) s) = Some (upd_se c h (upd_task c (\<lambda>_. t32) s))"
      using set_load_weight_ok [of "upd_task c (\<lambda>_. t32) s" c] t32 by auto
    let ?t4 = "t32\<lparr>se := h (se t32), sched_reset_on_fork := False\<rparr>"
    have "child_ok par (fin ?t4)" using wf t3 st
      by (auto simp: child_ok_def fin_def t32_def t31_def prio_wf_def normal_prio_def normal_prio1_def task_has_rt_policy_def
          rt_policy_def NICE_TO_PRIO_def sched_consts)
    then show ?thesis using step [of ?t4] True h by (auto simp: upd_se_def upd_task_def)
  qed
qed

text \<open>
  What holds from the first boot step on: the queues are those of the runnable tasks, all parameters are in range, each
  task is in a group that exists, and only tasks whose policy is \<^verbatim>\<open>SCHED_WRR\<close> are in the weighted round-robin class.
\<close>

definition consistent :: "kenv \<Rightarrow> kstate \<Rightarrow> bool" where
  "consistent K s \<longleftrightarrow> sched_but None s \<and> rt_root K s \<and>
     (\<forall>p. prio_wf (tasks s p) \<and> group_ok K s (sched_task_group (tasks s p)) \<and>
        (class_of s p = wrr_sched_class \<longrightarrow> policy (tasks s p) = SCHED_WRR))"

lemma child_ok_core3: "core3 t = core3 u \<Longrightarrow> child_ok par t = child_ok par u"
  using prio_wf_params [of t u] by (auto simp: core3_def task_params_def child_ok_def)

lemma consistent_core3:
  assumes "consistent K s" and "sched_but None t" and "rt_root K t" and "\<And>h. group_ok K t h = group_ok K s h"
    and "\<And>x. x \<noteq> p \<Longrightarrow> core3 (tasks t x) = core3 (tasks s x)"
    and "prio_wf (tasks t p)" and "group_ok K s (sched_task_group (tasks t p))"
    and "class_of t p = wrr_sched_class \<Longrightarrow> policy (tasks t p) = SCHED_WRR"
  shows "consistent K t"
proof -
  have "prio_wf (tasks t x) \<and> group_ok K t (sched_task_group (tasks t x)) \<and>
      (class_of t x = wrr_sched_class \<longrightarrow> policy (tasks t x) = SCHED_WRR)" for x
  proof (cases "x = p")
    case False
    then have "task_params (tasks t x) = task_params (tasks s x)" "class_of t x = class_of s x"
      using assms(5) by (simp_all add: core3_def)
    then show ?thesis using assms(1,4) prio_wf_params [of "tasks t x" "tasks s x"]
      by (auto simp: consistent_def task_params_def)
  qed (use assms(4,6-8) in simp)
  then show ?thesis using assms(2,3) by (simp add: consistent_def)
qed

text \<open>No child starts in the weighted round-robin class.\<close>

lemma child_not_wrr:
  assumes "child_ok par t" and "sched_class par = wrr_sched_class \<longrightarrow> policy par = SCHED_WRR"
  shows "sched_class t \<noteq> wrr_sched_class"
proof
  assume w: "sched_class t = wrr_sched_class"
  then have rtp: "rt_prio (prio t)" "sched_class par = wrr_sched_class" using assms(1) by (auto simp: child_ok_def split: if_splits)
  then have "rt_policy (policy t)" using assms(1) normal_prio_range(3) by (auto simp: child_ok_def)
  moreover have "policy t = SCHED_WRR \<or> policy t = SCHED_NORMAL" using assms rtp(2) by (auto simp: child_ok_def)
  ultimately show False by (auto simp: rt_policy_def sched_consts)
qed

lemma placed_ok: "rt_hier s \<Longrightarrow> rt_root K s \<Longrightarrow> placed K s (rt_ents s x)"
  using rt_hierD(1,5) [of s x] by (auto simp: placed_def rt_root_def split: option.split)

lemma sched_fork_ok:
  assumes K: "kenv_ok K" and s: "consistent K s" and u: "forked K c s u" and par: "is_task s (curr (rq s))"
  shows "\<exists>t. sched_fork K c u = Some t \<and> consistent K t \<and> (\<forall>x. x \<noteq> c \<longrightarrow> core3 (tasks t x) = core3 (tasks s x)) \<and>
    curr (rq t) = curr (rq s) \<and> group_rt_rq t = group_rt_rq s \<and> child_ok (tasks s (curr (rq s))) (tasks t c)"
proof -
  let ?par = "tasks s (curr (rq s))"
  obtain t0 where t0: "u = s\<lparr>tasks := (tasks s)(c := t0), rt_ents := (rt_ents s)(c := rt_ents s (curr (rq s)))\<rparr>"
    "task_params t0 = task_params ?par" "sched_class t0 = sched_class ?par"
    and c: "is_task s c" "\<not> on_rq (tasks s c)" "c \<noteq> curr (rq s)"
    using u by (auto simp: forked_def)
  have cs: "sched_but None s" "rt_root K s" "\<And>p. prio_wf (tasks s p)" "\<And>p. group_ok K s (sched_task_group (tasks s p))"
    "class_of s (curr (rq s)) = wrr_sched_class \<Longrightarrow> policy ?par = SCHED_WRR"
    using s by (simp_all add: consistent_def)
  have hier: "rt_hier s" using cs(1) by (simp add: sched_but_def rt_ok_def)
  obtain t' where t': "child_ok ?par t'" "sched_fork K c u =
      class_task_fork K (sched_class t') c (upd_task c (\<lambda>_. t') u)"
    using sched_fork_params [OF t0(2,3) cs(3), of u c K] t0(1) c by auto
  define u1 where "u1 = upd_task c (\<lambda>_. t') u"
  have u1: "tasks u1 = (tasks s)(c := t')" "rt_ents u1 = (rt_ents s)(c := rt_ents s (curr (rq s)))" "rt_rqs u1 = rt_rqs s"
    "tgs u1 = tgs s" "rq u1 = rq s" by (simp_all add: u1_def t0(1))
  have gr: "group_rt_rq u1 = group_rt_rq s" using c(1) par by (simp add: fun_eq_iff group_rt_rq_def u1 is_task_def)
  have rl: "relinked c s u1" by (simp add: relinked_def u1(1-5) gr)
  have pl: "placed K s (rt_ents u1 c)" using placed_ok [OF hier cs(2)] by (simp add: u1)
  have wf': "prio_wf t'" "\<not> on_rq t'" using t'(1) by (simp_all add: child_ok_def)
  note range = normal_prio_range [OF wf'(1)]
  have v: "rt_valid u1 c" if "class_of u1 c = rt_sched_class"
    using t'(1) that range(1) c(1) by (auto simp: child_ok_def rt_valid_def u1 gr is_task_def rt_prio_def split: if_splits)
  have off: "None = Some c \<or> \<not> on_rq (tasks s c) \<and> \<not> on_rq (tasks u1 c)" using c(2) wf'(2) by (simp add: u1)
  note r1 = relinked_but [OF cs(1,2) c(1) rl pl off v]
  have nw: "sched_class t' \<noteq> wrr_sched_class" using child_not_wrr [OF t'(1)] cs(5) by simp
  have "\<exists>u2. class_task_fork K (sched_class t') c u1 = Some u2 \<and> ext_keep u1 u2"
  proof -
    consider "sched_class t' = rt_sched_class" | "sched_class t' = wrr_sched_class" | "sched_class t' \<in> ext_classes"
      by (cases "sched_class t'") auto
    then show ?thesis
    proof cases
      case 2
      then show ?thesis using nw by simp
    next
      case 3
      then show ?thesis using ext_okD(9) [OF kenv_okD(3) [OF K] 3, of u1 c] by (auto simp: class_task_fork_def)
    qed (simp add: class_task_fork_def)
  qed
  then obtain u2 where u2: "class_task_fork K (sched_class t') c u1 = Some u2" "ext_keep u1 u2" by blast
  have l2: "rt_links u1 u2" by (rule rt_links_same [OF ext_keep_same [OF u2(2)]])
  have core2: "core3 (tasks u2 x) = core3 (tasks u1 x)" for x using u2(2) by (simp add: ext_keep_def)
  have ch: "child_ok ?par (tasks u2 c)" using child_ok_core3 [OF core2] t'(1) by (simp add: u1)
  have b2: "sched_but None u2" "rt_root K u2" "is_task u2 c"
    using sched_but_keep [OF u2(2) r1(1)] r1(2) rt_root_links [OF l2] r1(4) is_task_links [OF l2] c(1) by simp_all
  have g2: "group_ok K u2 h = group_ok K s h" for h using group_ok_links [OF l2] r1(3) by simp
  have core: "core3 (tasks u2 x) = core3 (tasks s x)" if "x \<noteq> c" for x using core2 that by (simp add: u1)
  have "class_of u2 c \<noteq> wrr_sched_class" using nw core2 [of c] by (simp add: u1 core3_def)
  then have "consistent K u2"
    by (intro consistent_core3 [OF s b2(1,2) g2 core]) (use ch cs(4) in \<open>auto simp: child_ok_def\<close>)
  moreover have "curr (rq u2) = curr (rq s)" "group_rt_rq u2 = group_rt_rq s"
    using u2(2) gr rt_links_group [OF l2] by (simp_all add: ext_keep_def u1)
  moreover have "sched_fork K c u = Some u2" using t'(2) u2(1) by (simp add: u1_def)
  ultimately show ?thesis using core ch by blast
qed

section \<open>Creating a group\<close>

lemma init_rt_rq_zero:
  assumes "bit_ops_ok (kbits K)"
  shows "init_rt_rq K zero_rt_rq = zero_rt_rq\<lparr>active := \<lparr>bitmap = (\<lambda>i. i = MAX_RT_PRIO), rt_queue = (\<lambda>_. [])\<rparr>\<rparr>"
proof -
  have bits: "clear_bit_op (kbits K) i b = b(i := False)" "set_bit_op (kbits K) i b = b(i := True)" for i b
    using assms by (simp_all add: bit_ops_ok_def)
  let ?z = "\<lparr>bitmap = (\<lambda>_. False), rt_queue = (\<lambda>_. [])\<rparr>"
  have stable: "fold f is z = z" if "\<And>i. f i z = z" for f :: "int \<Rightarrow> rt_prio_array \<Rightarrow> rt_prio_array" and z and "is"
    using that by (induction "is") simp_all
  have "fold (\<lambda>i a. a\<lparr>rt_queue := (rt_queue a)(i := []), bitmap := clear_bit_op (kbits K) i (bitmap a)\<rparr>) is ?z = ?z" for "is"
    by (rule stable) (simp add: bits fun_eq_iff)
  then show ?thesis by (simp add: init_rt_rq_def zero_rt_rq_def bits fun_eq_iff)
qed

definition empty_rt_rq :: "ptr \<Rightarrow> rt_rq \<Rightarrow> bool" where
  "empty_rt_rq tg r \<longleftrightarrow> rtbm r = (\<lambda>i. i = MAX_RT_PRIO) \<and> rtq r = (\<lambda>_. []) \<and> rt_nr_running r = 0 \<and>
     highest_prio_curr r = MAX_RT_PRIO \<and> rt_tg r = Some tg"

lemma empty_rt_rq_wf:
  assumes "empty_rt_rq tg r"
  shows "rt_rq_wf r"
  using assms by (simp add: empty_rt_rq_def rt_rq_wf_def rt_arr_wf_def rt_all_def rt_first_def)

text \<open>Adding the entity \<open>e\<close> with the empty queue of the new group \<open>tg\<close> at addresses that nothing refers to.\<close>

definition unused_group :: "kenv \<Rightarrow> ptr \<Rightarrow> kstate \<Rightarrow> bool" where
  "unused_group K tg s \<longleftrightarrow> tg \<noteq> root_task_group K \<and> (\<forall>y. group_rt_rq s y \<noteq> Some tg) \<and>
     (\<forall>g. g \<noteq> tg \<longrightarrow> rt_tg (rt_rqs s g) \<noteq> Some tg)"

definition unused_entity :: "kenv \<Rightarrow> ptr \<Rightarrow> kstate \<Rightarrow> bool" where
  "unused_entity K e s \<longleftrightarrow> is_task s e \<and> \<not> on_rq (tasks s e) \<and> class_of s e \<noteq> rt_sched_class \<and> e \<noteq> curr (rq s)"

definition added :: "ptr \<Rightarrow> ptr \<Rightarrow> kstate \<Rightarrow> kstate \<Rightarrow> bool" where
  "added tg e s t \<longleftrightarrow> rq_wrr (rq t) = rq_wrr (rq s) \<and> curr (rq t) = curr (rq s) \<and> (\<forall>x. core3 (tasks t x) = core3 (tasks s x)) \<and>
     (\<forall>x. x \<noteq> e \<longrightarrow> rt_ents t x = rt_ents s x) \<and> rt_my_q (rt_ents t e) = Some tg \<and>
     (\<forall>g. g \<noteq> tg \<longrightarrow> rt_rqs t g = rt_rqs s g) \<and> empty_rt_rq tg (rt_rqs t tg) \<and>
     (\<forall>g. tg_rt_se (tgs t g) = (if g = tg then Some e else tg_rt_se (tgs s g)))"

lemma added_hier:
  assumes hier: "rt_hier s" and root: "rt_root K s" and tg: "unused_group K tg s" and e: "is_task s e"
    and t: "added tg e s t" and pl: "placed K s (rt_ents t e)"
  shows "rt_hier t" and "rt_root K t"
proof -
  note h = rt_hierD [OF hier]
  have ne: "x \<noteq> e \<Longrightarrow> rt_ents t x = rt_ents s x" for x using t by (simp add: added_def)
  have gr: "group_rt_rq t x = (if x = e then Some tg else group_rt_rq s x)" for x
    using t by (simp add: added_def group_rt_rq_def)
  have up: "rt_parent (rt_ents s x) \<noteq> Some e" for x using h(1) e by (auto simp: is_task_def)
  have away: "rt_chain t z = Some xs" if "rt_chain s z = Some xs" "e \<notin> set xs" for z xs
    by (rule rt_chain_away [OF _ that]) (simp add: ne)
  have other: "\<exists>xs. rt_chain t (Some x) = Some xs" if "x \<noteq> e" for x
  proof -
    obtain xs where xs: "rt_chain s (Some x) = Some xs" using h(4) by blast
    moreover have "e \<notin> set xs" using rt_chain_groups [OF hier xs, of e] that e by (auto simp: is_task_def)
    ultimately show ?thesis using away by blast
  qed
  have ent: "rt_parent (rt_ents t e) = Some y \<Longrightarrow> group_rt_rq s y = Some (rt_rq_of (rt_ents t e)) \<and> y \<noteq> e \<and> y \<noteq> 0" for y
    using pl e by (auto simp: placed_def is_task_def)
  have none: "rt_parent (rt_ents t e) = None \<Longrightarrow> rt_rq_of (rt_ents t e) = root_task_group K" using pl by (simp add: placed_def)
  have "\<exists>xs. rt_chain t (Some e) = Some xs"
    using ent other by (cases "rt_parent (rt_ents t e)") (force simp: rt_chain_Some [of t e])+
  then have chain: "rt_chain t (Some x) \<noteq> None" for x using other [of x] by (cases "x = e") auto
  have 1: "rt_parent (rt_ents t x) = Some y \<Longrightarrow> group_rt_rq t y = Some (rt_rq_of (rt_ents t x))" for x y
    using h(1) [of x y] ent [of y] up [of x] by (cases "x = e") (auto simp: gr ne)
  have rooted: "rt_parent (rt_ents t x) = None \<Longrightarrow> rt_rq_of (rt_ents t x) = root_task_group K" for x
    using root none by (cases "x = e") (simp_all add: ne rt_root_def)
  have nr: "group_rt_rq t x \<noteq> Some (root_task_group K)" for x
    using root tg by (simp add: gr rt_root_def unused_group_def)
  have 3: "rt_parent (rt_ents t x) \<noteq> Some 0" for x using h(5) ent by (cases "x = e") (auto simp: ne)
  have 4: "x = y" if "group_rt_rq t x = Some g" "group_rt_rq t y = Some g" for x y g
    using that h(2) tg by (auto simp: gr unused_group_def split: if_splits)
  show "rt_hier t" unfolding rt_hier_def using 1 rooted nr 3 4 chain by (metis (no_types))
  show "rt_root K t" using rooted nr by (simp add: rt_root_def)
qed

lemma added_but:
  assumes s: "sched_but None s" and root: "rt_root K s" and tg: "unused_group K tg s" and e: "unused_entity K e s"
    and t: "added tg e s t" and pl: "placed K s (rt_ents t e)"
  shows "sched_but None t" and "rt_root K t" and "group_ok K t h \<longleftrightarrow> h = tg \<or> group_ok K s h"
proof -
  have ok: "rt_hier s" "rt_tgs s" "rt_inv s" "rt_full s" using s by (simp_all add: sched_but_def rt_ok_def)
  have et: "is_task s e" "e \<noteq> 0" using e by (simp_all add: unused_entity_def is_task_def)
  note hr = added_hier [OF ok(1) root tg et(1) t pl]
  show "rt_root K t" by (rule hr)
  have ne: "x \<noteq> e \<Longrightarrow> rt_ents t x = rt_ents s x" "g \<noteq> tg \<Longrightarrow> rt_rqs t g = rt_rqs s g"
    "core3 (tasks t x) = core3 (tasks s x)" for x g using t by (simp_all add: added_def)
  have new: "empty_rt_rq tg (rt_rqs t tg)" using t by (simp add: added_def)
  have gr: "group_rt_rq t x = (if x = e then Some tg else group_rt_rq s x)" for x
    using t by (simp add: added_def group_rt_rq_def)
  have se: "tg_rt_se (tgs t g) = (if g = tg then Some e else tg_rt_se (tgs s g))" for g using t by (simp add: added_def)
  have c: "prio (tasks t x) = prio (tasks s x)" "class_of t x = class_of s x" "on_rq (tasks t x) = on_rq (tasks s x)" for x
    using ne(3) [of x] by (simp_all add: core3_def)
  have ge: "group_ok K s tg = False" using tg by (auto simp: group_ok_def unused_group_def split: option.splits)
  show "group_ok K t h \<longleftrightarrow> h = tg \<or> group_ok K s h"
    using ge et by (auto simp: group_ok_def se gr is_task_def split: option.splits)
  have outq: "rt_rq_of (rt_ents s x) \<noteq> tg" for x
    using rt_hierD(1) [OF ok(1), of x] root tg by (cases "rt_parent (rt_ents s x)") (auto simp: rt_root_def unused_group_def)
  have note': "e \<notin> set (rtq (rt_rqs s h) i)" for h i
  proof -
    have "\<not> rt_queued s e" using s e by (simp add: sched_but_def unused_entity_def)
    then show ?thesis using et rt_inv_queued(1) [OF ok(3)] by (auto simp: rt_queued_def is_task_def)
  qed
  have off: "\<not> on_rt_rq s e" using note' rt_inv_on(1) [OF ok(3)] by blast
  have same: "rt_rqs t (rt_rq_of (rt_ents s x)) = rt_rqs s (rt_rq_of (rt_ents s x))" for x using ne(2) outq by simp
  have nil: "rtq (rt_rqs t tg) i = []" "rtq (rt_rqs s tg) i = []" for i
    using new ok(3) outq by (auto simp: empty_rt_rq_def rt_inv_def) (metis list.set_intros(1) neq_Nil_conv)
  have qs: "rtq (rt_rqs t g) i = rtq (rt_rqs s g) i" for g i using ne(2) nil by (cases "g = tg") simp_all
  have on: "on_rt_rq t x = on_rt_rq s x" for x
    using note' by (cases "x = e") (simp_all add: on_rt_rq_def on_rt_list_def qs list_ex_iff ne)
  have pr: "rt_se_prio t x = rt_se_prio s x \<and> rt_rq_of (rt_ents t x) = rt_rq_of (rt_ents s x)" if "x \<in> set (rtq (rt_rqs s h) i)" for x h i
  proof -
    have "x \<noteq> e" using note' that by metis
    moreover have "g \<noteq> tg" if "group_rt_rq s x = Some g" for g using that tg by (auto simp: unused_group_def)
    ultimately show ?thesis by (auto simp: rt_se_prio_def gr ne c split: option.split)
  qed
  have gq: "rt_rqs t y = rt_rqs s y" if "group_rt_rq s x = Some y" for x y
    by (rule ne(2)) (use that tg in \<open>auto simp: unused_group_def\<close>)
  have sk: "rt_skip t x = (x = e \<or> rt_skip s x)" if "group_rt_rq t x \<noteq> None" for x
    using that new gq [of x] by (cases "x = e") (auto simp: rt_skip_def gr empty_rt_rq_def split: option.splits)
  have "rt_rq_wf (rt_rqs t g)" for g
    using ok(3) empty_rt_rq_wf [OF new] ne(2) by (cases "g = tg") (simp_all add: rt_inv_def)
  then have "rt_inv t" using ok(3) pr unfolding rt_inv_def qs by metis
  moreover have "rt_tgs t"
    unfolding rt_tgs_def
  proof
    fix g
    show "\<exists>h. rt_tg (rt_rqs t g) = Some h \<and> (\<forall>y. (tg_rt_se (tgs t h) = Some y) = (group_rt_rq t y = Some g)) \<and> tg_rt_se (tgs t h) \<noteq> Some 0"
    proof (cases "g = tg")
      case True
      then show ?thesis using new et tg by (intro exI [of _ tg]) (auto simp: empty_rt_rq_def se gr unused_group_def)
    next
      case False
      obtain h where h: "rt_tg (rt_rqs s g) = Some h" "\<And>y. (tg_rt_se (tgs s h) = Some y) = (group_rt_rq s y = Some g)" "tg_rt_se (tgs s h) \<noteq> Some 0"
        using ok(2) unfolding rt_tgs_def by blast
      have "h \<noteq> tg" using h(1) tg False by (auto simp: unused_group_def)
      then show ?thesis using h False ne(2) et(1) by (intro exI [of _ h]) (auto simp: se gr is_task_def)
    qed
  qed
  moreover have "rt_full t"
    unfolding rt_full_def
  proof (intro allI impI)
    fix y assume y: "group_rt_rq t y \<noteq> None"
    show "on_rt_rq t y \<longleftrightarrow> \<not> rt_skip t y"
    proof (cases "y = e")
      case True
      then show ?thesis using sk [OF y] off on by simp
    next
      case False
      then show ?thesis using sk [OF y] y ok(4) by (simp add: rt_full_def on gr)
    qed
  qed
  ultimately have okt: "rt_ok t" using hr(1) by (simp add: rt_ok_def)
  have q: "rt_queued t x = rt_queued s x" for x
    using off et on by (cases "x = e") (auto simp: rt_queued_def gr)
  have w: "wq t = wq s" "wrr_wf t = wrr_wf s" using t wrr_wf_cong [of t s] by (simp_all add: added_def)
  have v: "rt_valid t x" if "class_of s x = rt_sched_class" for x
    using s e that by (auto simp: sched_but_def rt_valid_def gr c unused_entity_def)
  show "sched_but None t" using s okt v unfolding sched_but_def q w c by simp
qed

text \<open>Changes of the group structures only.\<close>

lemma retg_but:
  assumes s: "sched_but b s" and root: "rt_root K s" and k: "ext_keep (s\<lparr>tgs := tgs t\<rparr>) t" and tg: "rt_tgs t"
  shows "sched_but b t" and "rt_root K t"
proof -
  let ?u = "s\<lparr>tgs := tgs t\<rparr>"
  have gr: "group_rt_rq ?u = group_rt_rq s" "rt_skip ?u = rt_skip s" "on_rt_rq ?u = on_rt_rq s" "rt_se_prio ?u = rt_se_prio s"
    by (simp_all add: fun_eq_iff group_rt_rq_def rt_skip_def on_rt_rq_def rt_se_prio_def split: option.split)
  have l: "rt_links ?u t" by (rule rt_links_same [OF ext_keep_same [OF k]])
  have "rt_tgs ?u" using tg k rt_links_group [OF l] by (simp add: rt_tgs_def ext_keep_def)
  moreover have "rt_hier ?u" using s rt_hier_cong [of ?u s] by (simp add: sched_but_def rt_ok_def)
  ultimately have "rt_ok ?u" using s by (simp add: sched_but_def rt_ok_def rt_inv_def rt_full_def gr)
  moreover have "wrr_wf ?u = wrr_wf s" by (rule wrr_wf_cong) simp
  ultimately have "sched_but b ?u" using s by (simp add: sched_but_def rt_queued_def rt_valid_def gr)
  then show "sched_but b t" by (rule sched_but_keep [OF k])
  have "rt_root K ?u" using root by (simp add: rt_root_def gr)
  then show "rt_root K t" using rt_root_links [OF l] by simp
qed

text \<open>Documented behaviour of the fair class and the autogroups: their calls keep to their own data.\<close>

definition fair_env :: "kenv \<Rightarrow> bool" where
  "fair_env K \<longleftrightarrow> (\<forall>tg p s. ext_keep s (snd (alloc_fair_sched_group K tg p s))) \<and> (\<forall>tg s. ext_keep s (free_fair_sched_group K tg s)) \<and>
     (\<forall>tg s. ext_keep s (unregister_fair_sched_group K tg s)) \<and> (\<forall>tg s. ext_keep s (autogroup_free K tg s))"

lemma free_sched_group_keep:
  assumes "fair_env K"
  shows "ext_keep s (free_sched_group K tg ses s)"
proof -
  have rt: "ext_keep t (free_rt_sched_group tg ses t)" for t
    by (auto simp: free_rt_sched_group_def destroy_rt_bandwidth_def Let_def ext_keep_def split: option.split)
  let ?s1 = "free_fair_sched_group K tg s"
  let ?s2 = "free_rt_sched_group tg ses ?s1"
  have "ext_keep s ?s1" using assms by (simp add: fair_env_def)
  then have "ext_keep s ?s2" by (rule ext_keep_trans [OF _ rt])
  moreover have "ext_keep ?s2 (autogroup_free K tg ?s2)" using assms by (simp add: fair_env_def)
  ultimately have "ext_keep s (autogroup_free K tg ?s2)" by (rule ext_keep_trans)
  then show ?thesis using ext_keep_trans [OF _ ext_keep_upds(2)]
    by (simp add: free_sched_group_def free_wrr_sched_group_def)
qed

lemma consistent_grow:
  assumes "consistent K s" and "sched_but None t" and "rt_root K t" and "\<And>x. core3 (tasks t x) = core3 (tasks s x)"
    and "\<And>h. group_ok K s h \<Longrightarrow> group_ok K t h"
  shows "consistent K t"
proof -
  have c: "task_params (tasks t x) = task_params (tasks s x)" "class_of t x = class_of s x" for x
    using assms(4) [of x] by (simp_all add: core3_def)
  then have "sched_task_group (tasks t x) = sched_task_group (tasks s x)" "policy (tasks t x) = policy (tasks s x)" for x
    using c(1) [of x] by (simp_all add: task_params_def)
  then show ?thesis using assms c(2) prio_wf_params [OF c(1)] by (simp add: consistent_def)
qed

lemma consistent_keep:
  assumes "ext_keep s t" and "consistent K s"
  shows "consistent K t"
proof (rule consistent_grow [OF assms(2)])
  show "sched_but None t" "rt_root K t"
    using assms sched_but_keep rt_root_keep [OF assms(1)] by (auto simp: consistent_def)
  show "core3 (tasks t x) = core3 (tasks s x)" for x using assms(1) by (simp add: ext_keep_def)
  show "group_ok K t h" if "group_ok K s h" for h
    using that group_ok_links [OF rt_links_same [OF ext_keep_same [OF assms(1)]]] by simp
qed

lemma consistent_retg:
  assumes s: "consistent K s" and k: "ext_keep (s\<lparr>tgs := tgs t\<rparr>) t"
    and se: "\<And>g. group_ok K s g \<Longrightarrow> tg_rt_se (tgs t g) = tg_rt_se (tgs s g)" and tg: "rt_tgs t"
  shows "consistent K t"
proof (rule consistent_grow [OF s])
  have c: "sched_but None s" "rt_root K s" using s by (simp_all add: consistent_def)
  show "sched_but None t" "rt_root K t" by (rule retg_but [OF c k tg])+
  show "core3 (tasks t x) = core3 (tasks s x)" for x using k by (simp add: ext_keep_def)
  have "group_rt_rq t = group_rt_rq s" using k by (simp add: ext_keep_def group_rt_rq_def fun_eq_iff)
  then show "group_ok K t h" if "group_ok K s h" for h
    using that se [OF that] by (simp add: group_ok_def split: option.splits)
qed

text \<open>At the address of the new group.\<close>

lemma consistent_blank_tg:
  assumes s: "consistent K s" and tg: "unused_group K tg s" and k: "ext_keep (s\<lparr>tgs := tgs t\<rparr>) t"
    and se: "\<And>g. g \<noteq> tg \<Longrightarrow> tg_rt_se (tgs t g) = tg_rt_se (tgs s g)" "tg_rt_se (tgs t tg) = None"
  shows "consistent K t" and "unused_group K tg t" and "tg_rt_se (tgs t tg) = None"
proof -
  have gr: "group_rt_rq t = group_rt_rq s" "rt_rqs t = rt_rqs s" using k by (simp_all add: ext_keep_def group_rt_rq_def fun_eq_iff)
  have "\<not> group_ok K s tg" using tg by (auto simp: group_ok_def unused_group_def split: option.splits)
  then have se': "tg_rt_se (tgs t g) = tg_rt_se (tgs s g)" if "group_ok K s g" for g using se(1) that by metis
  have old: "rt_tgs s" using s by (simp add: consistent_def sched_but_def rt_ok_def)
  have "rt_tgs t"
    unfolding rt_tgs_def gr
  proof
    fix g
    obtain h where h: "rt_tg (rt_rqs s g) = Some h" "\<And>y. (tg_rt_se (tgs s h) = Some y) = (group_rt_rq s y = Some g)" "tg_rt_se (tgs s h) \<noteq> Some 0"
      using old unfolding rt_tgs_def by blast
    show "\<exists>h. rt_tg (rt_rqs s g) = Some h \<and> (\<forall>y. (tg_rt_se (tgs t h) = Some y) = (group_rt_rq s y = Some g)) \<and> tg_rt_se (tgs t h) \<noteq> Some 0"
    proof (cases "h = tg")
      case True
      then have "g = tg" using h(1) tg by (auto simp: unused_group_def)
      then show ?thesis using True h(1) se(2) tg by (intro exI [of _ h]) (simp add: unused_group_def)
    qed (use h se(1) in auto)
  qed
  then show "consistent K t" using consistent_retg [OF s k se'] by blast
  show "unused_group K tg t" using tg by (simp add: unused_group_def gr)
  show "tg_rt_se (tgs t tg) = None" by (rule se(2))
qed

definition unused_memory :: "kenv \<Rightarrow> group_memory \<Rightarrow> kstate \<Rightarrow> bool" where
  "unused_memory K M s \<longleftrightarrow> (\<forall>tg. mem_tg M = Some tg \<longrightarrow> unused_group K tg s) \<and> (\<forall>e. mem_rt_se M = Some e \<longrightarrow> unused_entity K e s)"

lemma alloc_rt_sched_group_consistent:
  assumes B: "bit_ops_ok (kbits K)" and s: "consistent K s" and tg: "unused_group K tg s" "tg_rt_se (tgs s tg) = None"
    and par: "group_ok K s parent" "parent \<noteq> tg" and e: "\<And>e. mem_rt_se M = Some e \<Longrightarrow> unused_entity K e s"
  shows "\<exists>r t. alloc_rt_sched_group K M tg parent s = Some (r, t) \<and> consistent K t \<and> curr (rq t) = curr (rq s) \<and>
    (\<forall>x. core3 (tasks t x) = core3 (tasks s x)) \<and> (r \<noteq> 0 \<longrightarrow> group_ok K t tg)"
proof -
  define s1 where "s1 = upd_tg tg (\<lambda>t. t\<lparr>tg_rt_bandwidth := init_rt_bandwidth (rt_period (def_rt_bandwidth s)) 0 (tg_rt_bandwidth t)\<rparr>) s"
  have "ext_keep (s\<lparr>tgs := tgs s1\<rparr>) s1" by (simp add: s1_def ext_keep_def upd_tg_def)
  from consistent_blank_tg [OF s tg(1) this] tg(2)
  have s1: "consistent K s1" "unused_group K tg s1" by (simp_all add: s1_def upd_tg_def)
  have c1: "curr (rq s1) = curr (rq s)" "tasks s1 = tasks s" "rt_ents s1 = rt_ents s"
    "g \<noteq> tg \<Longrightarrow> tgs s1 g = tgs s g" for g by (simp_all add: s1_def upd_tg_def)
  show ?thesis
  proof (cases "mem_rt_rqs M \<and> mem_rt_ses M \<and> mem_rt_rq M \<and> mem_rt_se M \<noteq> None")
    case False
    then show ?thesis using s s1(1) c1 by (auto simp: alloc_rt_sched_group_def Let_def s1_def [symmetric])
  next
    case True
    then obtain x where x: "mem_rt_se M = Some x" by blast
    define q where "q = (case tg_rt_se (tgs s parent) of None \<Rightarrow> root_task_group K | Some pe \<Rightarrow> parent)"
    have ux: "unused_entity K x s1" using e [OF x] by (simp add: unused_entity_def is_task_def group_rt_rq_def s1_def upd_tg_def)
    have "x \<noteq> pe" if "tg_rt_se (tgs s parent) = Some pe" for pe
      using that par(1) ux by (auto simp: group_ok_def unused_entity_def is_task_def group_rt_rq_def c1)
    then have pe: "tg_rt_se (tgs s parent) = Some pe \<Longrightarrow> rt_my_q (if pe = x then zero_rt_se else rt_ents s pe) = Some q" for pe
      using par(1) by (auto simp: q_def group_ok_def group_rt_rq_def)
    define s3 where "s3 = upd_rt_rq tg (\<lambda>r. r\<lparr>rt_runtime := bw_rt_runtime (tg_rt_bandwidth (tgs s1 tg))\<rparr>)
        (upd_rt x (\<lambda>_. zero_rt_se) (upd_rt_rq tg (\<lambda>_. init_rt_rq K zero_rt_rq) s1))"
    define t where "t = upd_rt x (\<lambda>e. e\<lparr>rt_rq_of := q, rt_my_q := Some tg, rt_parent := tg_rt_se (tgs s parent)\<rparr>)
        (upd_tg tg (\<lambda>t. t\<lparr>tg_rt_se := Some x\<rparr>)
          (upd_rt_rq tg (\<lambda>r. r\<lparr>highest_prio_curr := MAX_RT_PRIO, rt_nr_boosted := 0, rt_tg := Some tg\<rparr>) s3))"
    have "tg_rt_se (tgs s3 parent) = tg_rt_se (tgs s parent)" using par(2) by (simp add: s3_def c1)
    then have init: "init_tg_rt_entry K tg tg (Some x) (tg_rt_se (tgs s3 parent)) s3 = Some t"
      using pe by (cases "tg_rt_se (tgs s parent)") (simp_all add: init_tg_rt_entry_def Let_def t_def s3_def c1 q_def)
    have alloc: "alloc_rt_sched_group K M tg parent s = Some (1, t)"
      using True x init unfolding s3_def by (simp add: alloc_rt_sched_group_def Let_def s1_def [symmetric])
    have ad: "added tg x s1 t"
      by (simp add: t_def s3_def added_def upd_tg_def empty_rt_rq_def init_rt_rq_zero [OF B]) (simp add: zero_rt_rq_def)
    have pl: "placed K s1 (rt_ents t x)"
      using par by (cases "tg_rt_se (tgs s parent)") (auto simp: t_def s3_def placed_def q_def group_ok_def group_rt_rq_def c1 upd_tg_def)
    have cs: "sched_but None s1" "rt_root K s1" using s1(1) by (simp_all add: consistent_def)
    note a = added_but [OF cs s1(2) ux ad pl]
    have core: "core3 (tasks t y) = core3 (tasks s1 y)" for y using ad by (simp add: added_def)
    have "consistent K t" by (rule consistent_grow [OF s1(1) a(1,2) core]) (simp add: a(3))
    moreover have "curr (rq t) = curr (rq s)" using ad c1(1) by (simp add: added_def)
    ultimately show ?thesis using alloc a(3) core c1 by auto
  qed
qed

lemma sched_create_group_consistent:
  assumes K: "bit_ops_ok (kbits K)" "fair_env K" and s: "consistent K s" and M: "unused_memory K M s" and par: "group_ok K s parent"
  shows "\<exists>r t. sched_create_group K M parent s = Some (r, t) \<and> consistent K t \<and> curr (rq t) = curr (rq s) \<and>
    (\<forall>x. core3 (tasks t x) = core3 (tasks s x)) \<and> (\<forall>tg. r = Inr tg \<longrightarrow> mem_tg M = Some tg \<and> group_ok K t tg)"
proof (cases "mem_tg M")
  case None
  then show ?thesis using s by (simp add: sched_create_group_def)
next
  case (Some tg)
  have tg: "unused_group K tg s" using M Some by (simp add: unused_memory_def)
  then have ne: "parent \<noteq> tg" using par by (auto simp: group_ok_def unused_group_def split: option.splits)
  define s0 where "s0 = upd_tg tg (\<lambda>_. zero_tg) s"
  have "ext_keep (s\<lparr>tgs := tgs s0\<rparr>) s0" by (simp add: s0_def ext_keep_def)
  from consistent_blank_tg [OF s tg this]
  have s0: "consistent K s0" "unused_group K tg s0" "tg_rt_se (tgs s0 tg) = None" by (simp_all add: s0_def zero_tg_def)
  obtain fair s1 where f: "alloc_fair_sched_group K tg parent s0 = (fair, s1)" by fastforce
  have k: "ext_keep s0 s1" using K(2) f by (metis fair_env_def snd_conv)
  have e: "rt_rqs s1 = rt_rqs s" "rt_ents s1 = rt_ents s" "tgs s1 = (tgs s)(tg := zero_tg)" "curr (rq s1) = curr (rq s)"
    "core3 (tasks s1 x) = core3 (tasks s x)" for x
    using k by (simp_all add: ext_keep_def s0_def)
  have gr: "group_rt_rq s1 = group_rt_rq s" by (simp add: fun_eq_iff group_rt_rq_def e)
  have s1: "consistent K s1" "unused_group K tg s1" "tg_rt_se (tgs s1 tg) = None" "group_ok K s1 parent"
    using consistent_keep [OF k s0(1)] tg par ne by (simp_all add: unused_group_def gr e group_ok_def zero_tg_def split: option.splits)
  have ent: "unused_entity K x s1" if "mem_rt_se M = Some x" for x
    using M that e(5) [of x] by (simp add: unused_memory_def unused_entity_def is_task_def gr e(4) core3_def)
  obtain rt s2 where a: "alloc_rt_sched_group K M tg parent s1 = Some (rt, s2)" "consistent K s2" "curr (rq s2) = curr (rq s1)"
    "\<forall>x. core3 (tasks s2 x) = core3 (tasks s1 x)" "rt \<noteq> 0 \<longrightarrow> group_ok K s2 tg"
    using alloc_rt_sched_group_consistent [OF K(1) s1 ne ent] by blast
  note eq = sched_create_group_eq [OF Some f [unfolded s0_def] a(1)]
  have freed: "consistent K (free_sched_group K tg b u) \<and> curr (rq (free_sched_group K tg b u)) = curr (rq u) \<and>
      (\<forall>x. core3 (tasks (free_sched_group K tg b u) x) = core3 (tasks u x))" if "consistent K u" for b u
    using free_sched_group_keep [OF K(2), of u tg b] consistent_keep that by (simp add: ext_keep_def) blast
  let ?l = "linked_group K tg parent s2"
  have lse: "tg_rt_se (tgs ?l g) = tg_rt_se (tgs s2 g)" "rt_rqs ?l = rt_rqs s2" "rt_ents ?l = rt_ents s2" "tasks ?l = tasks s2"
    "rq ?l = rq s2" for g by (simp_all add: linked_group_def upd_tg_def)
  have gl: "group_rt_rq ?l = group_rt_rq s2" by (simp add: fun_eq_iff group_rt_rq_def lse)
  have "ext_keep (s2\<lparr>tgs := tgs ?l\<rparr>) ?l" by (simp add: ext_keep_def lse)
  moreover have "rt_tgs ?l" using a(2) by (simp add: consistent_def sched_but_def rt_ok_def rt_tgs_def lse gl)
  ultimately have "consistent K ?l" using consistent_retg [OF a(2)] lse(1) by blast
  moreover have "group_ok K ?l tg = group_ok K s2 tg" by (simp add: group_ok_def lse gl split: option.split)
  ultimately show ?thesis
    using eq freed [OF s1(1)] freed [OF a(2)] a(3-5) e(4,5) Some by (simp add: lse)
qed

section \<open>Destroying a group and changing its bandwidth\<close>

lemma sched_destroy_group_consistent:
  assumes K: "fair_env K" and s: "consistent K s"
  shows "consistent K (sched_destroy_group K tg s)" and "curr (rq (sched_destroy_group K tg s)) = curr (rq s)"
    and "core3 (tasks (sched_destroy_group K tg s) x) = core3 (tasks s x)"
proof -
  let ?u = "unregister_fair_sched_group K tg s" and ?t = "sched_destroy_group K tg s"
  have k: "ext_keep s ?u" using K by (simp add: fair_env_def)
  have u: "consistent K ?u" by (rule consistent_keep [OF k s])
  have e: "tg_rt_se (tgs ?t g) = tg_rt_se (tgs ?u g)" "rt_rqs ?t = rt_rqs ?u" "rt_ents ?t = rt_ents ?u" "tasks ?t = tasks ?u" "rq ?t = rq ?u" for g
    by (simp_all add: sched_destroy_group_def Let_def upd_tg_def split: option.split)
  have gr: "group_rt_rq ?t = group_rt_rq ?u" by (simp add: fun_eq_iff group_rt_rq_def e)
  have "ext_keep (?u\<lparr>tgs := tgs ?t\<rparr>) ?t" by (simp add: ext_keep_def e)
  moreover have "rt_tgs ?t" using u by (simp add: consistent_def sched_but_def rt_ok_def rt_tgs_def e gr)
  ultimately show "consistent K ?t" using consistent_retg [OF u] e(1) by blast
  show "curr (rq ?t) = curr (rq s)" "core3 (tasks ?t x) = core3 (tasks s x)" using k by (simp_all add: ext_keep_def e)
qed

lemma set_bw_consistent:
  assumes s: "consistent K s"
  shows "consistent K (set_bw g period runtime s)"
proof -
  let ?t = "set_bw g period runtime s"
  have e: "rt_ents ?t = rt_ents s" "tasks ?t = tasks s" "rq ?t = rq s" "tg_rt_se (tgs ?t h) = tg_rt_se (tgs s h)"
    "active (rt_rqs ?t h) = active (rt_rqs s h)" "rt_nr_running (rt_rqs ?t h) = rt_nr_running (rt_rqs s h)"
    "highest_prio_curr (rt_rqs ?t h) = highest_prio_curr (rt_rqs s h)" "rt_tg (rt_rqs ?t h) = rt_tg (rt_rqs s h)"
    "rt_rq_throttled (rt_rqs ?t h) = rt_rq_throttled (rt_rqs s h)" for h
    by (simp_all add: set_bw_def rt_rq_throttled_def)
  note m = rt_inv_meta [OF e(1,2,5,6,7)]
  have sk: "rt_skip ?t = rt_skip s" by (simp add: fun_eq_iff rt_skip_def m(3) e split: option.split)
  have c: "sched_but None s" "rt_root K s" using s by (simp_all add: consistent_def)
  have "rt_hier ?t" using c(1) rt_hier_cong [of ?t s] by (simp add: sched_but_def rt_ok_def e)
  then have "rt_ok ?t" using c(1) by (simp add: sched_but_def rt_ok_def m rt_full_def sk rt_tgs_def e)
  moreover have "wrr_wf ?t = wrr_wf s" by (rule wrr_wf_cong) (simp add: e)
  ultimately have "sched_but None ?t" using c(1) by (simp add: sched_but_def rt_queued_def rt_valid_def m e)
  moreover have "rt_root K ?t" using c(2) by (simp add: rt_root_def m e)
  moreover have "group_ok K s h \<Longrightarrow> group_ok K ?t h" for h by (simp add: group_ok_def e m split: option.splits)
  ultimately show ?thesis using consistent_grow [OF s, of ?t] by (simp add: e)
qed

lemma set_rt_bandwidth_consistent:
  assumes "tg_set_rt_bandwidth K th g period runtime s = Some (r, t)" and "consistent K s"
  shows "consistent K t" and "curr (rq t) = curr (rq s)" and "tasks t = tasks s"
proof -
  have "t = s \<or> t = set_bw g period runtime s"
    using assms(1) by (auto simp: tg_set_rt_bandwidth_def set_bw_def Let_def bind_eq_Some_conv split: if_splits)
  then show "consistent K t" "curr (rq t) = curr (rq s)" "tasks t = tasks s"
    using assms(2) set_bw_consistent by (auto simp: set_bw_def)
qed

end
