(* ===== verification/Boot.thy ===== *)
theory Boot
  imports Task_Groups Load
begin

text \<open>
  Setting up the scheduler: \<^verbatim>\<open>sched_init\<close>, \<^verbatim>\<open>init_idle\<close> and \<^verbatim>\<open>init_idle_bootup_task\<close> of \<^verbatim>\<open>core.c\<close>. The boot thread
  \<^verbatim>\<open>init_task\<close> becomes the idle task of the CPU, so its address is \<open>idle_task K\<close>; it is \<^verbatim>\<open>current\<close> all the time.
\<close>

text \<open>
  What is read or called from elsewhere: \<^verbatim>\<open>jiffies\<close> and \<^verbatim>\<open>sched_clock\<close>, whether the two boot allocations succeed, and the
  initialisation of the fair class and the autogroups.
\<close>

record boot_env =
  boot_jiffies :: ulong
  boot_sched_clock :: u64
  kzalloc_ok :: bool
  alloc_percpu_ok :: bool
  autogroup_init :: "ptr \<Rightarrow> kstate \<Rightarrow> kstate"
  init_cfs_rq :: "kstate \<Rightarrow> kstate"
  init_tg_cfs_entry :: "ptr \<Rightarrow> kstate \<Rightarrow> kstate"
  init_sched_fair_class :: "kstate \<Rightarrow> kstate"

record boot_state =
  boot_kernel :: kstate
  boot_load :: load_state
  boot_nr_iowait :: int
  scheduler_running :: bool

definition init_idle_bootup_task :: "ptr \<Rightarrow> kstate \<Rightarrow> kstate" where
  "init_idle_bootup_task p = upd_task p (\<lambda>t. t\<lparr>sched_class := idle_sched_class\<rparr>)"

text \<open>On one CPU \<^verbatim>\<open>do_set_cpus_allowed\<close> is empty and \<^verbatim>\<open>__set_task_cpu\<close> is \<^verbatim>\<open>set_task_rq\<close>.\<close>

definition init_idle :: "u64 \<Rightarrow> ptr \<Rightarrow> kstate \<Rightarrow> kstate" where
  "init_idle now p s =
     (let s1 = sched_fork1 p s;
          s2 = upd_task p (\<lambda>t. t\<lparr>tstate := TASK_RUNNING\<rparr>) s1;
          s3 = upd_se p (\<lambda>e. e\<lparr>exec_start := now\<rparr>) s2;
          s4 = set_task_rq p s3;
          s5 = s4\<lparr>rq := (rq s4)\<lparr>curr := p, idle := p\<rparr>\<rparr>
      in upd_task p (\<lambda>t. t\<lparr>sched_class := idle_sched_class\<rparr>) s5)"

text \<open>The body of the loop over the CPUs.\<close>

definition init_rq :: "kenv \<Rightarrow> boot_env \<Rightarrow> kstate \<Rightarrow> kstate option" where
  "init_rq K E s =
     (let root = root_task_group K;
          s1 = s\<lparr>rq := (rq s)\<lparr>nr_running := 0\<rparr>\<rparr>;
          s2 = init_cfs_rq E s1;
          s3 = upd_rt_rq root (init_rt_rq K) s2;
          s4 = set_wrr_rq (init_wrr_rq (rq_wrr (rq s3))) s3;
          s5 = init_tg_cfs_entry E root s4;
          s6 = upd_rt_rq root (\<lambda>r. r\<lparr>rt_runtime := bw_rt_runtime (def_rt_bandwidth s5)\<rparr>) s5;
          s7 = s6\<lparr>rq := (rq s6)\<lparr>leaf_rt_rq_list := []\<rparr>\<rparr>
      in init_tg_rt_entry K root root None None s7)"

definition init_rq_load :: "nat \<Rightarrow> ulong \<Rightarrow> load_state \<Rightarrow> load_state" where
  "init_rq_load hz now L = L\<lparr>calc_load_active := 0, rq_calc_load_update := now + LOAD_FREQ hz,
     cpu_load := replicate CPU_LOAD_IDX_MAX 0, last_load_update_tick := now\<rparr>"

text \<open>
  \<^verbatim>\<open>None\<close>: without the arrays of the root group \<^verbatim>\<open>init_tg_rt_entry\<close> writes through NULL, and without the counters of
  the root accounting group \<^verbatim>\<open>BUG_ON\<close> stops the kernel.
\<close>

definition sched_init :: "kenv \<Rightarrow> boot_env \<Rightarrow> kstate \<Rightarrow> load_state \<Rightarrow> boot_state option" where
  "sched_init K E s L =
     (let root = root_task_group K; init_task = idle_task K;
          s1 = s\<lparr>def_rt_bandwidth := init_rt_bandwidth (global_rt_period s) (global_rt_runtime s) (def_rt_bandwidth s)\<rparr>;
          s2 = upd_tg root (\<lambda>t. t\<lparr>tg_rt_bandwidth :=
                 init_rt_bandwidth (global_rt_period s1) (global_rt_runtime s1) (tg_rt_bandwidth t)\<rparr>) s1;
          s3 = s2\<lparr>task_groups := list_add_op (klists K) root (task_groups s2)\<rparr>;
          s4 = upd_tg root (\<lambda>t. t\<lparr>tg_children := []\<rparr>) s3;
          s5 = autogroup_init E init_task s4
      in if \<not> kzalloc_ok E \<or> \<not> alloc_percpu_ok E then None
      else do {
        s6 \<leftarrow> init_rq K E s5;
        let L1 = init_rq_load (HZ K) (boot_jiffies E) L;
        s7 \<leftarrow> set_load_weight init_task s6;
        let s8 = init_idle (boot_sched_clock E) init_task s7;
        let L2 = L1\<lparr>calc_load_update := boot_jiffies E + LOAD_FREQ (HZ K)\<rparr>;
        let s9 = upd_task init_task (\<lambda>t. t\<lparr>sched_class := fair_sched_class\<rparr>) s8;
        let s10 = init_sched_fair_class E s9;
        Some \<lparr>boot_kernel = s10, boot_load = L2, boot_nr_iowait = 0, scheduler_running = True\<rparr> })"

end
