(* ===== verification/Lifecycle.thy ===== *)
theory Lifecycle
  imports Group_Links Boot
begin

text \<open>
  The whole life of the scheduler in one step relation: from the state \<^verbatim>\<open>sched_init\<close> leaves, through forks, wakeups,
  ticks, switches, changes of parameters, and groups that are created, joined, limited and destroyed.
\<close>

section \<open>Boot\<close>

text \<open>
  The static memory that \<^verbatim>\<open>sched_init\<close> finds. The model has a task, an entity, a group and a queue at every address; those
  that hold nothing yet are blank: not runnable, in the root group, not linked to anything.
\<close>

definition blank_task :: "kenv \<Rightarrow> task_struct \<Rightarrow> bool" where
  "blank_task K t \<longleftrightarrow> \<not> on_rq t \<and> prio_wf t \<and> sched_task_group t = root_task_group K \<and>
     sched_class t \<noteq> rt_sched_class \<and> sched_class t \<noteq> wrr_sched_class"

definition blank_entity :: "kenv \<Rightarrow> sched_rt_entity \<Rightarrow> bool" where
  "blank_entity K e \<longleftrightarrow> rt_parent e = None \<and> rt_rq_of e = root_task_group K \<and> rt_my_q e = None"

definition boot_memory :: "kenv \<Rightarrow> kstate \<Rightarrow> bool" where
  "boot_memory K s \<longleftrightarrow> idle_task K \<noteq> 0 \<and> task_groups s = [] \<and> rt_rqs s (root_task_group K) = zero_rt_rq \<and>
     (\<forall>g. g \<noteq> root_task_group K \<longrightarrow> empty_rt_rq g (rt_rqs s g)) \<and> (\<forall>g. tg_rt_se (tgs s g) = None) \<and>
     (\<forall>x. x \<noteq> idle_task K \<longrightarrow> blank_entity K (rt_ents s x)) \<and> rt_my_q (rt_ents s (idle_task K)) = None \<and>
     (\<forall>p. blank_task K (tasks s p))"

text \<open>Documented behaviour of the initialisation outside the repository: it touches only its own data; the allocations succeed.\<close>

definition boot_env_ok :: "boot_env \<Rightarrow> bool" where
  "boot_env_ok E \<longleftrightarrow> kzalloc_ok E \<and> alloc_percpu_ok E \<and> (\<forall>p s. ext_keep s (autogroup_init E p s)) \<and> (\<forall>s. ext_keep s (init_cfs_rq E s)) \<and>
     (\<forall>g s. ext_keep s (init_tg_cfs_entry E g s)) \<and> (\<forall>s. ext_keep s (init_sched_fair_class E s))"

definition blank :: "kenv \<Rightarrow> kstate \<Rightarrow> bool" where
  "blank K s \<longleftrightarrow> (\<forall>g. empty_rt_rq g (rt_rqs s g)) \<and> (\<forall>g. tg_rt_se (tgs s g) = None) \<and>
     (\<forall>x. blank_entity K (rt_ents s x)) \<and> (\<forall>p. blank_task K (tasks s p)) \<and> rq_wrr (rq s) = \<lparr>wrr_nr_running = 0, wrr_queue = []\<rparr>"

lemma blank_consistent:
  assumes "blank K s"
  shows "consistent K s"
proof -
  have q: "empty_rt_rq g (rt_rqs s g)" "tg_rt_se (tgs s g) = None" "rt_parent (rt_ents s x) = None"
    "rt_rq_of (rt_ents s x) = root_task_group K" "group_rt_rq s x = None" for g x
    using assms by (simp_all add: blank_def blank_entity_def group_rt_rq_def)
  have t: "\<not> on_rq (tasks s p)" "prio_wf (tasks s p)" "sched_task_group (tasks s p) = root_task_group K"
    "class_of s p \<noteq> rt_sched_class" "class_of s p \<noteq> wrr_sched_class" for p
    using assms by (simp_all add: blank_def blank_task_def)
  have w: "wq s = []" "wrr_wf s" using assms by (simp_all add: blank_def wrr_wf_def)
  have nil: "rtq (rt_rqs s g) i = []" "rt_tg (rt_rqs s g) = Some g" "rt_rq_wf (rt_rqs s g)" for g i
    using q(1) [of g] empty_rt_rq_wf by (simp_all add: empty_rt_rq_def)
  have "rt_hier s" by (simp add: rt_hier_def q rt_chain_Some)
  moreover have "rt_tgs s" by (simp add: rt_tgs_def q nil)
  moreover have "rt_inv s" by (simp add: rt_inv_def nil)
  moreover have "rt_full s" by (simp add: rt_full_def q)
  ultimately have "rt_ok s" by (simp add: rt_ok_def)
  moreover have "\<not> rt_queued s p" for p by (simp add: rt_queued_def on_rt_rq_def on_rt_list_def nil list_ex_iff)
  ultimately have "sched_but None s" using t w by (simp add: sched_but_def)
  moreover have "rt_root K s" by (simp add: rt_root_def q)
  ultimately show ?thesis using t q by (simp add: consistent_def group_ok_def)
qed

lemma blank_task_core3:
  assumes "core3 t = core3 u"
  shows "blank_task K t = blank_task K u"
proof -
  have "task_params t = task_params u" "on_rq t = on_rq u" "sched_class t = sched_class u" using assms by (simp_all add: core3_def)
  then show ?thesis using prio_wf_params [of t u] by (simp add: blank_task_def) (simp add: task_params_def)
qed

lemma blank_keep:
  assumes k: "ext_keep s t" and s: "blank K s"
  shows "blank K t"
proof -
  have "blank_task K (tasks t p) = blank_task K (tasks s p)" for p
    by (rule blank_task_core3) (use k in \<open>simp add: ext_keep_def\<close>)
  then show ?thesis using k s by (simp add: ext_keep_def blank_def)
qed

lemma empty_root_queue:
  "empty_rt_rq g (zero_rt_rq\<lparr>active := \<lparr>bitmap = (\<lambda>i. i = MAX_RT_PRIO), rt_queue = (\<lambda>_. [])\<rparr>,
     rt_runtime := x, highest_prio_curr := MAX_RT_PRIO, rt_nr_boosted := 0, rt_tg := Some g\<rparr>)"
  by (simp add: empty_rt_rq_def zero_rt_rq_def)

lemma init_rq_ok:
  assumes B: "bit_ops_ok (kbits K)" and E: "boot_env_ok E" and z: "rt_rqs s (root_task_group K) = zero_rt_rq"
  shows "\<exists>t. init_rq K E s = Some t \<and> (\<forall>x. core3 (tasks t x) = core3 (tasks s x)) \<and> rt_ents t = rt_ents s \<and>
    (\<forall>g. tg_rt_se (tgs t g) = (if g = root_task_group K then None else tg_rt_se (tgs s g))) \<and>
    rq_wrr (rq t) = \<lparr>wrr_nr_running = 0, wrr_queue = []\<rparr> \<and> empty_rt_rq (root_task_group K) (rt_rqs t (root_task_group K)) \<and>
    (\<forall>g. g \<noteq> root_task_group K \<longrightarrow> rt_rqs t g = rt_rqs s g)"
proof -
  let ?r = "root_task_group K"
  define sa where "sa = init_cfs_rq E (s\<lparr>rq := (rq s)\<lparr>nr_running := 0\<rparr>\<rparr>)"
  define sb where "sb = set_wrr_rq (init_wrr_rq (rq_wrr (rq (upd_rt_rq ?r (init_rt_rq K) sa)))) (upd_rt_rq ?r (init_rt_rq K) sa)"
  define sc where "sc = init_tg_cfs_entry E ?r sb"
  define sd where "sd = upd_rt_rq ?r (\<lambda>r. r\<lparr>rt_runtime := bw_rt_runtime (def_rt_bandwidth sc)\<rparr>) sc"
  define t where "t = upd_tg ?r (\<lambda>t. t\<lparr>tg_rt_se := None\<rparr>)
      (upd_rt_rq ?r (\<lambda>r. r\<lparr>highest_prio_curr := MAX_RT_PRIO, rt_nr_boosted := 0, rt_tg := Some ?r\<rparr>)
        (sd\<lparr>rq := (rq sd)\<lparr>leaf_rt_rq_list := []\<rparr>\<rparr>))"
  have ka: "ext_keep (s\<lparr>rq := (rq s)\<lparr>nr_running := 0\<rparr>\<rparr>) sa" using E unfolding sa_def boot_env_ok_def by blast
  have kc: "ext_keep sb sc" using E unfolding sc_def boot_env_ok_def by blast
  have ta: "core3 (tasks sa x) = core3 (tasks s x)" "rt_ents sa = rt_ents s" "rt_rqs sa = rt_rqs s" "tgs sa = tgs s" for x
    using ka by (simp_all add: ext_keep_def)
  have tb: "core3 (tasks sb x) = core3 (tasks s x)" "rt_ents sb = rt_ents s" "tgs sb = tgs s"
    "rq_wrr (rq sb) = \<lparr>wrr_nr_running = 0, wrr_queue = []\<rparr>" "rt_rqs sb = (rt_rqs s)(?r := init_rt_rq K zero_rt_rq)" for x
    using ta z by (simp_all add: sb_def set_wrr_rq_def init_wrr_rq_def)
  have tc: "core3 (tasks sc x) = core3 (tasks s x)" "rt_ents sc = rt_ents s" "tgs sc = tgs s"
    "rq_wrr (rq sc) = \<lparr>wrr_nr_running = 0, wrr_queue = []\<rparr>" "rt_rqs sc = (rt_rqs s)(?r := init_rt_rq K zero_rt_rq)" for x
    using kc tb by (simp_all add: ext_keep_def)
  have "rt_rqs t ?r = zero_rt_rq\<lparr>active := \<lparr>bitmap = (\<lambda>i. i = MAX_RT_PRIO), rt_queue = (\<lambda>_. [])\<rparr>,
      rt_runtime := bw_rt_runtime (def_rt_bandwidth sc), highest_prio_curr := MAX_RT_PRIO, rt_nr_boosted := 0, rt_tg := Some ?r\<rparr>"
    by (simp add: t_def sd_def tc(5) init_rt_rq_zero [OF B])
  then have "empty_rt_rq ?r (rt_rqs t ?r)" using empty_root_queue by simp
  moreover have "init_rq K E s = Some t"
    by (simp add: init_rq_def init_tg_rt_entry_def t_def sd_def sc_def sb_def sa_def Let_def)
  ultimately show ?thesis by (simp add: t_def sd_def tc)
qed

lemma init_idle_ok:
  fixes now :: u64
  assumes "sched_task_group (tasks s p) = g" and "tg_rt_se (tgs s g) = None"
  defines "t \<equiv> init_idle now p s"
  shows "rt_rqs t = rt_rqs s" "tgs t = tgs s" "rq_wrr (rq t) = rq_wrr (rq s)" "curr (rq t) = p" "idle (rq t) = p"
    and "x \<noteq> p \<Longrightarrow> tasks t x = tasks s x" "x \<noteq> p \<Longrightarrow> rt_ents t x = rt_ents s x"
    and "rt_parent (rt_ents t p) = None" "rt_rq_of (rt_ents t p) = g" "rt_my_q (rt_ents t p) = rt_my_q (rt_ents s p)"
    and "task_params (tasks t p) = task_params (tasks s p)" "\<not> on_rq (tasks t p)"
proof -
  define u where "u = upd_se p (\<lambda>e. e\<lparr>exec_start := now\<rparr>) (upd_task p (\<lambda>t. t\<lparr>tstate := TASK_RUNNING\<rparr>) (sched_fork1 p s))"
  have u: "rt_rqs u = rt_rqs s" "tgs u = tgs s" "rq u = rq s" "rt_ents u = rt_ents s" "sched_task_group (tasks u p) = g"
    "x \<noteq> p \<Longrightarrow> tasks u x = tasks s x" "task_params (tasks u p) = task_params (tasks s p)" "\<not> on_rq (tasks u p)" for x
    using assms(1) by (simp_all add: u_def sched_fork1_def task_params_def upd_se_def)
  have t: "t = upd_task p (\<lambda>t. t\<lparr>sched_class := idle_sched_class\<rparr>)
      ((set_task_rq p u)\<lparr>rq := (rq (set_task_rq p u))\<lparr>curr := p, idle := p\<rparr>\<rparr>)"
    by (simp add: t_def init_idle_def u_def Let_def)
  note l = set_task_rq_links [where p = p and s = u]
  show "rt_rqs t = rt_rqs s" "tgs t = tgs s" "rq_wrr (rq t) = rq_wrr (rq s)" "curr (rq t) = p" "idle (rq t) = p"
    "x \<noteq> p \<Longrightarrow> tasks t x = tasks s x" "x \<noteq> p \<Longrightarrow> rt_ents t x = rt_ents s x"
    "rt_parent (rt_ents t p) = None" "rt_rq_of (rt_ents t p) = g" "\<not> on_rq (tasks t p)"
    by (simp_all add: t l u assms(2))
  show "rt_my_q (rt_ents t p) = rt_my_q (rt_ents s p)" using l(5) [of p] by (simp add: t group_rt_rq_def u)
  show "task_params (tasks t p) = task_params (tasks s p)" using u(7) by (simp add: t l task_params_def)
qed

lemma sched_init_blank:
  assumes B: "bit_ops_ok (kbits K)" and E: "boot_env_ok E" and s: "boot_memory K s"
  shows "\<exists>b. sched_init K E s L = Some b \<and> blank K (boot_kernel b) \<and> curr (rq (boot_kernel b)) = idle_task K \<and>
    class_of (boot_kernel b) (idle_task K) = fair_sched_class"
proof -
  let ?r = "root_task_group K" and ?i = "idle_task K"
  define s1 where "s1 = s\<lparr>def_rt_bandwidth := init_rt_bandwidth (global_rt_period s) (global_rt_runtime s) (def_rt_bandwidth s)\<rparr>"
  define s2 where "s2 = upd_tg ?r (\<lambda>t. t\<lparr>tg_rt_bandwidth := init_rt_bandwidth (global_rt_period s1) (global_rt_runtime s1) (tg_rt_bandwidth t)\<rparr>) s1"
  define s4 where "s4 = upd_tg ?r (\<lambda>t. t\<lparr>tg_children := []\<rparr>) (s2\<lparr>task_groups := list_add_op (klists K) ?r (task_groups s2)\<rparr>)"
  define s5 where "s5 = autogroup_init E ?i s4"
  have t4: "tasks s4 = tasks s" "rt_ents s4 = rt_ents s" "rt_rqs s4 = rt_rqs s" "tg_rt_se (tgs s4 g) = tg_rt_se (tgs s g)" for g
    by (simp_all add: s4_def s2_def s1_def)
  have k5: "ext_keep s4 s5" using E by (simp add: s5_def boot_env_ok_def)
  have t5: "core3 (tasks s5 x) = core3 (tasks s x)" "rt_ents s5 = rt_ents s" "rt_rqs s5 = rt_rqs s" "tg_rt_se (tgs s5 g) = None" for x g
    using k5 t4 s by (simp_all add: ext_keep_def boot_memory_def)
  have z: "rt_rqs s5 ?r = zero_rt_rq" using s by (simp add: t5 boot_memory_def)
  obtain s6 where i6: "init_rq K E s5 = Some s6" and c6: "\<forall>x. core3 (tasks s6 x) = core3 (tasks s5 x)" and r6: "rt_ents s6 = rt_ents s5"
    and g6: "\<forall>g. tg_rt_se (tgs s6 g) = (if g = ?r then None else tg_rt_se (tgs s5 g))" and w6: "rq_wrr (rq s6) = \<lparr>wrr_nr_running = 0, wrr_queue = []\<rparr>"
    and e6: "empty_rt_rq ?r (rt_rqs s6 ?r)" "\<forall>g. g \<noteq> ?r \<longrightarrow> rt_rqs s6 g = rt_rqs s5 g"
    using init_rq_ok [OF B E z] by blast
  have q6: "empty_rt_rq g (rt_rqs s6 g)" for g using e6 s by (cases "g = ?r") (simp_all add: t5 boot_memory_def)
  have n6: "tg_rt_se (tgs s6 g) = None" for g using g6 t5(4) by simp
  have bt: "blank_task K (tasks s6 p)" for p
    using s blank_task_core3 [of "tasks s6 p" "tasks s p"] c6 t5(1) by (simp add: boot_memory_def)
  have sp: "MAX_RT_PRIO \<le> static_prio (tasks s6 ?i)" "static_prio (tasks s6 ?i) < MAX_PRIO" "sched_task_group (tasks s6 ?i) = ?r"
    using bt [of ?i] by (simp_all add: blank_task_def prio_wf_def)
  then obtain h where h: "set_load_weight ?i s6 = Some (upd_se ?i h s6)" using set_load_weight_ok by blast
  define s7 where "s7 = upd_se ?i h s6"
  have t7: "rt_rqs s7 = rt_rqs s6" "tgs s7 = tgs s6" "rq s7 = rq s6" "rt_ents s7 = rt_ents s6" "core3 (tasks s7 x) = core3 (tasks s6 x)" for x
    by (simp_all add: s7_def upd_se_def core3_def task_params_def)
  have b7: "blank_task K (tasks s7 p)" for p using bt blank_task_core3 [OF t7(5)] by simp
  have g7: "sched_task_group (tasks s7 ?i) = ?r" "tg_rt_se (tgs s7 ?r) = None" using b7 [of ?i] n6 by (simp_all add: blank_task_def t7)
  define s8 where "s8 = init_idle (boot_sched_clock E) ?i s7"
  note t8 = init_idle_ok [OF g7, where now = "boot_sched_clock E", folded s8_def]
  define s9 where "s9 = upd_task ?i (\<lambda>t. t\<lparr>sched_class := fair_sched_class\<rparr>) s8"
  have "prio_wf (tasks s8 ?i)" using b7 prio_wf_params [OF t8(11)] by (simp add: blank_task_def)
  moreover have "sched_task_group (tasks s8 ?i) = ?r" using t8(11) g7(1) by (simp add: task_params_def)
  ultimately have "blank_task K (tasks s9 ?i)" using t8(12) prio_wf_params [of "tasks s9 ?i" "tasks s8 ?i"]
    by (simp add: blank_task_def s9_def task_params_def)
  then have "blank_task K (tasks s9 p)" for p using t8(6) b7 by (cases "p = ?i") (simp_all add: s9_def)
  moreover have "blank_entity K (rt_ents s9 x)" for x
    using t8(7-10) s by (cases "x = ?i") (simp_all add: s9_def t7 r6 t5 boot_memory_def blank_entity_def)
  ultimately have "blank K s9" using q6 n6 w6 by (simp add: blank_def t8 t7 s9_def)
  moreover have k: "ext_keep s9 (init_sched_fair_class E s9)" using E by (simp add: boot_env_ok_def)
  ultimately have b: "blank K (init_sched_fair_class E s9)" using blank_keep by blast
  have "sched_init K E s L = Some \<lparr>boot_kernel = init_sched_fair_class E s9,
      boot_load = (init_rq_load (HZ K) (boot_jiffies E) L)\<lparr>calc_load_update := boot_jiffies E + LOAD_FREQ (HZ K)\<rparr>,
      boot_nr_iowait = 0, scheduler_running = True\<rparr>"
  proof -
    have "kzalloc_ok E" "alloc_percpu_ok E" using E by (simp_all add: boot_env_ok_def)
    then show ?thesis
      unfolding sched_init_def Let_def using i6 [unfolded s5_def s4_def s2_def s1_def] h by (simp add: s9_def s8_def s7_def)
  qed
  moreover have "curr (rq (init_sched_fair_class E s9)) = ?i" using k t8(4) by (simp add: ext_keep_def s9_def)
  moreover have "class_of (init_sched_fair_class E s9) ?i = fair_sched_class" using k by (simp add: ext_keep_def core3_def s9_def)
  ultimately show ?thesis using b by simp
qed

section \<open>Steps\<close>

text \<open>
  Everything that may happen once the scheduler runs. A group may be used as long as it exists (\<open>group_ok\<close>), new memory
  is memory nothing refers to; the tasks that are moved or whose parameters change are tasks other than the idle task.
\<close>

inductive life_step :: "kenv \<Rightarrow> ptr list \<Rightarrow> kstate \<Rightarrow> kstate \<Rightarrow> bool" for K th where
  base: "param_step K s t \<Longrightarrow> life_step K th s t"
| fork: "forked K c s u \<Longrightarrow> is_task s (curr (rq s)) \<Longrightarrow> sched_fork K c u = Some t \<Longrightarrow> life_step K th s t"
| move: "is_task s p \<Longrightarrow> class_of s p \<noteq> idle_sched_class \<Longrightarrow> (\<And>u. group_ok K s (autogroup_task_group K p (task_css_tg K p u) u)) \<Longrightarrow>
    sched_move_task K p s = Some t \<Longrightarrow> life_step K th s t"
| create: "unused_memory K M s \<Longrightarrow> group_ok K s parent \<Longrightarrow> sched_create_group K M parent s = Some (r, t) \<Longrightarrow> life_step K th s t"
| destroy: "life_step K th s (sched_destroy_group K tg s)"
| runtime: "sched_group_set_rt_runtime K th tg us s = Some (r, t) \<Longrightarrow> life_step K th s t"
| period: "sched_group_set_rt_period K th tg us s = Some (r, t) \<Longrightarrow> life_step K th s t"

inductive life_reachable :: "kenv \<Rightarrow> ptr list \<Rightarrow> kstate \<Rightarrow> kstate \<Rightarrow> bool" for K th s where
  start: "life_reachable K th s s"
| step: "life_reachable K th s t \<Longrightarrow> life_step K th t u \<Longrightarrow> life_reachable K th s u"

definition life_ok :: "kenv \<Rightarrow> kstate \<Rightarrow> bool" where
  "life_ok K s \<longleftrightarrow> consistent K s \<and> curr_ok s \<and> idle_in K s"

definition life_env :: "kenv \<Rightarrow> bool" where
  "life_env K \<longleftrightarrow> kenv_ok K \<and> pi_env K \<and> move_env K \<and> fair_env K"

lemma life_params_ok: "life_ok K s \<Longrightarrow> params_ok K s"
  by (simp add: life_ok_def consistent_def params_ok_def sched_ok_def boot_ok_def)

text \<open>What a change of parameters leaves as it was, and that it puts no task of another policy into the class.\<close>

definition reparam :: "kstate \<Rightarrow> kstate \<Rightarrow> bool" where
  "reparam s t \<longleftrightarrow> rt_links s t \<and> (\<forall>x. sched_task_group (tasks t x) = sched_task_group (tasks s x) \<and>
     (class_of t x = wrr_sched_class \<longrightarrow> policy (tasks t x) = SCHED_WRR))"

lemma reparam_change:
  assumes "rt_links s t" and "\<forall>x. x \<noteq> p \<longrightarrow> core3 (tasks t x) = core3 (tasks s x)" and "core3 (tasks t p) = core3 v"
    and "sched_task_group v = sched_task_group (tasks s p)" and "sched_class v = wrr_sched_class \<Longrightarrow> policy v = SCHED_WRR"
    and w: "\<And>p. class_of s p = wrr_sched_class \<Longrightarrow> policy (tasks s p) = SCHED_WRR"
  shows "reparam s t"
proof -
  have "sched_task_group (tasks t x) = sched_task_group (tasks s x) \<and> (class_of t x = wrr_sched_class \<longrightarrow> policy (tasks t x) = SCHED_WRR)" for x
  proof (cases "x = p")
    case True
    then show ?thesis using assms(3-5) by (simp add: core3_def task_params_def)
  next
    case False
    then show ?thesis using assms(2) w [of x] by (simp add: core3_def task_params_def)
  qed
  then show ?thesis using assms(1) by (simp add: reparam_def)
qed

lemma reparam_refl: "(\<And>p. class_of s p = wrr_sched_class \<Longrightarrow> policy (tasks s p) = SCHED_WRR) \<Longrightarrow> reparam s s"
  by (simp add: reparam_def rt_links_def)

lemma param_step_reparam:
  assumes K: "kenv_ok K" "pi_env K" and step: "param_step K s t" and s: "params_ok K s"
    and w: "\<And>p. class_of s p = wrr_sched_class \<Longrightarrow> policy (tasks s p) = SCHED_WRR"
  shows "reparam s t"
proof -
  have ok: "sched_ok s" "prio_wf (tasks s x)" for x using s by (simp_all add: params_ok_def)
  have same: "reparam s s" by (rule reparam_refl) (rule w)
  show ?thesis
    using step
  proof cases
    case base
    then have "rt_links s t" "same_params s t" using sched_step_kept [OF K(1) base ok(1)] s by (simp_all add: params_ok_def)
    then show ?thesis using w by (simp add: reparam_def same_params_def task_params_def)
  next
    case (setsched p pol pr user s0 pol1 rof old r)
    note range = setsched_check_range [OF setsched(3)]
    from setsched(4) consider "t = s" | "setsched_change K p pol1 pr rof s = Some t"
      by (auto simp: setsched_locked_def bind_eq_Some_conv split: if_splits)
    then show ?thesis
    proof cases
      case 2
      obtain t' h q where t': "setsched_change K p pol1 pr rof s = Some t'" "rt_links s t'"
        "\<forall>x. x \<noteq> p \<longrightarrow> core3 (tasks t' x) = core3 (tasks s x)" "core3 (tasks t' p) = core3 (policied pol1 pr q rof h (tasks s p))"
        using setsched_change_ok [OF K ok(1) setsched(1) ok(2) setsched(2) range, of pol1 rof] by blast
      have "sched_task_group (policied pol1 pr q rof h (tasks s p)) = sched_task_group (tasks s p)"
        "sched_class (policied pol1 pr q rof h (tasks s p)) = wrr_sched_class \<Longrightarrow> policy (policied pol1 pr q rof h (tasks s p)) = SCHED_WRR"
        by (simp_all add: policied_def Let_def split: if_splits)
      then have "reparam s t'" by (rule reparam_change [OF t'(2-4) _ _ w])
      then show ?thesis using t'(1) 2 by simp
    qed (use same in simp)
  next
    case (nice p n)
    consider "TASK_NICE (tasks s p) = n \<or> n < -20 \<or> n > 19"
      | "\<not> (TASK_NICE (tasks s p) = n \<or> n < -20 \<or> n > 19)" "task_has_rt_policy (tasks s p)"
      | "TASK_NICE (tasks s p) \<noteq> n" "-20 \<le> n" "n \<le> 19" "\<not> task_has_rt_policy (tasks s p)" by linarith
    then show ?thesis
    proof cases
      case 1
      then have "t = s" using nice(2) by (simp add: set_user_nice_def)
      then show ?thesis using same by simp
    next
      case 2
      then have "t = upd_task p (\<lambda>t. t\<lparr>static_prio := NICE_TO_PRIO n\<rparr>) s" using nice(2) by (simp add: set_user_nice_def)
      then show ?thesis using w by (simp add: reparam_def rt_links_def)
    next
      case 3
      obtain t' h where t': "set_user_nice K p n s = Some t'" "rt_links s t'"
        "\<forall>x. x \<noteq> p \<longrightarrow> core3 (tasks t' x) = core3 (tasks s x)" "core3 (tasks t' p) = core3 (niced n h (tasks s p))"
        using set_user_nice_ok [OF K(1) ok(1) nice(1) 3] by blast
      have "sched_task_group (niced n h (tasks s p)) = sched_task_group (tasks s p)"
        "sched_class (niced n h (tasks s p)) = wrr_sched_class \<Longrightarrow> policy (niced n h (tasks s p)) = SCHED_WRR"
        using w [of p] by (simp_all add: niced_def)
      then have "reparam s t'" by (rule reparam_change [OF t'(2-4) _ _ w])
      then show ?thesis using t'(1) nice(2) by simp
    qed
  next
    case (setprio p pr)
    then have "0 \<le> pr" "pr \<le> MAX_PRIO" by (auto simp: rt_mutex_setprio_def split: if_splits)
    then obtain t' where t': "rt_mutex_setprio K p pr s = Some t'" "rt_links s t'"
      "\<forall>x. x \<noteq> p \<longrightarrow> core3 (tasks t' x) = core3 (tasks s x)" "task_params (tasks t' p) = task_params (tasks s p)"
      "p \<noteq> idle (rq s) \<longrightarrow> class_of t' p = (if rt_prio pr then rt_sched_class else fair_sched_class)" "p = idle (rq s) \<longrightarrow> t' = s"
      using rt_mutex_setprio_ok [OF K(1) ok(1) setprio(1,2)] by blast
    have tt: "t' = t" using t'(1) setprio(3) by simp
    show ?thesis
    proof (cases "p = idle (rq s)")
      case False
      have "class_of t' p \<noteq> wrr_sched_class" using t'(5) False by simp
      moreover have "sched_task_group (tasks t' p) = sched_task_group (tasks s p)" using t'(4) by (simp add: task_params_def)
      ultimately have "reparam s t'" by (intro reparam_change [OF t'(2,3) refl _ _ w]) simp_all
      then show ?thesis by (simp add: tt)
    qed (use t'(6) tt same in simp)
  qed
qed

lemma set_rt_runtime_kept:
  assumes "sched_group_set_rt_runtime K th tg us s = Some (r, t) \<or> sched_group_set_rt_period K th tg us s = Some (r, t)"
    and "consistent K s"
  shows "consistent K t \<and> curr (rq t) = curr (rq s) \<and> tasks t = tasks s"
  using assms set_rt_bandwidth_consistent
  by (auto simp: sched_group_set_rt_runtime_def sched_group_set_rt_period_def Let_def split: if_splits)

text \<open>One step.\<close>

lemma curr_idle_core3:
  assumes "curr_ok s" "idle_in K s" "curr (rq t) = curr (rq s)" "core3 (tasks t (curr (rq s))) = core3 (tasks s (curr (rq s)))"
    "core3 (tasks t (idle_task K)) = core3 (tasks s (idle_task K))"
  shows "curr_ok t" "idle_in K t"
  using assms by (simp_all add: curr_ok_def core3_def)

lemma life_step_ok:
  assumes K: "life_env K" and step: "life_step K th s t" and s: "life_ok K s"
  shows "life_ok K t"
proof -
  have env: "kenv_ok K" "pi_env K" "move_env K" "fair_env K" "bit_ops_ok (kbits K)"
    using K kenv_okD(1) by (auto simp: life_env_def rt_env_def)
  have c: "consistent K s" "curr_ok s" "idle_in K s" and so: "sched_ok s" "rt_root K s"
    using s by (simp_all add: life_ok_def consistent_def sched_ok_def)
  note kept = curr_idle_core3 [OF c(2,3)]
  show ?thesis
    using step
  proof cases
    case base
    have w: "class_of s p = wrr_sched_class \<Longrightarrow> policy (tasks s p) = SCHED_WRR" for p using c(1) by (simp add: consistent_def)
    have t: "params_ok K t" by (rule param_step_ok [OF env(1,2) base life_params_ok [OF s]])
    have "reparam s t" by (rule param_step_reparam [OF env(1,2) base life_params_ok [OF s] w])
    moreover from this have "group_ok K t h = group_ok K s h" for h using group_ok_links [of s t K h] by (simp add: reparam_def)
    ultimately show ?thesis using t c(1)
      by (simp add: life_ok_def consistent_def params_ok_def sched_ok_def boot_ok_def reparam_def)
  next
    case (fork c u)
    have ne: "c \<noteq> curr (rq s)" "c \<noteq> idle_task K" using fork(1) by (simp_all add: forked_def)
    obtain t' where t': "sched_fork K c u = Some t'" "consistent K t'" "\<forall>x. x \<noteq> c \<longrightarrow> core3 (tasks t' x) = core3 (tasks s x)"
      "curr (rq t') = curr (rq s)"
      using sched_fork_ok [OF env(1) c(1) fork(1,2)] by blast
    then have "t' = t" using fork(3) by simp
    then show ?thesis using t' ne kept [of t] by (simp add: life_ok_def)
  next
    case (move p)
    obtain t' tg where t': "sched_move_task K p s = Some t'" "sched_ok t'" "rt_root K t'" "\<forall>h. group_ok K t' h = group_ok K s h"
      "group_ok K s tg" "curr (rq t') = curr (rq s)" "\<forall>x. core3 (tasks t' x) = core3 (if x = p then regrouped tg (tasks s x) else tasks s x)"
      using sched_move_task_ok [OF env(1,3) so move(1,2,3)] by blast
    have tt: "t' = t" using t'(1) move(4) by simp
    have cp: "core3 (tasks t p) = core3 (regrouped tg (tasks s p))" using t'(7) tt by simp
    have "prio_wf (regrouped tg (tasks s p))"
      using c(1) by (simp add: consistent_def prio_wf_def regrouped_def normal_prio_def normal_prio1_def task_has_rt_policy_def)
    moreover have "task_params (tasks t p) = task_params (regrouped tg (tasks s p))" "class_of t p = class_of s p"
      using cp by (simp_all add: core3_def regrouped_def)
    ultimately have "prio_wf (tasks t p)" "sched_task_group (tasks t p) = tg" "class_of t p = class_of s p" "policy (tasks t p) = policy (tasks s p)"
      using prio_wf_params [of "tasks t p" "regrouped tg (tasks s p)"] by (simp_all add: task_params_def regrouped_def)
    then have "consistent K t"
      using c(1) t' tt by (intro consistent_core3 [OF c(1), of t p]) (auto simp: consistent_def sched_ok_def)
    moreover have "idle_task K \<noteq> p" using c(3) move(2) by auto
    then have "idle_in K t" using t'(7) tt c(3) by (auto simp: core3_def)
    moreover have "curr_ok t" using t'(2) tt by (simp add: sched_ok_def)
    ultimately show ?thesis by (simp add: life_ok_def)
  next
    case (create M parent r)
    obtain r' t' where "sched_create_group K M parent s = Some (r', t')" "consistent K t'" "curr (rq t') = curr (rq s)"
      "\<forall>x. core3 (tasks t' x) = core3 (tasks s x)"
      using sched_create_group_consistent [OF env(5,4) c(1) create(1,2)] by blast
    then show ?thesis using create(3) kept [of t] by (simp add: life_ok_def)
  next
    case (destroy tg)
    then show ?thesis using sched_destroy_group_consistent [OF env(4) c(1), of tg] kept [of t] by (simp add: life_ok_def)
  next
    case (runtime tg us r)
    then show ?thesis using set_rt_runtime_kept [of K th tg us s r t] c(1) kept [of t] by (simp add: life_ok_def)
  next
    case (period tg us r)
    then show ?thesis using set_rt_runtime_kept [of K th tg us s r t] c(1) kept [of t] by (simp add: life_ok_def)
  qed
qed

lemma life_reachable_inv:
  assumes "life_reachable K th s t" and "life_env K" and "life_ok K s"
  shows "life_ok K t"
  using assms(1) by induction (use assms life_step_ok in blast)+

section \<open>Every operation returns\<close>

text \<open>
  What may happen during boot, and what may happen once the scheduler runs: no operation stops in an error of the kernel.
  The arguments are those the steps allow. Requests for real-time bandwidth divide by the period of every group, so they need
  the invariant of the tree of groups (\<open>groups_inv\<close>), which \<open>Group_Props\<close> keeps through all operations on groups.
\<close>

definition boot_ops_return :: "kenv \<Rightarrow> kstate \<Rightarrow> bool" where
  "boot_ops_return K t \<longleftrightarrow>
     scheduler_tick K t \<noteq> None \<and>
     (\<forall>p st w. try_to_wake_up K p st w t \<noteq> None) \<and>
     (\<forall>p. \<not> on_rq (tasks t p) \<longrightarrow> wake_up_new_task K p t \<noteq> None) \<and>
     (\<forall>c v. forked K c t v \<and> is_task t (curr (rq t)) \<longrightarrow> sched_fork K c v \<noteq> None)"

definition task_ops_return :: "kenv \<Rightarrow> ptr \<Rightarrow> kstate \<Rightarrow> bool" where
  "task_ops_return K p t \<longleftrightarrow>
     (\<forall>n. set_user_nice K p n t \<noteq> None) \<and>
     (\<forall>pr. 0 \<le> pr \<and> pr \<le> MAX_PRIO \<longrightarrow> rt_mutex_setprio K p pr t \<noteq> None) \<and>
     (\<forall>pol pr user. \<not> in_interrupt K t \<longrightarrow> sched_setscheduler1 K p pol pr user t \<noteq> None) \<and>
     (\<forall>pol pr user s0 pol1 rof old. setsched_check K p pol pr user s0 = Inr (pol1, rof, old) \<longrightarrow>
        setsched_locked K p pol1 pr user rof old t \<noteq> None) \<and>
     ((\<forall>u. group_ok K t (autogroup_task_group K p (task_css_tg K p u) u)) \<longrightarrow> sched_move_task K p t \<noteq> None)"

definition life_ops_return :: "kenv \<Rightarrow> ptr list \<Rightarrow> kstate \<Rightarrow> bool" where
  "life_ops_return K th t \<longleftrightarrow>
     boot_ops_return K t \<and>
     schedule_pass K t \<noteq> None \<and>
     class_yield_task K (class_of t (curr (rq t))) t \<noteq> None \<and>
     (\<forall>tg overrun. do_sched_rt_period_timer K tg overrun t \<noteq> None) \<and>
     (\<forall>p. is_task t p \<and> class_of t p \<noteq> idle_sched_class \<longrightarrow> task_ops_return K p t) \<and>
     (\<forall>M parent. unused_memory K M t \<and> group_ok K t parent \<longrightarrow> sched_create_group K M parent t \<noteq> None) \<and>
     (groups_inv K t \<longrightarrow> (\<forall>tg \<in> set (task_groups t). \<forall>us.
        (us < 2 ^ 31 \<longrightarrow> sched_group_set_rt_runtime K th tg us t \<noteq> None) \<and> sched_group_set_rt_period K th tg us t \<noteq> None))"

lemma task_ops_return_ok:
  assumes K: "life_env K" and s: "life_ok K t" and p: "is_task t p" "class_of t p \<noteq> idle_sched_class"
  shows "task_ops_return K p t"
proof -
  have env: "kenv_ok K" "pi_env K" "move_env K" using K by (simp_all add: life_env_def)
  have so: "sched_ok t" "rt_root K t" using s by (simp_all add: life_ok_def consistent_def sched_ok_def)
  note par = life_params_ok [OF s]
  have "set_user_nice K p n t \<noteq> None" for n using set_user_nice_params [OF env(1) par p(2), of n] by fastforce
  moreover have "rt_mutex_setprio K p pr t \<noteq> None" if "0 \<le> pr \<and> pr \<le> MAX_PRIO" for pr
    using rt_mutex_setprio_params [OF env(1) par p, of pr] that by auto
  moreover have chg: "setsched_change K p pol1 pr rof t \<noteq> None"
    if "setsched_check K p pol pr user s0 = Inr (pol1, rof, old)" for pol pr user s0 pol1 rof old
    using setsched_change_params [OF env(1,2) par p setsched_check_range [OF that], of pol1 rof] by auto
  have "sched_setscheduler1 K p pol pr user t \<noteq> None" if "\<not> in_interrupt K t" for pol pr user
    using chg [of pol pr user t] by (auto simp: sched_setscheduler1_eq [OF that] split: sum.splits)
  moreover have "setsched_locked K p pol1 pr user rof old t \<noteq> None"
    if "setsched_check K p pol pr user s0 = Inr (pol1, rof, old)" for pol pr user s0 pol1 rof old
    using setsched_locked_ok [OF env(1,2) par p setsched_check_range [OF that], of pol1 user rof old] by auto
  moreover have "sched_move_task K p t \<noteq> None" if "\<forall>u. group_ok K t (autogroup_task_group K p (task_css_tg K p u) u)"
    using sched_move_task_ok [OF env(1,3) so p that [rule_format]] by auto
  ultimately show ?thesis by (simp add: task_ops_return_def)
qed

lemma boot_ops_return_ok:
  assumes K: "kenv_ok K" and c: "consistent K t" and tick: "scheduler_tick K t \<noteq> None"
  shows "boot_ops_return K t"
proof -
  have b: "sched_but None t" using c by (simp add: consistent_def)
  have "try_to_wake_up K p st w t \<noteq> None" for p st w using try_to_wake_up_ok [OF K b, of p st w] by auto
  moreover have "wake_up_new_task K p t \<noteq> None" if "\<not> on_rq (tasks t p)" for p using wake_up_new_task_ok [OF K b that] by auto
  moreover have "sched_fork K c v \<noteq> None" if "forked K c t v" "is_task t (curr (rq t))" for c v
    using sched_fork_ok [OF K assms(2) that] by auto
  ultimately show ?thesis using tick by (simp add: boot_ops_return_def)
qed

lemma bandwidth_returns:
  assumes "groups_inv K t" and "tg \<in> set (task_groups t)"
  shows "us < 2 ^ 31 \<Longrightarrow> sched_group_set_rt_runtime K th tg us t \<noteq> None" and "sched_group_set_rt_period K th tg us t \<noteq> None"
proof -
  obtain tr where tr: "groups_ok K tr t" using assms(1) by (auto simp: groups_inv_def)
  then have "tg \<in> set (tg_nodes tr)" using assms(2) by (simp add: groups_ok_def groups_shape_def)
  from set_rt_runtime_ok [OF tr this, of us th] set_rt_period_ok [OF tr this, of th us]
  show "us < 2 ^ 31 \<Longrightarrow> sched_group_set_rt_runtime K th tg us t \<noteq> None" and "sched_group_set_rt_period K th tg us t \<noteq> None"
    by auto
qed

lemma life_ops_return_ok:
  assumes K: "life_env K" and s: "life_ok K t"
  shows "life_ops_return K th t"
proof -
  have env: "kenv_ok K" "fair_env K" "rt_env K" "bit_ops_ok (kbits K)"
    using K kenv_okD(1) by (auto simp: life_env_def rt_env_def)
  have c: "consistent K t" and so: "sched_ok t" "rt_root K t" "idle_in K t" "rt_ok t"
    using s by (simp_all add: life_ok_def consistent_def sched_ok_def sched_but_def)
  have "scheduler_tick K t \<noteq> None" using scheduler_tick_ok [OF env(1) so(1)] by auto
  then have "boot_ops_return K t" by (rule boot_ops_return_ok [OF env(1) c])
  moreover have "schedule_pass K t \<noteq> None" using schedule_pass_ok [OF env(1) so(1-3)] by auto
  moreover have "class_yield_task K (class_of t (curr (rq t))) t \<noteq> None" using class_yield_ok [OF env(1) so(1)] by auto
  moreover have "do_sched_rt_period_timer K tg overrun t \<noteq> None" for tg overrun
    using do_sched_rt_period_timer_ok [OF env(3) so(4), of tg overrun] by auto
  moreover have "sched_create_group K M parent t \<noteq> None" if "unused_memory K M t" "group_ok K t parent" for M parent
    using sched_create_group_consistent [OF env(4,2) c that] by auto
  ultimately show ?thesis using task_ops_return_ok [OF K s] bandwidth_returns by (simp add: life_ops_return_def)
qed

section \<open>From boot to the idle task\<close>

lemma consistent_params:
  assumes s: "consistent K s" and t: "sched_but None t" "rt_links s t" "\<And>x. class_of t x = class_of s x \<and> task_params (tasks t x) = task_params (tasks s x)"
  shows "consistent K t"
proof -
  have "prio_wf (tasks t p) \<and> group_ok K t (sched_task_group (tasks t p)) \<and>
      (class_of t p = wrr_sched_class \<longrightarrow> policy (tasks t p) = SCHED_WRR)" for p
    using s t(3) [of p] prio_wf_params [of "tasks t p" "tasks s p"] group_ok_links [OF t(2), of K]
    by (simp add: consistent_def task_params_def)
  moreover have "rt_root K t" using s rt_root_links [OF t(2)] by (simp add: consistent_def)
  ultimately show ?thesis using t(1) by (simp add: consistent_def)
qed

text \<open>
  Until \<^verbatim>\<open>rest_init\<close> hands over to the idle loop, the boot thread pretends to be a normal task and does not call
  \<^verbatim>\<open>schedule\<close>: it forks and wakes the first tasks, and the timer interrupts it.
\<close>

inductive early_step :: "kenv \<Rightarrow> kstate \<Rightarrow> kstate \<Rightarrow> bool" for K where
  fork: "forked K c s u \<Longrightarrow> sched_fork K c u = Some t \<Longrightarrow> early_step K s t"
| new: "\<not> on_rq (tasks s p) \<Longrightarrow> wake_up_new_task K p s = Some t \<Longrightarrow> early_step K s t"
| wake: "try_to_wake_up K p st w s = Some (b, t) \<Longrightarrow> early_step K s t"
| tick: "scheduler_tick K s = Some t \<Longrightarrow> early_step K s t"

inductive early_reachable :: "kenv \<Rightarrow> kstate \<Rightarrow> kstate \<Rightarrow> bool" for K s where
  start: "early_reachable K s s"
| step: "early_reachable K s t \<Longrightarrow> early_step K t u \<Longrightarrow> early_reachable K s u"

definition early_ok :: "kenv \<Rightarrow> kstate \<Rightarrow> bool" where
  "early_ok K s \<longleftrightarrow> consistent K s \<and> curr (rq s) = idle_task K \<and> class_of s (idle_task K) = fair_sched_class \<and>
     is_task s (idle_task K)"

lemma early_ok_wake:
  assumes "early_ok K s" and "sched_but None t" and "wake_rel s t"
  shows "early_ok K t"
  using assms consistent_params [of K s t] is_task_links [of s t "idle_task K"] by (simp add: early_ok_def wake_rel_def)

lemma fair_tick_keep:
  assumes K: "kenv_ok K" and c: "class_of s (curr (rq s)) = fair_sched_class"
  shows "\<exists>t. scheduler_tick K s = Some t \<and> ext_keep s t"
proof -
  let ?s1 = "emit UpdateCpuLoadActive (update_rq_clock K s)" and ?c = "curr (rq s)"
  have k: "ext_keep s ?s1" by (rule ext_keep_trans [OF ext_keep_upds(1,2)])
  let ?t = "ec_task_tick (ext_class_of K fair_sched_class) ?c ?s1"
  have "ext_keep ?s1 ?t" using ext_okD(8) [OF kenv_okD(3) [OF K], of fair_sched_class] by simp
  moreover have "scheduler_tick K s = Some ?t"
    using c by (simp add: scheduler_tick_def Let_def class_task_tick_def)
  ultimately show ?thesis using ext_keep_trans [OF k] by blast
qed

lemma early_step_ok:
  assumes K: "kenv_ok K" and step: "early_step K s t" and s: "early_ok K s"
  shows "early_ok K t"
proof -
  have c: "consistent K s" "curr (rq s) = idle_task K" "class_of s (idle_task K) = fair_sched_class" "is_task s (idle_task K)"
    and b: "sched_but None s" using s by (simp_all add: early_ok_def consistent_def)
  show ?thesis
    using step
  proof cases
    case (fork c' u)
    have ne: "c' \<noteq> idle_task K" using fork(1) by (simp add: forked_def)
    obtain t' where t': "sched_fork K c' u = Some t'" "consistent K t'" "\<forall>x. x \<noteq> c' \<longrightarrow> core3 (tasks t' x) = core3 (tasks s x)"
      "curr (rq t') = curr (rq s)" "group_rt_rq t' = group_rt_rq s"
      using sched_fork_ok [OF K c(1) fork(1)] c(2,4) by auto
    moreover have "core3 (tasks t' (idle_task K)) = core3 (tasks s (idle_task K))" by (rule t'(3) [rule_format]) (use ne in simp)
    ultimately show ?thesis using fork(2) c by (simp add: early_ok_def is_task_def core3_def)
  next
    case (new p)
    then show ?thesis using wake_up_new_task_ok [OF K b new(1)] early_ok_wake [OF s] by auto
  next
    case (wake p st w b)
    then show ?thesis using try_to_wake_up_ok [OF K \<open>sched_but None s\<close>, of p st w] early_ok_wake [OF s] by auto
  next
    case tick
    then have "ext_keep s t" using fair_tick_keep [OF K, of s] c(2,3) by auto
    then show ?thesis using early_ok_wake [OF s sched_but_keep [OF _ b] wake_rel_keep] by blast
  qed
qed

lemma early_reachable_inv: "early_reachable K s t \<Longrightarrow> kenv_ok K \<Longrightarrow> early_ok K s \<Longrightarrow> early_ok K t"
  by (induction rule: early_reachable.induct) (use early_step_ok in blast)+

lemma sched_init_early:
  assumes "kenv_ok K" and "boot_env_ok E" and "boot_memory K s"
  shows "\<exists>b. sched_init K E s L = Some b \<and> early_ok K (boot_kernel b)"
proof -
  have "bit_ops_ok (kbits K)" using kenv_okD(1) [OF assms(1)] by (simp add: rt_env_def)
  then obtain b where b: "sched_init K E s L = Some b" "blank K (boot_kernel b)" "curr (rq (boot_kernel b)) = idle_task K"
    "class_of (boot_kernel b) (idle_task K) = fair_sched_class" using sched_init_blank [OF _ assms(2,3)] by blast
  have "is_task (boot_kernel b) (idle_task K)"
    using b(2) assms(3) by (simp add: blank_def blank_entity_def is_task_def group_rt_rq_def boot_memory_def)
  then show ?thesis using b blank_consistent by (simp add: early_ok_def)
qed

lemma init_idle_bootup_task_ok:
  assumes s: "early_ok K s"
  shows "life_ok K (init_idle_bootup_task (idle_task K) s)"
proof -
  let ?i = "idle_task K" and ?t = "init_idle_bootup_task (idle_task K) s"
  have c: "consistent K s" "curr (rq s) = ?i" "class_of s ?i = fair_sched_class" using s by (simp_all add: early_ok_def)
  have b: "sched_but None s" using c(1) by (simp add: consistent_def)
  have same: "rt_same ?t s" by (simp add: init_idle_bootup_task_def rt_same_def)
  note f = rt_same_facts [OF same]
  have cl: "class_of ?t x = (if x = ?i then idle_sched_class else class_of s x)" "on_rq (tasks ?t x) = on_rq (tasks s x)"
    "task_params (tasks ?t x) = task_params (tasks s x)" "prio (tasks ?t x) = prio (tasks s x)" for x
    by (simp_all add: init_idle_bootup_task_def task_params_def)
  have w: "wq ?t = wq s" "wrr_wf ?t = wrr_wf s" using wrr_wf_cong [of ?t s] by (simp_all add: init_idle_bootup_task_def)
  have "sched_but None ?t"
    using b c(3) rt_same_inv(4) [OF same] unfolding sched_but_def rt_queued_def rt_valid_def f cl w by auto
  moreover have "rt_root K ?t" using c(1) rt_root_links [OF rt_links_same [OF same]] by (simp add: consistent_def)
  moreover have "prio_wf (tasks ?t p) \<and> group_ok K ?t (sched_task_group (tasks ?t p)) \<and>
      (class_of ?t p = wrr_sched_class \<longrightarrow> policy (tasks ?t p) = SCHED_WRR)" for p
    using c(1) cl(1,3) [of p] prio_wf_params [OF cl(3) [of p]] group_ok_links [OF rt_links_same [OF same], of K]
    by (auto simp: consistent_def task_params_def)
  ultimately have "consistent K ?t" by (simp add: consistent_def)
  then show ?thesis using c(2) cl(1) [of ?i] by (simp add: life_ok_def curr_ok_def) (simp add: init_idle_bootup_task_def)
qed

section \<open>Properties\<close>

text \<open>The memory of a machine that has just been switched on, for the witnesses.\<close>

definition sample_boot :: kstate where
  "sample_boot = sample_state\<lparr>
     tasks := (\<lambda>_. (sample_task fair_sched_class 0 120 100 0)\<lparr>on_rq := False\<rparr>),
     rt_rqs := (\<lambda>g. if g = 100 then zero_rt_rq else sample_rtq [] g),
     task_groups := []\<rparr>"

definition sample_boot_env :: boot_env where
  "sample_boot_env = \<lparr>boot_jiffies = 0, boot_sched_clock = 0, kzalloc_ok = True, alloc_percpu_ok = True,
     autogroup_init = (\<lambda>p s. s), init_cfs_rq = (\<lambda>s. s), init_tg_cfs_entry = (\<lambda>g s. s), init_sched_fair_class = (\<lambda>s. s)\<rparr>"

definition sample_boot_load :: load_state where
  "sample_boot_load = \<lparr>calc_load_tasks = 0, calc_load_update = 0, avenrun = [0, 0, 0], calc_load_idle = (\<lambda>_. 0), calc_load_idx = 0,
     calc_load_active = 0, rq_calc_load_update = 0, cpu_load = [0, 0, 0, 0, 0], last_load_update_tick = 0, nr_load_updates = 0\<rparr>"

lemma sample_life_env [simp]: "life_env sample_env"
  by (simp add: life_env_def move_env_def fair_env_def)
    (simp add: sample_env_def sample_class_def sample_fair_def sample_idle_def)

lemma sample_boot_env_ok [simp]: "boot_env_ok sample_boot_env"
  by (simp add: boot_env_ok_def sample_boot_env_def)

lemma sample_boot_memory [simp]: "boot_memory sample_env sample_boot"
  by (simp add: boot_memory_def sample_boot_def sample_env_def blank_entity_def blank_task_def sample_state_def)
    (simp add: empty_rt_rq_def sample_rtq_def sample_rt_rq_def sample_task_def prio_wf_def normal_prio_def normal_prio1_def
      task_has_rt_policy_def rt_policy_def sched_consts fun_eq_iff)

text \<open>C1: From the memory the machine boots with, \<^verbatim>\<open>sched_init\<close> returns. In every state that forks, wakeups and ticks lead to
  before the idle task is set up, those operations return. In every state that any sequence of forks, wakeups, ticks, switches,
  yields, period timers, changes of parameters and operations on groups leads to after it, the queues hold exactly the runnable
  tasks of their classes, and the scheduler can go on (\<open>life_ops_return\<close>): \<^verbatim>\<open>__schedule\<close>, the tick, yielding, the period timer, wakeups of
  old and new tasks, the fork of any new task, for each task but the idle task changes of its nice value, boosted
  priority, policy (outside interrupt context) and group, and new groups in unused memory all return; so do requests for bandwidth under the invariant of the tree of groups (\<open>groups_inv\<close>).\<close>

theorem life_reachable_ok:
  assumes "life_env K" and "boot_env_ok E" and "boot_memory K s"
  shows "\<exists>b. sched_init K E s L = Some b \<and> (\<forall>u. early_reachable K (boot_kernel b) u \<longrightarrow> boot_ops_return K u \<and>
    (\<forall>t. life_reachable K th (init_idle_bootup_task (idle_task K) u) t \<longrightarrow>
      (\<forall>p. p \<in> set (wq t) \<longleftrightarrow> on_rq (tasks t p) \<and> class_of t p = wrr_sched_class) \<and>
      (\<forall>p. group_rt_rq t p = None \<longrightarrow> (on_rt_rq t p \<longleftrightarrow> on_rq (tasks t p) \<and> class_of t p = rt_sched_class)) \<and>
      life_ops_return K th t))"
proof -
  have K: "kenv_ok K" using assms(1) by (simp add: life_env_def)
  obtain b where b: "sched_init K E s L = Some b" "early_ok K (boot_kernel b)" using sched_init_early [OF K assms(2,3)] by blast
  have early: "early_ok K u" if "early_reachable K (boot_kernel b) u" for u by (rule early_reachable_inv [OF that K b(2)])
  have "boot_ops_return K u" if "early_reachable K (boot_kernel b) u" for u
    using early [OF that] fair_tick_keep [OF K, of u] by (auto simp: early_ok_def intro!: boot_ops_return_ok [OF K])
  moreover have "(\<forall>p. p \<in> set (wq t) \<longleftrightarrow> on_rq (tasks t p) \<and> class_of t p = wrr_sched_class) \<and>
      (\<forall>p. group_rt_rq t p = None \<longrightarrow> (on_rt_rq t p \<longleftrightarrow> on_rq (tasks t p) \<and> class_of t p = rt_sched_class)) \<and> life_ops_return K th t"
    if u: "early_reachable K (boot_kernel b) u" and t: "life_reachable K th (init_idle_bootup_task (idle_task K) u) t" for u t
  proof -
    have ok: "life_ok K t" by (rule life_reachable_inv [OF t assms(1) init_idle_bootup_task_ok [OF early [OF u]]])
    then have "sched_but None t" by (simp add: life_ok_def consistent_def)
    then show ?thesis using life_ops_return_ok [OF assms(1) ok] by (auto simp: sched_but_def rt_queued_def)
  qed
  ultimately show ?thesis using b(1) by blast
qed

theorem life_reachable_ok_witness:
  "\<exists>b. sched_init sample_env sample_boot_env sample_boot sample_boot_load = Some b \<and>
     schedule_pass sample_env (init_idle_bootup_task 1 (boot_kernel b)) \<noteq> None"
proof -
  have "idle_task sample_env = 1" by (simp add: sample_env_def)
  then show ?thesis
    using life_reachable_ok [OF sample_life_env sample_boot_env_ok sample_boot_memory, of sample_boot_load] early_reachable.start life_reachable.start
    unfolding life_ops_return_def by metis
qed

text \<open>C2: In every such state every task is well formed: its static priority and its real-time priority are in range, its
  normal priority is the one its policy gives, its group exists, a task of the real-time class has a real-time priority
  (which may be a boosted one, whatever its policy), and only tasks whose policy is \<^verbatim>\<open>SCHED_WRR\<close> are in the weighted
  round-robin class. The converse does not hold: a task with that policy may be in the fair class, as a child of such a task is.\<close>

theorem tasks_well_typed:
  assumes "life_env K" and "boot_env_ok E" and "boot_memory K s" and "sched_init K E s L = Some b"
    and "early_reachable K (boot_kernel b) u" and "life_reachable K th (init_idle_bootup_task (idle_task K) u) t"
  shows "MAX_RT_PRIO \<le> static_prio (tasks t p) \<and> static_prio (tasks t p) < MAX_PRIO \<and> uint (rt_priority (tasks t p)) < MAX_USER_RT_PRIO \<and>
    normal_prio_of (tasks t p) = normal_prio (tasks t p) \<and>
    (class_of t p = rt_sched_class \<longrightarrow> p \<noteq> 0 \<and> group_rt_rq t p = None \<and> 0 \<le> prio (tasks t p) \<and> rt_prio (prio (tasks t p))) \<and>
    (class_of t p = wrr_sched_class \<longrightarrow> p \<noteq> 0 \<and> policy (tasks t p) = SCHED_WRR) \<and>
    group_ok K t (sched_task_group (tasks t p))"
proof -
  have K: "kenv_ok K" using assms(1) by (simp add: life_env_def)
  have "early_ok K (boot_kernel b)" using sched_init_early [OF K assms(2,3), of L] assms(4) by simp
  then have "life_ok K t"
    by (rule life_reachable_inv [OF assms(6,1) init_idle_bootup_task_ok [OF early_reachable_inv [OF assms(5) K]]])
  then have c: "consistent K t" "sched_but None t" by (simp_all add: life_ok_def consistent_def)
  have "prio_wf (tasks t p)" "group_ok K t (sched_task_group (tasks t p))"
    "class_of t p = wrr_sched_class \<longrightarrow> policy (tasks t p) = SCHED_WRR" using c(1) by (simp_all add: consistent_def)
  moreover have "class_of t p = rt_sched_class \<longrightarrow> rt_valid t p" "class_of t p = wrr_sched_class \<longrightarrow> p \<noteq> 0"
    using c(2) by (simp_all add: sched_but_def)
  ultimately show ?thesis by (simp add: prio_wf_def rt_valid_def rt_prio_def)
qed

theorem tasks_well_typed_witness:
  "\<exists>b. sched_init sample_env sample_boot_env sample_boot sample_boot_load = Some b \<and>
     normal_prio_of (tasks (init_idle_bootup_task 1 (boot_kernel b)) 10) = normal_prio (tasks (init_idle_bootup_task 1 (boot_kernel b)) 10)"
proof -
  have i: "idle_task sample_env = 1" by (simp add: sample_env_def)
  obtain b where b: "sched_init sample_env sample_boot_env sample_boot sample_boot_load = Some b"
    using sched_init_early [OF sample_kenv_ok sample_boot_env_ok sample_boot_memory] by blast
  show ?thesis
    using b tasks_well_typed [OF sample_life_env sample_boot_env_ok sample_boot_memory b early_reachable.start life_reachable.start, where p = 10]
    by (simp add: i)
qed

end
