(* ===== verification/Affinity.thy ===== *)
theory Affinity
  imports Task_Groups
begin

text \<open>
  \<^verbatim>\<open>core.c\<close> from \<^verbatim>\<open>sched_setaffinity\<close> to \<^verbatim>\<open>io_schedule_timeout\<close>: the system calls on CPU masks, giving way voluntarily
  (\<^verbatim>\<open>cond_resched\<close>, \<^verbatim>\<open>yield_to\<close>), and waiting for I/O. On one CPU \<^verbatim>\<open>set_cpus_allowed_ptr\<close> is the inline function of
  \<^verbatim>\<open>linux/sched.h\<close>: it only checks that the CPU is in the mask.
\<close>

section \<open>CPU masks\<close>

text \<open>
  The type of masks and the operations of \<^verbatim>\<open>linux/cpumask.h\<close>, what the cpusets allow a task (\<open>cpuset_cpus_allowed M p n\<close> is the
  result of the \<open>n\<close>-th call, since a cpuset may change meanwhile), the mask stored in a task, the allocations, the
  copies from and to user memory (\<open>copy_mask_from_user M len m\<close>: the first \<open>len\<close> bytes of \<open>m\<close> are replaced), and the capability check.
\<close>

record 'm mask_env =
  cpumask_and :: "'m \<Rightarrow> 'm \<Rightarrow> 'm"
  cpumask_test_cpu :: "nat \<Rightarrow> 'm \<Rightarrow> bool"
  cpumask_subset :: "'m \<Rightarrow> 'm \<Rightarrow> bool"
  cpumask_clear :: 'm
  cpumask_size :: uint32
  nr_cpu_ids :: uint32
  cpu_online_mask :: 'm
  cpuset_cpus_allowed :: "ptr \<Rightarrow> nat \<Rightarrow> 'm"
  cpus_allowed :: "ptr \<Rightarrow> 'm"
  alloc_cpumask_var :: "nat \<Rightarrow> bool"
  copy_mask_from_user :: "uint32 \<Rightarrow> 'm \<Rightarrow> 'm option"
  copy_mask_to_user :: "'m \<Rightarrow> uint32 \<Rightarrow> bool"
  ns_capable_sys_nice :: "ptr \<Rightarrow> kstate \<Rightarrow> bool"

definition set_cpus_allowed_ptr :: "'m mask_env \<Rightarrow> ptr \<Rightarrow> 'm \<Rightarrow> int" where
  "set_cpus_allowed_ptr M p new_mask = (if \<not> cpumask_test_cpu M 0 new_mask then - EINVAL else 0)"

text \<open>The code from the label \<^verbatim>\<open>again\<close>; \<open>n\<close> counts the calls of \<^verbatim>\<open>cpuset_cpus_allowed\<close> so far.\<close>

partial_function (option) affinity_loop :: "'m mask_env \<Rightarrow> ptr \<Rightarrow> nat \<Rightarrow> 'm \<Rightarrow> int option" where
  "affinity_loop M p n new_mask =
     (if set_cpus_allowed_ptr M p new_mask = 0 \<and> \<not> cpumask_subset M new_mask (cpuset_cpus_allowed M p n)
      then affinity_loop M p (Suc n) (cpuset_cpus_allowed M p n)
      else Some (set_cpus_allowed_ptr M p new_mask))"

definition sched_setaffinity :: "kenv \<Rightarrow> 'm mask_env \<Rightarrow> int \<Rightarrow> 'm \<Rightarrow> kstate \<Rightarrow> int option" where
  "sched_setaffinity K M pid in_mask s =
     (case find_process_by_pid K pid s of
        None \<Rightarrow> Some (- ESRCH)
      | Some p \<Rightarrow>
          if \<not> alloc_cpumask_var M 0 then Some (- ENOMEM)
          else if \<not> alloc_cpumask_var M 1 then Some (- ENOMEM)
          else if \<not> check_same_owner p s \<and> \<not> ns_capable_sys_nice M p s then Some (- EPERM)
          else
            let retval = security_task_setscheduler K p s in
            if retval \<noteq> 0 then Some retval
            else affinity_loop M p 1 (cpumask_and M in_mask (cpuset_cpus_allowed M p 0)))"

definition get_user_cpu_mask :: "'m mask_env \<Rightarrow> uint32 \<Rightarrow> 'm \<Rightarrow> int \<times> 'm" where
  "get_user_cpu_mask M len new_mask =
     (let m = (if len < cpumask_size M then cpumask_clear M else new_mask);
          n = (if len > cpumask_size M then cpumask_size M else len)
      in case copy_mask_from_user M n m of None \<Rightarrow> (- EFAULT, m) | Some m1 \<Rightarrow> (0, m1))"

text \<open>\<open>garbage\<close>: what the allocated mask holds. The allocations of \<^verbatim>\<open>sched_setaffinity\<close> come after this one.\<close>

definition sys_sched_setaffinity :: "kenv \<Rightarrow> 'm mask_env \<Rightarrow> bool \<Rightarrow> 'm \<Rightarrow> int \<Rightarrow> uint32 \<Rightarrow> kstate \<Rightarrow> int option" where
  "sys_sched_setaffinity K M alloc_ok garbage pid len s =
     (if \<not> alloc_ok then Some (- ENOMEM)
      else case get_user_cpu_mask M len garbage of (retval, new_mask) \<Rightarrow>
        if retval = 0 then sched_setaffinity K M pid new_mask s else Some retval)"

text \<open>The second value is the mask, if it is written.\<close>

definition sched_getaffinity :: "kenv \<Rightarrow> 'm mask_env \<Rightarrow> int \<Rightarrow> kstate \<Rightarrow> int \<times> 'm option" where
  "sched_getaffinity K M pid s =
     (case find_process_by_pid K pid s of
        None \<Rightarrow> (- ESRCH, None)
      | Some p \<Rightarrow>
          let retval = security_task_getscheduler K p s in
          if retval \<noteq> 0 then (retval, None)
          else (0, Some (cpumask_and M (cpus_allowed M p) (cpu_online_mask M))))"

text \<open>\<^verbatim>\<open>len * BITS_PER_BYTE\<close> is computed in \<^verbatim>\<open>unsigned int\<close>; the second value is what goes to user memory, with its length.\<close>

definition sys_sched_getaffinity :: "kenv \<Rightarrow> 'm mask_env \<Rightarrow> bool \<Rightarrow> int \<Rightarrow> uint32 \<Rightarrow> kstate \<Rightarrow> int \<times> ('m \<times> uint32) option" where
  "sys_sched_getaffinity K M alloc_ok pid len s =
     (if len * 8 < nr_cpu_ids M then (- EINVAL, None)
      else if len AND 3 \<noteq> 0 then (- EINVAL, None)
      else if \<not> alloc_ok then (- ENOMEM, None)
      else case sched_getaffinity K M pid s of
        (ret, None) \<Rightarrow> (ret, None)
      | (ret, Some m) \<Rightarrow>
          let retlen = min len (cpumask_size M) in
          if \<not> copy_mask_to_user M m retlen then (- EFAULT, None) else (sint retlen, Some (m, retlen)))"

section \<open>Giving way\<close>

definition should_resched :: "kenv \<Rightarrow> kstate \<Rightarrow> bool" where
  "should_resched K s = (need_resched (tasks s (curr (rq s))) \<and> \<not> preempt_active K s)"

text \<open>\<^verbatim>\<open>__cond_resched\<close> runs \<^verbatim>\<open>__schedule\<close> with \<^verbatim>\<open>PREEMPT_ACTIVE\<close> set for the calling task.\<close>

definition cond_resched1 :: "kenv \<Rightarrow> kstate \<Rightarrow> kstate option" where
  "cond_resched1 K s = schedule_loop (with_preempt_active K (curr (rq s))) s"

definition cond_resched :: "kenv \<Rightarrow> kstate \<Rightarrow> (bool \<times> kstate) option" where
  "cond_resched K s =
     (if should_resched K s then do { s1 \<leftarrow> cond_resched1 K s; Some (True, s1) } else Some (False, s))"

text \<open>Releasing and taking the lock, and pausing, are arguments.\<close>

definition cond_resched_lock :: "kenv \<Rightarrow> bool \<Rightarrow> (kstate \<Rightarrow> kstate) \<Rightarrow> (kstate \<Rightarrow> kstate) \<Rightarrow> (kstate \<Rightarrow> kstate) \<Rightarrow> kstate \<Rightarrow>
    (bool \<times> kstate) option" where
  "cond_resched_lock K needbreak unlock relax lock s =
     (let resched = should_resched K s in
      if needbreak \<or> resched then
        do { let s1 = unlock s;
             s2 \<leftarrow> (if resched then cond_resched1 K s1 else Some (relax s1));
             Some (True, lock s2) }
      else Some (False, s))"

definition cond_resched_softirq :: "kenv \<Rightarrow> bool \<Rightarrow> (kstate \<Rightarrow> kstate) \<Rightarrow> (kstate \<Rightarrow> kstate) \<Rightarrow> kstate \<Rightarrow> (bool \<times> kstate) option" where
  "cond_resched_softirq K in_softirq bh_enable bh_disable s =
     (if \<not> in_softirq then None
      else if should_resched K s then
        do { s1 \<leftarrow> cond_resched1 K (bh_enable s); Some (True, bh_disable s1) }
      else Some (False, s))"

text \<open>
  \<^verbatim>\<open>yield_to_task\<close> of a class outside the repository is an argument (\<open>None\<close>: the class has no such operation); the tables of
  \<^verbatim>\<open>rt.c\<close> and \<^verbatim>\<open>wrr.c\<close> have none. With one run queue \<^verbatim>\<open>rq\<close> and \<^verbatim>\<open>p_rq\<close> are the same and the loop ends at once.
\<close>

type_synonym yield_to_op = "ptr \<Rightarrow> bool \<Rightarrow> kstate \<Rightarrow> bool \<times> kstate"

definition class_yield_to_task :: "(sched_class \<Rightarrow> yield_to_op option) \<Rightarrow> sched_class \<Rightarrow> yield_to_op option" where
  "class_yield_to_task Y c = (case c of rt_sched_class \<Rightarrow> None | wrr_sched_class \<Rightarrow> None | _ \<Rightarrow> Y c)"

definition yield_to :: "kenv \<Rightarrow> (sched_class \<Rightarrow> yield_to_op option) \<Rightarrow> ptr \<Rightarrow> bool \<Rightarrow> kstate \<Rightarrow> (bool \<times> kstate) option" where
  "yield_to K Y p preempt s =
     (let c = curr (rq s) in
      case class_yield_to_task Y (sched_class (tasks s c)) of
        None \<Rightarrow> Some (False, s)
      | Some yt \<Rightarrow>
          if sched_class (tasks s c) \<noteq> sched_class (tasks s p) then Some (False, s)
          else if task_current p s \<or> tstate (tasks s p) \<noteq> 0 then Some (False, s)
          else case yt p preempt s of
            (True, s1) \<Rightarrow>
              do { s2 \<leftarrow> schedule K (s1\<lparr>rq := (rq s1)\<lparr>yld_count := yld_count (rq s1) + 1\<rparr>\<rparr>); Some (True, s2) }
          | (False, s1) \<Rightarrow> Some (False, s1\<lparr>rq := (rq s1)\<lparr>skip_clock_update := 0\<rparr>\<rparr>))"

section \<open>Waiting for I/O\<close>

text \<open>
  The counter of the run queue and the flags of the tasks, with the state the rest of the scheduler sees. Delay accounting and
  the plugged requests are left out; \<^verbatim>\<open>schedule_timeout\<close> (\<^verbatim>\<open>kernel/timer.c\<close>) is an argument. While the caller sleeps, the others run:
  both calls work on the whole \<open>io_state\<close>.
\<close>

record io_state =
  io_kernel :: kstate
  io_nr_iowait :: int
  in_iowait :: "ptr \<Rightarrow> bool"

definition io_begin :: "io_state \<Rightarrow> io_state" where
  "io_begin S = S\<lparr>io_nr_iowait := io_nr_iowait S + 1, in_iowait := (in_iowait S)(curr (rq (io_kernel S)) := True)\<rparr>"

text \<open>\<open>p\<close>: the task that called, which is current again.\<close>

definition io_end :: "ptr \<Rightarrow> io_state \<Rightarrow> io_state" where
  "io_end p S = S\<lparr>in_iowait := (in_iowait S)(p := False), io_nr_iowait := io_nr_iowait S - 1\<rparr>"

definition io_schedule :: "(io_state \<Rightarrow> io_state option) \<Rightarrow> io_state \<Rightarrow> io_state option" where
  "io_schedule sleep S =
     do { S1 \<leftarrow> sleep (io_begin S); Some (io_end (curr (rq (io_kernel S))) S1) }"

definition io_schedule_timeout :: "(int \<Rightarrow> io_state \<Rightarrow> (int \<times> io_state) option) \<Rightarrow> int \<Rightarrow> io_state \<Rightarrow> (int \<times> io_state) option" where
  "io_schedule_timeout schedule_timeout timeout S =
     do { (ret, S1) \<leftarrow> schedule_timeout timeout (io_begin S); Some (ret, io_end (curr (rq (io_kernel S))) S1) }"

end
