(* ===== verification/Affinity_Props.thy ===== *)
theory Affinity_Props
  imports Affinity Core_Props
begin

text \<open>
  The system calls on CPU masks always return, with the error the code means, and never show or use what the kernel
  memory held before; giving way with \<^verbatim>\<open>cond_resched\<close> never puts the caller to sleep, whatever state it has set.
\<close>

section \<open>CPU masks\<close>

text \<open>
  Documented behaviour of \<^verbatim>\<open>linux/cpumask.h\<close> on one CPU (only bit 0 counts): intersection, inclusion, and that a copy of
  the full size replaces the mask.
\<close>

definition mask_ops_ok :: "'m mask_env \<Rightarrow> bool" where
  "mask_ops_ok M \<longleftrightarrow> (\<forall>a b. cpumask_test_cpu M 0 (cpumask_and M a b) \<longleftrightarrow> cpumask_test_cpu M 0 a \<and> cpumask_test_cpu M 0 b) \<and>
     (\<forall>a b. cpumask_subset M a b \<longleftrightarrow> (cpumask_test_cpu M 0 a \<longrightarrow> cpumask_test_cpu M 0 b)) \<and>
     (\<forall>a b. copy_mask_from_user M (cpumask_size M) a = copy_mask_from_user M (cpumask_size M) b)"

abbreviation cpu_allowed :: "'m mask_env \<Rightarrow> ptr \<Rightarrow> nat \<Rightarrow> bool" where
  "cpu_allowed M p n \<equiv> cpumask_test_cpu M 0 (cpuset_cpus_allowed M p n)"

text \<open>The loop that races with the cpusets ends: a mask reset to the cpuset's is either inside it or without the CPU.\<close>

lemma affinity_loop_result:
  assumes M: "mask_ops_ok M"
  shows "affinity_loop M p n m = Some (if cpumask_test_cpu M 0 m \<and> cpu_allowed M p n then 0 else - EINVAL)"
proof -
  have sub: "cpumask_subset M a b \<longleftrightarrow> (cpumask_test_cpu M 0 a \<longrightarrow> cpumask_test_cpu M 0 b)" for a b
    using M by (simp add: mask_ops_ok_def)
  have outside: "affinity_loop M p k c = Some (- EINVAL)" if "\<not> cpumask_test_cpu M 0 c" for k c
    using that by (simp add: affinity_loop.simps set_cpus_allowed_ptr_def sched_consts)
  show ?thesis
    by (subst affinity_loop.simps) (simp add: set_cpus_allowed_ptr_def sub outside sched_consts)
qed

lemma sched_setaffinity_result:
  assumes M: "mask_ops_ok M"
  shows "sched_setaffinity K M pid m s =
    (case find_process_by_pid K pid s of
       None \<Rightarrow> Some (- ESRCH)
     | Some p \<Rightarrow> Some (
         if \<not> alloc_cpumask_var M 0 \<or> \<not> alloc_cpumask_var M 1 then - ENOMEM
         else if \<not> check_same_owner p s \<and> \<not> ns_capable_sys_nice M p s then - EPERM
         else if security_task_setscheduler K p s \<noteq> 0 then security_task_setscheduler K p s
         else if cpumask_test_cpu M 0 m \<and> cpu_allowed M p 0 \<and> cpu_allowed M p 1 then 0 else - EINVAL))"
proof -
  have conj: "cpumask_test_cpu M 0 (cpumask_and M a b) \<longleftrightarrow> cpumask_test_cpu M 0 a \<and> cpumask_test_cpu M 0 b" for a b
    using M by (simp add: mask_ops_ok_def)
  show ?thesis
    by (simp add: sched_setaffinity_def affinity_loop_result [OF M] Let_def conj split: option.split)
qed

lemma get_user_cpu_mask_garbage:
  assumes "mask_ops_ok M" and "get_user_cpu_mask M len g = (r, m)"
  shows "\<exists>n. get_user_cpu_mask M len h = (r, n) \<and> (r = 0 \<longrightarrow> n = m)"
proof -
  have "copy_mask_from_user M (cpumask_size M) h = copy_mask_from_user M (cpumask_size M) g"
    using assms(1) unfolding mask_ops_ok_def by blast
  then show ?thesis
    using assms(2) by (cases len "cpumask_size M" rule: linorder_cases)
      (auto simp: get_user_cpu_mask_def Let_def sched_consts split: option.splits if_splits)
qed

lemma sys_sched_setaffinity_garbage:
  assumes "mask_ops_ok M"
  shows "sys_sched_setaffinity K M a g pid len s = sys_sched_setaffinity K M a h pid len s"
proof -
  obtain r m where m: "get_user_cpu_mask M len g = (r, m)" by fastforce
  then show ?thesis using get_user_cpu_mask_garbage [OF assms m, of h]
    by (auto simp: sys_sched_setaffinity_def)
qed

text \<open>The length is multiplied by 8 in 32 bits.\<close>

lemma sys_sched_getaffinity_wraps:
  assumes "nr_cpu_ids M = 1"
  shows "sys_sched_getaffinity K M a pid (2 ^ 29) s = (- EINVAL, None)"
  using assms by (simp add: sys_sched_getaffinity_def)

lemma sys_sched_getaffinity_fits:
  assumes "sys_sched_getaffinity K M a pid len s = (r, Some (m, n))"
  shows "n \<le> len" "n \<le> cpumask_size M" "r = sint n"
    "\<exists>p. find_process_by_pid K pid s = Some p \<and> m = cpumask_and M (cpus_allowed M p) (cpu_online_mask M)"
  using assms by (auto simp: sys_sched_getaffinity_def sched_getaffinity_def Let_def split: if_splits option.splits)

section \<open>Giving way\<close>

lemma preempt_active_kenv [simp]:
  "kenv_ok (with_preempt_active K p) = kenv_ok K"
  "rt_root (with_preempt_active K p) s = rt_root K s"
  "idle_task (with_preempt_active K p) = idle_task K"
  by (simp_all add: with_preempt_active_def kenv_ok_def rt_env_def ext_ok_def rt_root_def)

text \<open>A pass under \<^verbatim>\<open>PREEMPT_ACTIVE\<close> takes no task off its queue, whatever state the current task has set.\<close>

lemma schedule_pass_preempted:
  assumes K: "kenv_ok K" and s: "sched_ok s" and root: "rt_root K s" and idl: "idle_in K s"
    and pa: "\<And>t. curr (rq t) = curr (rq s) \<Longrightarrow> preempt_active K t"
  shows "\<exists>t. schedule_pass K s = Some t \<and> sched_ok t \<and> (\<forall>x. core3 (tasks t x) = core3 (tasks s x)) \<and>
    \<not> need_resched (tasks t (curr (rq s)))"
proof -
  let ?s1 = "schedule_debug s" and ?p = "curr (rq s)"
  have k: "ext_keep s ?s1" by (rule ext_keep_upds)
  have s1: "sched_but None ?s1" "curr (rq ?s1) = ?p" using sched_ok_keep [OF k s] k by (simp_all add: sched_ok_def ext_keep_def)
  have out: "sched_out K ?p ?s1 = Some (False, ?s1)" using pa [OF s1(2)] by (simp add: sched_out_def)
  obtain s3 where s3: "put_prev_task K ?p ?s1 = Some s3" "sched_but None s3" "rt_links ?s1 s3" "curr (rq s3) = ?p"
    "\<forall>x. core3 (tasks s3 x) = core3 (tasks ?s1 x)"
    using put_prev_task_ok [OF K s1(1), of ?p] s1(2) by auto
  have c3: "core3 (tasks s3 x) = core3 (tasks s x)" for x using s3(5) k by (simp add: ext_keep_def)
  have root3: "rt_root K s3" using rt_root_links [OF s3(3)] rt_root_keep [OF k] root by blast
  have "class_of s3 x = class_of s x" for x using c3 [of x] by (simp add: core3_def)
  then obtain n s4 where s4: "pick_next_task K s3 = Some (n, s4)" "ext_keep s3 s4" "picked s3 n"
    using pick_next_task_ok [OF K s3(2) root3] idl by auto
  let ?t = "switch_to ?p False n s4"
  have pass: "schedule_pass K s = Some ?t" using out s3(1) s4(1) by (simp add: schedule_pass_def)
  have "core3 (tasks ?t x) = core3 (tasks s x)" for x
    using switch_to_core3 [of ?p False n s4 x] s4(2) c3 [of x] by (simp add: ext_keep_def)
  moreover have "sched_ok ?t" using schedule_pass_ok [OF K s root idl] pass by auto
  moreover have "\<not> need_resched (tasks ?t ?p)" by (simp add: switch_to_def Let_def)
  ultimately show ?thesis using pass by auto
qed

lemma preempt_active_caller: "curr (rq t) = p \<Longrightarrow> preempt_active (with_preempt_active K p) t"
  by (simp add: with_preempt_active_def)

section \<open>The main properties\<close>

definition sample_masks :: "bool mask_env" where
  "sample_masks = \<lparr>cpumask_and = (\<and>), cpumask_test_cpu = (\<lambda>c m. m), cpumask_subset = (\<longrightarrow>), cpumask_clear = False,
     cpumask_size = 4, nr_cpu_ids = 1, cpu_online_mask = True, cpuset_cpus_allowed = (\<lambda>_ _. True), cpus_allowed = (\<lambda>_. True),
     alloc_cpumask_var = (\<lambda>_. True), copy_mask_from_user = (\<lambda>_ _. Some True), copy_mask_to_user = (\<lambda>_ _. True),
     ns_capable_sys_nice = (\<lambda>_ _. True)\<rparr>"

lemma sample_mask_ops: "mask_ops_ok sample_masks"
  by (simp add: mask_ops_ok_def sample_masks_def)

text \<open>The answer when \<open>rv\<close> and \<open>m\<close> are what reading the mask gave, and when it is 0 or \<^verbatim>\<open>EINVAL\<close>.\<close>

definition affinity_answer :: "kenv \<Rightarrow> 'm mask_env \<Rightarrow> bool \<Rightarrow> int \<Rightarrow> 'm \<Rightarrow> int \<Rightarrow> kstate \<Rightarrow> int" where
  "affinity_answer K M a rv m pid s =
     (if \<not> a then - ENOMEM else if rv \<noteq> 0 then rv else
      case find_process_by_pid K pid s of
        None \<Rightarrow> - ESRCH
      | Some p \<Rightarrow>
          if \<not> alloc_cpumask_var M 0 \<or> \<not> alloc_cpumask_var M 1 then - ENOMEM
          else if \<not> check_same_owner p s \<and> \<not> ns_capable_sys_nice M p s then - EPERM
          else if security_task_setscheduler K p s \<noteq> 0 then security_task_setscheduler K p s
          else if cpumask_test_cpu M 0 m \<and> cpu_allowed M p 0 \<and> cpu_allowed M p 1 then 0 else - EINVAL)"

lemma sys_sched_setaffinity_answer:
  assumes "mask_ops_ok M" and "get_user_cpu_mask M len g = (rv, m)"
  shows "sys_sched_setaffinity K M a g pid len s = Some (affinity_answer K M a rv m pid s)"
  using assms(2)
  by (simp add: sys_sched_setaffinity_def sched_setaffinity_result [OF assms(1)] affinity_answer_def split: option.split)

lemma affinity_answer_cases:
  assumes rv: "rv = 0 \<or> rv = - EFAULT" and sec: "\<And>p. security_task_setscheduler K p s \<in> {0, - EPERM, - EACCES}"
  shows "affinity_answer K M a rv m pid s \<in> {0, - ENOMEM, - EFAULT, - ESRCH, - EPERM, - EACCES, - EINVAL}"
    and "affinity_answer K M a rv m pid s \<in> {0, - EINVAL} \<longleftrightarrow> a \<and> alloc_cpumask_var M 0 \<and> alloc_cpumask_var M 1 \<and>
      (\<exists>p. rv = 0 \<and> find_process_by_pid K pid s = Some p \<and> (check_same_owner p s \<or> ns_capable_sys_nice M p s) \<and>
        security_task_setscheduler K p s = 0 \<and>
        (affinity_answer K M a rv m pid s = 0 \<longleftrightarrow> cpumask_test_cpu M 0 m \<and> cpu_allowed M p 0 \<and> cpu_allowed M p 1))"
      (is ?exact)
proof -
  let ?r = "affinity_answer K M a rv m pid s"
  note d = affinity_answer_def
  show "?r \<in> {0, - ENOMEM, - EFAULT, - ESRCH, - EPERM, - EACCES, - EINVAL}"
  proof (cases "find_process_by_pid K pid s")
    case None
    then show ?thesis using rv by (auto simp: d)
  next
    case (Some p)
    then have "?r \<in> {- ENOMEM, rv, - EPERM, security_task_setscheduler K p s, 0, - EINVAL}" by (simp add: d)
    then show ?thesis using rv sec [of p] by auto
  qed
  show ?exact
  proof (cases "a \<and> rv = 0")
    case False
    then show ?thesis using rv by (auto simp: d sched_consts)
  next
    case True
    show ?thesis
    proof (cases "find_process_by_pid K pid s")
      case None
      then show ?thesis using True by (simp add: d sched_consts)
    next
      case (Some p)
      have "security_task_setscheduler K p s = 0 \<or> security_task_setscheduler K p s = - EPERM \<or>
        security_task_setscheduler K p s = - EACCES" using sec [of p] by simp
      then show ?thesis using True by (elim disjE) (auto simp: d sched_consts Some)
    qed
  qed
qed

text \<open>C39: \<^verbatim>\<open>sched_setaffinity\<close> always returns, also when the cpusets change while it runs, and what it answers does not
  depend on what the kernel memory of the mask held before. It answers 0 exactly if all memory was there, the mask could be
  read, the task exists, the caller owns it or is privileged, the security module agrees, and the CPU is in the mask and in
  the cpuset at both readings; it answers \<^verbatim>\<open>EINVAL\<close> exactly if only the last condition fails, and never anything but the
  documented errors.\<close>

theorem setaffinity_errors_exact:
  fixes M :: "'m mask_env"
  assumes M: "mask_ops_ok M" and sec: "\<And>p. security_task_setscheduler K p s \<in> {0, - EPERM, - EACCES}"
  shows "\<exists>r. (\<forall>garbage. sys_sched_setaffinity K M a garbage pid len s = Some r) \<and>
    r \<in> {0, - ENOMEM, - EFAULT, - ESRCH, - EPERM, - EACCES, - EINVAL} \<and>
    (r \<in> {0, - EINVAL} \<longleftrightarrow> a \<and> alloc_cpumask_var M 0 \<and> alloc_cpumask_var M 1 \<and>
      (\<exists>m p. (\<forall>garbage. get_user_cpu_mask M len garbage = (0, m)) \<and> find_process_by_pid K pid s = Some p \<and>
        (check_same_owner p s \<or> ns_capable_sys_nice M p s) \<and> security_task_setscheduler K p s = 0 \<and>
        (r = 0 \<longleftrightarrow> cpumask_test_cpu M 0 m \<and> cpu_allowed M p 0 \<and> cpu_allowed M p 1)))"
proof -
  fix g0 :: 'm
  obtain rv m where m: "get_user_cpu_mask M len g0 = (rv, m)" by fastforce
  have rv: "rv = 0 \<or> rv = - EFAULT"
    using m by (auto simp: get_user_cpu_mask_def Let_def split: option.splits)
  have all: "(\<forall>g. get_user_cpu_mask M len g = (0, m')) \<longleftrightarrow> rv = 0 \<and> m' = m" for m'
    using get_user_cpu_mask_garbage [OF M m] m by fastforce
  have "\<forall>g. sys_sched_setaffinity K M a g pid len s = Some (affinity_answer K M a rv m pid s)"
    using sys_sched_setaffinity_answer [OF M m] sys_sched_setaffinity_garbage [OF M] by metis
  with affinity_answer_cases [OF rv sec, of M a m pid] show ?thesis unfolding all by blast
qed

theorem setaffinity_errors_exact_witness:
  "\<exists>r. \<forall>garbage. sys_sched_setaffinity sample_env sample_masks True garbage 0 4 (sample_sched0 True) = Some r"
proof -
  have "security_task_setscheduler sample_env p (sample_sched0 True) \<in> {0, - EPERM, - EACCES}" for p
    by (simp add: sample_env_def)
  then show ?thesis
    using setaffinity_errors_exact [OF sample_mask_ops, where K = sample_env and s = "sample_sched0 True" and a = True and pid = 0 and len = 4]
    by blast
qed

text \<open>C40: \<^verbatim>\<open>cond_resched\<close> does nothing unless a switch is pending. If one is, a pass of \<^verbatim>\<open>__schedule\<close> succeeds and keeps
  the invariant, and no task leaves its queue, not even a caller that has already set the state it wants to sleep in; the
  caller's request is served, and when the next task has none pending, the call returns 1.\<close>

theorem cond_resched_keeps_queued:
  assumes "kenv_ok K" and "sched_ok s" and "rt_root K s" and "idle_in K s"
  shows "(\<not> should_resched K s \<longrightarrow> cond_resched K s = Some (False, s)) \<and>
    (should_resched K s \<longrightarrow> (\<exists>t. schedule_pass (with_preempt_active K (curr (rq s))) s = Some t \<and> sched_ok t \<and>
       (\<forall>x. on_rq (tasks t x) = on_rq (tasks s x) \<and> class_of t x = class_of s x) \<and>
       \<not> need_resched (tasks t (curr (rq s))) \<and>
       (\<not> need_resched (tasks t (curr (rq t))) \<longrightarrow> cond_resched K s = Some (True, t))))"
proof -
  let ?K = "with_preempt_active K (curr (rq s))"
  obtain t where t: "schedule_pass ?K s = Some t" "sched_ok t" "\<forall>x. core3 (tasks t x) = core3 (tasks s x)"
    "\<not> need_resched (tasks t (curr (rq s)))"
    using schedule_pass_preempted [of ?K s] assms preempt_active_caller by auto
  have "schedule_loop ?K s = Some t" if "\<not> need_resched (tasks t (curr (rq t)))"
    by (subst schedule_loop.simps) (simp add: t(1) that)
  then show ?thesis using t by (auto simp: cond_resched_def cond_resched1_def core3_def)
qed

theorem cond_resched_keeps_queued_witness:
  "\<exists>s t. should_resched sample_env s \<and> tstate (tasks s (curr (rq s))) = TASK_INTERRUPTIBLE \<and>
     schedule_pass (with_preempt_active sample_env (curr (rq s))) s = Some t \<and> on_rq (tasks t 10)"
proof -
  let ?s = "upd_task 10 (\<lambda>t. t\<lparr>tstate := TASK_INTERRUPTIBLE, need_resched := True\<rparr>) (sample_sched0 True)"
  have k: "ext_keep (sample_sched0 True) ?s" by (rule ext_keep_upds) (simp add: core3_def task_params_def)
  have s: "sched_ok ?s" "rt_root sample_env ?s" "idle_in sample_env ?s"
    using sched_ok_keep [OF k sample_sched_ok(1)] sample_sched_ok(2) [of True] rt_root_keep [OF k] ext_keepD(6) [OF k]
    by (simp_all add: boot_ok_def)
  have c: "curr (rq ?s) = 10" "on_rq (tasks ?s 10)" "tstate (tasks ?s 10) = TASK_INTERRUPTIBLE" "need_resched (tasks ?s 10)"
    by (simp_all add: sample_sched_task sample_tasks_def sample_task_def)
  then have "should_resched sample_env ?s" by (simp add: should_resched_def sample_env_def)
  then show ?thesis using cond_resched_keeps_queued [OF sample_kenv_ok s] c by metis
qed

end
