(* ===== verification/Switch.thy ===== *)
theory Switch
  imports Affinity Load
begin

text \<open>
  The rest of a switch (\<^verbatim>\<open>core.c\<close> from \<^verbatim>\<open>prepare_task_switch\<close> to \<^verbatim>\<open>this_cpu_load\<close>): the address spaces, the last reference
  of a dead task, the first code of a new thread, and the counters the rest of the kernel reads. A kernel thread has no
  address space of its own and borrows that of its predecessor; the references to it are counted in \<^verbatim>\<open>mm_count\<close>.
\<close>

section \<open>State\<close>

text \<open>What the architecture and the memory management are asked to do, in order; the latest first.\<close>

datatype switch_event =
    Switch_mm "ptr option" ptr ptr
  | Enter_lazy_tlb ptr ptr
  | Mm_freed ptr
  | Task_freed ptr

text \<open>
  \<open>task_mm\<close> and \<open>active_mm\<close> are the fields of \<^verbatim>\<open>task_struct\<close>, \<open>prev_mm\<close> the field of the run queue, the counters are 32-bit
  atomic integers.
\<close>

record switch_state =
  sw_kernel :: kstate
  task_mm :: "ptr \<Rightarrow> ptr option"
  active_mm :: "ptr \<Rightarrow> ptr option"
  mm_count :: "ptr \<Rightarrow> uint32"
  prev_mm :: "ptr option"
  task_usage :: "ptr \<Rightarrow> uint32"
  sw_log :: "switch_event list"

definition sw_emit :: "switch_event \<Rightarrow> switch_state \<Rightarrow> switch_state" where
  "sw_emit e S = S\<lparr>sw_log := e # sw_log S\<rparr>"

section \<open>References\<close>

text \<open>\<^verbatim>\<open>mmdrop\<close> and \<^verbatim>\<open>put_task_struct\<close> of \<^verbatim>\<open>linux/sched.h\<close>; \<^verbatim>\<open>__mmdrop\<close> and \<^verbatim>\<open>__put_task_struct\<close> free the memory.\<close>

definition mm_get :: "ptr \<Rightarrow> switch_state \<Rightarrow> switch_state" where
  "mm_get m S = S\<lparr>mm_count := (mm_count S)(m := mm_count S m + 1)\<rparr>"

definition mmdrop :: "ptr \<Rightarrow> switch_state \<Rightarrow> switch_state" where
  "mmdrop m S =
     (let S1 = S\<lparr>mm_count := (mm_count S)(m := mm_count S m - 1)\<rparr>
      in if mm_count S1 m = 0 then sw_emit (Mm_freed m) S1 else S1)"

definition put_task_struct :: "ptr \<Rightarrow> switch_state \<Rightarrow> switch_state" where
  "put_task_struct t S =
     (let S1 = S\<lparr>task_usage := (task_usage S)(t := task_usage S t - 1)\<rparr>
      in if task_usage S1 t = 0 then sw_emit (Task_freed t) S1 else S1)"

section \<open>The switch\<close>

text \<open>
  Locks, interrupts, the hooks of the architecture, performance events and probes are left out, and with one CPU and no
  preemption notifiers \<^verbatim>\<open>prepare_task_switch\<close> has nothing else to do.
\<close>

definition finish_task_switch :: "ptr \<Rightarrow> switch_state \<Rightarrow> switch_state" where
  "finish_task_switch prev S =
     (let mm = prev_mm S;
          S1 = S\<lparr>prev_mm := None\<rparr>;
          prev_state = tstate (tasks (sw_kernel S1) prev);
          S2 = (case mm of Some m \<Rightarrow> mmdrop m S1 | None \<Rightarrow> S1)
      in if prev_state = TASK_DEAD then put_task_struct prev S2 else S2)"

text \<open>The part of \<^verbatim>\<open>context_switch\<close> that \<open>prev\<close> runs, up to \<^verbatim>\<open>switch_to\<close>. \<^verbatim>\<open>None\<close>: a NULL \<^verbatim>\<open>oldmm\<close> is dereferenced.\<close>

definition switch_out :: "ptr \<Rightarrow> ptr \<Rightarrow> switch_state \<Rightarrow> switch_state option" where
  "switch_out prev next S =
     (let oldmm = active_mm S prev in
      do { S1 \<leftarrow> (case task_mm S next of
                   None \<Rightarrow> (case oldmm of
                       None \<Rightarrow> None
                     | Some old \<Rightarrow> Some (sw_emit (Enter_lazy_tlb old next)
                         (mm_get old (S\<lparr>active_mm := (active_mm S)(next := oldmm)\<rparr>))))
                 | Some m \<Rightarrow> Some (sw_emit (Switch_mm oldmm m next) S));
           Some (if task_mm S1 prev = None
                 then S1\<lparr>active_mm := (active_mm S1)(prev := None), prev_mm := oldmm\<rparr>
                 else S1) })"

text \<open>After \<^verbatim>\<open>switch_to\<close> the next task goes on; on one CPU it finds the \<open>prev\<close> that was just running.\<close>

definition context_switch :: "ptr \<Rightarrow> ptr \<Rightarrow> switch_state \<Rightarrow> switch_state option" where
  "context_switch prev next S =
     do { S1 \<leftarrow> switch_out prev next S; Some (finish_task_switch prev S1) }"

text \<open>
  A new thread starts here instead of after \<^verbatim>\<open>switch_to\<close>. Its pid is written to user memory at \<^verbatim>\<open>set_child_tid\<close>, when that
  is set: the second value.
\<close>

definition schedule_tail :: "(ptr \<Rightarrow> ptr option) \<Rightarrow> (ptr \<Rightarrow> int) \<Rightarrow> ptr \<Rightarrow> switch_state \<Rightarrow> switch_state \<times> (ptr \<times> int) option" where
  "schedule_tail set_child_tid task_pid_vnr prev S =
     (let S1 = finish_task_switch prev S; c = curr (rq (sw_kernel S1))
      in (S1, case set_child_tid c of Some addr \<Rightarrow> Some (addr, task_pid_vnr c) | None \<Rightarrow> None))"

text \<open>A pass of \<^verbatim>\<open>__schedule\<close> with the switch.\<close>

definition schedule_switch :: "kenv \<Rightarrow> switch_state \<Rightarrow> switch_state option" where
  "schedule_switch K S =
     do { t \<leftarrow> schedule_pass K (sw_kernel S);
          let prev = curr (rq (sw_kernel S));
          let next = curr (rq t);
          if prev \<noteq> next then context_switch prev next (S\<lparr>sw_kernel := t\<rparr>) else Some (S\<lparr>sw_kernel := t\<rparr>) }"

text \<open>The boot thread borrows \<^verbatim>\<open>init_mm\<close> (in \<^verbatim>\<open>sched_init\<close>).\<close>

definition boot_lazy_mm :: "ptr \<Rightarrow> switch_state \<Rightarrow> switch_state" where
  "boot_lazy_mm init_mm S = sw_emit (Enter_lazy_tlb init_mm (curr (rq (sw_kernel S)))) (mm_get init_mm S)"

section \<open>Counters for the rest of the kernel\<close>

definition total_nr_running :: "kstate \<Rightarrow> ulong" where
  "total_nr_running s = 0 + nr_running (rq s)"

text \<open>The sum of the CPUs is read without locks and may be negative for a moment.\<close>

definition total_nr_uninterruptible :: "kstate \<Rightarrow> ulong" where
  "total_nr_uninterruptible s =
     (let sum = 0 + nr_uninterruptible (rq s) in if sint sum < 0 then 0 else sum)"

definition nr_context_switches :: "kstate \<Rightarrow> u64" where
  "nr_context_switches s = 0 + nr_switches (rq s)"

definition nr_iowait_cpu :: "io_state \<Rightarrow> ulong" where
  "nr_iowait_cpu S = word_of_int (io_nr_iowait S)"

definition nr_iowait :: "io_state \<Rightarrow> ulong" where
  "nr_iowait S = 0 + word_of_int (io_nr_iowait S)"

definition this_cpu_load :: "load_state \<Rightarrow> ulong" where
  "this_cpu_load L = cpu_load L ! 0"

end
