(* ===== verification/Switch_Props.thy ===== *)
theory Switch_Props
  imports Switch Core_Props
begin

text \<open>
  Borrowed address spaces are counted exactly, and freed by the switch that ends the last use and by no other; a task that
  dies leaves the CPU for good and loses exactly one reference.
\<close>

section \<open>The references to address spaces\<close>

text \<open>
  \<open>B m\<close> is the number of references the owners of \<open>m\<close> hold (one for all its users together, and others taken outside the
  scheduler). The current task \<open>c\<close> borrows its address space if it has none of its own.
\<close>

definition borrows :: "ptr \<Rightarrow> switch_state \<Rightarrow> ptr \<Rightarrow> bool" where
  "borrows c S m \<longleftrightarrow> task_mm S c = None \<and> active_mm S c = Some m"

definition mm_refs :: "(ptr \<Rightarrow> nat) \<Rightarrow> ptr \<Rightarrow> switch_state \<Rightarrow> ptr \<Rightarrow> nat" where
  "mm_refs B c S m = B m + (if borrows c S m then 1 else 0)"

definition mm_inv :: "(ptr \<Rightarrow> nat) \<Rightarrow> ptr \<Rightarrow> switch_state \<Rightarrow> bool" where
  "mm_inv B c S \<longleftrightarrow> prev_mm S = None \<and> active_mm S c \<noteq> None \<and>
     (\<forall>p m. task_mm S p = Some m \<longrightarrow> active_mm S p = Some m \<and> 0 < B m) \<and>
     (\<forall>p. p \<noteq> c \<and> task_mm S p = None \<longrightarrow> active_mm S p = None) \<and>
     (\<forall>m. B m < 2 ^ 32 - 1 \<and> mm_count S m = of_nat (mm_refs B c S m))"

abbreviation current :: "switch_state \<Rightarrow> ptr" where
  "current S \<equiv> curr (rq (sw_kernel S))"

lemma sw_simps [simp]:
  "sw_kernel (sw_emit e S) = sw_kernel S" "task_mm (sw_emit e S) = task_mm S" "active_mm (sw_emit e S) = active_mm S"
  "mm_count (sw_emit e S) = mm_count S" "prev_mm (sw_emit e S) = prev_mm S" "task_usage (sw_emit e S) = task_usage S"
  "sw_log (sw_emit e S) = e # sw_log S"
  "sw_kernel (mm_get m S) = sw_kernel S" "task_mm (mm_get m S) = task_mm S" "active_mm (mm_get m S) = active_mm S"
  "mm_count (mm_get m S) = (mm_count S)(m := mm_count S m + 1)" "prev_mm (mm_get m S) = prev_mm S"
  "task_usage (mm_get m S) = task_usage S" "sw_log (mm_get m S) = sw_log S"
  by (simp_all add: sw_emit_def mm_get_def)

lemma mmdrop_simps [simp]:
  "sw_kernel (mmdrop m S) = sw_kernel S" "task_mm (mmdrop m S) = task_mm S" "active_mm (mmdrop m S) = active_mm S"
  "mm_count (mmdrop m S) = (mm_count S)(m := mm_count S m - 1)" "prev_mm (mmdrop m S) = prev_mm S"
  "task_usage (mmdrop m S) = task_usage S"
  "sw_log (mmdrop m S) = (if mm_count S m = 1 then [Mm_freed m] else []) @ sw_log S"
  by (simp_all add: mmdrop_def sw_emit_def Let_def)

lemma put_task_simps [simp]:
  "sw_kernel (put_task_struct t S) = sw_kernel S" "task_mm (put_task_struct t S) = task_mm S"
  "active_mm (put_task_struct t S) = active_mm S" "mm_count (put_task_struct t S) = mm_count S"
  "prev_mm (put_task_struct t S) = prev_mm S"
  "task_usage (put_task_struct t S) = (task_usage S)(t := task_usage S t - 1)"
  "sw_log (put_task_struct t S) = (if task_usage S t = 1 then [Task_freed t] else []) @ sw_log S"
  by (simp_all add: put_task_struct_def sw_emit_def Let_def)

lemma finish_task_switch_simps:
  "sw_kernel (finish_task_switch p S) = sw_kernel S" "task_mm (finish_task_switch p S) = task_mm S"
  "active_mm (finish_task_switch p S) = active_mm S" "prev_mm (finish_task_switch p S) = None"
  "mm_count (finish_task_switch p S) =
     (case prev_mm S of Some m \<Rightarrow> (mm_count S)(m := mm_count S m - 1) | None \<Rightarrow> mm_count S)"
  "task_usage (finish_task_switch p S) =
     (if tstate (tasks (sw_kernel S) p) = TASK_DEAD then (task_usage S)(p := task_usage S p - 1) else task_usage S)"
  "sw_log (finish_task_switch p S) =
     (if tstate (tasks (sw_kernel S) p) = TASK_DEAD \<and> task_usage S p = 1 then [Task_freed p] else []) @
     (case prev_mm S of Some m \<Rightarrow> if mm_count S m = 1 then [Mm_freed m] else [] | None \<Rightarrow> []) @ sw_log S"
  by (simp_all add: finish_task_switch_def Let_def split: option.split)

lemma word32_zero: "n < 2 ^ 32 \<Longrightarrow> (of_nat n :: 32 word) = 0 \<longleftrightarrow> n = 0"
proof -
  assume "n < 2 ^ 32"
  then have "unat (of_nat n :: 32 word) = n" by (simp add: unat_of_nat)
  then show "(of_nat n :: 32 word) = 0 \<longleftrightarrow> n = 0" by (metis unat_eq_zero)
qed

lemma switch_out_ok:
  assumes "active_mm S c = Some a" and "n \<noteq> c"
  shows "\<exists>U e. switch_out c n S = Some U \<and> sw_kernel U = sw_kernel S \<and> task_mm U = task_mm S \<and> task_usage U = task_usage S \<and>
    active_mm U = (\<lambda>p. if p = c \<and> task_mm S c = None then None
                       else if p = n \<and> task_mm S n = None then Some a else active_mm S p) \<and>
    mm_count U = (if task_mm S n = None then (mm_count S)(a := mm_count S a + 1) else mm_count S) \<and>
    prev_mm U = (if task_mm S c = None then Some a else prev_mm S) \<and>
    sw_log U = e # sw_log S \<and> (\<forall>m. e \<noteq> Mm_freed m) \<and> (\<forall>t. e \<noteq> Task_freed t)"
  using assms by (cases "task_mm S n"; cases "task_mm S c") (auto simp: switch_out_def Let_def fun_eq_iff)

text \<open>What a switch from \<open>c\<close> to another task does.\<close>

lemma context_switch_ok:
  assumes inv: "mm_inv B c S" and ne: "n \<noteq> c"
  shows "\<exists>T new. context_switch c n S = Some T \<and> mm_inv B n T \<and> sw_kernel T = sw_kernel S \<and> task_mm T = task_mm S \<and>
    task_usage T = (if tstate (tasks (sw_kernel S) c) = TASK_DEAD then (task_usage S)(c := task_usage S c - 1) else task_usage S) \<and>
    sw_log T = new @ sw_log S \<and>
    (\<forall>m. Mm_freed m \<in> set new \<longleftrightarrow> borrows c S m \<and> task_mm S n \<noteq> None \<and> B m = 0) \<and>
    (\<forall>t. Task_freed t \<in> set new \<longleftrightarrow> t = c \<and> tstate (tasks (sw_kernel S) c) = TASK_DEAD \<and> task_usage S c = 1)"
proof -
  obtain a where a: "active_mm S c = Some a" using inv by (auto simp: mm_inv_def)
  have cnt: "mm_count S m = of_nat (mm_refs B c S m)" "B m < 2 ^ 32 - 1" for m using inv by (simp_all add: mm_inv_def)
  have own: "active_mm S p = Some m" "0 < B m" if "task_mm S p = Some m" for p m using inv that by (simp_all add: mm_inv_def)
  have lazy: "active_mm S p = None" if "p \<noteq> c" "task_mm S p = None" for p using inv that by (simp add: mm_inv_def)
  have prev: "prev_mm S = None" using inv by (simp add: mm_inv_def)
  have one: "mm_count S a = 1 \<longleftrightarrow> B a = 0" if "task_mm S c = None"
    using cnt [of a] word32_zero [of "B a"] that a by (simp add: mm_refs_def borrows_def)
  have two: "mm_count S a \<noteq> 0" if "task_mm S c = None"
    using cnt [of a] word32_zero [of "B a + 1"] that a by (simp add: mm_refs_def borrows_def)
  obtain U e where U: "switch_out c n S = Some U" "sw_kernel U = sw_kernel S" "task_mm U = task_mm S" "task_usage U = task_usage S"
    "active_mm U = (\<lambda>p. if p = c \<and> task_mm S c = None then None else if p = n \<and> task_mm S n = None then Some a else active_mm S p)"
    "mm_count U = (if task_mm S n = None then (mm_count S)(a := mm_count S a + 1) else mm_count S)"
    "prev_mm U = (if task_mm S c = None then Some a else prev_mm S)"
    "sw_log U = e # sw_log S" "\<forall>m. e \<noteq> Mm_freed m" "\<forall>t. e \<noteq> Task_freed t"
    using switch_out_ok [OF a ne] by blast
  define T where "T = finish_task_switch c U"
  have at: "active_mm T p = (if p = c \<and> task_mm S c = None then None else if p = n \<and> task_mm S n = None then Some a else active_mm S p)"
    for p by (simp add: T_def finish_task_switch_simps U(5))
  have act: "active_mm T n \<noteq> None" using ne own(1) [of n] by (cases "task_mm S n") (simp_all add: at)
  have user: "active_mm T p = Some m" if "task_mm S p = Some m" for p m using own(1) [OF that] that by (auto simp: at)
  have idle: "active_mm T p = None" if "p \<noteq> n" "task_mm S p = None" for p using that lazy [of p] by (cases "p = c") (auto simp: at)
  have tm: "task_mm T = task_mm S" by (simp add: T_def finish_task_switch_simps(2) U(3))
  have bor: "borrows c S m \<longleftrightarrow> task_mm S c = None \<and> m = a" "borrows n T m \<longleftrightarrow> task_mm S n = None \<and> m = a" for m
    using a ne by (auto simp: borrows_def at tm)
  have "mm_count T m = mm_count S m + (if task_mm S n = None \<and> m = a then 1 else 0) - (if task_mm S c = None \<and> m = a then 1 else 0)"
    for m using prev by (simp add: T_def finish_task_switch_simps U(6,7))
  then have refs: "mm_count T m = of_nat (mm_refs B n T m)" for m
    using cnt(1) [of m] by (simp add: mm_refs_def bor)
  have "mm_inv B n T"
    using act user idle refs cnt(2) own(2) by (simp add: mm_inv_def) (simp add: T_def finish_task_switch_simps U)
  moreover have "context_switch c n S = Some T" using U(1) by (simp add: context_switch_def T_def)
  moreover have "\<exists>new. sw_log T = new @ sw_log S \<and>
    (\<forall>m. Mm_freed m \<in> set new \<longleftrightarrow> borrows c S m \<and> task_mm S n \<noteq> None \<and> B m = 0) \<and>
    (\<forall>t. Task_freed t \<in> set new \<longleftrightarrow> t = c \<and> tstate (tasks (sw_kernel S) c) = TASK_DEAD \<and> task_usage S c = 1)"
  proof (intro exI conjI)
    let ?new = "(if tstate (tasks (sw_kernel S) c) = TASK_DEAD \<and> task_usage S c = 1 then [Task_freed c] else []) @
      (if task_mm S c = None \<and> mm_count U a = 1 then [Mm_freed a] else []) @ [e]"
    show "sw_log T = ?new @ sw_log S" using prev by (simp add: T_def finish_task_switch_simps U(2,4,7,8))
    have "task_mm S c = None \<Longrightarrow> mm_count U a = 1 \<longleftrightarrow> task_mm S n \<noteq> None \<and> B a = 0" using one two by (simp add: U(6))
    then show "\<forall>m. Mm_freed m \<in> set ?new \<longleftrightarrow> borrows c S m \<and> task_mm S n \<noteq> None \<and> B m = 0"
      using U(9) by (simp add: bor) metis
    show "\<forall>t. Task_freed t \<in> set ?new \<longleftrightarrow> t = c \<and> tstate (tasks (sw_kernel S) c) = TASK_DEAD \<and> task_usage S c = 1"
      using U(10) by simp metis
  qed
  moreover have "sw_kernel T = sw_kernel S" "task_mm T = task_mm S"
    "task_usage T = (if tstate (tasks (sw_kernel S) c) = TASK_DEAD then (task_usage S)(c := task_usage S c - 1) else task_usage S)"
    by (simp_all add: T_def finish_task_switch_simps U(2-4))
  ultimately show ?thesis by blast
qed

section \<open>Histories\<close>

text \<open>
  Documented behaviour of fork, exec and exit, which lie outside the repository: a task that has an address space uses it, a
  running task that gives up its own goes on borrowing it, and every reference that is taken or dropped is counted.
\<close>

definition owners_step :: "(ptr \<Rightarrow> nat) \<Rightarrow> switch_state \<Rightarrow> (ptr \<Rightarrow> nat) \<Rightarrow> switch_state \<Rightarrow> bool" where
  "owners_step B S B' S' \<longleftrightarrow> current S' = current S \<and> prev_mm S' = prev_mm S \<and>
     (\<forall>p. active_mm S' p = (case task_mm S' p of Some m \<Rightarrow> Some m | None \<Rightarrow> if p = current S then active_mm S p else None)) \<and>
     (\<forall>p m. task_mm S' p = Some m \<longrightarrow> 0 < B' m) \<and>
     (\<forall>m. B' m < 2 ^ 32 - 1 \<and> mm_count S' m + of_nat (mm_refs B (current S) S m) =
        mm_count S m + of_nat (mm_refs B' (current S) S' m))"

inductive switch_reachable :: "kenv \<Rightarrow> (ptr \<Rightarrow> nat) \<Rightarrow> switch_state \<Rightarrow> (ptr \<Rightarrow> nat) \<Rightarrow> switch_state \<Rightarrow> bool" for K B0 S0 where
  start: "switch_reachable K B0 S0 B0 S0"
| switch: "switch_reachable K B0 S0 B S \<Longrightarrow> schedule_switch K S = Some T \<Longrightarrow> switch_reachable K B0 S0 B T"
| outside: "switch_reachable K B0 S0 B S \<Longrightarrow> owners_step B S B' T \<Longrightarrow> switch_reachable K B0 S0 B' T"

lemma mm_inv_kernel [simp]: "mm_inv B c (S\<lparr>sw_kernel := t\<rparr>) = mm_inv B c S"
  by (simp add: mm_inv_def mm_refs_def borrows_def)

lemma schedule_switch_inv:
  assumes "mm_inv B (current S) S" and "schedule_switch K S = Some T"
  shows "mm_inv B (current T) T"
proof -
  obtain t where t: "schedule_pass K (sw_kernel S) = Some t" using assms(2) by (auto simp: schedule_switch_def split: bind_splits)
  show ?thesis
  proof (cases "current S = curr (rq t)")
    case True
    then show ?thesis using assms t by (auto simp: schedule_switch_def)
  next
    case False
    then have "context_switch (current S) (curr (rq t)) (S\<lparr>sw_kernel := t\<rparr>) = Some T"
      using assms(2) t by (simp add: schedule_switch_def Let_def)
    then show ?thesis
      using context_switch_ok [of B "current S" "S\<lparr>sw_kernel := t\<rparr>" "curr (rq t)"] assms(1) False by auto
  qed
qed

lemma owners_step_inv:
  assumes inv: "mm_inv B (current S) S" and st: "owners_step B S B' T"
  shows "mm_inv B' (current T) T"
proof -
  have c: "current T = current S" "prev_mm T = None" using st inv by (simp_all add: owners_step_def mm_inv_def)
  have a: "active_mm T p = (case task_mm T p of Some m \<Rightarrow> Some m | None \<Rightarrow> if p = current S then active_mm S p else None)" for p
    using st unfolding owners_step_def by blast
  have b: "0 < B' m" if "task_mm T p = Some m" for p m using st that unfolding owners_step_def by blast
  have "mm_count S m = of_nat (mm_refs B (current S) S m)" for m using inv by (simp add: mm_inv_def)
  then have n: "B' m < 2 ^ 32 - 1" "mm_count T m = of_nat (mm_refs B' (current S) T m)" for m
    using st unfolding owners_step_def by (metis add.commute add_right_cancel)+
  have "active_mm S (current S) \<noteq> None" using inv by (simp add: mm_inv_def)
  then show ?thesis using b n by (simp add: mm_inv_def c a split: option.split)
qed

lemma switch_reachable_inv:
  assumes "switch_reachable K B0 S0 B S" and "mm_inv B0 (current S0) S0"
  shows "mm_inv B (current S) S"
  using assms by (induction rule: switch_reachable.induct) (blast intro: schedule_switch_inv owners_step_inv)+

text \<open>Before the boot thread borrows it, \<^verbatim>\<open>init_mm\<close> has its static reference; no other address space exists.\<close>

definition boot_mm :: "ptr \<Rightarrow> switch_state \<Rightarrow> bool" where
  "boot_mm m S \<longleftrightarrow> prev_mm S = None \<and> (\<forall>p. task_mm S p = None) \<and>
     (\<forall>p. active_mm S p = (if p = current S then Some m else None)) \<and> mm_count S = (\<lambda>_. 0)(m := 1)"

lemma boot_mm_inv:
  assumes "boot_mm m S"
  shows "mm_inv ((\<lambda>_. 0)(m := 1)) (current S) (boot_lazy_mm m S)"
  using assms by (simp add: mm_inv_def boot_mm_def boot_lazy_mm_def mm_refs_def borrows_def)

section \<open>The end of a task\<close>

text \<open>Named hypothesis: taking a task off a queue or the CPU and picking the next one change no task's state or flags.\<close>

abbreviation same_states :: "kstate \<Rightarrow> kstate \<Rightarrow> bool" where
  "same_states s t \<equiv> \<forall>x. tstate (tasks t x) = tstate (tasks s x) \<and> tflags (tasks t x) = tflags (tasks s x)"

definition ext_out_ok :: "kenv \<Rightarrow> bool" where
  "ext_out_ok K \<longleftrightarrow> (\<forall>c \<in> ext_classes. (\<forall>p f s. same_states s (ec_dequeue_task (ext_class_of K c) p f s)) \<and>
     (\<forall>p s. same_states s (ec_put_prev_task (ext_class_of K c) p s)) \<and>
     (\<forall>s. same_states s (snd (ec_pick_next_task (ext_class_of K c) s))))"

lemma update_rq_clock_states: "same_states s (update_rq_clock K s)"
  by (simp add: update_rq_clock_def update_rq_clock_task_def Let_def)

lemma update_curr_wrr_flags [simp]: "tflags (tasks (update_curr_wrr K s) x) = tflags (tasks s x)"
  by (simp add: update_curr_wrr_def Let_def upd_se_def)

lemma class_dequeue_states:
  assumes K: "kenv_ok K" "ext_out_ok K" and s: "sched_but None s" and on: "class_of s p = rt_sched_class \<Longrightarrow> on_rq (tasks s p)"
    and t: "class_dequeue_task K (class_of s p) p f s = Some t"
  shows "same_states s t"
proof -
  consider "class_of s p = rt_sched_class" | "class_of s p = wrr_sched_class" | "class_of s p \<in> ext_classes"
    by (cases "class_of s p") auto
  then show ?thesis
  proof cases
    case 1
    have "p \<noteq> 0" "group_rt_rq s p = None" "rt_ok s" using s 1 by (auto simp: sched_but_def rt_valid_def)
    then show ?thesis
      using dequeue_task_rt_ok [OF kenv_okD(1) [OF K(1)], of s p f] t 1 by (auto simp: class_dequeue_task_def task_core_def)
  next
    case 2
    then show ?thesis using t
      by (auto simp: class_dequeue_task_def dequeue_task_wrr_def dequeue_wrr_entity_def Let_def dec_nr_running_def)
  next
    case 3
    then show ?thesis using t K(2) by (auto simp: class_dequeue_task_def ext_out_ok_def)
  qed
qed

lemma deactivate_task_states:
  assumes K: "kenv_ok K" "ext_out_ok K" and s: "sched_but None s" and on: "class_of s p = rt_sched_class \<Longrightarrow> on_rq (tasks s p)"
    and t: "deactivate_task K p f s = Some t"
  shows "same_states s t"
proof -
  define s1 where "s1 = (if task_contributes_to_load (tasks s p)
      then s\<lparr>rq := (rq s)\<lparr>nr_uninterruptible := nr_uninterruptible (rq s) + 1\<rparr>\<rparr> else s)"
  define s2 where "s2 = emit (SchedInfoDequeued p) (update_rq_clock K s1)"
  have k1: "ext_keep s s1" by (simp add: s1_def)
  have k2: "ext_keep s s2"
    unfolding s2_def by (rule ext_keep_trans [OF ext_keep_trans [OF k1 ext_keep_upds(1)] ext_keep_upds(2)])
  have "class_dequeue_task K (class_of s2 p) p f s2 = Some t"
    using t by (simp add: deactivate_task_def dequeue_task_def s1_def s2_def Let_def)
  moreover have "class_of s2 p = rt_sched_class \<Longrightarrow> on_rq (tasks s2 p)" using on ext_keepD(6,7) [OF k2] by simp
  ultimately have "same_states s2 t" using class_dequeue_states [OF K sched_but_keep [OF k2 s]] by blast
  moreover have "same_states s s2" using update_rq_clock_states [of K s1] by (simp add: s2_def) (simp add: s1_def)
  ultimately show ?thesis by simp
qed

lemma put_prev_task_states:
  assumes K: "kenv_ok K" "ext_out_ok K" and b: "sched_but b s" and t: "put_prev_task K p s = Some t"
  shows "same_states s t"
proof -
  define s1 where "s1 = (if on_rq (tasks s p) \<or> skip_clock_update (rq s) < 0 then update_rq_clock K s else s)"
  have k: "ext_keep s s1" "same_states s s1" using update_rq_clock_states by (simp_all add: s1_def)
  have p: "class_put_prev_task K (class_of s1 p) p s1 = Some t" using t by (simp add: put_prev_task_def s1_def Let_def)
  consider "class_of s1 p = rt_sched_class" | "class_of s1 p = wrr_sched_class" | "class_of s1 p \<in> ext_classes"
    by (cases "class_of s1 p") auto
  then have "same_states s1 t"
  proof cases
    case 1
    have "rt_ok s1" using sched_but_keep [OF k(1) b] by (simp add: sched_but_def)
    then show ?thesis using update_curr_rt_ok [OF kenv_okD(1) [OF K(1)]] p 1
      by (fastforce simp: class_put_prev_task_def put_prev_task_rt_def rt_kept_def task_core_def)
  next
    case 2
    then show ?thesis using p by (auto simp: class_put_prev_task_def put_prev_task_wrr_def)
  next
    case 3
    then show ?thesis using p K(2) by (auto simp: class_put_prev_task_def ext_out_ok_def)
  qed
  then show ?thesis using k(2) by simp
qed

lemma class_pick_states:
  assumes K: "ext_out_ok K" and t: "class_pick_next_task K c s = Some (r, t)"
  shows "same_states s t"
proof -
  consider "pick_next_task_rt K s = Some (r, t)" | "pick_next_task_wrr s = Some (r, t)"
    | "c \<in> ext_classes" "t = snd (ec_pick_next_task (ext_class_of K c) s)"
    using t by (cases c) (auto simp: class_pick_next_task_def)
  then show ?thesis
  proof cases
    case 1
    then show ?thesis by (auto simp: pick_next_task_rt_def Let_def upd_se_def split: if_splits bind_splits)
  next
    case 2
    then show ?thesis by (auto simp: pick_next_task_wrr_def upd_se_def split: if_splits list.splits)
  next
    case 3
    then show ?thesis using K unfolding ext_out_ok_def by blast
  qed
qed

lemma pick_class_loop_states:
  assumes "ext_out_ok K"
  shows "pick_class_loop K' c s = Some r \<Longrightarrow> K' = K \<longrightarrow> same_states s (snd r)"
proof (induct rule: pick_class_loop.raw_induct [rotated, consumes 1, case_names step])
  case (step loop K' c s r)
  show ?case
  proof
    assume K': "K' = K"
    obtain p t where t: "class_pick_next_task K c s = Some (p, t)" using step(2) K' by (cases "class_pick_next_task K c s") auto
    note st = class_pick_states [OF assms t]
    show "same_states s (snd r)"
    proof (cases p)
      case None
      then obtain d where "class_next K c = Some d" "loop K d t = Some r"
        using step(2) K' t by (auto split: option.splits)
      then show ?thesis using step(1) st by fastforce
    next
      case (Some q)
      then show ?thesis using step(2) K' t st by auto
    qed
  qed
qed

lemma pick_next_task_states:
  assumes K: "ext_out_ok K" and t: "pick_next_task K s = Some (p, t)"
  shows "same_states s t"
proof -
  obtain r u where u: "ec_pick_next_task (ext_class_of K fair_sched_class) s = (r, u)" by fastforce
  have "same_states s (snd (ec_pick_next_task (ext_class_of K fair_sched_class) s))" using K unfolding ext_out_ok_def by blast
  then have "same_states s u" by (simp add: u)
  then show ?thesis
    using t u pick_class_loop_states [OF K] by (cases r) (fastforce simp: pick_next_task_def split: if_splits)+
qed

text \<open>
  \<open>c\<close> has done its last work in \<^verbatim>\<open>do_exit\<close>: it is dead, it is not about to be preempted, and it
  is neither a kernel worker nor the idle task.
\<close>

definition exiting :: "kenv \<Rightarrow> kstate \<Rightarrow> bool" where
  "exiting K s \<longleftrightarrow> (let c = curr (rq s); s1 = schedule_debug s in
     tstate (tasks s c) = TASK_DEAD \<and> tflags (tasks s c) AND PF_WQ_WORKER = 0 \<and> class_of s c \<noteq> idle_sched_class \<and>
     \<not> preempt_active K s1)"

lemma picked_queued:
  assumes "sched_but None s" and "\<not> on_rq (tasks s p)" and "class_of s p \<noteq> idle_sched_class"
  shows "\<not> picked s p"
  using assms by (cases "class_of s p") (auto simp: picked_def sched_but_def)

lemma sched_out_dead:
  assumes K: "kenv_ok K" "ext_out_ok K" and s: "sched_ok s" and x: "exiting K s"
  shows "\<exists>t. sched_out K (curr (rq s)) (schedule_debug s) = Some (True, t) \<and> sched_but None t \<and> rt_links s t \<and>
    curr (rq t) = curr (rq s) \<and> same_params s t \<and> \<not> on_rq (tasks t (curr (rq s))) \<and> same_states s t"
proof -
  let ?s1 = "schedule_debug s" and ?c = "curr (rq s)"
  have k: "ext_keep s ?s1" by (rule ext_keep_upds)
  have s1: "sched_but None ?s1" "curr_ok ?s1" "curr (rq ?s1) = ?c" "same_states s ?s1"
    using sched_ok_keep [OF k s] k by (simp_all add: sched_ok_def ext_keep_def schedule_debug_def)
  have on: "class_of ?s1 ?c \<in> {rt_sched_class, wrr_sched_class} \<Longrightarrow> on_rq (tasks ?s1 ?c)"
    using s1(2,3) by (auto simp: curr_ok_def)
  obtain u where u: "deactivate_task K ?c DEQUEUE_SLEEP ?s1 = Some u" "rt_links ?s1 u" "curr (rq u) = ?c" "sched_but (Some ?c) u"
    "\<forall>x. core3 (tasks u x) = core3 (tasks ?s1 x)"
    using deactivate_task_ok [OF K(1) s1(1), of ?c DEQUEUE_SLEEP] on s1(3) by auto
  have st: "same_states s u" using deactivate_task_states [OF K s1(1) _ u(1)] on s1(4) by auto
  let ?t = "upd_task ?c (\<lambda>t. t\<lparr>on_rq := False\<rparr>) u"
  have "sched_out K ?c ?s1 = Some (True, ?t)"
    using x u(1) st s1(4) by (simp add: sched_out_def exiting_def Let_def) (simp add: TASK_DEAD_def)
  moreover have "sched_but None ?t" by (rule sched_but_set_off [OF u(4)])
  moreover have "same_params s u" using same_params_trans [OF same_params_keep [OF k] same_params_core3] u(5) by blast
  then have "same_params s ?t" by (simp add: same_params_def task_params_def)
  moreover have "rt_links s ?t" using rt_links_trans [OF rt_links_same [OF ext_keep_same [OF k]] u(2)] by (simp add: rt_links_def)
  ultimately show ?thesis using u(3) st by simp
qed

lemma schedule_pass_dead:
  assumes K: "kenv_ok K" "ext_out_ok K" and s: "sched_ok s" and root: "rt_root K s" and idl: "idle_in K s" and x: "exiting K s"
  shows "\<exists>t. schedule_pass K s = Some t \<and> sched_ok t \<and> curr (rq t) \<noteq> curr (rq s) \<and> \<not> on_rq (tasks t (curr (rq s))) \<and>
    same_states s t"
proof -
  let ?c = "curr (rq s)"
  obtain s2 where s2: "sched_out K ?c (schedule_debug s) = Some (True, s2)" "sched_but None s2" "rt_links s s2"
    "curr (rq s2) = ?c" "same_params s s2" "\<not> on_rq (tasks s2 ?c)" "same_states s s2"
    using sched_out_dead [OF K s x] by blast
  obtain s3 where s3: "put_prev_task K ?c s2 = Some s3" "sched_but None s3" "rt_links s2 s3" "curr (rq s3) = ?c"
    "\<forall>x. core3 (tasks s3 x) = core3 (tasks s2 x)"
    using put_prev_task_ok [OF K(1) s2(2), of ?c] s2(4) by auto
  have root3: "rt_root K s3" using rt_root_links [OF rt_links_trans [OF s2(3) s3(3)]] root by blast
  have cl: "class_of s3 y = class_of s y" for y
    using same_paramsD [OF same_params_trans [OF s2(5) same_params_core3]] s3(5) by simp
  have off: "\<not> on_rq (tasks s3 ?c)" using s2(6) s3(5) by (simp add: core3_def)
  obtain n s4 where s4: "pick_next_task K s3 = Some (n, s4)" "ext_keep s3 s4" "picked s3 n"
    using pick_next_task_ok [OF K(1) s3(2) root3] cl idl by auto
  have ne: "n \<noteq> ?c" using picked_queued [OF s3(2) off] cl x s4(3) by (auto simp: exiting_def Let_def)
  have "same_states s s4"
    using s2(7) put_prev_task_states [OF K s2(2) s3(1)] pick_next_task_states [OF K(2) s4(1)] by simp
  then have "same_states s (switch_to ?c True n s4)" by (simp add: switch_to_def Let_def)
  moreover have "schedule_pass K s = Some (switch_to ?c True n s4)" using s2(1) s3(1) s4(1) by (simp add: schedule_pass_def)
  moreover have "sched_ok (switch_to ?c True n s4)" using schedule_pass_ok [OF K(1) s root idl] calculation(2) by auto
  moreover have "\<not> on_rq (tasks (switch_to ?c True n s4) ?c)" using off s4(2) by (simp add: switch_to_simps ext_keepD(7))
  ultimately show ?thesis using ne by (simp add: switch_to_curr)
qed

section \<open>The main properties\<close>

definition sample_switch :: "kstate \<Rightarrow> switch_state" where
  "sample_switch s = \<lparr>sw_kernel = s, task_mm = (\<lambda>_. None), active_mm = (\<lambda>p. if p = 10 then Some 7 else None),
     mm_count = (\<lambda>_. 0)(7 := 1), prev_mm = None, task_usage = (\<lambda>_. 1), sw_log = []\<rparr>"

lemma sample_switch_boot: "curr (rq s) = 10 \<Longrightarrow> boot_mm 7 (sample_switch s)"
  by (simp add: boot_mm_def sample_switch_def)

lemma sample_ext_out_ok: "ext_out_ok sample_env"
  by (auto simp: ext_out_ok_def sample_env_def sample_class_def sample_fair_def dec_nr_running_def sample_idle_def)

text \<open>C18: However switches and the steps of fork, exec and exit alternate after boot, the counter of every address space is
  exactly the number of references to it, so one that a task uses is never at 0; a task without its own that is not
  running borrows none; and the next switch, to any task, succeeds and frees an address space exactly if the previous task
  borrowed it, the next task has its own, and no owner is left.\<close>

theorem mm_references_exact:
  assumes "boot_mm m0 S0" and "switch_reachable K ((\<lambda>_. 0)(m0 := 1)) (boot_lazy_mm m0 S0) B S"
  shows "(\<forall>m. unat (mm_count S m) = mm_refs B (current S) S m) \<and> (\<forall>p m. active_mm S p = Some m \<longrightarrow> 0 < mm_count S m) \<and>
    (\<forall>p. p \<noteq> current S \<and> task_mm S p = None \<longrightarrow> active_mm S p = None) \<and>
    (\<forall>n. n \<noteq> current S \<longrightarrow> (\<exists>T new. context_switch (current S) n S = Some T \<and> sw_log T = new @ sw_log S \<and>
       (\<forall>m. Mm_freed m \<in> set new \<longleftrightarrow> borrows (current S) S m \<and> task_mm S n \<noteq> None \<and> B m = 0)))"
proof -
  let ?c = "current S"
  have "current (boot_lazy_mm m0 S0) = current S0" by (simp add: boot_lazy_mm_def)
  then have inv: "mm_inv B ?c S" using switch_reachable_inv [OF assms(2)] boot_mm_inv [OF assms(1)] by simp
  have u: "unat (mm_count S m) = mm_refs B ?c S m" for m
  proof -
    have "mm_count S m = of_nat (mm_refs B ?c S m)" "B m < 2 ^ 32 - 1" using inv by (simp_all add: mm_inv_def)
    moreover from this(2) have "mm_refs B ?c S m < 2 ^ 32" by (simp add: mm_refs_def)
    ultimately show ?thesis by (simp add: unat_of_nat)
  qed
  have "0 < mm_refs B ?c S m" if "active_mm S p = Some m" for p m
    using inv that by (cases "task_mm S p"; cases "p = ?c") (auto simp: mm_inv_def mm_refs_def borrows_def)
  then have "0 < mm_count S m" if "active_mm S p = Some m" for p m using u [of m] that by (metis unat_gt_0 word_neq_0_conv)
  moreover have "active_mm S p = None" if "p \<noteq> ?c" "task_mm S p = None" for p using inv that by (simp add: mm_inv_def)
  moreover have "\<exists>T new. context_switch ?c n S = Some T \<and> sw_log T = new @ sw_log S \<and>
       (\<forall>m. Mm_freed m \<in> set new \<longleftrightarrow> borrows ?c S m \<and> task_mm S n \<noteq> None \<and> B m = 0)" if "n \<noteq> ?c" for n
    using context_switch_ok [OF inv that] by blast
  ultimately show ?thesis using u by blast
qed

theorem mm_references_exact_witness:
  "mm_count (boot_lazy_mm 7 (sample_switch (sample_sched0 True))) 7 = 2 \<and>
   (\<exists>T. context_switch 10 20 (boot_lazy_mm 7 (sample_switch (sample_sched0 True))) = Some T)"
proof -
  let ?S = "boot_lazy_mm 7 (sample_switch (sample_sched0 True))"
  have c: "curr (rq (sample_sched0 True)) = 10" by (simp add: sample_sched_task)
  then have cur: "current ?S = 10" by (simp add: boot_lazy_mm_def sample_switch_def)
  have "\<exists>T. context_switch (current ?S) n ?S = Some T" if "n \<noteq> current ?S" for n
    using mm_references_exact [OF sample_switch_boot [OF c] switch_reachable.start] that by blast
  from this [of 20] have "\<exists>T. context_switch 10 20 ?S = Some T" unfolding cur by simp
  then show ?thesis by (simp add: boot_lazy_mm_def sample_switch_def)
qed

text \<open>C19: A task that dies and calls \<^verbatim>\<open>schedule\<close> a last time leaves the CPU: \<^verbatim>\<open>__schedule\<close> returns with another task current,
  the dead one is on no queue and still dead, and exactly one reference of it is dropped, and of no other task; its memory is
  freed exactly if that was the last one. The references to address spaces stay exact.\<close>

theorem dead_task_reaped:
  assumes "kenv_ok K" and "ext_out_ok K" and "sched_ok (sw_kernel S)" and "rt_root K (sw_kernel S)" and "idle_in K (sw_kernel S)"
    and "exiting K (sw_kernel S)" and "mm_inv B (current S) S"
  shows "\<exists>T new. schedule_switch K S = Some T \<and> current T \<noteq> current S \<and> \<not> on_rq (tasks (sw_kernel T) (current S)) \<and>
    current S \<notin> set (wq (sw_kernel T)) \<and> \<not> rt_queued (sw_kernel T) (current S) \<and>
    tstate (tasks (sw_kernel T) (current S)) = TASK_DEAD \<and>
    task_usage T = (task_usage S)(current S := task_usage S (current S) - 1) \<and> sw_log T = new @ sw_log S \<and>
    (\<forall>t. Task_freed t \<in> set new \<longleftrightarrow> t = current S \<and> task_usage S (current S) = 1) \<and> mm_inv B (current T) T"
proof -
  let ?c = "current S"
  obtain t where t: "schedule_pass K (sw_kernel S) = Some t" "sched_ok t" "curr (rq t) \<noteq> ?c" "\<not> on_rq (tasks t ?c)"
    "same_states (sw_kernel S) t"
    using schedule_pass_dead [OF assms(1-6)] by blast
  have dead: "tstate (tasks t ?c) = TASK_DEAD" using t(5) assms(6) by (simp add: exiting_def Let_def)
  obtain T new where T: "context_switch ?c (curr (rq t)) (S\<lparr>sw_kernel := t\<rparr>) = Some T" "mm_inv B (curr (rq t)) T" "sw_kernel T = t"
    "task_usage T = (task_usage S)(?c := task_usage S ?c - 1)" "sw_log T = new @ sw_log S"
    "\<forall>x. Task_freed x \<in> set new \<longleftrightarrow> x = ?c \<and> task_usage S ?c = 1"
    using context_switch_ok [of B ?c "S\<lparr>sw_kernel := t\<rparr>" "curr (rq t)"] assms(7) t(3) dead by auto
  moreover have "schedule_switch K S = Some T" using t(1,3) T(1) by (simp add: schedule_switch_def Let_def)
  moreover have "?c \<notin> set (wq t)" "\<not> rt_queued t ?c" using t(2,4) by (simp_all add: sched_ok_def sched_but_def)
  ultimately show ?thesis using t(3,4) dead by auto
qed

theorem dead_task_reaped_witness:
  "\<exists>T. schedule_switch sample_env (boot_lazy_mm 7 (sample_switch (upd_task 10 (\<lambda>t. t\<lparr>tstate := TASK_DEAD\<rparr>) (sample_sched0 True)))) = Some T \<and>
     current T \<noteq> 10 \<and> task_usage T 10 = 0"
proof -
  let ?s = "upd_task 10 (\<lambda>t. t\<lparr>tstate := TASK_DEAD\<rparr>) (sample_sched0 True)"
  let ?S = "boot_lazy_mm 7 (sample_switch ?s)"
  have k: "ext_keep (sample_sched0 True) ?s" by (rule ext_keep_upds) (simp add: core3_def task_params_def)
  have c: "curr (rq ?s) = 10" "sw_kernel ?S = ?s" by (simp_all add: sample_sched_task boot_lazy_mm_def sample_switch_def)
  have s: "sched_ok (sw_kernel ?S)" "rt_root sample_env (sw_kernel ?S)" "idle_in sample_env (sw_kernel ?S)"
    using sched_ok_keep [OF k sample_sched_ok(1)] sample_sched_ok(2) [of True] rt_root_keep [OF k] ext_keepD(6) [OF k]
    by (simp_all add: boot_ok_def c)
  have "exiting sample_env (sw_kernel ?S)"
    by (simp add: exiting_def Let_def c) (simp add: sample_sched_task sample_tasks_def sample_task_def sample_env_def)
  moreover have "mm_inv ((\<lambda>_. 0)(7 := 1)) (current ?S) ?S" using boot_mm_inv [OF sample_switch_boot [OF c(1)]] c
    by (simp add: sample_switch_def)
  ultimately show ?thesis
    using dead_task_reaped [OF sample_kenv_ok sample_ext_out_ok s] c by (fastforce simp: boot_lazy_mm_def sample_switch_def)
qed

end
