(* ===== verification/Spec2Isabelle.thy ===== *)
theory Spec2Isabelle
  imports Load_Props Group_Props Bench_Props Waiting_Props Cputime_Props Lifecycle Affinity_Props Switch_Props
begin

text \<open>
  A verification development for the process scheduler of an Android kernel (Linux 3.4) with an additional scheduling
  class, weighted round-robin, and for the programs that test and measure it. The code lies under \<^verbatim>\<open>src/\<close>:
  \<^verbatim>\<open>basic/kernel/sched/wrr.c\<close> (the new class), \<^verbatim>\<open>rt.c\<close> (the real-time class), \<^verbatim>\<open>core.c\<close> (everything that drives the
  classes), \<^verbatim>\<open>sched.h\<close> and \<^verbatim>\<open>basic/kernel/linux/sched.h\<close> (data), \<^verbatim>\<open>basic/test_basic\<close> and \<^verbatim>\<open>bonus\<close> (user programs).

  The program. A CPU has one run queue (\<^verbatim>\<open>struct rq\<close>), which holds a queue per class. \<^verbatim>\<open>core.c\<close> calls the classes through
  their operation tables: a wakeup or \<^verbatim>\<open>wake_up_new_task\<close> enqueues a task and may mark the current one for rescheduling, the
  tick charges run time and time slices, and \<^verbatim>\<open>__schedule\<close> takes a sleeping task off its queue and picks the next
  one from the first class, in the order stop, real-time, weighted round-robin, fair, idle, that has any.
  \<^verbatim>\<open>sched_setscheduler\<close>, \<^verbatim>\<open>set_user_nice\<close> and priority inheritance move tasks between classes; control groups bound the
  run time of real-time tasks and, in \<^verbatim>\<open>wrr.c\<close>, choose the time slice.

  The configuration is that of the emulator image the repository builds: one CPU (no \<^verbatim>\<open>CONFIG_SMP\<close>), \<^verbatim>\<open>CONFIG_CGROUP_SCHED\<close>,
  \<^verbatim>\<open>CONFIG_RT_GROUP_SCHED\<close>, \<^verbatim>\<open>CONFIG_CGROUP_CPUACCT\<close>, \<^verbatim>\<open>CONFIG_SCHEDSTATS\<close>, \<^verbatim>\<open>CONFIG_NO_HZ\<close>, \<^verbatim>\<open>CONFIG_PREEMPT\<close>, \<^verbatim>\<open>CONFIG_MAGIC_SYSRQ\<close>,
  \<^verbatim>\<open>CONFIG_RT_MUTEXES\<close>; 32-bit ARM.
\<close>

section \<open>The theories\<close>

text \<open>
  Definitions have the names of the C functions; a leading \<^verbatim>\<open>__\<close> becomes a final \<open>1\<close> or is dropped (\<open>sched_fork1\<close> is
  \<^verbatim>\<open>__sched_fork\<close>), a macro keeps its name. A part of a function that is defined on its own is named after what it does.

  \<^item> \<open>Prelude\<close>: machine integers, pointers, the interface of the kernel lists, generic lemmas. \<open>Run_Queue\<close>: the contract of a
    first-in first-out queue (locale \<open>run_queue\<close>) and round robin over it. \<open>Sched_Types\<close>: the structures and constants of
    the two headers, the state \<open>kstate\<close>, the environment \<open>kenv\<close>. \<open>Sample\<close>: a concrete system for the witnesses.
  \<^item> \<open>Wrr\<close>: \<^verbatim>\<open>wrr.c\<close> with the invariant of its queue; slices, rotation, accounting. It interprets \<open>run_queue\<close> (\<open>wrrq\<close>).
  \<^item> \<open>Rt_Queue\<close>: the priority array and counters of one \<^verbatim>\<open>struct rt_rq\<close>; each level interprets \<open>run_queue\<close> (\<open>rtlev\<close>).
    \<open>Rt\<close>: the operations of \<^verbatim>\<open>rt.c\<close> on the hierarchy of groups. \<open>Rt_Inv\<close>: the invariant \<open>rt_ok\<close> through
    charging, throttling and unthrottling. \<open>Rt_Props\<close>: picking, ticks, reachable states.
  \<^item> \<open>Core\<close>: dispatch to the classes, clock, load weights, wakeup, fork, tick, \<^verbatim>\<open>__schedule\<close>. \<open>Core_Inv\<close>: the invariant
    \<open>sched_ok\<close> (each queue holds exactly the runnable tasks of its class) and what each class owes the core (locale
    \<open>class_queue\<close>, interpreted for both classes as \<open>rtc\<close> and \<open>wrrc\<close>). \<open>Core_Steps\<close>: every operation returns
    and keeps it; the order of the classes. \<open>Core_Props\<close>: its properties.
  \<^item> \<open>Switch\<close>, \<open>Switch_Props\<close>: \<^verbatim>\<open>context_switch\<close>, \<^verbatim>\<open>finish_task_switch\<close>, \<^verbatim>\<open>schedule_tail\<close>: borrowed address spaces and
    the end of dead tasks.
  \<^item> \<open>Params\<close>: priorities, nice values, \<^verbatim>\<open>__sched_setscheduler\<close> in its two phases, the system calls. \<open>Params_Inv\<close>: the locale
    \<open>task_change\<close> for a change of a task between dequeueing and enqueueing it, interpreted for priority inheritance
    (\<open>prioc\<close>), nice values (\<open>nicec\<close>) and policies (\<open>schedc\<close>). \<open>Params_Props\<close>, \<open>Params_Calls\<close>: the calls.
  \<^item> \<open>Load\<close>, \<open>Load_Props\<close>: load averages. \<open>Cputime\<close>, \<open>Cputime_Props\<close>: accounting of CPU time, \<^verbatim>\<open>cpuacct\<close>.
  \<^item> \<open>Task_Groups\<close>: the tree of groups, its walk, real-time bandwidth, the control group files. \<open>Group_Walk\<close>: the walk
    implements a recursion over trees. \<open>Group_Props\<close>: admission control. \<open>Group_Links\<close>: linking tasks to
    groups (\<^verbatim>\<open>sched_move_task\<close>, \<^verbatim>\<open>sched_fork\<close>, new groups) keeps the invariant.
  \<^item> \<open>Boot\<close>: \<^verbatim>\<open>sched_init\<close> and the idle task. \<open>Lifecycle\<close>: from boot on, all of the above in one step relation.
  \<^item> \<open>Waiting\<close>, \<open>Waiting_Props\<close>: wait queues and completions over any wakeup function (locale \<open>waker\<close>, interpreted for
    \<^verbatim>\<open>try_to_wake_up\<close> as \<open>ttwu\<close>), preemption. \<open>Affinity\<close>, \<open>Affinity_Props\<close>: CPU masks, \<^verbatim>\<open>cond_resched\<close>, \<^verbatim>\<open>yield_to\<close>, I/O.
  \<^item> \<open>Bench\<close>, \<open>Bench_Props\<close>: the test program, the three benchmarks and their driver.
\<close>

section \<open>State and effects\<close>

text \<open>
  \<open>kstate\<close> is the memory the scheduler works on: the tasks, the run queue, and per address the real-time queues
  (\<open>rt_rqs\<close>, named by their group), entities (\<open>rt_ents\<close>; a task's entity has the address of the task) and groups (\<open>tgs\<close>), the
  limits, and a trace of calls without effect on this state. Operations map states to states. \<open>None\<close> stands for what C leaves open or does not survive:
  a NULL pointer that is dereferenced, \<^verbatim>\<open>BUG()\<close>, or a loop that does not end (\<open>partial_function\<close>); the theorems prove \<open>Some\<close>
  where the code returns. Error codes are negative \<open>int\<close>s as in the source. Integers whose wrap-around matters have their
  width: 32 bits for \<^verbatim>\<open>unsigned int\<close>, \<^verbatim>\<open>unsigned long\<close> and the counters, 64 for \<^verbatim>\<open>u64\<close>; priorities, flags and policies
  are \<open>int\<close>s. A list with a head is the sequence of its entries.

  Operations are atomic: on one CPU the run queue lock is a section with interrupts off. Where the code gives up the
  lock between two parts, the parts are separate steps that interleave with all others: the check and the locked phase of
  \<^verbatim>\<open>__sched_setscheduler\<close>, and a wait cut at \<^verbatim>\<open>schedule_timeout\<close>. No fuel is used.
\<close>

section \<open>Code outside the repository\<close>

text \<open>
  What the source calls but the repository does not contain is an argument: a field of \<open>kenv\<close> or of the records \<open>boot_env\<close>,
  \<open>mask_env\<close>, \<open>wait_ops\<close>, \<open>file_ops\<close>. The named hypotheses state its documented behaviour, and \<open>Sample\<close> and the witnesses
  give instances that meet them.

  \<^item> \<open>list_ops_ok\<close>, \<open>bit_ops_ok\<close> (both in \<open>rt_env\<close>): \<^verbatim>\<open>linux/list.h\<close> and the bitmaps do what they say.
  \<^item> \<open>ext_ok\<close>: the stop, fair and idle classes work on queues of their own, pick only runnable tasks of their class, are
    linked in the order above, and the idle class always has a task. \<open>kenv_ok\<close> is this with \<open>rt_env\<close>. \<open>ext_state_ok\<close>,
    \<open>ext_out_ok\<close>: they leave the state of tasks alone.
  \<^item> \<open>pi_env\<close>: the priority of a boosted task is in range. \<open>move_env\<close>, \<open>fair_env\<close>, \<open>group_env_ok\<close>: the fair class's share of
    creating, moving and freeing groups touches only its data, and the RCU lists work.
  \<^item> \<open>boot_memory\<close>, \<open>boot_env_ok\<close>: static memory is blank and the allocations of \<^verbatim>\<open>sched_init\<close> succeed. \<open>unused_memory\<close>,
    \<open>forked\<close>: allocation hands out memory nothing refers to; a child starts as a copy of its parent.
  \<^item> \<open>owners_step\<close>: fork, exec and exit count their references to address spaces.
  \<^item> \<open>timeout_law\<close>: \<^verbatim>\<open>schedule_timeout\<close> returns the time left. \<open>wait_ops_ok\<close> (\<^verbatim>\<open>linux/wait.h\<close>), \<open>mask_ops_ok\<close> (\<^verbatim>\<open>linux/cpumask.h\<close>), \<open>regular_files\<close> (a file reads what it holds).
\<close>

section \<open>What is shown\<close>

text \<open>
  \<^item> From boot on, whatever happens in whatever order, the queues hold exactly the runnable tasks of
    their classes, scheduling, changes of parameters and operations on groups return (\<open>life_ops_return\<close> lists them; bandwidth
    requests under the invariant of the tree of groups), and the parameters of every task are in range (\<open>Lifecycle\<close>).
  \<^item> The weighted round-robin class keeps its queue and counters consistent, serves its tasks in turn for exactly a slice,
    and switches when its task expires, sleeps or yields (\<open>Wrr\<close>, \<open>Core_Props\<close>, \<open>Params_Calls\<close>); its slices
    wrap when nothing sets them, and its children leave the class (\<open>Bench_Props\<close>).
  \<^item> The real-time class picks a runnable task of the highest priority through all levels of groups; a group that exceeds
    its run time is throttled with its tasks and comes back with the next period (\<open>Rt_Props\<close>).
  \<^item> Classes are served and preempt in their order; wakeups queue; a dead task leaves for good and is released once;
    address spaces are freed at their last use (\<open>Core_Props\<close>, \<open>Switch_Props\<close>).
  \<^item> \<^verbatim>\<open>sched_setscheduler\<close> returns, sets class and priority, queues the task there, is read back, and refuses unprivileged
    callers.
  \<^item> Admission control decides as without wrap-around and keeps the tree of groups schedulable; the iterative walk is the
    recursive one.
  \<^item> Load averages count every task once and converge; the counters of CPU time are the histogram of the ticks; process times
    are monotone.
  \<^item> \<^verbatim>\<open>__wake_up\<close> wakes exactly the right tasks, completions lose no wakeup, a wait ends exactly at the first sleep that
    gives it a reason; \<^verbatim>\<open>sched_setaffinity\<close> ends and reports the right error; \<^verbatim>\<open>cond_resched\<close> never puts its caller to sleep.
  \<^item> What the benchmark driver prints, the benchmarks parse back; the kernel accepts what they ask; the copy loop
    returns exactly unless the block size is 0, for sizes whose sum does not overflow.
\<close>

section \<open>Not modelled\<close>

text \<open>
  \<^item> Code compiled only with \<^verbatim>\<open>CONFIG_SMP\<close>: migration, load balancing, scheduling domains and CPU hotplug in \<^verbatim>\<open>core.c\<close> (about
    2,500 lines), push and pull in \<^verbatim>\<open>rt.c\<close>, the empty hooks of \<^verbatim>\<open>wrr.c\<close>. With one CPU none of it exists.
  \<^item> Other code the configuration leaves out: CFS bandwidth, virtual and interrupt time accounting, preemption notifiers, the high-resolution
    tick (\<^verbatim>\<open>CONFIG_SCHED_HRTICK\<close>; its feature is off), spinning mutexes, debug checks of the preemption counter.
  \<^item> Pure output: \<^verbatim>\<open>sched_show_task\<close>, \<^verbatim>\<open>__schedule_bug\<close>, \<^verbatim>\<open>__might_sleep\<close>, the switches of \<^verbatim>\<open>sched_features\<close> in debugfs, the
    statistics printed by \<^verbatim>\<open>print_rt_stats\<close>, tracing, progress messages of the user programs.
  \<^item> Locks and memory barriers as such, performance events, probes, register state; the shares of groups, which only the
    fair class (\<^verbatim>\<open>fair.c\<close>, not in the repository) interprets.
  \<^item> Most of \<^verbatim>\<open>linux/sched.h\<close>: signals, memory management, process identifiers, and prototypes of other subsystems.
\<close>

end
